(* ===== verification/Prelude.thy ===== *)
theory Prelude
  imports Main "HOL-Library.Word" "HOL-Library.Monad_Syntax"
begin

text \<open>
  Shared vocabulary of the development: the machine integers of the Rust sources, the two
  ways a Rust function can fail, and the generic facts about rounding up, slicing and
  association lists that the component theories use.

  \<^item> A fixed-width integer (\<^verbatim>\<open>u32\<close>, \<^verbatim>\<open>u64\<close>, \<^verbatim>\<open>i64\<close>) is a word; \<open>+\<close>, \<open>-\<close> and \<open>*\<close> wrap, as
    release builds do. \<^verbatim>\<open>usize\<close> counts and indices are \<open>nat\<close>.
  \<^item> A panic (a failed \<^verbatim>\<open>assert!\<close>, an index out of range, \<^verbatim>\<open>unwrap\<close> of nothing) is \<open>None\<close> of an
    \<open>option\<close>; a returned \<^verbatim>\<open>Err(e)\<close> is \<open>Inl e\<close> of a sum.
\<close>

section \<open>Machine integers\<close>

type_synonym u8 = "8 word"
type_synonym u16 = "16 word"
type_synonym u32 = "32 word"
type_synonym u64 = "64 word"
type_synonym i64 = "64 word"
type_synonym usize = nat

named_theorems shard_simps \<open>rounding and sharding arithmetic\<close>
named_theorems cell_simps \<open>shared atomic cells\<close>
named_theorems group_simps \<open>unfolding rules of the domain group\<close>

lemma ucast_of_nat_u32 [cell_simps]:
  "n < 2 ^ 32 \<Longrightarrow> (ucast (of_nat n :: i64) :: u32) = of_nat n"
  by (simp add: unsigned_of_nat take_bit_nat_eq_self word_eq_iff_unsigned)

lemma sint_of_nat_i64 [cell_simps]: "n < 2 ^ 63 \<Longrightarrow> sint (of_nat n :: i64) = int n"
  by (simp add: signed_of_nat signed_take_bit_int_eq_self)

lemma sint_of_int_i64 [cell_simps]:
  "- (2 ^ 63) \<le> n \<Longrightarrow> n < 2 ^ 63 \<Longrightarrow> sint (of_int n :: i64) = n"
  by (simp add: signed_of_int signed_take_bit_int_eq_self)

section \<open>Rounding up\<close>

text \<open>\<^verbatim>\<open>usize::div_ceil\<close> of the standard library. A zero divisor panics in Rust; callers rule it out.\<close>

definition div_ceil :: "nat \<Rightarrow> nat \<Rightarrow> nat" where
  "div_ceil n k = (n + k - 1) div k"

lemma div_ceil_0 [simp, shard_simps]: "div_ceil 0 k = 0"
  by (cases k) (auto simp: div_ceil_def)

lemma div_ceil_ge [shard_simps]: "0 < k \<Longrightarrow> n \<le> k * div_ceil n k"
proof -
  assume k: "0 < k"
  have "n + k - 1 = k * ((n + k - 1) div k) + (n + k - 1) mod k" by simp
  moreover have "(n + k - 1) mod k < k" using k by simp
  ultimately show ?thesis using k unfolding div_ceil_def by linarith
qed

lemma div_ceil_le_iff: "0 < k \<Longrightarrow> div_ceil n k \<le> m \<longleftrightarrow> n \<le> m * k"
proof -
  assume k: "0 < k"
  have "div_ceil n k \<le> m \<longleftrightarrow> (n + k - 1) div k < Suc m" by (auto simp: div_ceil_def)
  also have "\<dots> \<longleftrightarrow> n + k - 1 < Suc m * k" using k by (simp add: div_less_iff_less_mult)
  also have "\<dots> \<longleftrightarrow> n \<le> m * k" using k by auto
  finally show ?thesis .
qed

lemma div_ceil_pos: "0 < k \<Longrightarrow> 0 < n \<Longrightarrow> 0 < div_ceil n k"
  by (metis div_ceil_ge gr0I mult_0_right not_le)

lemma div_ceil_le: "0 < k \<Longrightarrow> div_ceil n k \<le> n"
  by (simp add: div_ceil_le_iff)

lemma upt_split: "a \<le> b \<Longrightarrow> b \<le> c \<Longrightarrow> [a..<c] = [a..<b] @ [b..<c]" for a b c :: nat
  by (metis le_add_diff_inverse upt_add_eq_append)

section \<open>Slices\<close>

text \<open>\<^verbatim>\<open>slice::chunks\<close>: \<open>None\<close> is the panic on a zero chunk size.\<close>

fun chunks_aux :: "nat \<Rightarrow> 'a list \<Rightarrow> 'a list list" where
  "chunks_aux k [] = []"
| "chunks_aux k (x # xs) =
     (if k = 0 then [] else take k (x # xs) # chunks_aux k (drop k (x # xs)))"

definition chunks :: "nat \<Rightarrow> 'a list \<Rightarrow> 'a list list option" where
  "chunks k xs = (if k = 0 then None else Some (chunks_aux k xs))"

lemma chunks_aux_concat: "0 < k \<Longrightarrow> concat (chunks_aux k xs) = xs"
  by (induction k xs rule: chunks_aux.induct) auto

lemma chunks_aux_length: "0 < k \<Longrightarrow> length (chunks_aux k xs) = div_ceil (length xs) k"
proof (induction k xs rule: chunks_aux.induct)
  case (2 k x xs)
  let ?n = "length (x # xs)"
  have "length (chunks_aux k (x # xs)) = Suc (div_ceil (?n - k) k)"
    using 2 by simp
  also have "\<dots> = div_ceil ?n k"
  proof (cases "?n \<le> k")
    case True
    then have "div_ceil ?n k \<le> 1" using 2(2) by (simp add: div_ceil_le_iff)
    moreover have "0 < div_ceil ?n k" using 2(2) by (rule div_ceil_pos) simp
    ultimately show ?thesis using True by simp
  next
    case False
    then have "(?n + k - 1) div k = ((?n - k + k - 1) + k) div k" using 2(2) by simp
    also have "\<dots> = Suc ((?n - k + k - 1) div k)" using 2(2) by (simp only: div_add_self2)
    finally show ?thesis by (simp only: div_ceil_def)
  qed
  finally show ?case .
qed simp

section \<open>Results\<close>

text \<open>The \<^verbatim>\<open>?\<close> operator on a result threaded with a state: an error leaves with the state reached so far.\<close>

definition try_res :: "('e + 'a) \<Rightarrow> ('e \<Rightarrow> 'b) \<Rightarrow> ('a \<Rightarrow> 'b) \<Rightarrow> 'b" where
  "try_res r on_err on_ok = (case r of Inl e \<Rightarrow> on_err e | Inr x \<Rightarrow> on_ok x)"

lemma try_res_simps [simp]:
  "try_res (Inl e) f g = f e"
  "try_res (Inr x) f g = g x"
  by (simp_all add: try_res_def)

text \<open>Indexing with the bounds check of a Rust slice.\<close>

definition index :: "'a list \<Rightarrow> nat \<Rightarrow> 'a option" where
  "index xs i = (if i < length xs then Some (xs ! i) else None)"

lemma index_nth [simp]: "i < length xs \<Longrightarrow> index xs i = Some (xs ! i)"
  by (simp add: index_def)

lemma index_Some_iff: "index xs i = Some x \<longleftrightarrow> i < length xs \<and> xs ! i = x"
  by (auto simp: index_def)

lemma index_None_iff [simp]: "index xs i = None \<longleftrightarrow> length xs \<le> i"
  by (auto simp: index_def)

section \<open>Vectors\<close>

text \<open>\<^verbatim>\<open>Vec::pop\<close> takes the last element; \<^verbatim>\<open>push\<close> appends one.\<close>

definition vec_pop :: "'a list \<Rightarrow> ('a \<times> 'a list) option" where
  "vec_pop xs = (if xs = [] then None else Some (last xs, butlast xs))"

lemma vec_pop_None_iff [simp]: "vec_pop xs = None \<longleftrightarrow> xs = []"
  by (simp add: vec_pop_def)

lemma vec_pop_snoc [simp]: "vec_pop (xs @ [x]) = Some (x, xs)"
  by (simp add: vec_pop_def)

lemma vec_pop_Some_iff [simp]: "vec_pop xs = Some (x, ys) \<longleftrightarrow> xs = ys @ [x]"
  by (auto simp: vec_pop_def)

section \<open>Loops that may panic\<close>

text \<open>A \<^verbatim>\<open>for\<close> loop over a list whose body updates a state or panics.\<close>

fun foldM :: "('a \<Rightarrow> 's \<Rightarrow> 's option) \<Rightarrow> 'a list \<Rightarrow> 's \<Rightarrow> 's option" where
  "foldM f [] s = Some s"
| "foldM f (x # xs) s = f x s \<bind> foldM f xs"

lemma foldM_append: "foldM f (xs @ ys) s = foldM f xs s \<bind> foldM f ys"
  by (induction xs arbitrary: s) (auto split: Option.bind_splits)

lemma foldM_map: "foldM f (map g xs) s = foldM (\<lambda>x. f (g x)) xs s"
  by (induction xs arbitrary: s) (auto split: Option.bind_splits)

lemma foldM_invariant:
  "foldM f xs s = Some s' \<Longrightarrow> P s \<Longrightarrow>
   (\<And>x t t'. x \<in> set xs \<Longrightarrow> P t \<Longrightarrow> f x t = Some t' \<Longrightarrow> P t') \<Longrightarrow> P s'"
proof (induction xs arbitrary: s)
  case (Cons x xs)
  then obtain t where "f x s = Some t" "foldM f xs t = Some s'" by (auto split: Option.bind_splits)
  then show ?case using Cons by (metis list.set_intros)
qed simp

text \<open>Applying a fallible update to one element of an array.\<close>

definition update_at :: "nat \<Rightarrow> ('a \<Rightarrow> 'a option) \<Rightarrow> 'a list \<Rightarrow> 'a list option" where
  "update_at i f xs = do { x \<leftarrow> index xs i; y \<leftarrow> f x; Some (xs[i := y]) }"

lemma update_at_length: "update_at i f xs = Some ys \<Longrightarrow> length ys = length xs"
  by (auto simp: update_at_def split: Option.bind_splits)

lemma update_at_other: "update_at i f xs = Some ys \<Longrightarrow> j \<noteq> i \<Longrightarrow> ys ! j = xs ! j"
  by (auto simp: update_at_def split: Option.bind_splits)

end
