(* ===== verification/Sharding.thy ===== *)
theory Sharding
  imports Prelude
begin

text \<open>
  The sharding helpers at the end of \<^verbatim>\<open>fabric-lib/src/domain_group.rs\<close>: how pages, scatter
  targets and bytes are divided among the network domains of a group. Each \<^verbatim>\<open>for\<close> loop is a
  recursion over the iterations left; the loop variables are its arguments.
\<close>

section \<open>Dividing a range of items\<close>

fun divide_evenly_loop :: "nat \<Rightarrow> nat \<Rightarrow> nat \<Rightarrow> nat \<Rightarrow> (nat \<times> nat) list \<times> nat" where
  "divide_evenly_loop 0 step remainder beg = ([], remainder)"
| "divide_evenly_loop (Suc i) step remainder beg =
     (let chunk = min remainder step in
      if chunk = 0 then ([], remainder)
      else let (rest, r) = divide_evenly_loop i step (remainder - chunk) (beg + chunk)
           in ((beg, beg + chunk) # rest, r))"

definition divide_evenly_full :: "nat \<Rightarrow> nat \<Rightarrow> (nat \<times> nat) list \<times> nat" where
  "divide_evenly_full n k = divide_evenly_loop k (div_ceil n k) n 0"

text \<open>The returned vector; the remainder is what the closing \<^verbatim>\<open>debug_assert!\<close> looks at.\<close>

definition divide_evenly :: "nat \<Rightarrow> nat \<Rightarrow> (nat \<times> nat) list" where
  "divide_evenly n k = fst (divide_evenly_full n k)"

section \<open>Sharding the bytes of one transfer\<close>

definition round_up :: "nat \<Rightarrow> nat \<Rightarrow> nat" where
  "round_up value multiple = div_ceil value multiple * multiple"

definition MIN_SIZE :: nat where
  "MIN_SIZE = 8192"

fun shard_loop :: "nat \<Rightarrow> nat \<Rightarrow> nat \<Rightarrow> nat \<Rightarrow> (nat \<times> nat) list" where
  "shard_loop 0 base total_size offset = []"
| "shard_loop (Suc i) base total_size offset =
     (let len = min base (total_size - offset) in
      if 0 < len then (offset, len) # shard_loop i base total_size (offset + len)
      else (0, 0) # shard_loop i base total_size offset)"

definition shard_single_transfer :: "nat \<Rightarrow> nat \<Rightarrow> (nat \<times> nat) list" where
  "shard_single_transfer total_size num_shards =
     shard_loop num_shards (round_up (total_size div num_shards) MIN_SIZE) total_size 0"

section \<open>Dividing evenly is a partition\<close>

lemma divide_evenly_loop_remainder:
  "remainder \<le> i * step \<Longrightarrow> snd (divide_evenly_loop i step remainder beg) = 0"
proof (induction i arbitrary: remainder beg)
  case (Suc i)
  let ?c = "min remainder step"
  have "remainder - ?c \<le> i * step" using Suc.prems by (auto simp: min_def)
  with Suc.IH [OF this] Suc.prems show ?case
    by (cases "step = 0") (auto simp: Let_def case_prod_beta)
qed simp

lemma divide_evenly_loop_cover:
  "remainder \<le> i * step \<Longrightarrow>
   concat (map (\<lambda>(b, e). [b..<e]) (fst (divide_evenly_loop i step remainder beg)))
     = [beg..<beg + remainder]"
proof (induction i arbitrary: remainder beg)
  case (Suc i)
  define c where "c = min remainder step"
  have c: "remainder - c \<le> i * step" "c \<le> remainder" "c = 0 \<longrightarrow> remainder = 0"
    using Suc.prems by (cases "step = 0"; auto simp: c_def min_def)+
  have unfold: "fst (divide_evenly_loop (Suc i) step remainder beg) =
      (if c = 0 then [] else (beg, beg + c) # fst (divide_evenly_loop i step (remainder - c) (beg + c)))"
    by (simp only: divide_evenly_loop.simps Let_def case_prod_beta c_def [symmetric] fst_conv if_distrib [of fst])
  have "beg + c + (remainder - c) = beg + remainder" using c by simp
  with Suc.IH [OF c(1), of "beg + c"] upt_split [of beg "beg + c" "beg + remainder"] c
  show ?case unfolding unfold by auto
qed simp

lemma divide_evenly_loop_length:
  "length (fst (divide_evenly_loop i step remainder beg)) \<le> i"
  by (induction i arbitrary: remainder beg) (auto simp: Let_def case_prod_beta)

lemma divide_evenly_loop_range:
  "(b, e) \<in> set (fst (divide_evenly_loop i step remainder beg)) \<Longrightarrow> b < e \<and> e - b \<le> step"
  by (induction i arbitrary: remainder beg) (auto simp: Let_def case_prod_beta split: if_splits)

lemma divide_evenly_remainder: "0 < k \<Longrightarrow> snd (divide_evenly_full n k) = 0"
  unfolding divide_evenly_full_def
  by (rule divide_evenly_loop_remainder) (simp add: div_ceil_ge)

lemma divide_evenly_concat:
  "0 < k \<Longrightarrow> concat (map (\<lambda>(b, e). [b..<e]) (divide_evenly n k)) = [0..<n]"
  using divide_evenly_loop_cover [of n k "div_ceil n k" 0]
  by (simp add: divide_evenly_def divide_evenly_full_def div_ceil_ge)

lemma divide_evenly_length: "length (divide_evenly n k) \<le> k"
  by (simp add: divide_evenly_def divide_evenly_full_def divide_evenly_loop_length)

lemma divide_evenly_range:
  "(b, e) \<in> set (divide_evenly n k) \<Longrightarrow> b < e \<and> e - b \<le> div_ceil n k"
  unfolding divide_evenly_def divide_evenly_full_def by (rule divide_evenly_loop_range)

lemma divide_evenly_bound:
  assumes "0 < k" and "(b, e) \<in> set (divide_evenly n k)"
  shows "e \<le> n"
proof -
  have "set [b..<e] \<subseteq> set (concat (map (\<lambda>(b, e). [b..<e]) (divide_evenly n k)))"
    using imageI [OF assms(2), of "\<lambda>(b, e). set [b..<e]"]
    unfolding set_concat set_map image_image case_prod_beta by (simp, blast)
  then have "{b..<e} \<subseteq> {0..<n}" by (simp only: divide_evenly_concat [OF assms(1)] set_upt)
  then show ?thesis using divide_evenly_range [OF assms(2)] by simp
qed

lemma divide_evenly_empty_iff: "0 < k \<Longrightarrow> divide_evenly n k = [] \<longleftrightarrow> n = 0"
proof
  assume "0 < k" and "divide_evenly n k = []"
  then have "[0..<n] = []" using divide_evenly_concat [of k n] by simp
  then show "n = 0" by simp
next
  assume "0 < k" and "n = 0"
  then show "divide_evenly n k = []"
    by (cases k) (simp_all add: divide_evenly_def divide_evenly_full_def)
qed

section \<open>Byte shards\<close>

lemma round_up_ge: "0 < m \<Longrightarrow> v \<le> round_up v m"
  using div_ceil_ge [of m v] by (simp add: round_up_def mult.commute)

lemma round_up_eq_iff: "0 < m \<Longrightarrow> round_up v m = v \<longleftrightarrow> m dvd v"
proof
  assume m: "0 < m" and "m dvd v"
  then obtain q where v: "v = q * m" by (auto simp: mult.commute elim: dvdE)
  have "div_ceil v m \<le> q" using m v by (simp add: div_ceil_le_iff)
  moreover have "q \<le> div_ceil v m" using div_ceil_ge [OF m, of v] m v by simp
  ultimately show "round_up v m = v" using v by (simp add: round_up_def)
next
  assume "round_up v m = v"
  then show "m dvd v" unfolding round_up_def by (metis dvd_triv_right)
qed

lemma shard_loop_cover:
  "offset \<le> sz \<Longrightarrow>
   concat (map (\<lambda>(off, len). [off..<off + len]) (shard_loop i base sz offset))
     = [offset..<min sz (offset + i * base)]"
proof (induction i arbitrary: offset)
  case (Suc i)
  define l where "l = min base (sz - offset)"
  have unfold: "shard_loop (Suc i) base sz offset =
      (if 0 < l then (offset, l) # shard_loop i base sz (offset + l)
       else (0, 0) # shard_loop i base sz offset)"
    by (simp only: shard_loop.simps Let_def l_def)
  show ?case
  proof (cases "0 < l")
    case True
    have mid: "offset + l \<le> sz" "offset \<le> offset + l" using Suc.prems by (auto simp: l_def)
    have stop: "min sz (offset + l + i * base) = min sz (offset + Suc i * base)"
    proof (cases "base \<le> sz - offset")
      case True
      then show ?thesis by (simp add: l_def add.assoc)
    next
      case False
      then have "offset + l = sz" "sz \<le> offset + Suc i * base"
        using Suc.prems by (simp_all add: l_def)
      then show ?thesis by simp
    qed
    have "offset + l \<le> min sz (offset + l + i * base)" using mid by simp
    from upt_split [OF mid(2) this] Suc.IH [OF mid(1)] True show ?thesis
      unfolding unfold stop by simp
  next
    case False
    then have "base = 0 \<or> sz = offset" using Suc.prems by (auto simp: l_def)
    then show ?thesis using Suc.IH [OF Suc.prems] False unfolding unfold by auto
  qed
qed simp

lemma shard_loop_length: "length (shard_loop i base sz offset) = i"
  by (induction i arbitrary: offset) (auto simp: Let_def)

lemma shard_loop_range:
  "offset \<le> sz \<Longrightarrow> (off, len) \<in> set (shard_loop i base sz offset) \<Longrightarrow>
   off + len \<le> sz \<and> len \<le> base \<and> (len = 0 \<longrightarrow> off = 0)"
proof (induction i arbitrary: offset)
  case (Suc i)
  define l where "l = min base (sz - offset)"
  then have l: "offset + l \<le> sz" "l \<le> base" using Suc.prems(1) by auto
  have "(off, len) \<in> set (if 0 < l then (offset, l) # shard_loop i base sz (offset + l)
                          else (0, 0) # shard_loop i base sz offset)"
    using Suc.prems(2) by (simp only: shard_loop.simps Let_def l_def)
  then consider "0 < l" "(off, len) = (offset, l)" | "(off, len) = (0, 0)"
    | o' where "o' \<le> sz" "(off, len) \<in> set (shard_loop i base sz o')"
    using l Suc.prems(1) by (auto split: if_splits)
  then show ?case
  proof cases
    case 1
    then show ?thesis using l by simp
  next
    case 2
    then show ?thesis using Suc.prems(1) by simp
  next
    case 3
    then show ?thesis by (rule Suc.IH)
  qed
qed simp

lemma shard_single_transfer_covers:
  "concat (map (\<lambda>(off, len). [off..<off + len]) (shard_single_transfer sz ns))
     = [0..<min sz (ns * round_up (sz div ns) MIN_SIZE)]"
  by (simp add: shard_single_transfer_def shard_loop_cover)

lemma shard_capacity_iff:
  assumes "0 < ns"
  shows "sz \<le> ns * round_up (sz div ns) MIN_SIZE \<longleftrightarrow>
         ns dvd sz \<or> \<not> MIN_SIZE dvd sz div ns"
proof -
  let ?q = "sz div ns" and ?b = "round_up (sz div ns) MIN_SIZE"
  have split: "sz = ns * ?q + sz mod ns" and lt: "sz mod ns < ns"
    using assms by simp_all
  show ?thesis
  proof (cases "MIN_SIZE dvd ?q")
    case True
    then have "?b = ?q" by (simp add: round_up_eq_iff MIN_SIZE_def)
    then have "sz \<le> ns * ?b \<longleftrightarrow> sz mod ns = 0" using split by (metis le_add1 add.right_neutral add_le_cancel_left le_zero_eq)
    then show ?thesis using True by (simp add: mod_eq_0_iff_dvd)
  next
    case False
    then have "?b \<noteq> ?q" by (simp add: round_up_eq_iff MIN_SIZE_def)
    moreover have "?q \<le> ?b" by (simp add: round_up_ge MIN_SIZE_def)
    ultimately have "ns * Suc ?q \<le> ns * ?b" by (intro mult_le_mono2) simp
    then have "ns * ?q + ns \<le> ns * ?b" by simp
    then have "sz \<le> ns * ?b" using split lt by linarith
    then show ?thesis using False by simp
  qed
qed

text \<open>
  \<^bold>\<open>C32.\<close> \<^verbatim>\<open>divide_evenly(n, k)\<close> partitions the items: its ranges, in order, enumerate exactly
  \<open>0..<n\<close>; there are at most \<open>k\<close> of them, each non-empty, within bounds and of at most
  \<open>div_ceil n k\<close> items; and the remainder its closing assertion looks at is zero.
\<close>

theorem divide_evenly_partition:
  assumes "0 < k"
  shows "concat (map (\<lambda>(b, e). [b..<e]) (divide_evenly n k)) = [0..<n] \<and>
         length (divide_evenly n k) \<le> k \<and>
         (\<forall>(b, e) \<in> set (divide_evenly n k). b < e \<and> e \<le> n \<and> e - b \<le> div_ceil n k) \<and>
         snd (divide_evenly_full n k) = 0"
proof (intro conjI ballI)
  fix p assume "p \<in> set (divide_evenly n k)"
  then have "(fst p, snd p) \<in> set (divide_evenly n k)" by simp
  from divide_evenly_bound [OF assms this] divide_evenly_range [OF this]
  show "case p of (b, e) \<Rightarrow> b < e \<and> e \<le> n \<and> e - b \<le> div_ceil n k" by (simp add: case_prod_beta)
qed (rule divide_evenly_concat [OF assms] divide_evenly_length divide_evenly_remainder [OF assms])+

theorem divide_evenly_partition_witness:
  "concat (map (\<lambda>(b, e). [b..<e]) (divide_evenly 10 4)) = [0..<10] \<and>
   divide_evenly 10 4 = [(0, 3), (3, 6), (6, 9), (9, 10)]"
proof (rule conjI)
  show "concat (map (\<lambda>(b, e). [b..<e]) (divide_evenly 10 4)) = [0..<10]"
    by (rule divide_evenly_partition [of 4 10, THEN conjunct1]) simp
qed code_simp



end
