(* ===== verification/Fabric_Types.thy ===== *)
theory Fabric_Types
  imports Prelude
begin

text \<open>
  The data types that the layers of fabric-lib exchange: errors (\<^verbatim>\<open>error.rs\<close>), the public
  requests and routings (\<^verbatim>\<open>api.rs\<close>), memory regions (\<^verbatim>\<open>mr.rs\<close>), the per-domain operations
  (\<^verbatim>\<open>rdma_op.rs\<close>) and the completion entries (\<^verbatim>\<open>api.rs\<close>, \<^verbatim>\<open>provider.rs\<close>). Field names keep the
  source's name behind a prefix for the struct, since record fields share one name space.
  A raw pointer is its 64-bit address.
\<close>

section \<open>Errors\<close>

record libfabric_error =
  lfe_code :: int
  lfe_context :: string

record verbs_error =
  ve_code :: int
  ve_context :: string

datatype fabric_lib_error =
    Libfabric libfabric_error
  | DomainErr string
  | Verbs verbs_error
  | VerbsCompletionError string
  | CompletionError string
  | CudaDriver int
  | Cudart int
  | Errno int
  | Custom string

type_synonym 'a result = "fabric_lib_error + 'a"

section \<open>Addresses, memory regions and identifiers\<close>

type_synonym ptr = u64

datatype domain_address = DomainAddress (address_bytes: "u8 list")
datatype memory_region_handle = MemoryRegionHandle (mr_ptr: ptr)
datatype memory_region_remote_key = MemoryRegionRemoteKey (rkey_val: u64)
datatype memory_region_local_descriptor = MemoryRegionLocalDescriptor (desc_val: u64)
datatype transfer_id = TransferId (tid_val: u64)
datatype peer_group_handle = PeerGroupHandle (pgh_val: u32)
datatype uvm_watcher_id = UvmWatcherId (watcher_ptr: ptr)

record memory_region_descriptor =
  mrd_ptr :: u64
  addr_rkey_list :: "(domain_address \<times> memory_region_remote_key) list"

datatype cuda_device_id = CudaDeviceId (device_num: u8)
datatype device = Host | Cuda cuda_device_id

datatype mapping_kind = HostMapping | DeviceMapping cuda_device_id "int option"

record memory_region =
  region_ptr :: ptr
  region_len :: usize
  region_mapping :: mapping_kind

section \<open>Routing and transfer requests\<close>

datatype domain_group_routing = RoundRobinSharded u8 | Pinned u8

datatype group_transfer_routing = AllDomainsShardPeers | AllDomainsShardBytes | SingleDomain u8

record imm_transfer_request =
  it_imm_data :: u32
  it_dst_mr :: memory_region_descriptor
  it_domain :: domain_group_routing

record barrier_transfer_request =
  bt_imm_data :: u32
  bt_dst_mrs :: "memory_region_descriptor list"
  bt_domain :: domain_group_routing

record single_transfer_request =
  st_src_mr :: memory_region_handle
  st_src_offset :: u64
  st_length :: u64
  st_imm_data :: "u32 option"
  st_dst_mr :: memory_region_descriptor
  st_dst_offset :: u64
  st_domain :: domain_group_routing

record paged_transfer_request =
  pt_length :: u64
  pt_src_mr :: memory_region_handle
  pt_src_page_indices :: "u32 list"
  pt_src_stride :: u64
  pt_src_offset :: u64
  pt_dst_mr :: memory_region_descriptor
  pt_dst_page_indices :: "u32 list"
  pt_dst_stride :: u64
  pt_dst_offset :: u64
  pt_imm_data :: "u32 option"

record scatter_target =
  sc_dst_mr :: memory_region_descriptor
  sc_length :: u64
  sc_src_offset :: u64
  sc_dst_offset :: u64

record scatter_transfer_request =
  sct_src_mr :: memory_region_handle
  sct_dst_handle :: "peer_group_handle option"
  sct_dsts :: "scatter_target list"
  sct_imm_data :: "u32 option"
  sct_domain :: group_transfer_routing

datatype transfer_request =
    ImmReq imm_transfer_request
  | SingleReq single_transfer_request
  | PagedReq paged_transfer_request
  | ScatterReq scatter_transfer_request
  | BarrierReq barrier_transfer_request

section \<open>Operations submitted to one domain\<close>

record single_write_op =
  sw_src_ptr :: ptr
  sw_src_desc :: memory_region_local_descriptor
  sw_src_offset :: u64
  sw_length :: u64
  sw_imm_data :: "u32 option"
  sw_dst_ptr :: u64
  sw_dst_rkey :: memory_region_remote_key
  sw_dst_offset :: u64

record imm_write_op =
  iw_imm_data :: u32
  iw_dst_ptr :: u64
  iw_dst_rkey :: memory_region_remote_key

record paged_write_op =
  pw_src_page_indices :: "u32 list"
  pw_dst_page_indices :: "u32 list"
  pw_page_indices_beg :: usize
  pw_page_indices_end :: usize
  pw_length :: u64
  pw_src_ptr :: ptr
  pw_src_desc :: memory_region_local_descriptor
  pw_src_stride :: u64
  pw_src_offset :: u64
  pw_dst_ptr :: u64
  pw_dst_rkey :: memory_region_remote_key
  pw_dst_stride :: u64
  pw_dst_offset :: u64
  pw_imm_data :: "u32 option"

datatype write_op = SingleW single_write_op | ImmW imm_write_op | PagedW paged_write_op

record scatter_group_write_op =
  sg_domain_idx :: usize
  sg_src_ptr :: ptr
  sg_src_desc :: memory_region_local_descriptor
  sg_imm_data :: "u32 option"
  sg_dsts :: "scatter_target list"
  sg_dst_beg :: usize
  sg_dst_end :: usize
  sg_byte_shards :: u32
  sg_byte_shard_idx :: u32

datatype group_write_op = ScatterW scatter_group_write_op

record send_op =
  so_ptr :: ptr
  so_len :: usize
  so_desc :: memory_region_local_descriptor

record recv_op =
  ro_ptr :: ptr
  ro_len :: usize
  ro_desc :: memory_region_local_descriptor

fun num_targets :: "group_write_op \<Rightarrow> usize" where
  "num_targets (ScatterW op) = length (sg_dsts op)"

text \<open>
  The peer addresses of a group write, in the order of its targets. The iterator is lazy: an
  entry is \<open>None\<close> where producing it panics, because the target has too few addresses to index.
\<close>

fun peer_addr_iter :: "group_write_op \<Rightarrow> domain_address option list" where
  "peer_addr_iter (ScatterW op) =
     map (\<lambda>dst. map_option fst (index (addr_rkey_list (sc_dst_mr dst)) (sg_domain_idx op))) (sg_dsts op)"

section \<open>Contexts of posted operations\<close>

text \<open>
  The context value of a posted operation is a raw pointer: null, a transfer identifier transmuted
  to a pointer, the address of a write context, or the address of a message buffer. Write contexts
  come from an object pool; their address is the slot, the index of a chunk and the place in it.
\<close>

type_synonym slot = "nat \<times> nat"

datatype op_context = CtxNull | CtxTid u64 | CtxWrite slot | CtxBuf ptr

text \<open>
  Reading a context back: as a transfer identifier (a transmute; \<open>None\<close> for an address, whose
  numeric value is not modelled), and as a reference to a write context (\<^verbatim>\<open>as_mut\<close>, which tests for
  null; \<open>None\<close> for the dereference of anything else).
\<close>

fun ctx_tid :: "op_context \<Rightarrow> transfer_id option" where
  "ctx_tid CtxNull = Some (TransferId 0)"
| "ctx_tid (CtxTid t) = Some (TransferId t)"
| "ctx_tid _ = None"

fun ctx_as_mut :: "op_context \<Rightarrow> slot option option" where
  "ctx_as_mut CtxNull = Some None"
| "ctx_as_mut (CtxTid t) = (if t = 0 then Some None else None)"
| "ctx_as_mut (CtxWrite a) = Some (Some a)"
| "ctx_as_mut (CtxBuf p) = None"

section \<open>Completions\<close>

datatype domain_completion_entry =
    DRecv transfer_id usize
  | DSend transfer_id
  | DTransfer transfer_id
  | DImmData u32
  | DImmCountReached u32
  | DError transfer_id fabric_lib_error

datatype transfer_completion_entry =
    CRecv transfer_id usize
  | CSend transfer_id
  | CTransfer transfer_id
  | CImmData u32
  | CImmCountReached u32
  | CUvmWatch uvm_watcher_id u64 u64
  | CError transfer_id fabric_lib_error

end
