(* ===== verification/Imm_Count.thy ===== *)
theory Imm_Count
  imports Fabric_Types
begin

text \<open>
  Immediate counters: \<^verbatim>\<open>imm_count.rs\<close> and the counter handles of \<^verbatim>\<open>api.rs\<close>. An
  \<^verbatim>\<open>Arc<AtomicI64>\<close> is shared between the map and the handle given to the user, so counters live in a
  store: the map and the handles hold addresses. A \<^verbatim>\<open>GdrFlag\<close> is a byte flag in the same kind of
  store. Every atomic read-modify-write is one step on the store.

  The map is behind a reader-writer lock: operations that change the map exclude every other one,
  but \<^verbatim>\<open>inc\<close> only takes the read lock and is two or three atomic accesses. The sequential lemmas
  treat an \<^verbatim>\<open>inc\<close> as one step (one polling thread); the last section splits it into its atomic
  accesses and interleaves them, as the worker threads that share the map do.
\<close>

section \<open>The store of shared cells\<close>

type_synonym cell = nat

record store =
  cells :: "cell \<Rightarrow> i64"
  gdr_flags :: "cell \<Rightarrow> bool"
  next_cell :: cell

definition fetch_add :: "cell \<Rightarrow> i64 \<Rightarrow> store \<Rightarrow> i64 \<times> store" where
  "fetch_add c v s = (cells s c, s\<lparr>cells := (cells s)(c := cells s c + v)\<rparr>)"

definition fetch_sub :: "cell \<Rightarrow> i64 \<Rightarrow> store \<Rightarrow> i64 \<times> store" where
  "fetch_sub c v s = (cells s c, s\<lparr>cells := (cells s)(c := cells s c - v)\<rparr>)"

definition store_cell :: "cell \<Rightarrow> i64 \<Rightarrow> store \<Rightarrow> store" where
  "store_cell c v s = s\<lparr>cells := (cells s)(c := v)\<rparr>"

definition set_flag :: "cell \<Rightarrow> bool \<Rightarrow> store \<Rightarrow> store" where
  "set_flag f b s = s\<lparr>gdr_flags := (gdr_flags s)(f := b)\<rparr>"

definition new_cell :: "store \<Rightarrow> cell \<times> store" where
  "new_cell s = (next_cell s, s\<lparr>cells := (cells s)(next_cell s := 0), next_cell := Suc (next_cell s)\<rparr>)"

section \<open>One counter\<close>

datatype imm_count =
    Expected cell u32
  | Imm cell
  | Gdr cell cell

fun consume :: "imm_count \<Rightarrow> store \<Rightarrow> u32 \<times> u32 option" where
  "consume (Expected counter expected) s = (ucast (cells s counter), Some expected)"
| "consume (Imm counter) s = (ucast (cells s counter), None)"
| "consume (Gdr counter flag) s = (ucast (cells s counter), None)"

text \<open>The atomic accesses of \<^verbatim>\<open>inc\<close>: the addition with its test, and the correction that follows a hit.\<close>

definition expected_add :: "cell \<Rightarrow> u32 \<Rightarrow> store \<Rightarrow> bool \<times> store" where
  "expected_add counter expected s =
     (let (prev, s) = fetch_add counter 1 s in ((ucast prev :: u32) + 1 = expected, s))"

definition expected_sub :: "cell \<Rightarrow> u32 \<Rightarrow> store \<Rightarrow> store" where
  "expected_sub counter expected s = snd (fetch_sub counter (ucast expected) s)"

definition gdr_add :: "cell \<Rightarrow> store \<Rightarrow> bool \<times> store" where
  "gdr_add counter s = (let (prev, s) = fetch_add counter 1 s in (prev + 1 = 0, s))"

fun imm_count_inc :: "imm_count \<Rightarrow> store \<Rightarrow> bool \<times> store" where
  "imm_count_inc (Expected counter expected) s =
     (let (reached, s) = expected_add counter expected s;
          s = (if reached then expected_sub counter expected s else s)
      in (reached, s))"
| "imm_count_inc (Imm counter) s = (False, snd (fetch_add counter 1 s))"
| "imm_count_inc (Gdr counter flag) s =
     (let (zero, s) = gdr_add counter s;
          s = (if zero then store_cell counter 0 (set_flag flag True s) else s)
      in (False, s))"

section \<open>The map of counters\<close>

datatype imm_count_status = Vacant | NotReached | Reached

record imm_count_map =
  imap :: "u32 \<rightharpoonup> imm_count"
  istore :: store

definition imm_count_map_new :: "store \<Rightarrow> imm_count_map" where
  "imm_count_map_new s = \<lparr>imap = Map.empty, istore = s\<rparr>"

definition set_expected :: "u32 \<Rightarrow> u32 \<Rightarrow> imm_count_map \<Rightarrow> imm_count option \<times> imm_count_map" where
  "set_expected imm expected m =
     (let (c, s) = new_cell (istore m)
      in (imap m imm, \<lparr>imap = (imap m)(imm \<mapsto> Expected c expected), istore = s\<rparr>))"

text \<open>The handles returned to users: \<^verbatim>\<open>ImmCounter\<close> holds its counter, \<^verbatim>\<open>GdrCounter\<close> its counter and flag.\<close>

datatype imm_counter = ImmCounter cell
datatype gdr_counter = GdrCounter cell cell

definition get_imm_counter :: "u32 \<Rightarrow> imm_count_map \<Rightarrow> imm_counter \<times> imm_count_map" where
  "get_imm_counter imm m =
     (let (c, s) = new_cell (istore m)
      in (ImmCounter c, \<lparr>imap = (imap m)(imm \<mapsto> Imm c), istore = s\<rparr>))"

definition get_gdr_counter :: "u32 \<Rightarrow> cell \<Rightarrow> imm_count_map \<Rightarrow> gdr_counter \<times> imm_count_map" where
  "get_gdr_counter imm flag m =
     (let (c, s) = new_cell (istore m)
      in (GdrCounter c flag, \<lparr>imap = (imap m)(imm \<mapsto> Gdr c flag), istore = s\<rparr>))"

definition imm_remove :: "u32 \<Rightarrow> imm_count_map \<Rightarrow> imm_count option \<times> imm_count_map" where
  "imm_remove imm m = (imap m imm, m\<lparr>imap := (imap m)(imm := None)\<rparr>)"

definition imm_get :: "u32 \<Rightarrow> imm_count_map \<Rightarrow> u32 option" where
  "imm_get imm m =
     map_option (\<lambda>v. case v of
         Expected counter _ \<Rightarrow> ucast (cells (istore m) counter)
       | Imm counter \<Rightarrow> ucast (cells (istore m) counter)
       | Gdr counter _ \<Rightarrow> ucast (cells (istore m) counter)) (imap m imm)"

definition get_expected :: "u32 \<Rightarrow> imm_count_map \<Rightarrow> u32 option" where
  "get_expected imm m =
     (case imap m imm of
        None \<Rightarrow> None
      | Some (Expected _ expected) \<Rightarrow> Some expected
      | Some (Gdr _ _) \<Rightarrow> None
      | Some (Imm _) \<Rightarrow> None)"

definition imm_inc :: "u32 \<Rightarrow> imm_count_map \<Rightarrow> imm_count_status \<times> imm_count_map" where
  "imm_inc imm m =
     (case imap m imm of
        Some imm_count \<Rightarrow>
          (let (r, s) = imm_count_inc imm_count (istore m)
           in (if r then Reached else NotReached, m\<lparr>istore := s\<rparr>))
      | None \<Rightarrow> (Vacant, m))"

section \<open>Waiting on a counter\<close>

text \<open>
  \<^verbatim>\<open>ImmCounter::wait\<close> first subtracts its target and returns when enough immediates were already
  there; otherwise it spins until the counter is no longer negative. \<open>imm_wait_begin\<close> is the
  first part (its result says whether the call returned at once) and \<open>imm_wait_poll\<close> is one
  iteration of the spin loop.
\<close>

fun imm_wait_begin :: "imm_counter \<Rightarrow> u32 \<Rightarrow> store \<Rightarrow> bool \<times> store" where
  "imm_wait_begin (ImmCounter counter) target s =
     (let (old, s) = fetch_sub counter (ucast target) s
      in (sint (ucast target :: i64) \<le> sint old, s))"

fun imm_wait_poll :: "imm_counter \<Rightarrow> store \<Rightarrow> bool" where
  "imm_wait_poll (ImmCounter counter) s = (0 \<le> sint (cells s counter))"

fun gdr_wait :: "gdr_counter \<Rightarrow> u32 \<Rightarrow> store \<Rightarrow> store" where
  "gdr_wait (GdrCounter counter flag) target s =
     (let (old, s) = fetch_sub counter (ucast target) s
      in if sint (ucast target :: i64) \<le> sint old then set_flag flag True s else s)"

text \<open>\<^verbatim>\<open>TransferCounter\<close>: the completion and the error counter of a transfer submitted with counters.\<close>

record transfer_counter =
  tc_counter :: cell
  tc_err_counter :: cell

definition tx_error :: "transfer_counter \<Rightarrow> store \<Rightarrow> store" where
  "tx_error t s = snd (fetch_add (tc_counter t) 1 (snd (fetch_add (tc_err_counter t) 1 s)))"

definition tx_done :: "transfer_counter \<Rightarrow> store \<Rightarrow> store" where
  "tx_done t s = snd (fetch_add (tc_counter t) 1 s)"

section \<open>Well-formed maps\<close>

fun ic_cell :: "imm_count \<Rightarrow> cell" where
  "ic_cell (Expected c _) = c"
| "ic_cell (Imm c) = c"
| "ic_cell (Gdr c _) = c"

text \<open>
  An \<open>Expected\<close> counter stays strictly below its (non-zero) expected value; different immediates
  never share a cell, and every cell in use has been allocated.
\<close>

fun ic_ok :: "store \<Rightarrow> imm_count \<Rightarrow> bool" where
  "ic_ok s (Expected c e) = (e \<noteq> 0 \<and> (\<exists>n < unat e. cells s c = of_nat n))"
| "ic_ok s (Imm c) = True"
| "ic_ok s (Gdr c f) = True"

definition imm_wf :: "imm_count_map \<Rightarrow> bool" where
  "imm_wf m \<longleftrightarrow>
     (\<forall>i ic. imap m i = Some ic \<longrightarrow> ic_cell ic < next_cell (istore m) \<and> ic_ok (istore m) ic) \<and>
     (\<forall>i j ic jc. imap m i = Some ic \<longrightarrow> imap m j = Some jc \<longrightarrow> i \<noteq> j \<longrightarrow> ic_cell ic \<noteq> ic_cell jc)"

text \<open>A run of the completion-queue side: the immediates received, in order.\<close>

fun imm_run :: "u32 list \<Rightarrow> imm_count_map \<Rightarrow> imm_count_status list \<times> imm_count_map" where
  "imm_run [] m = ([], m)"
| "imm_run (x # xs) m =
     (let (st, m) = imm_inc x m; (sts, m) = imm_run xs m in (st # sts, m))"

section \<open>Interleaved increments\<close>

text \<open>
  The worker threads share the map and \<^verbatim>\<open>inc\<close> holds only the read lock, so the addition and the
  correction of one \<^verbatim>\<open>inc\<close> may be separated by accesses of the others. The state adds to the store
  the number of threads between the two accesses, and counts the additions, the hits (calls that
  return \<open>Reached\<close>) and the additions made since the last hit.
\<close>

record inc_state =
  ist :: store
  pend :: nat
  adds :: nat
  hits :: nat
  since :: nat

definition inc_init :: "store \<Rightarrow> inc_state" where
  "inc_init s = \<lparr>ist = s, pend = 0, adds = 0, hits = 0, since = 0\<rparr>"

definition do_add :: "cell \<Rightarrow> u32 \<Rightarrow> inc_state \<Rightarrow> inc_state" where
  "do_add c e \<sigma> =
     (let (r, s) = expected_add c e (ist \<sigma>)
      in if r then \<lparr>ist = s, pend = Suc (pend \<sigma>), adds = Suc (adds \<sigma>), hits = Suc (hits \<sigma>), since = 0\<rparr>
         else \<lparr>ist = s, pend = pend \<sigma>, adds = Suc (adds \<sigma>), hits = hits \<sigma>, since = Suc (since \<sigma>)\<rparr>)"

definition do_sub :: "cell \<Rightarrow> u32 \<Rightarrow> inc_state \<Rightarrow> inc_state" where
  "do_sub c e \<sigma> = \<sigma>\<lparr>ist := expected_sub c e (ist \<sigma>), pend := pend \<sigma> - 1\<rparr>"

inductive inc_step :: "cell \<Rightarrow> u32 \<Rightarrow> inc_state \<Rightarrow> inc_state \<Rightarrow> bool" for c e where
  inc_add: "inc_step c e \<sigma> (do_add c e \<sigma>)"
| inc_sub: "0 < pend \<sigma> \<Longrightarrow> inc_step c e \<sigma> (do_sub c e \<sigma>)"

text \<open>A prompt schedule: fewer than \<open>e\<close> additions happen between a hit and its correction.\<close>

inductive prompt_step :: "cell \<Rightarrow> u32 \<Rightarrow> inc_state \<Rightarrow> inc_state \<Rightarrow> bool" for c e where
  prompt_add: "pend \<sigma> = 0 \<or> Suc (since \<sigma>) < unat e \<Longrightarrow> prompt_step c e \<sigma> (do_add c e \<sigma>)"
| prompt_sub: "0 < pend \<sigma> \<Longrightarrow> prompt_step c e \<sigma> (do_sub c e \<sigma>)"

text \<open>Events on an exposed counter: an immediate arrives, or the user waits for a number of them.\<close>

datatype counter_event = Arrive | Await u32

fun arrived :: "counter_event list \<Rightarrow> nat" where
  "arrived [] = 0"
| "arrived (Arrive # evs) = Suc (arrived evs)"
| "arrived (Await _ # evs) = arrived evs"

fun awaited :: "counter_event list \<Rightarrow> nat" where
  "awaited [] = 0"
| "awaited (Arrive # evs) = awaited evs"
| "awaited (Await t # evs) = unat t + awaited evs"

fun gdr_event :: "cell \<Rightarrow> cell \<Rightarrow> counter_event \<Rightarrow> store \<Rightarrow> store" where
  "gdr_event c f Arrive s = snd (imm_count_inc (Gdr c f) s)"
| "gdr_event c f (Await t) s = gdr_wait (GdrCounter c f) t s"

fun imm_event :: "cell \<Rightarrow> counter_event \<Rightarrow> store \<Rightarrow> store" where
  "imm_event c Arrive s = snd (imm_count_inc (Imm c) s)"
| "imm_event c (Await t) s = snd (imm_wait_begin (ImmCounter c) t s)"

section \<open>Cells\<close>

lemma fetch_simps [cell_simps]:
  "fst (fetch_add c v s) = cells s c"
  "snd (fetch_add c v s) = s\<lparr>cells := (cells s)(c := cells s c + v)\<rparr>"
  "fst (fetch_sub c v s) = cells s c"
  "snd (fetch_sub c v s) = s\<lparr>cells := (cells s)(c := cells s c - v)\<rparr>"
  by (simp_all add: fetch_add_def fetch_sub_def)

lemma u32_hit_mod:
  "(ucast (of_nat n :: i64) :: u32) + 1 = e \<longleftrightarrow> Suc n mod 2 ^ 32 = unat e"
proof -
  have "(ucast (of_nat n :: i64) :: u32) = of_nat n"
    by (simp add: unsigned_of_nat word_of_nat_eq_iff)
  then have "(ucast (of_nat n :: i64) :: u32) + 1 = of_nat (Suc n)" by simp
  moreover have "unat (of_nat (Suc n) :: u32) = Suc n mod 2 ^ 32"
    by (simp add: unat_of_nat take_bit_eq_mod del: of_nat_Suc)
  ultimately show ?thesis by (metis unsigned_word_eqI)
qed

lemma unat_u32_less: "unat (e :: u32) < 2 ^ 32"
  using unsigned_less [of e] by simp

lemma unat_u32_pos: "(e :: u32) \<noteq> 0 \<Longrightarrow> 0 < unat e"
  using unsigned_eq_0_iff by (metis gr0I)

lemma u32_hit: "n < unat (e :: u32) \<Longrightarrow> (ucast (of_nat n :: i64) :: u32) + 1 = e \<longleftrightarrow> Suc n = unat e"
proof -
  assume "n < unat e"
  then show ?thesis using unat_u32_less [of e] unfolding u32_hit_mod by (cases "Suc n = 2 ^ 32") auto
qed

text \<open>Past the expected value the test stays false for the next \<open>2 ^ 32\<close> additions.\<close>

lemma u32_past:
  assumes "unat (e :: u32) \<le> n" "Suc n - unat e < 2 ^ 32"
  shows "(ucast (of_nat n :: i64) :: u32) + 1 \<noteq> e"
proof
  assume "(ucast (of_nat n :: i64) :: u32) + 1 = e"
  then have "Suc n mod 2 ^ 32 = unat e mod 2 ^ 32"
    using unat_u32_less [of e] unfolding u32_hit_mod by simp
  then have "2 ^ 32 dvd Suc n - unat e"
    using assms(1) mod_eq_dvd_iff_nat [of "unat e" "Suc n" "2 ^ 32"] by simp
  moreover have "0 < Suc n - unat e" using assms(1) by simp
  ultimately show False using assms(2) nat_dvd_not_less by blast
qed

lemma ucast_u32_i64: "(ucast (e :: u32) :: i64) = of_nat (unat e)"
  by simp

lemma expected_step:
  assumes "cells s c = of_nat n" "n < unat e"
  shows "imm_count_inc (Expected c e) s =
           (Suc n = unat e, s\<lparr>cells := (cells s)(c := of_nat (Suc n mod unat e))\<rparr>)"
proof (cases "Suc n = unat e")
  case True
  then have "(of_nat n :: i64) + 1 - ucast e = 0"
    by (simp add: ucast_u32_i64 flip: True)
  then show ?thesis
    using assms True
    by (simp add: expected_add_def expected_sub_def fetch_add_def fetch_sub_def u32_hit)
next
  case False
  then have "Suc n mod unat e = Suc n" "(ucast (of_nat n :: i64) :: u32) + 1 \<noteq> e"
    using assms u32_hit [of n e] by simp_all
  then show ?thesis
    using assms False by (simp add: expected_add_def fetch_add_def algebra_simps)
qed

text \<open>Every increment leaves the other cells, the allocation mark and the map itself alone.\<close>

lemma imm_count_inc_frame:
  "d \<noteq> ic_cell ic \<Longrightarrow> cells (snd (imm_count_inc ic s)) d = cells s d"
  "next_cell (snd (imm_count_inc ic s)) = next_cell s"
  by (cases ic; auto simp: expected_add_def expected_sub_def gdr_add_def fetch_add_def fetch_sub_def
      store_cell_def set_flag_def)+

lemma imm_inc_imap [simp]: "imap (snd (imm_inc i m)) = imap m"
  by (auto simp: imm_inc_def split: option.split prod.split)

lemma imm_inc_istore:
  "imap m i = Some ic \<Longrightarrow> istore (snd (imm_inc i m)) = snd (imm_count_inc ic (istore m))"
  by (auto simp: imm_inc_def split: prod.split)

lemma imm_inc_vacant: "imap m i = None \<Longrightarrow> imm_inc i m = (Vacant, m)"
  by (simp add: imm_inc_def)

lemma ic_ok_cong: "cells s (ic_cell ic) = cells t (ic_cell ic) \<Longrightarrow> ic_ok s ic = ic_ok t ic"
  by (cases ic) auto

lemma ic_ok_inc: "ic_ok s ic \<Longrightarrow> ic_ok (snd (imm_count_inc ic s)) ic"
proof (cases ic)
  case (Expected c e)
  assume "ic_ok s ic"
  then obtain n where n: "e \<noteq> 0" "n < unat e" "cells s c = of_nat n"
    using Expected by auto
  then have "0 < unat e" by linarith
  then have "Suc n mod unat e < unat e" by simp
  then have "\<exists>k < unat e. (of_nat (Suc n mod unat e) :: i64) = of_nat k" by blast
  then show ?thesis
    using n expected_step [of s c n e] Expected by (simp del: imm_count_inc.simps)
qed auto

lemma imm_wf_inc: "imm_wf m \<Longrightarrow> imm_wf (snd (imm_inc i m))"
proof (cases "imap m i")
  case (Some ic)
  assume wf: "imm_wf m"
  have st: "istore (snd (imm_inc i m)) = snd (imm_count_inc ic (istore m))"
    by (rule imm_inc_istore [OF Some])
  have ok: "ic_ok (snd (imm_count_inc ic (istore m))) jc" if "imap m j = Some jc" for j jc
  proof (cases "j = i")
    case True
    then show ?thesis using that Some wf by (simp add: imm_wf_def ic_ok_inc)
  next
    case False
    then have "ic_cell jc \<noteq> ic_cell ic" using that Some wf unfolding imm_wf_def by metis
    then have "ic_ok (snd (imm_count_inc ic (istore m))) jc = ic_ok (istore m) jc"
      by (intro ic_ok_cong imm_count_inc_frame)
    then show ?thesis using that wf by (simp add: imm_wf_def)
  qed
  show ?thesis
    using wf ok unfolding imm_wf_def st imm_inc_imap imm_count_inc_frame by blast
qed (simp add: imm_inc_vacant)

lemma imm_wf_new_cell:
  assumes "imm_wf m" "new_cell (istore m) = (c, s)" "ic_cell ic = c" "ic_ok s ic"
  shows "imm_wf \<lparr>imap = (imap m)(i \<mapsto> ic), istore = s\<rparr>"
proof -
  have c: "c = next_cell (istore m)"
    and s: "s = (istore m)\<lparr>cells := (cells (istore m))(c := 0), next_cell := Suc c\<rparr>"
    using assms(2) by (auto simp: new_cell_def)
  have old: "ic_cell jc < c \<and> ic_ok s jc" if "imap m j = Some jc" for j jc
  proof -
    have "ic_cell jc < c" "ic_ok (istore m) jc" using that assms(1) c by (auto simp: imm_wf_def)
    then show ?thesis using ic_ok_cong [of s jc "istore m"] s by simp
  qed
  have "next_cell s = Suc c" using s by simp
  then show ?thesis
    using assms old unfolding imm_wf_def by (fastforce split: if_splits)
qed

lemma imm_run_imap [simp]: "imap (snd (imm_run xs m)) = imap m"
  by (induction xs arbitrary: m) (auto simp: Let_def case_prod_beta)

lemma imm_run_length [simp]: "length (fst (imm_run xs m)) = length xs"
  by (induction xs arbitrary: m) (auto simp: Let_def case_prod_beta)

lemma imm_wf_run: "imm_wf m \<Longrightarrow> imm_wf (snd (imm_run xs m))"
  by (induction xs arbitrary: m) (auto simp: Let_def case_prod_beta imm_wf_inc)

lemma imm_inc_other:
  assumes "imm_wf m" "imap m x = Some ic" "x \<noteq> y"
  shows "cells (istore (snd (imm_inc y m))) (ic_cell ic) = cells (istore m) (ic_cell ic)"
proof (cases "imap m y")
  case (Some jc)
  then have "ic_cell ic \<noteq> ic_cell jc" using assms unfolding imm_wf_def by metis
  then show ?thesis by (simp add: imm_inc_istore [OF Some] imm_count_inc_frame)
qed (simp add: imm_inc_vacant)

lemma imm_inc_expected:
  assumes "imap m x = Some (Expected c e)" "cells (istore m) c = of_nat n" "n < unat e"
  shows "fst (imm_inc x m) = (if Suc n = unat e then Reached else NotReached)"
    and "cells (istore (snd (imm_inc x m))) c = of_nat (Suc n mod unat e)"
  using assms expected_step [OF assms(2,3)] by (simp_all add: imm_inc_def del: imm_count_inc.simps)

lemma expected_run_value:
  assumes "imm_wf m" "imap m x = Some (Expected c e)" "cells (istore m) c = of_nat n" "n < unat e"
  shows "cells (istore (snd (imm_run xs m))) c = of_nat ((n + count_list xs x) mod unat e)"
  using assms
proof (induction xs arbitrary: m n)
  case (Cons y xs)
  let ?m = "snd (imm_inc y m)"
  have run: "snd (imm_run (y # xs) m) = snd (imm_run xs ?m)"
    by (simp add: Let_def case_prod_beta)
  have pre: "imm_wf ?m" "imap ?m x = Some (Expected c e)"
    using Cons.prems by (simp_all add: imm_wf_inc)
  show ?case
  proof (cases "y = x")
    case True
    have v: "cells (istore ?m) c = of_nat (Suc n mod unat e)"
      using imm_inc_expected(2) [OF Cons.prems(2-4)] True by simp
    have "Suc n mod unat e < unat e" using Cons.prems(4) by (intro mod_less_divisor) simp
    from Cons.IH [OF pre v this] show ?thesis
      unfolding run using True by (simp add: mod_add_left_eq)
  next
    case False
    then have "cells (istore ?m) c = of_nat n"
      using imm_inc_other [OF Cons.prems(1,2)] Cons.prems(3) by simp
    from Cons.IH [OF pre this Cons.prems(4)] show ?thesis unfolding run using False by simp
  qed
qed simp

lemma imm_run_append:
  "fst (imm_run (xs @ ys) m) = fst (imm_run xs m) @ fst (imm_run ys (snd (imm_run xs m)))"
  by (induction xs arbitrary: m) (auto simp: Let_def case_prod_beta)

lemma imm_run_nth:
  "i < length xs \<Longrightarrow> fst (imm_run xs m) ! i = fst (imm_inc (xs ! i) (snd (imm_run (take i xs) m)))"
  by (subst id_take_nth_drop [of i xs], assumption, subst imm_run_append)
    (simp add: nth_append Let_def case_prod_beta)

lemma dvd_Suc_mod: "0 < e \<Longrightarrow> Suc (k mod e) = e \<longleftrightarrow> e dvd Suc k" for e k :: nat
  by (metis Suc_lessI dvd_eq_mod_eq_0 mod_Suc mod_less_divisor nat.distinct(1))

text \<open>The empty heap of cells, on which the examples run.\<close>

definition store0 :: store where
  "store0 = \<lparr>cells = (\<lambda>_. 0), gdr_flags = (\<lambda>_. False), next_cell = 0\<rparr>"

lemma store0_simps [simp]: "cells store0 c = 0" "gdr_flags store0 f = False" "next_cell store0 = 0"
  by (simp_all add: store0_def)

lemma imm_wf_map_new: "imm_wf (imm_count_map_new s)"
  by (simp add: imm_wf_def imm_count_map_new_def)

lemma ic_ok_fresh: "new_cell s = (c, s') \<Longrightarrow> e \<noteq> 0 \<Longrightarrow> ic_ok s' (Expected c e)"
  using unat_u32_pos [of e] by (auto simp: new_cell_def intro!: exI [of _ 0])

lemma imm_wf_set_expected: "imm_wf m \<Longrightarrow> e \<noteq> 0 \<Longrightarrow> imm_wf (snd (set_expected i e m))"
  by (auto simp: set_expected_def intro!: imm_wf_new_cell ic_ok_fresh split: prod.split)

text \<open>
  Every operation of the map keeps it well formed: distinct immediates keep distinct,
  allocated counters, and each expected counter stays below its non-zero expected value.
\<close>

theorem imm_map_ops_wf:
  assumes "imm_wf m" "e \<noteq> 0"
  shows "imm_wf (snd (set_expected i e m)) \<and> imm_wf (snd (get_imm_counter i m)) \<and>
         imm_wf (snd (get_gdr_counter i f m)) \<and> imm_wf (snd (imm_remove i m)) \<and>
         imm_wf (snd (imm_inc i m)) \<and> imm_wf (imm_count_map_new s)"
proof (intro conjI)
  show "imm_wf (snd (get_imm_counter i m))" "imm_wf (snd (get_gdr_counter i f m))"
    using assms by (auto simp: get_imm_counter_def get_gdr_counter_def intro!: imm_wf_new_cell
        split: prod.split)
  show "imm_wf (snd (imm_remove i m))"
    using assms by (fastforce simp: imm_remove_def imm_wf_def split: if_splits)
qed (use assms in \<open>simp_all add: imm_wf_set_expected imm_wf_inc imm_wf_map_new\<close>)

theorem imm_map_ops_wf_witness:
  "imm_wf (snd (set_expected 7 2 (imm_count_map_new store0)))"
  using imm_map_ops_wf [OF imm_wf_map_new [of store0], of 2 7] by simp

text \<open>
  \<^bold>\<open>C31.\<close> A stream of received immediates drives every registered counter independently of the
  others: the counter of \<open>x\<close> reports \<open>Reached\<close> exactly at the receptions that complete a
  multiple of its expected count, \<open>NotReached\<close> at the others, and afterwards holds the number
  of receptions modulo the expected count.
\<close>

theorem imm_run_periodic:
  assumes "imm_wf m" "imap m x = Some (Expected c e)" "cells (istore m) c = of_nat n" "n < unat e"
  shows "(\<forall>i < length xs. xs ! i = x \<longrightarrow>
            fst (imm_run xs m) ! i =
              (if unat e dvd n + count_list (take (Suc i) xs) x then Reached else NotReached)) \<and>
         cells (istore (snd (imm_run xs m))) c = of_nat ((n + count_list xs x) mod unat e)"
proof (intro conjI allI impI)
  fix i assume i: "i < length xs" "xs ! i = x"
  let ?m = "snd (imm_run (take i xs) m)"
  let ?k = "n + count_list (take i xs) x"
  have e: "0 < unat e" using assms(4) by linarith
  have v: "cells (istore ?m) c = of_nat (?k mod unat e)" by (rule expected_run_value [OF assms])
  have "imap ?m x = Some (Expected c e)" using assms(2) by simp
  from imm_inc_expected(1) [OF this v] e
  have "fst (imm_run xs m) ! i = (if Suc (?k mod unat e) = unat e then Reached else NotReached)"
    using i by (simp add: imm_run_nth)
  then show "fst (imm_run xs m) ! i =
      (if unat e dvd n + count_list (take (Suc i) xs) x then Reached else NotReached)"
    using i e by (simp add: dvd_Suc_mod take_Suc_conv_app_nth)
qed (rule expected_run_value [OF assms])

theorem imm_run_periodic_witness:
  "fst (imm_run [7, 9, 7, 7] (snd (set_expected 7 2 (imm_count_map_new store0)))) ! 2 = Reached"
proof -
  let ?m = "snd (set_expected 7 2 (imm_count_map_new store0))"
  have "imm_wf ?m" by (simp add: imm_wf_set_expected imm_wf_map_new)
  moreover have "imap ?m 7 = Some (Expected 0 2)" "cells (istore ?m) 0 = of_nat 0"
    by (simp_all add: set_expected_def new_cell_def imm_count_map_new_def)
  ultimately show ?thesis
    using imm_run_periodic [of ?m 7 0 2 0 "[7, 9, 7, 7]", THEN conjunct1, rule_format, of 2]
    by (simp del: imm_run.simps)
qed

section \<open>Concurrent increments\<close>

lemma do_add_hit:
  assumes "cells (ist \<sigma>) c = of_nat n" "(ucast (of_nat n :: i64) :: u32) + 1 = e"
  shows "do_add c e \<sigma> = \<lparr>ist = (ist \<sigma>)\<lparr>cells := (cells (ist \<sigma>))(c := of_nat (Suc n))\<rparr>,
           pend = Suc (pend \<sigma>), adds = Suc (adds \<sigma>), hits = Suc (hits \<sigma>), since = 0\<rparr>"
  using assms by (simp add: do_add_def expected_add_def fetch_add_def add.commute)

lemma do_add_miss:
  assumes "cells (ist \<sigma>) c = of_nat n" "(ucast (of_nat n :: i64) :: u32) + 1 \<noteq> e"
  shows "do_add c e \<sigma> = \<lparr>ist = (ist \<sigma>)\<lparr>cells := (cells (ist \<sigma>))(c := of_nat (Suc n))\<rparr>,
           pend = pend \<sigma>, adds = Suc (adds \<sigma>), hits = hits \<sigma>, since = Suc (since \<sigma>)\<rparr>"
  using assms by (simp add: do_add_def expected_add_def fetch_add_def add.commute)

lemma do_sub_simps [simp]:
  "pend (do_sub c e \<sigma>) = pend \<sigma> - 1" "adds (do_sub c e \<sigma>) = adds \<sigma>"
  "hits (do_sub c e \<sigma>) = hits \<sigma>" "since (do_sub c e \<sigma>) = since \<sigma>"
  "cells (ist (do_sub c e \<sigma>)) c = cells (ist \<sigma>) c - of_nat (unat e)"
  by (simp_all add: do_sub_def expected_sub_def fetch_sub_def)

text \<open>Between a hit and its correction the counter is ahead by exactly the expected value.\<close>

definition prompt_inv :: "cell \<Rightarrow> u32 \<Rightarrow> inc_state \<Rightarrow> bool" where
  "prompt_inv c e \<sigma> \<longleftrightarrow>
     (\<exists>n < unat e. adds \<sigma> = hits \<sigma> * unat e + n \<and>
        (pend \<sigma> = 0 \<and> cells (ist \<sigma>) c = of_nat n \<or>
         pend \<sigma> = 1 \<and> since \<sigma> = n \<and> cells (ist \<sigma>) c = of_nat (unat e + n)))"

lemma prompt_inv_add:
  assumes inv: "prompt_inv c e \<sigma>" and prompt: "pend \<sigma> = 0 \<or> Suc (since \<sigma>) < unat e"
  shows "prompt_inv c e (do_add c e \<sigma>)"
proof -
  obtain n where n: "n < unat e" "adds \<sigma> = hits \<sigma> * unat e + n"
    and alt: "pend \<sigma> = 0 \<and> cells (ist \<sigma>) c = of_nat n \<or>
              pend \<sigma> = 1 \<and> since \<sigma> = n \<and> cells (ist \<sigma>) c = of_nat (unat e + n)"
    using inv unfolding prompt_inv_def by blast
  from alt show ?thesis
  proof (elim disjE conjE)
    assume a: "pend \<sigma> = 0" "cells (ist \<sigma>) c = of_nat n"
    show ?thesis
    proof (cases "Suc n = unat e")
      case True
      then have "do_add c e \<sigma> = \<lparr>ist = (ist \<sigma>)\<lparr>cells := (cells (ist \<sigma>))(c := of_nat (Suc n))\<rparr>,
           pend = Suc (pend \<sigma>), adds = Suc (adds \<sigma>), hits = Suc (hits \<sigma>), since = 0\<rparr>"
        using n a by (intro do_add_hit) (simp_all add: u32_hit)
      then show ?thesis unfolding prompt_inv_def
        using n a True by (intro exI [of _ 0]) (simp del: of_nat_Suc)
    next
      case False
      then have "do_add c e \<sigma> = \<lparr>ist = (ist \<sigma>)\<lparr>cells := (cells (ist \<sigma>))(c := of_nat (Suc n))\<rparr>,
           pend = pend \<sigma>, adds = Suc (adds \<sigma>), hits = hits \<sigma>, since = Suc (since \<sigma>)\<rparr>"
        using n a by (intro do_add_miss) (simp_all add: u32_hit)
      then show ?thesis unfolding prompt_inv_def
        using n a False by (intro exI [of _ "Suc n"]) (simp del: of_nat_Suc)
    qed
  next
    assume a: "pend \<sigma> = 1" "since \<sigma> = n" "cells (ist \<sigma>) c = of_nat (unat e + n)"
    then have "do_add c e \<sigma> = \<lparr>ist = (ist \<sigma>)\<lparr>cells := (cells (ist \<sigma>))(c := of_nat (Suc (unat e + n)))\<rparr>,
         pend = pend \<sigma>, adds = Suc (adds \<sigma>), hits = hits \<sigma>, since = Suc (since \<sigma>)\<rparr>"
      using n unat_u32_less [of e] by (intro do_add_miss) (simp_all add: u32_past del: of_nat_add)
    then show ?thesis unfolding prompt_inv_def
      using n a prompt by (intro exI [of _ "Suc n"]) (simp del: of_nat_Suc of_nat_add)
  qed
qed

lemma prompt_inv_step: "prompt_step c e \<sigma> \<tau> \<Longrightarrow> prompt_inv c e \<sigma> \<Longrightarrow> prompt_inv c e \<tau>"
proof (induction rule: prompt_step.induct)
  case (prompt_sub \<sigma>)
  then show ?case by (auto simp: prompt_inv_def)
qed (rule prompt_inv_add)

lemma prompt_inv_reach:
  assumes "(prompt_step c e)\<^sup>*\<^sup>* (inc_init s) \<sigma>" "e \<noteq> 0" "cells s c = 0"
  shows "prompt_inv c e \<sigma>"
  using assms
proof (induction rule: rtranclp_induct)
  case base
  then have "0 < unat e" by (intro unat_u32_pos)
  then show ?case using base by (simp add: prompt_inv_def inc_init_def)
qed (auto intro: prompt_inv_step)

text \<open>
  Concurrent workers may interleave the two atomic accesses of \<^verbatim>\<open>inc\<close>. As long as fewer
  than the expected number of additions fall between a hit and its correction, no completion is
  lost or duplicated: the number of \<open>Reached\<close> results is always the number of complete groups of
  receptions, at most one correction is outstanding, and with none outstanding the counter holds the rest.
\<close>

theorem inc_prompt_exact:
  assumes "(prompt_step c e)\<^sup>*\<^sup>* (inc_init s) \<sigma>" "e \<noteq> 0" "cells s c = 0"
  shows "hits \<sigma> = adds \<sigma> div unat e \<and> pend \<sigma> \<le> 1 \<and>
         (pend \<sigma> = 0 \<longrightarrow> cells (ist \<sigma>) c = of_nat (adds \<sigma> mod unat e))"
  using prompt_inv_reach [OF assms] unfolding prompt_inv_def by auto

theorem inc_prompt_exact_witness:
  "hits (do_add 0 2 (do_add 0 2 (inc_init store0))) = 1"
proof -
  let ?\<sigma> = "do_add 0 2 (inc_init store0)"
  have p: "pend (inc_init store0) = 0" "pend ?\<sigma> = 0" "adds (do_add 0 2 ?\<sigma>) = 2"
    by (simp_all add: inc_init_def do_add_def expected_add_def fetch_add_def)
  have "prompt_step 0 2 (inc_init store0) ?\<sigma>" "prompt_step 0 2 ?\<sigma> (do_add 0 2 ?\<sigma>)"
    using p by (auto intro!: prompt_step.prompt_add)
  then have "(prompt_step 0 2)\<^sup>*\<^sup>* (inc_init store0) (do_add 0 2 ?\<sigma>)"
    by (rule converse_rtranclp_into_rtranclp [OF _ r_into_rtranclp])
  from inc_prompt_exact [OF this] show ?thesis using p by simp
qed

text \<open>The schedule that loses completions: a whole group of additions before the correction.\<close>

lemma add_low:
  assumes "cells s c = 0" "k < unat e"
  shows "((do_add c e) ^^ k) (inc_init s) =
           \<lparr>ist = s\<lparr>cells := (cells s)(c := of_nat k)\<rparr>, pend = 0, adds = k, hits = 0, since = k\<rparr>"
  using assms(2)
proof (induction k)
  case 0
  show ?case using assms(1) by (simp add: inc_init_def fun_upd_idem)
next
  case (Suc k)
  then show ?case
    by (simp del: of_nat_Suc, subst do_add_miss [where n = k]) (simp_all add: u32_hit fun_upd_def cong: if_cong del: of_nat_Suc)
qed

lemma add_high:
  assumes "cells s c = 0" "e \<noteq> 0" "k < 2 ^ 32"
  shows "((do_add c e) ^^ (unat e + k)) (inc_init s) =
           \<lparr>ist = s\<lparr>cells := (cells s)(c := of_nat (unat e + k))\<rparr>, pend = 1, adds = unat e + k,
             hits = 1, since = k\<rparr>"
  using assms(3)
proof (induction k)
  case 0
  obtain m where m: "unat e = Suc m"
    using unat_u32_pos [OF assms(2)] gr0_implies_Suc by blast
  show ?case
    by (simp add: m add_low [OF assms(1)] del: of_nat_Suc, subst do_add_hit [where n = m])
      (simp_all add: u32_hit m fun_upd_def cong: if_cong del: of_nat_Suc)
next
  case (Suc k)
  then show ?case
    by (simp del: of_nat_Suc of_nat_add, subst do_add_miss [where n = "unat e + k"])
      (simp_all add: u32_past fun_upd_def cong: if_cong del: of_nat_Suc of_nat_add)
qed

lemma adds_reachable: "(inc_step c e)\<^sup>*\<^sup>* \<sigma> (((do_add c e) ^^ k) \<sigma>)"
  by (induction k) (auto intro: rtranclp.rtrancl_into_rtrancl inc_step.inc_add)

lemma inc_past_run:
  assumes "cells s c = of_nat (unat e)" "k < 2 ^ 32"
  shows "cells (((\<lambda>s. snd (imm_count_inc (Expected c e) s)) ^^ k) s) c = of_nat (unat e + k)"
  using assms(2)
proof (induction k)
  case (Suc k)
  then have "(ucast (of_nat (unat e + k) :: i64) :: u32) + 1 \<noteq> e" by (intro u32_past) simp_all
  then show ?case
    using Suc by (simp add: expected_add_def fetch_add_def Let_def case_prod_beta del: of_nat_add)
qed (simp add: assms(1))



section \<open>Exposed counters\<close>

text \<open>The balance of a counter: receptions minus what was waited for. It never wraps under the bound.\<close>

abbreviation balance :: "counter_event list \<Rightarrow> int" where
  "balance evs \<equiv> int (arrived evs) - int (awaited evs)"

lemma arrived_append [simp]: "arrived (xs @ ys) = arrived xs + arrived ys"
  by (induction xs rule: arrived.induct) simp_all

lemma awaited_append [simp]: "awaited (xs @ ys) = awaited xs + awaited ys"
  by (induction xs rule: awaited.induct) simp_all

lemma of_int_i64_eq_0:
  "- (2 ^ 63) \<le> n \<Longrightarrow> n < 2 ^ 63 \<Longrightarrow> (of_int n :: i64) = 0 \<longleftrightarrow> n = 0"
  by (metis of_int_0 sint_of_int_i64 sint_0)

lemma sint_target [cell_simps]: "sint (ucast (t :: u32) :: i64) = int (unat t)"
  using unat_u32_less [of t] by (simp add: ucast_u32_i64 sint_of_nat_i64 del: of_nat_unat)

lemma gdr_event_cell:
  "cells (gdr_event c f Arrive s) c = cells s c + 1"
  "cells (gdr_event c f (Await t) s) c = cells s c - ucast t"
  by (simp_all add: gdr_add_def fetch_add_def fetch_sub_def store_cell_def set_flag_def)

lemma gdr_balance:
  assumes "cells s c = 0"
  shows "cells (fold (gdr_event c f) evs s) c = of_int (balance evs)"
proof (induction evs rule: rev_induct)
  case (snoc ev evs)
  then show ?case
    by (cases ev) (simp_all add: gdr_event_cell del: gdr_event.simps)
qed (simp add: assms)

lemma imm_balance:
  assumes "cells s c = 0"
  shows "cells (fold (imm_event c) evs s) c = of_int (balance evs)"
proof (induction evs rule: rev_induct)
  case (snoc ev evs)
  then show ?case
    by (cases ev) (simp_all add: fetch_add_def fetch_sub_def)
qed (simp add: assms)

text \<open>
  \<^bold>\<open>C34.\<close> An exposed \<^verbatim>\<open>ImmCounter\<close> is a counting semaphore: after any sequence of receptions and
  waits, a new wait returns at once exactly when the receptions cover everything waited for
  including it, and the spin loop of a waiter ends exactly when they cover everything waited for so far.
\<close>

theorem imm_counter_semaphore:
  assumes "cells s c = 0" "arrived evs + awaited evs + unat t < 2 ^ 62"
  shows "let s' = fold (imm_event c) evs s in
         fst (imm_wait_begin (ImmCounter c) t s') = (awaited evs + unat t \<le> arrived evs) \<and>
         imm_wait_poll (ImmCounter c) s' = (awaited evs \<le> arrived evs)"
proof -
  define s' where "s' = fold (imm_event c) evs s"
  have "sint (cells s' c) = balance evs"
    unfolding s'_def imm_balance [OF assms(1)] using assms(2) by (intro sint_of_int_i64) simp_all
  then show ?thesis
    by (auto simp: Let_def fetch_sub_def cell_simps simp del: of_nat_unat simp flip: s'_def)
qed

theorem imm_counter_semaphore_witness:
  "fst (imm_wait_begin (ImmCounter 0) 1 (fold (imm_event 0) [Arrive, Await 1, Arrive] store0))"
  using imm_counter_semaphore [of store0 0 "[Arrive, Await 1, Arrive]" 1] by (simp add: Let_def)

text \<open>
  An exposed \<^verbatim>\<open>GdrCounter\<close> raises its flag once per wait: with the flag lowered, a
  reception raises it exactly when it is the one that completes what was waited for, and a wait
  raises it exactly when the receptions already cover it.
\<close>

theorem gdr_counter_flag:
  assumes "cells s c = 0" "arrived evs + awaited evs + unat t < 2 ^ 62"
  shows "let s' = set_flag f False (fold (gdr_event c f) evs s) in
         gdr_flags (gdr_event c f Arrive s') f = (Suc (arrived evs) = awaited evs) \<and>
         gdr_flags (gdr_event c f (Await t) s') f = (awaited evs + unat t \<le> arrived evs)"
proof -
  define s' where "s' = set_flag f False (fold (gdr_event c f) evs s)"
  have v: "cells s' c = of_int (balance evs)"
    unfolding s'_def set_flag_def using gdr_balance [OF assms(1)] by simp
  have f: "\<not> gdr_flags s' f" by (simp add: s'_def set_flag_def)
  have "sint (of_int (balance evs) :: i64) = balance evs"
    using assms(2) by (intro sint_of_int_i64) simp_all
  then have "gdr_flags (gdr_event c f (Await t) s') f = (awaited evs + unat t \<le> arrived evs)"
    using v f by (auto simp: fetch_sub_def set_flag_def cell_simps simp del: of_nat_unat)
  moreover have "(of_int (balance evs + 1) :: i64) = 0 \<longleftrightarrow> balance evs + 1 = 0"
    using assms(2) by (intro of_int_i64_eq_0) simp_all
  then have "gdr_flags (gdr_event c f Arrive s') f = (Suc (arrived evs) = awaited evs)"
    using v f by (auto simp: gdr_add_def fetch_add_def store_cell_def set_flag_def)
  ultimately show ?thesis unfolding Let_def s'_def by blast
qed

theorem gdr_counter_flag_witness:
  "gdr_flags (gdr_event 0 5 Arrive
     (set_flag 5 False (fold (gdr_event 0 5) [Arrive, Await 2] store0))) 5"
  using gdr_counter_flag [of store0 0 "[Arrive, Await 2]" 1 5]
  by (simp add: Let_def del: gdr_event.simps)

lemma gdr_run_positive:
  assumes "cells s c = 0" "\<not> gdr_flags s f" "k < 2 ^ 62"
  shows "cells (((\<lambda>s. snd (imm_count_inc (Gdr c f) s)) ^^ k) s) c = of_nat k \<and>
         \<not> gdr_flags (((\<lambda>s. snd (imm_count_inc (Gdr c f) s)) ^^ k) s) f"
  using assms(3)
proof (induction k)
  case (Suc k)
  have "(of_int (int (Suc k)) :: i64) = 0 \<longleftrightarrow> int (Suc k) = 0"
    using Suc.prems by (intro of_int_i64_eq_0) simp_all
  then have "(of_nat k :: i64) + 1 \<noteq> 0" by (simp add: add.commute)
  then show ?case using Suc by (simp add: gdr_add_def fetch_add_def add.commute)
qed (simp add: assms)



end
