(* ===== verification/Pools.thy ===== *)
theory Pools
  imports Fabric_Types "HOL-Library.AList"
begin

text \<open>
  The allocators of fabric-lib: the chunked \<^verbatim>\<open>ObjectPool\<close> that holds write contexts
  (\<^verbatim>\<open>utils/obj_pool.rs\<close>), the fixed \<^verbatim>\<open>MemoryPool\<close> of datagram buffers (\<^verbatim>\<open>utils/memory.rs\<close>) and the
  cache of registered host buffers (\<^verbatim>\<open>host_buffer.rs\<close>). They share one contract, the locale
  \<open>slot_pool\<close>: what is handed out is not in use, and what is returned may be handed out again.
\<close>

section \<open>The contract of a pool\<close>

datatype 'p pool_op = PAlloc | PFree 'p

text \<open>
  A client run over the pool and the set of slots it holds: it only returns what it holds. The
  run lists the slots handed out; a failed allocation leaves the state.
\<close>

fun pool_run :: "('s \<Rightarrow> ('p \<times> 's) option) \<Rightarrow> ('p \<Rightarrow> 's \<Rightarrow> 's) \<Rightarrow> 'p pool_op list \<Rightarrow> 's \<Rightarrow> 'p set
    \<Rightarrow> ('s \<times> 'p set) option" where
  "pool_run alloc fre [] s L = Some (s, L)"
| "pool_run alloc fre (PAlloc # ops) s L =
     (case alloc s of
        None \<Rightarrow> pool_run alloc fre ops s L
      | Some (p, s') \<Rightarrow> if p \<in> L then None else pool_run alloc fre ops s' (insert p L))"
| "pool_run alloc fre (PFree p # ops) s L =
     (if p \<in> L then pool_run alloc fre ops (fre p s) (L - {p}) else pool_run alloc fre ops s L)"

text \<open>\<open>None\<close> would be a slot handed out twice. \<open>alloc_n\<close> allocates \<open>n\<close> slots in a row.\<close>

fun alloc_n :: "('s \<Rightarrow> ('p \<times> 's) option) \<Rightarrow> nat \<Rightarrow> 's \<Rightarrow> ('p list \<times> 's) option" where
  "alloc_n alloc 0 s = Some ([], s)"
| "alloc_n alloc (Suc n) s =
     do { (p, s) \<leftarrow> alloc s; (ps, s) \<leftarrow> alloc_n alloc n s; Some (p # ps, s) }"

section \<open>Object pool\<close>

text \<open>
  A slot is the index of its chunk and its place in it: chunks are separate boxes, so slots of
  different chunks never overlap. \<open>op_chunks\<close> is the number of boxes.
\<close>

record object_pool =
  op_chunks :: nat
  op_chunk_size :: usize
  next_in_last :: usize
  op_free_list :: "slot list"

definition with_chunk_size :: "usize \<Rightarrow> object_pool option" where
  "with_chunk_size chunk_size =
     (if 0 < chunk_size
      then Some \<lparr>op_chunks = 0, op_chunk_size = chunk_size, next_in_last = 0, op_free_list = []\<rparr>
      else None)"

definition alloc_uninit :: "object_pool \<Rightarrow> slot \<times> object_pool" where
  "alloc_uninit p =
     (case vec_pop (op_free_list p) of
        Some (x, rest) \<Rightarrow> (x, p\<lparr>op_free_list := rest\<rparr>)
      | None \<Rightarrow>
          (let p = (if op_chunks p = 0 \<or> next_in_last p = op_chunk_size p
                    then p\<lparr>op_chunks := Suc (op_chunks p), next_in_last := 0\<rparr> else p);
               c = op_chunks p - 1;
               s = next_in_last p
           in ((c, s), p\<lparr>next_in_last := Suc s\<rparr>)))"

text \<open>\<^verbatim>\<open>free_and_drop\<close> runs the destructor of the object and returns the slot; \<^verbatim>\<open>free_no_drop\<close> only returns it.\<close>

definition free_and_drop :: "slot \<Rightarrow> object_pool \<Rightarrow> object_pool" where
  "free_and_drop x p = p\<lparr>op_free_list := op_free_list p @ [x]\<rparr>"

definition free_no_drop :: "slot \<Rightarrow> object_pool \<Rightarrow> object_pool" where
  "free_no_drop x p = p\<lparr>op_free_list := op_free_list p @ [x]\<rparr>"

section \<open>Memory pool\<close>

text \<open>\<open>buffer_ptr\<close> is where the standard allocator placed the buffer.\<close>

record memory_pool =
  mp_chunk_size :: usize
  mp_num_chunks :: usize
  buffer_ptr :: ptr
  buffer_len :: usize
  mp_free_list :: "ptr list"

definition memory_pool_new :: "ptr \<Rightarrow> usize \<Rightarrow> usize \<Rightarrow> memory_pool" where
  "memory_pool_new base chunk_size num_chunks =
     \<lparr>mp_chunk_size = chunk_size, mp_num_chunks = num_chunks, buffer_ptr = base,
      buffer_len = chunk_size * num_chunks,
      mp_free_list = map (\<lambda>i. base + of_nat (i * chunk_size)) [0..<num_chunks]\<rparr>"

definition mp_alloc :: "memory_pool \<Rightarrow> (ptr \<times> memory_pool) option" where
  "mp_alloc p =
     (case vec_pop (mp_free_list p) of
        None \<Rightarrow> None
      | Some (x, rest) \<Rightarrow> Some (x, p\<lparr>mp_free_list := rest\<rparr>))"

definition mp_free :: "ptr \<Rightarrow> memory_pool \<Rightarrow> memory_pool" where
  "mp_free x p = p\<lparr>mp_free_list := mp_free_list p @ [x]\<rparr>"

section \<open>Host buffers\<close>

record host_buffer_entry =
  hbe_ptr :: ptr
  hbe_size :: usize
  hbe_mr_handle :: memory_region_handle

record host_buffer_cache =
  hbc_buffers :: "host_buffer_entry list"
  free_bufs :: "(usize \<times> usize list) list"

record host_buffer =
  hb_index :: usize
  hb_ptr :: ptr
  hb_length :: usize
  hb_mr_handle :: memory_region_handle

text \<open>\<^verbatim>\<open>usize::next_power_of_two\<close>.\<close>

fun next_power_of_two :: "nat \<Rightarrow> nat" where
  "next_power_of_two n = (if n \<le> 1 then 1 else 2 * next_power_of_two ((n + 1) div 2))"

declare next_power_of_two.simps [simp del]

definition hbc_free :: "usize \<Rightarrow> usize \<Rightarrow> host_buffer_cache \<Rightarrow> host_buffer_cache" where
  "hbc_free idx len c =
     c\<lparr>free_bufs := AList.update len
         (List.insert idx (case map_of (free_bufs c) len of None \<Rightarrow> [] | Some es \<Rightarrow> es)) (free_bufs c)\<rparr>"

fun hb_scan :: "usize \<Rightarrow> (usize \<times> usize list) list \<Rightarrow> (usize \<times> usize) option" where
  "hb_scan sz [] = None"
| "hb_scan sz ((allocated_size, entries) # rest) =
     (if allocated_size < sz then hb_scan sz rest
      else case entries of [] \<Rightarrow> hb_scan sz rest | idx # _ \<Rightarrow> Some (allocated_size, idx))"

definition host_buffer_of :: "usize \<Rightarrow> usize \<Rightarrow> host_buffer_entry \<Rightarrow> host_buffer" where
  "host_buffer_of idx len e =
     \<lparr>hb_index = idx, hb_ptr = hbe_ptr e, hb_length = len, hb_mr_handle = hbe_mr_handle e\<rparr>"

text \<open>
  The free map and its sets are hash tables: their iteration order is the parameter \<open>iter\<close>. The
  other parameters are where the standard allocator places a new vector of a size, and the
  registration by the engine. \<open>None\<close> is the panic of an index out of range.
\<close>

definition host_buffer_entry_new ::
    "(usize \<Rightarrow> ptr) \<Rightarrow> (ptr \<Rightarrow> usize \<Rightarrow> device \<Rightarrow> memory_region_handle result) \<Rightarrow> usize
       \<Rightarrow> host_buffer_entry result" where
  "host_buffer_entry_new place register sz =
     (let buf_base = place sz
      in case register buf_base sz Host of
           Inl e \<Rightarrow> Inl e
         | Inr mr \<Rightarrow> Inr \<lparr>hbe_ptr = buf_base, hbe_size = sz, hbe_mr_handle = mr\<rparr>)"

definition allocate ::
    "((usize \<times> usize list) list \<Rightarrow> (usize \<times> usize list) list) \<Rightarrow> (usize \<Rightarrow> ptr)
       \<Rightarrow> (ptr \<Rightarrow> usize \<Rightarrow> device \<Rightarrow> memory_region_handle result) \<Rightarrow> usize \<Rightarrow> host_buffer_cache
       \<Rightarrow> (host_buffer result \<times> host_buffer_cache) option" where
  "allocate iter place register sz c =
     (case hb_scan sz (iter (free_bufs c)) of
        Some (allocated_size, idx) \<Rightarrow>
          do { let c = c\<lparr>free_bufs := AList.map_entry allocated_size (removeAll idx) (free_bufs c)\<rparr>;
               e \<leftarrow> index (hbc_buffers c) idx;
               Some (Inr (host_buffer_of idx allocated_size e), c) }
      | None \<Rightarrow>
          (let sz = next_power_of_two sz;
               idx = length (hbc_buffers c)
           in case host_buffer_entry_new place register sz of
                Inl err \<Rightarrow> Some (Inl err, c)
              | Inr e \<Rightarrow> Some (Inr (host_buffer_of idx sz e), c\<lparr>hbc_buffers := hbc_buffers c @ [e]\<rparr>)))"

definition host_buffer_drop :: "host_buffer \<Rightarrow> host_buffer_cache \<Rightarrow> host_buffer_cache" where
  "host_buffer_drop b c = hbc_free (hb_index b) (hb_length b) c"

text \<open>The result of an allocation as the pool contract sees it.\<close>

definition hb_alloc ::
    "((usize \<times> usize list) list \<Rightarrow> (usize \<times> usize list) list) \<Rightarrow> (usize \<Rightarrow> ptr)
       \<Rightarrow> (ptr \<Rightarrow> usize \<Rightarrow> device \<Rightarrow> memory_region_handle result) \<Rightarrow> usize \<Rightarrow> host_buffer_cache
       \<Rightarrow> (host_buffer \<times> host_buffer_cache) option" where
  "hb_alloc iter place register sz c =
     (case allocate iter place register sz c of
        Some (Inr b, c') \<Rightarrow> Some (b, c') | _ \<Rightarrow> None)"

section \<open>Clients of a pool\<close>

locale slot_pool =
  fixes alloc :: "'s \<Rightarrow> ('p \<times> 's) option"
    and fre :: "'p \<Rightarrow> 's \<Rightarrow> 's"
    and pinv :: "'s \<Rightarrow> 'p set \<Rightarrow> bool"
  assumes alloc_fresh: "pinv s L \<Longrightarrow> alloc s = Some (p, s') \<Longrightarrow> p \<notin> L \<and> pinv s' (insert p L)"
    and free_keeps: "pinv s L \<Longrightarrow> p \<in> L \<Longrightarrow> pinv (fre p s) (L - {p})"
begin

lemma run_safe: "pinv s L \<Longrightarrow> \<exists>s' L'. pool_run alloc fre ops s L = Some (s', L') \<and> pinv s' L'"
proof (induction ops arbitrary: s L)
  case (Cons x ops)
  show ?case
  proof (cases x)
    case PAlloc
    show ?thesis
    proof (cases "alloc s")
      case None
      then show ?thesis using Cons PAlloc by simp
    next
      case (Some r)
      obtain p s' where r: "alloc s = Some (p, s')" using Some by (cases r) simp
      from alloc_fresh [OF Cons.prems r] have "p \<notin> L" "pinv s' (insert p L)" by simp_all
      then show ?thesis using Cons.IH [of s' "insert p L"] PAlloc r by simp
    qed
  next
    case (PFree p)
    then show ?thesis using Cons.IH [of s L] Cons.IH [of "fre p s" "L - {p}"] free_keeps [of s L p] Cons.prems by auto
  qed
qed simp

lemma alloc_n_fresh:
  "pinv s L \<Longrightarrow> alloc_n alloc n s = Some (ps, s') \<Longrightarrow>
   distinct ps \<and> length ps = n \<and> set ps \<inter> L = {} \<and> pinv s' (set ps \<union> L)"
proof (induction n arbitrary: s L ps)
  case (Suc n)
  then obtain p s1 qs where a: "alloc s = Some (p, s1)" "alloc_n alloc n s1 = Some (qs, s')" "ps = p # qs"
    by (auto split: Option.bind_splits)
  have f: "p \<notin> L" "pinv s1 (insert p L)" using alloc_fresh [OF Suc.prems(1) a(1)] by simp_all
  from Suc.IH [OF f(2) a(2)] f(1) a(3) show ?case by auto
qed simp

end

section \<open>The object pool keeps the contract\<close>

definition op_handed_out :: "object_pool \<Rightarrow> slot set" where
  "op_handed_out p =
     {(c, i). c < op_chunks p \<and> i < op_chunk_size p \<and> (Suc c = op_chunks p \<longrightarrow> i < next_in_last p)}"

definition op_inv :: "object_pool \<Rightarrow> slot set \<Rightarrow> bool" where
  "op_inv p L \<longleftrightarrow> 0 < op_chunk_size p \<and> next_in_last p \<le> op_chunk_size p \<and>
     distinct (op_free_list p) \<and> set (op_free_list p) \<inter> L = {} \<and>
     set (op_free_list p) \<union> L = op_handed_out p"

lemma op_inv_new: "with_chunk_size k = Some p \<Longrightarrow> op_inv p {}"
  by (auto simp: with_chunk_size_def op_inv_def op_handed_out_def split: if_splits)

text \<open>Taking the next slot of the last chunk extends the handed-out slots by exactly that one.\<close>

lemma op_bump:
  assumes "0 < op_chunk_size p" "next_in_last p \<le> op_chunk_size p" "op_free_list p = []"
    "alloc_uninit p = (x, p')"
  shows "x \<notin> op_handed_out p \<and> op_handed_out p' = insert x (op_handed_out p) \<and>
         op_chunk_size p' = op_chunk_size p \<and> next_in_last p' \<le> op_chunk_size p \<and> op_free_list p' = []"
proof (cases "op_chunks p = 0 \<or> next_in_last p = op_chunk_size p")
  case True
  then have "x = (op_chunks p, 0)" "p' = p\<lparr>op_chunks := Suc (op_chunks p), next_in_last := Suc 0\<rparr>"
    using assms by (auto simp: alloc_uninit_def vec_pop_def Let_def)
  then show ?thesis using True assms by (auto simp: op_handed_out_def)
next
  case False
  then have "x = (op_chunks p - 1, next_in_last p)" "p' = p\<lparr>next_in_last := Suc (next_in_last p)\<rparr>"
    using assms by (auto simp: alloc_uninit_def vec_pop_def Let_def)
  then show ?thesis using False assms by (auto simp: op_handed_out_def)
qed

lemma op_alloc_inv:
  assumes "op_inv p L" "alloc_uninit p = (x, p')"
  shows "x \<notin> L \<and> op_inv p' (insert x L)"
proof (cases "vec_pop (op_free_list p)")
  case None
  then have "op_free_list p = []" by simp
  then show ?thesis using assms op_bump [of p x p'] by (auto simp: op_inv_def)
next
  case (Some r)
  then obtain rest where "op_free_list p = rest @ [x]" "p' = p\<lparr>op_free_list := rest\<rparr>"
    using assms(2) by (cases r) (auto simp: alloc_uninit_def)
  then show ?thesis using assms(1) by (auto simp: op_inv_def op_handed_out_def)
qed

lemma op_free_inv: "op_inv p L \<Longrightarrow> x \<in> L \<Longrightarrow> op_inv (free_and_drop x p) (L - {x})"
  by (auto simp: op_inv_def op_handed_out_def free_and_drop_def)

interpretation opool: slot_pool "\<lambda>p. Some (alloc_uninit p)" free_and_drop op_inv
  by unfold_locales (auto simp: op_alloc_inv op_free_inv)

section \<open>The memory pool keeps the contract\<close>

definition mp_slots :: "memory_pool \<Rightarrow> ptr set" where
  "mp_slots p = (\<lambda>i. buffer_ptr p + of_nat (i * mp_chunk_size p)) ` {..<mp_num_chunks p}"

definition mp_inv :: "memory_pool \<Rightarrow> ptr set \<Rightarrow> bool" where
  "mp_inv p L \<longleftrightarrow> distinct (mp_free_list p) \<and> set (mp_free_list p) \<inter> L = {} \<and>
     set (mp_free_list p) \<union> L = mp_slots p"

lemma mp_slots_free_list [simp]: "mp_slots (p\<lparr>mp_free_list := xs\<rparr>) = mp_slots p"
  by (simp add: mp_slots_def)

lemma mp_alloc_inv: "mp_inv p L \<Longrightarrow> mp_alloc p = Some (x, p') \<Longrightarrow> x \<notin> L \<and> mp_inv p' (insert x L)"
  by (auto simp: mp_alloc_def mp_inv_def split: option.splits)

lemma mp_free_inv: "mp_inv p L \<Longrightarrow> x \<in> L \<Longrightarrow> mp_inv (mp_free x p) (L - {x})"
  by (auto simp: mp_inv_def mp_free_def)

interpretation mpool: slot_pool mp_alloc mp_free mp_inv
  by unfold_locales (auto simp: mp_alloc_inv mp_free_inv)

text \<open>The chunks do not wrap around the address space, so they are distinct.\<close>

lemma chunk_addr_inj:
  assumes "0 < k" "k * n \<le> 2 ^ 64"
  shows "inj_on (\<lambda>i. (base :: ptr) + of_nat (i * k)) {..<n}"
proof (rule inj_onI)
  fix i j assume ij: "i \<in> {..<n}" "j \<in> {..<n}"
  assume "base + of_nat (i * k) = base + of_nat (j * k)"
  then have "unat (of_nat (i * k) :: ptr) = unat (of_nat (j * k) :: ptr)" by simp
  moreover have "i * k < 2 ^ 64" "j * k < 2 ^ 64"
    using ij assms by (metis lessThan_iff mult.commute mult_less_cancel2 order_less_le_trans)+
  ultimately have "i * k = j * k" by (simp add: unat_of_nat take_bit_nat_eq_self del: of_nat_mult)
  then show "i = j" using assms(1) by simp
qed

lemma mp_inv_new:
  assumes "0 < k" "k * n \<le> 2 ^ 64"
  shows "mp_inv (memory_pool_new base k n) {}"
  using chunk_addr_inj [OF assms]
  by (auto simp: mp_inv_def memory_pool_new_def mp_slots_def distinct_map atLeast0LessThan simp del: of_nat_mult)

section \<open>The host buffer cache keeps the contract\<close>

lemma next_power_of_two_ge: "n \<le> next_power_of_two n"
proof (induction n rule: next_power_of_two.induct)
  case (1 n)
  then show ?case by (cases "n \<le> 1") (auto simp: next_power_of_two.simps [of n])
qed

lemma next_power_of_two_pow: "\<exists>k. next_power_of_two n = 2 ^ k"
proof (induction n rule: next_power_of_two.induct)
  case (1 n)
  show ?case
  proof (cases "n \<le> 1")
    case True
    then show ?thesis by (auto simp: next_power_of_two.simps [of n] intro: exI [of _ 0])
  next
    case False
    then obtain k where "next_power_of_two ((n + 1) div 2) = 2 ^ k" using 1 by blast
    then show ?thesis using False by (auto simp: next_power_of_two.simps [of n] intro: exI [of _ "Suc k"])
  qed
qed

text \<open>
  A live buffer belongs to one registered vector and has its length; a free index is filed under
  the length of its vector, once, and is not live.
\<close>

definition hb_entry_ok :: "host_buffer_cache \<Rightarrow> usize \<Rightarrow> usize \<Rightarrow> bool" where
  "hb_entry_ok c i len \<longleftrightarrow> i < length (hbc_buffers c) \<and> hbe_size (hbc_buffers c ! i) = len"

definition hb_inv :: "host_buffer_cache \<Rightarrow> host_buffer set \<Rightarrow> bool" where
  "hb_inv c L \<longleftrightarrow>
     distinct (map fst (free_bufs c)) \<and>
     (\<forall>len es. (len, es) \<in> set (free_bufs c) \<longrightarrow>
        distinct es \<and> (\<forall>i \<in> set es. hb_entry_ok c i len \<and> i \<notin> hb_index ` L)) \<and>
     (\<forall>b \<in> L. hb_entry_ok c (hb_index b) (hb_length b)) \<and> inj_on hb_index L"

lemma hb_scan_Some:
  "hb_scan sz fb = Some (len, i) \<Longrightarrow> sz \<le> len \<and> (\<exists>es. (len, es) \<in> set fb \<and> i \<in> set es)"
  by (induction sz fb rule: hb_scan.induct) (fastforce split: if_splits list.splits)+

lemma hb_scan_None:
  "hb_scan sz fb = None \<Longrightarrow> (len, es) \<in> set fb \<Longrightarrow> sz \<le> len \<Longrightarrow> es = []"
  by (induction sz fb rule: hb_scan.induct) (auto split: if_splits list.splits)

lemma map_entry_in:
  "distinct (map fst al) \<Longrightarrow> (k', es) \<in> set (AList.map_entry k f al) \<Longrightarrow>
   (k' = k \<and> (\<exists>es0. (k, es0) \<in> set al \<and> es = f es0)) \<or> (k' \<noteq> k \<and> (k', es) \<in> set al)"
  by (induction al) (auto simp: rev_image_eqI split: if_splits)

lemma map_entry_keys: "map fst (AList.map_entry k f al) = map fst al"
  by (induction al) auto

lemma update_in:
  "distinct (map fst al) \<Longrightarrow> (k', es) \<in> set (AList.update k v al) \<Longrightarrow>
   (k' = k \<and> es = v) \<or> (k' \<noteq> k \<and> (k', es) \<in> set al)"
  by (induction al) (auto simp: rev_image_eqI split: if_splits)

lemma hb_inv_take:
  assumes inv: "hb_inv c L" and ok: "hb_entry_ok c i len" and fresh: "i \<notin> hb_index ` L"
    and b: "hb_index b = i" "hb_length b = len"
  shows "hb_inv (c\<lparr>free_bufs := AList.map_entry len (removeAll i) (free_bufs c)\<rparr>) (insert b L)"
proof -
  let ?c = "c\<lparr>free_bufs := AList.map_entry len (removeAll i) (free_bufs c)\<rparr>"
  have ok_eq: "hb_entry_ok ?c j l = hb_entry_ok c j l" for j l by (simp add: hb_entry_ok_def)
  have dist: "distinct (map fst (free_bufs c))" using inv by (simp add: hb_inv_def)
  have files: "distinct es \<and> (\<forall>j \<in> set es. hb_entry_ok c j l \<and> j \<notin> hb_index ` insert b L)"
    if m: "(l, es) \<in> set (free_bufs ?c)" for l es
  proof -
    have "(l, es) \<in> set (AList.map_entry len (removeAll i) (free_bufs c))" using m by simp
    from map_entry_in [OF dist this] obtain es0 where es0: "(l, es0) \<in> set (free_bufs c)"
      "(l = len \<and> es = removeAll i es0) \<or> (l \<noteq> len \<and> es = es0)" by blast
    have old: "distinct es0 \<and> (\<forall>j \<in> set es0. hb_entry_ok c j l \<and> j \<notin> hb_index ` L)"
      using inv es0(1) unfolding hb_inv_def by blast
    have "i \<notin> set es" using es0(2) old ok by (auto simp: hb_entry_ok_def)
    then show ?thesis using es0(2) old b by (auto simp: distinct_removeAll)
  qed
  have "inj_on hb_index (insert b L)" using inv fresh b by (auto simp: hb_inv_def)
  moreover have "\<forall>x \<in> insert b L. hb_entry_ok c (hb_index x) (hb_length x)"
    using inv ok b by (simp add: hb_inv_def)
  ultimately show ?thesis
    using dist files unfolding hb_inv_def ok_eq by (simp add: map_entry_keys)
qed

lemma hb_inv_grow:
  assumes inv: "hb_inv c L" and e: "hbe_size e = hb_length b" "hb_index b = length (hbc_buffers c)"
  shows "hb_inv (c\<lparr>hbc_buffers := hbc_buffers c @ [e]\<rparr>) (insert b L) \<and> hb_index b \<notin> hb_index ` L"
proof -
  let ?c = "c\<lparr>hbc_buffers := hbc_buffers c @ [e]\<rparr>"
  have keep: "hb_entry_ok c j l \<Longrightarrow> hb_entry_ok ?c j l \<and> j \<noteq> hb_index b" for j l
    using e by (auto simp: hb_entry_ok_def nth_append)
  have new: "hb_entry_ok ?c (hb_index b) (hb_length b)" using e by (simp add: hb_entry_ok_def)
  have fresh: "hb_index b \<notin> hb_index ` L" using inv keep unfolding hb_inv_def by fastforce
  have "inj_on hb_index (insert b L)" using inv fresh by (auto simp: hb_inv_def)
  moreover have "\<forall>x \<in> insert b L. hb_entry_ok ?c (hb_index x) (hb_length x)"
    using inv keep new unfolding hb_inv_def by blast
  moreover have "distinct es \<and> (\<forall>j \<in> set es. hb_entry_ok ?c j l \<and> j \<notin> hb_index ` insert b L)"
    if "(l, es) \<in> set (free_bufs c)" for l es
    using that inv keep unfolding hb_inv_def by (metis image_insert insert_iff)
  ultimately show ?thesis using inv fresh unfolding hb_inv_def by simp
qed

lemma hb_inv_drop:
  assumes inv: "hb_inv c L" and b: "b \<in> L"
  shows "hb_inv (host_buffer_drop b c) (L - {b})"
proof -
  let ?old = "case map_of (free_bufs c) (hb_length b) of None \<Rightarrow> [] | Some es \<Rightarrow> es"
  let ?c = "host_buffer_drop b c"
  have c: "free_bufs ?c = AList.update (hb_length b) (List.insert (hb_index b) ?old) (free_bufs c)"
    "hb_entry_ok ?c = hb_entry_ok c"
    by (simp_all add: host_buffer_drop_def hbc_free_def hb_entry_ok_def fun_eq_iff)
  have dist: "distinct (map fst (free_bufs c))" and inj: "inj_on hb_index L"
    and bok: "hb_entry_ok c (hb_index b) (hb_length b)"
    using inv b by (simp_all add: hb_inv_def)
  have notin: "hb_index b \<notin> hb_index ` (L - {b})" using inj b by (auto dest: inj_onD)
  have filed: "distinct es \<and> (\<forall>j \<in> set es. hb_entry_ok c j l \<and> j \<notin> hb_index ` (L - {b}))"
    if "(l, es) \<in> set (free_bufs c)" for l es using that inv unfolding hb_inv_def by blast
  have old: "distinct ?old \<and> (\<forall>j \<in> set ?old. hb_entry_ok c j (hb_length b) \<and> j \<notin> hb_index ` (L - {b}))"
    using filed by (auto split: option.split dest: map_of_SomeD)
  have "distinct es \<and> (\<forall>j \<in> set es. hb_entry_ok c j l \<and> j \<notin> hb_index ` (L - {b}))"
    if "(l, es) \<in> set (free_bufs ?c)" for l es
    using update_in [OF dist that [unfolded c(1)]]
  proof (elim disjE conjE)
    assume "l = hb_length b" "es = List.insert (hb_index b) ?old"
    then show ?thesis using old bok notin by simp
  qed (use filed in blast)
  moreover have "distinct (map fst (free_bufs ?c))" using dist by (simp add: c(1) distinct_update)
  ultimately show ?thesis
    using inv inj unfolding hb_inv_def c(2) by (auto intro: inj_on_diff)
qed

text \<open>What a hash table promises of its iteration: the same keys with the same sets, in some order.\<close>

locale hash_iter =
  fixes iter :: "(usize \<times> usize list) list \<Rightarrow> (usize \<times> usize list) list"
  assumes iter_sound: "(k, es) \<in> set (iter fb) \<Longrightarrow> \<exists>es'. (k, es') \<in> set fb \<and> set es' = set es"
    and iter_complete: "(k, es) \<in> set fb \<Longrightarrow> \<exists>es'. (k, es') \<in> set (iter fb) \<and> set es' = set es"
begin

lemma scan_hit:
  assumes "hb_inv c L" "hb_scan sz (iter (free_bufs c)) = Some (len, i)"
  shows "sz \<le> len \<and> hb_entry_ok c i len \<and> i \<notin> hb_index ` L"
proof -
  obtain es where es: "sz \<le> len" "(len, es) \<in> set (iter (free_bufs c))" "i \<in> set es"
    using hb_scan_Some [OF assms(2)] by blast
  obtain es' where "(len, es') \<in> set (free_bufs c)" "set es' = set es" using iter_sound [OF es(2)] by blast
  then show ?thesis using es assms(1) unfolding hb_inv_def by blast
qed

lemma allocate_ok:
  assumes inv: "hb_inv c L"
  shows "\<exists>r c'. allocate iter place register sz c = Some (r, c') \<and>
           (\<forall>b. r = Inr b \<longrightarrow> sz \<le> hb_length b \<and> hb_index b \<notin> hb_index ` L \<and> hb_inv c' (insert b L)) \<and>
           (\<forall>e. r = Inl e \<longrightarrow> c' = c)"
proof (cases "hb_scan sz (iter (free_bufs c))")
  case None
  show ?thesis
  proof (cases "host_buffer_entry_new place register (next_power_of_two sz)")
    case (Inl e)
    then show ?thesis using None by (simp add: allocate_def)
  next
    case (Inr e)
    let ?b = "host_buffer_of (length (hbc_buffers c)) (next_power_of_two sz) e"
    have "hbe_size e = next_power_of_two sz"
      using Inr by (auto simp: host_buffer_entry_new_def Let_def split: sum.splits)
    then have "hb_inv (c\<lparr>hbc_buffers := hbc_buffers c @ [e]\<rparr>) (insert ?b L) \<and> hb_index ?b \<notin> hb_index ` L"
      by (intro hb_inv_grow [OF inv]) (simp_all add: host_buffer_of_def)
    moreover have "sz \<le> hb_length ?b" by (simp add: host_buffer_of_def next_power_of_two_ge)
    ultimately show ?thesis using None Inr by (simp add: allocate_def)
  qed
next
  case (Some r)
  then obtain len i where s: "hb_scan sz (iter (free_bufs c)) = Some (len, i)" by (cases r) simp
  note hit = scan_hit [OF inv s]
  let ?b = "host_buffer_of i len (hbc_buffers c ! i)"
  let ?c = "c\<lparr>free_bufs := AList.map_entry len (removeAll i) (free_bufs c)\<rparr>"
  have "allocate iter place register sz c = Some (Inr ?b, ?c)"
    using s hit by (simp add: allocate_def index_def hb_entry_ok_def)
  moreover have "hb_inv ?c (insert ?b L)"
    using hit by (intro hb_inv_take [OF inv]) (simp_all add: host_buffer_of_def)
  ultimately show ?thesis using hit by (simp add: host_buffer_of_def)
qed

lemma allocate_reuses:
  assumes "hb_inv c L" "(len, es) \<in> set (free_bufs c)" "es \<noteq> []" "sz \<le> len"
    "allocate iter place register sz c = Some (r, c')"
  shows "hbc_buffers c' = hbc_buffers c"
proof (cases "hb_scan sz (iter (free_bufs c))")
  case None
  obtain es' where "(len, es') \<in> set (iter (free_bufs c))" "set es' = set es"
    using iter_complete [OF assms(2)] by blast
  then show ?thesis using hb_scan_None [OF None _ assms(4)] assms(3) by fastforce
next
  case (Some hit)
  then show ?thesis
    using assms(5) by (cases hit) (auto simp: allocate_def split: Option.bind_splits)
qed

end

sublocale hash_iter \<subseteq> hbp: slot_pool "hb_alloc iter place register sz" host_buffer_drop hb_inv
proof unfold_locales
  fix c L b c'
  assume inv: "hb_inv c L" and a: "hb_alloc iter place register sz c = Some (b, c')"
  then have "allocate iter place register sz c = Some (Inr b, c')"
    by (auto simp: hb_alloc_def split: option.splits sum.splits)
  then show "b \<notin> L \<and> hb_inv c' (insert b L)" using allocate_ok [OF inv, of place register sz] by auto
qed (rule hb_inv_drop)

interpretation hb_list_order: hash_iter "\<lambda>fb. fb"
  by unfold_locales auto

section \<open>Properties\<close>

text \<open>
  \<^bold>\<open>C37.\<close> The object pool never hands out a slot in use: whatever sequence of allocations and
  returns a client makes from a new pool, the run completes, every free or held slot is one
  the pool created, and no free slot is held.
\<close>

theorem object_pool_safe:
  assumes "with_chunk_size k = Some p"
  shows "\<exists>p' L. pool_run (\<lambda>p. Some (alloc_uninit p)) free_and_drop ops p {} = Some (p', L) \<and>
           set (op_free_list p') \<inter> L = {} \<and> set (op_free_list p') \<union> L = op_handed_out p'"
  using opool.run_safe [OF op_inv_new [OF assms], of ops] unfolding op_inv_def by blast

theorem object_pool_safe_witness:
  "\<exists>p' L. pool_run (\<lambda>p. Some (alloc_uninit p)) free_and_drop [PAlloc, PAlloc, PFree (0, 0), PAlloc]
     \<lparr>op_chunks = 0, op_chunk_size = 2, next_in_last = 0, op_free_list = []\<rparr> {} = Some (p', L)"
  using object_pool_safe [of 2 _ "[PAlloc, PAlloc, PFree (0, 0), PAlloc]"]
  unfolding with_chunk_size_def by force

text \<open>
  The memory pool only hands out its own chunks, never one in use, and refuses an
  allocation exactly when all of its chunks are in use.
\<close>

theorem memory_pool_safe:
  assumes "0 < k" "k * n \<le> 2 ^ 64"
  shows "\<exists>p' L. pool_run mp_alloc mp_free ops (memory_pool_new base k n) {} = Some (p', L) \<and>
           L \<subseteq> mp_slots p' \<and> (mp_alloc p' = None \<longleftrightarrow> L = mp_slots p')"
proof -
  have "mp_alloc p' = None \<longleftrightarrow> L = mp_slots p'" if "mp_inv p' L" for p' L
    using that by (auto simp: mp_alloc_def mp_inv_def split: option.split)
  then show ?thesis
    using mpool.run_safe [OF mp_inv_new [OF assms], of ops base] unfolding mp_inv_def by blast
qed

theorem memory_pool_safe_witness:
  "\<exists>p' L. pool_run mp_alloc mp_free [PAlloc, PAlloc, PAlloc] (memory_pool_new 4096 256 2) {} = Some (p', L)"
  using memory_pool_safe [of 256 2 "[PAlloc, PAlloc, PAlloc]" 4096] by auto

text \<open>
  The host buffer allocator never panics; a buffer it returns is at least as long as
  asked for and is not in use by anyone else, a failed registration leaves the cache as it was, and a
  new vector is only registered when no free one is long enough.
\<close>

theorem host_buffer_allocate_ok:
  assumes "hash_iter iter" "hb_inv c L"
  shows "\<exists>r c'. allocate iter place register sz c = Some (r, c') \<and>
           (\<forall>b. r = Inr b \<longrightarrow> sz \<le> hb_length b \<and> hb_index b \<notin> hb_index ` L \<and> hb_inv c' (insert b L)) \<and>
           (\<forall>e. r = Inl e \<longrightarrow> c' = c) \<and>
           ((\<exists>len es. (len, es) \<in> set (free_bufs c) \<and> es \<noteq> [] \<and> sz \<le> len) \<longrightarrow>
              hbc_buffers c' = hbc_buffers c)"
proof -
  obtain r c' where *: "allocate iter place register sz c = Some (r, c')"
    "\<forall>b. r = Inr b \<longrightarrow> sz \<le> hb_length b \<and> hb_index b \<notin> hb_index ` L \<and> hb_inv c' (insert b L)"
    "\<forall>e. r = Inl e \<longrightarrow> c' = c"
    using hash_iter.allocate_ok [OF assms, of place register sz] by blast
  moreover have "(\<exists>len es. (len, es) \<in> set (free_bufs c) \<and> es \<noteq> [] \<and> sz \<le> len) \<longrightarrow>
      hbc_buffers c' = hbc_buffers c"
    using hash_iter.allocate_reuses [OF assms _ _ _ *(1)] by blast
  ultimately show ?thesis by blast
qed

theorem host_buffer_allocate_ok_witness:
  "\<exists>r c'. allocate (\<lambda>fb. fb) (\<lambda>_. 4096) (\<lambda>p _ _. Inr (MemoryRegionHandle p)) 100
     \<lparr>hbc_buffers = [], free_bufs = []\<rparr> = Some (r, c')"
proof -
  have "hb_inv \<lparr>hbc_buffers = [], free_bufs = []\<rparr> {}" by (simp add: hb_inv_def)
  from host_buffer_allocate_ok [OF hb_list_order.hash_iter_axioms this] show ?thesis by blast
qed

end
