(* ===== verification/Addressing.thy ===== *)
theory Addressing
  imports Fabric_Types
begin

text \<open>
  Addresses and their encodings: the hexadecimal form of a \<^verbatim>\<open>DomainAddress\<close> (\<^verbatim>\<open>utils/hex.rs\<close>,
  \<^verbatim>\<open>api.rs\<close>), the 26-byte form of a datagram address (\<^verbatim>\<open>verbs/verbs_address.rs\<close>) and PCI addresses
  and CPU lists (\<^verbatim>\<open>topo.rs\<close>). A \<^verbatim>\<open>&str\<close> is the list of its UTF-8 bytes; slicing it off a character
  boundary panics (\<open>None\<close>).
\<close>

section \<open>Strings and integer parsing of the standard library\<close>

definition continuation_byte :: "char \<Rightarrow> bool" where
  "continuation_byte c = (0x80 \<le> (of_char c :: nat) \<and> (of_char c :: nat) < 0xC0)"

definition is_char_boundary :: "string \<Rightarrow> nat \<Rightarrow> bool" where
  "is_char_boundary s i = (i = 0 \<or> i = length s \<or> i < length s \<and> \<not> continuation_byte (s ! i))"

definition str_slice :: "string \<Rightarrow> nat \<Rightarrow> nat \<Rightarrow> string option" where
  "str_slice s i j =
     (if i \<le> j \<and> j \<le> length s \<and> is_char_boundary s i \<and> is_char_boundary s j
      then Some (take (j - i) (drop i s)) else None)"

definition hex_value :: "char \<Rightarrow> nat option" where
  "hex_value c =
     (let n = (of_char c :: nat) in
      if 48 \<le> n \<and> n \<le> 57 then Some (n - 48)
      else if 97 \<le> n \<and> n \<le> 102 then Some (n - 87)
      else if 65 \<le> n \<and> n \<le> 70 then Some (n - 55)
      else None)"

definition digit_value :: "nat \<Rightarrow> char \<Rightarrow> nat option" where
  "digit_value radix c =
     (case hex_value c of Some v \<Rightarrow> if v < radix then Some v else None | None \<Rightarrow> None)"

fun parse_digits :: "nat \<Rightarrow> nat \<Rightarrow> string \<Rightarrow> nat option" where
  "parse_digits radix acc [] = Some acc"
| "parse_digits radix acc (c # cs) =
     (case digit_value radix c of
        None \<Rightarrow> None
      | Some v \<Rightarrow> parse_digits radix (acc * radix + v) cs)"

text \<open>
  \<^verbatim>\<open>from_str_radix\<close> of an unsigned type of \<open>w\<close> bits: the empty string and a lone sign are errors, one
  leading plus is accepted, any other non-digit or an overflow is an error.
\<close>

definition from_str_radix :: "nat \<Rightarrow> nat \<Rightarrow> string \<Rightarrow> nat option" where
  "from_str_radix w radix s =
     (if s = [] \<or> s = ''+'' \<or> s = ''-'' then None
      else case parse_digits radix 0 (if hd s = CHR ''+'' then tl s else s) of
             None \<Rightarrow> None
           | Some v \<Rightarrow> if v < 2 ^ w then Some v else None)"

text \<open>Lower-case hexadecimal formatting with at least \<open>k\<close> digits, \<^verbatim>\<open>{:0kx}\<close>.\<close>

definition hex_digit :: "nat \<Rightarrow> char" where
  "hex_digit n = char_of (if n < 10 then 48 + n else 87 + n)"

fun hex_digits :: "nat \<Rightarrow> string" where
  "hex_digits n = (if n < 16 then [hex_digit n] else hex_digits (n div 16) @ [hex_digit (n mod 16)])"

declare hex_digits.simps [simp del]

definition fmt_x :: "nat \<Rightarrow> nat \<Rightarrow> string" where
  "fmt_x k n = replicate (k - length (hex_digits n)) (CHR ''0'') @ hex_digits n"

section \<open>Domain addresses\<close>

definition fmt_hex :: "u8 list \<Rightarrow> string" where
  "fmt_hex bytes = concat (map (\<lambda>x. fmt_x 2 (unat x)) bytes)"

text \<open>The loop of \<^verbatim>\<open>from_hex\<close>: \<open>i\<close> steps by two while it is below the length.\<close>

function from_hex_loop :: "string \<Rightarrow> nat \<Rightarrow> u8 list option option" where
  "from_hex_loop s i =
     (if i < length s then
        case str_slice s i (i + 2) of
          None \<Rightarrow> None
        | Some d \<Rightarrow>
            (case from_str_radix 8 16 d of
               None \<Rightarrow> Some None
             | Some v \<Rightarrow> map_option (map_option (\<lambda>bs. of_nat v # bs)) (from_hex_loop s (i + 2)))
      else Some (Some []))"
  by pat_completeness auto
termination by (relation "measure (\<lambda>(s, i). length s - i)") auto

declare from_hex_loop.simps [simp del]

definition from_hex :: "string \<Rightarrow> u8 list option option" where
  "from_hex s = from_hex_loop s 0"

definition domain_address_to_string :: "domain_address \<Rightarrow> string" where
  "domain_address_to_string a = fmt_hex (address_bytes a)"

definition domain_address_from_str :: "string \<Rightarrow> domain_address result option" where
  "domain_address_from_str s =
     (if odd (length s) \<or> s = [] then Some (Inl (Custom ''Invalid address length''))
      else case from_hex s of
             None \<Rightarrow> None
           | Some None \<Rightarrow> Some (Inl (Custom ''Invalid address''))
           | Some (Some bs) \<Rightarrow> Some (Inr (DomainAddress bs)))"

section \<open>Datagram addresses\<close>

datatype gid = Gid (gid_raw: "u8 list")

record verbs_ud_address =
  ud_gid :: gid
  ud_lid :: u16
  ud_qp_num :: u32
  ud_qkey :: u32

record verbs_rc_address =
  rc_gid :: gid
  rc_lid :: u16
  rc_qp_num :: u32
  rc_psn :: u32

definition u16_to_le_bytes :: "u16 \<Rightarrow> u8 list" where
  "u16_to_le_bytes x = [ucast x, ucast (drop_bit 8 x)]"

definition u32_to_le_bytes :: "u32 \<Rightarrow> u8 list" where
  "u32_to_le_bytes x = [ucast x, ucast (drop_bit 8 x), ucast (drop_bit 16 x), ucast (drop_bit 24 x)]"

fun u16_from_le_bytes :: "u8 list \<Rightarrow> u16" where
  "u16_from_le_bytes [a, b] = or (ucast a) (push_bit 8 (ucast b))"
| "u16_from_le_bytes _ = 0"

fun u32_from_le_bytes :: "u8 list \<Rightarrow> u32" where
  "u32_from_le_bytes [a, b, c, d] =
     or (ucast a) (or (push_bit 8 (ucast b)) (or (push_bit 16 (ucast c)) (push_bit 24 (ucast d))))"
| "u32_from_le_bytes _ = 0"

definition BYTES :: nat where
  "BYTES = 26"

definition ud_to_bytes :: "verbs_ud_address \<Rightarrow> u8 list" where
  "ud_to_bytes a =
     gid_raw (ud_gid a) @ u16_to_le_bytes (ud_lid a) @ u32_to_le_bytes (ud_qp_num a)
       @ u32_to_le_bytes (ud_qkey a)"

definition ud_from_bytes :: "u8 list \<Rightarrow> verbs_ud_address option" where
  "ud_from_bytes bytes =
     (if length bytes \<noteq> BYTES then None
      else Some \<lparr>ud_gid = Gid (take 16 bytes),
                 ud_lid = u16_from_le_bytes (take 2 (drop 16 bytes)),
                 ud_qp_num = u32_from_le_bytes (take 4 (drop 18 bytes)),
                 ud_qkey = u32_from_le_bytes (take 4 (drop 22 bytes))\<rparr>)"

definition ud_into_domain_address :: "verbs_ud_address \<Rightarrow> domain_address" where
  "ud_into_domain_address a = DomainAddress (ud_to_bytes a)"

section \<open>PCI addresses\<close>

record pci_address =
  pci_domain :: u16
  pci_bus :: u8
  pci_device :: u8
  pci_function :: u8

definition pci_to_string :: "pci_address \<Rightarrow> string" where
  "pci_to_string a =
     fmt_x 4 (unat (pci_domain a)) @ '':'' @ fmt_x 2 (unat (pci_bus a)) @ '':'' @
     fmt_x 2 (unat (pci_device a)) @ ''.'' @ fmt_x 1 (unat (pci_function a))"

definition get_sys_path :: "pci_address \<Rightarrow> string" where
  "get_sys_path a = ''/sys/bus/pci/devices/'' @
     fmt_x 4 (unat (pci_domain a)) @ '':'' @ fmt_x 2 (unat (pci_bus a)) @ '':'' @
     fmt_x 2 (unat (pci_device a)) @ ''.'' @ fmt_x 1 (unat (pci_function a))"

definition pci_from_str :: "string \<Rightarrow> (string + pci_address) option" where
  "pci_from_str addr =
     (if length addr \<noteq> 12 then Some (Inl ''PCI address must be 12 characters long'')
      else do {
        c1 \<leftarrow> str_slice addr 4 5;
        c2 \<leftarrow> (if c1 = '':'' then str_slice addr 7 8 else Some '''');
        c3 \<leftarrow> (if c1 = '':'' \<and> c2 = '':'' then str_slice addr 10 11 else Some '''');
        if \<not> (c1 = '':'' \<and> c2 = '':'' \<and> c3 = ''.'')
        then Some (Inl ''Invalid PCI address format, expected domain:bus:device.function'')
        else do {
          s1 \<leftarrow> str_slice addr 0 4;
          case from_str_radix 16 16 s1 of None \<Rightarrow> Some (Inl ''Invalid domain'') | Some dmn \<Rightarrow> do {
          s2 \<leftarrow> str_slice addr 5 7;
          case from_str_radix 8 16 s2 of None \<Rightarrow> Some (Inl ''Invalid bus'') | Some bus \<Rightarrow> do {
          s3 \<leftarrow> str_slice addr 8 10;
          case from_str_radix 8 16 s3 of None \<Rightarrow> Some (Inl ''Invalid device'') | Some dev \<Rightarrow> do {
          s4 \<leftarrow> str_slice addr 11 12;
          case from_str_radix 8 16 s4 of None \<Rightarrow> Some (Inl ''Invalid function'') | Some fn \<Rightarrow>
            Some (Inr \<lparr>pci_domain = of_nat dmn, pci_bus = of_nat bus, pci_device = of_nat dev,
                       pci_function = of_nat fn\<rparr>) }}}}})"

section \<open>CPU lists\<close>

text \<open>
  \<^verbatim>\<open>trim\<close> and \<^verbatim>\<open>split\<close> on the ASCII text the kernel writes.
\<close>

definition is_space :: "char \<Rightarrow> bool" where
  "is_space c = ((of_char c :: nat) = 32 \<or> 9 \<le> (of_char c :: nat) \<and> (of_char c :: nat) \<le> 13)"

definition trim :: "string \<Rightarrow> string" where
  "trim s = rev (dropWhile is_space (rev (dropWhile is_space s)))"

fun split_on :: "char \<Rightarrow> string \<Rightarrow> string list" where
  "split_on c [] = [[]]"
| "split_on c (x # xs) =
     (if x = c then [] # split_on c xs
      else case split_on c xs of [] \<Rightarrow> [[x]] | p # ps \<Rightarrow> (x # p) # ps)"

definition parse_u16 :: "string \<Rightarrow> nat option" where
  "parse_u16 s = from_str_radix 16 10 s"

definition parse_part :: "string \<Rightarrow> nat list" where
  "parse_part part =
     (if CHR ''-'' \<in> set part then
        (case (parse_u16 (trim (takeWhile (\<lambda>c. c \<noteq> CHR ''-'') part)),
               parse_u16 (trim (tl (dropWhile (\<lambda>c. c \<noteq> CHR ''-'') part)))) of
           (Some start, Some end_) \<Rightarrow> [start..<Suc end_]
         | _ \<Rightarrow> [])
      else case parse_u16 (trim part) of Some num \<Rightarrow> [num] | None \<Rightarrow> [])"

definition parse_comma_dash_int_list :: "string \<Rightarrow> nat list" where
  "parse_comma_dash_int_list s = concat (map parse_part (split_on (CHR '','') s))"

section \<open>Byte encodings\<close>

lemma u16_le_roundtrip: "u16_from_le_bytes (u16_to_le_bytes x) = x"
  unfolding u16_to_le_bytes_def u16_from_le_bytes.simps
  by (rule bit_word_eqI) (auto simp: bit_simps)

lemma u32_le_roundtrip: "u32_from_le_bytes (u32_to_le_bytes x) = x"
  unfolding u32_to_le_bytes_def u32_from_le_bytes.simps
proof (rule bit_word_eqI)
  fix n assume "n < LENGTH(32)"
  then show "bit (or (ucast (ucast x :: u8)) (or (push_bit 8 (ucast (ucast (drop_bit 8 x) :: u8)))
      (or (push_bit 16 (ucast (ucast (drop_bit 16 x) :: u8)))
        (push_bit 24 (ucast (ucast (drop_bit 24 x) :: u8))))) :: u32) n = bit x n"
    by (cases "24 \<le> n"; cases "16 \<le> n") (auto simp: bit_simps)
qed

lemma u8_bit_high: "8 \<le> n \<Longrightarrow> \<not> bit (a :: u8) n"
  by (auto dest: bit_imp_le_length)

lemma u16_bytes_roundtrip: "length bs = 2 \<Longrightarrow> u16_to_le_bytes (u16_from_le_bytes bs) = bs"
  by (cases bs rule: u16_from_le_bytes.cases)
    (auto simp: u16_to_le_bytes_def intro!: bit_word_eqI simp: bit_simps u8_bit_high)

lemma u32_bytes_roundtrip: "length bs = 4 \<Longrightarrow> u32_to_le_bytes (u32_from_le_bytes bs) = bs"
  by (cases bs rule: u32_from_le_bytes.cases)
    (auto simp: u32_to_le_bytes_def intro!: bit_word_eqI simp: bit_simps u8_bit_high)

definition ud_wf :: "verbs_ud_address \<Rightarrow> bool" where
  "ud_wf a = (length (gid_raw (ud_gid a)) = 16)"

lemma le_bytes_length [simp]: "length (u16_to_le_bytes x) = 2" "length (u32_to_le_bytes y) = 4"
  by (simp_all add: u16_to_le_bytes_def u32_to_le_bytes_def)

lemma take_drop_join: "take n (drop m xs) @ drop (m + n) xs = drop m xs"
  by (metis append_take_drop_id drop_drop add.commute)

text \<open>
  The byte form of a datagram address is a bijection between the addresses with a
  16-byte gid and the 26-byte strings: decoding an encoded address gives it back, encoding a
  decoded one gives the bytes back, and every other length is refused.
\<close>

theorem ud_address_roundtrip:
  "(ud_wf a \<longrightarrow> ud_from_bytes (ud_to_bytes a) = Some a) \<and>
   (\<forall>a. ud_from_bytes bs = Some a \<longrightarrow> ud_wf a \<and> ud_to_bytes a = bs) \<and>
   (ud_from_bytes bs = None \<longleftrightarrow> length bs \<noteq> 26)"
proof (intro conjI impI allI)
  assume wf: "ud_wf a"
  then show "ud_from_bytes (ud_to_bytes a) = Some a"
    by (cases a; cases "ud_gid a")
      (auto simp: ud_from_bytes_def ud_to_bytes_def ud_wf_def BYTES_def u16_le_roundtrip u32_le_roundtrip)
next
  fix a assume dec: "ud_from_bytes bs = Some a"
  then have len: "length bs = 26" by (auto simp: ud_from_bytes_def BYTES_def split: if_splits)
  then show "ud_wf a" using dec by (auto simp: ud_from_bytes_def ud_wf_def BYTES_def)
  have "take 16 bs @ take 2 (drop 16 bs) @ take 4 (drop 18 bs) @ take 4 (drop 22 bs) = bs"
    using len take_drop_join [of 2 16 bs] take_drop_join [of 4 18 bs] by simp
  then show "ud_to_bytes a = bs" using dec len
    by (auto simp: ud_from_bytes_def ud_to_bytes_def BYTES_def u16_bytes_roundtrip u32_bytes_roundtrip)
qed (auto simp: ud_from_bytes_def BYTES_def)

theorem ud_address_roundtrip_witness:
  "ud_from_bytes (ud_to_bytes \<lparr>ud_gid = Gid (replicate 16 1), ud_lid = 2, ud_qp_num = 3, ud_qkey = 4\<rparr>)
     = Some \<lparr>ud_gid = Gid (replicate 16 1), ud_lid = 2, ud_qp_num = 3, ud_qkey = 4\<rparr>"
  using ud_address_roundtrip [THEN conjunct1,
      of "\<lparr>ud_gid = Gid (replicate 16 1), ud_lid = 2, ud_qp_num = 3, ud_qkey = 4\<rparr>"]
  by (simp add: ud_wf_def)

section \<open>Hexadecimal text\<close>

lemma hex_value_digit [simp]: "n < 16 \<Longrightarrow> hex_value (hex_digit n) = Some n"
  by (simp add: hex_value_def hex_digit_def Let_def)

lemma digit_value_hex [simp]: "n < 16 \<Longrightarrow> digit_value 16 (hex_digit n) = Some n"
  by (simp add: digit_value_def)

lemma hex_digit_ascii [simp]: "n < 16 \<Longrightarrow> \<not> continuation_byte (hex_digit n)"
  by (simp add: continuation_byte_def hex_digit_def)

lemma hex_value_sign: "hex_value (CHR ''+'') = None" "hex_value (CHR ''-'') = None"
  by (simp_all add: hex_value_def)

lemma hex_digit_no_sign: "n < 16 \<Longrightarrow> hex_digit n \<noteq> CHR ''+'' \<and> hex_digit n \<noteq> CHR ''-''"
  using hex_value_digit [of n] hex_value_sign by (metis option.distinct(1))

lemma hex_digit_0: "hex_digit 0 = CHR ''0''"
  by code_simp

text \<open>The characters of a formatted number are hexadecimal digits.\<close>

abbreviation hex_char :: "char \<Rightarrow> bool" where
  "hex_char c \<equiv> c \<in> hex_digit ` {..<16}"

lemma hex_digits_chars: "c \<in> set (hex_digits n) \<Longrightarrow> hex_char c"
proof (induction n rule: hex_digits.induct)
  case (1 n)
  then show ?case by (cases "n < 16") (auto simp: hex_digits.simps [of n])
qed

lemma hex_digits_nonempty [simp]: "hex_digits n \<noteq> []"
  by (simp add: hex_digits.simps)

lemma fmt_x_chars: "c \<in> set (fmt_x k n) \<Longrightarrow> hex_char c"
proof -
  assume "c \<in> set (fmt_x k n)"
  then consider "c \<in> set (hex_digits n)" | "c = hex_digit 0"
    by (auto simp: fmt_x_def hex_digit_0 split: if_splits)
  then show ?thesis using hex_digits_chars by cases auto
qed

lemma hex_digits_length: "n < 16 ^ Suc k \<Longrightarrow> length (hex_digits n) \<le> Suc k"
proof (induction k arbitrary: n)
  case 0
  then show ?case by (simp add: hex_digits.simps)
next
  case (Suc k)
  show ?case
  proof (cases "n < 16")
    case False
    have "n div 16 < 16 ^ Suc k" using Suc.prems by (simp add: less_mult_imp_div_less)
    from Suc.IH [OF this] show ?thesis using False by (simp add: hex_digits.simps [of n])
  qed (simp add: hex_digits.simps [of n])
qed

lemma fmt_x_length: "n < 16 ^ Suc k \<Longrightarrow> length (fmt_x (Suc k) n) = Suc k"
  using hex_digits_length [of n k] by (simp add: fmt_x_def)

lemma parse_digits_append:
  "parse_digits r a (xs @ ys) = (case parse_digits r a xs of None \<Rightarrow> None | Some b \<Rightarrow> parse_digits r b ys)"
  by (induction r a xs rule: parse_digits.induct) (auto split: option.split)

lemma parse_hex_digits: "parse_digits 16 0 (hex_digits n) = Some n"
proof (induction n rule: hex_digits.induct)
  case (1 n)
  then show ?case
    by (cases "n < 16") (simp_all add: hex_digits.simps [of n] parse_digits_append)
qed

lemma parse_zeros: "parse_digits 16 0 (replicate k (CHR ''0'') @ s) = parse_digits 16 0 s"
  by (induction k) (simp_all add: digit_value_hex [of 0, unfolded hex_digit_0])

lemma from_str_radix_fmt_x: "n < 2 ^ w \<Longrightarrow> from_str_radix w 16 (fmt_x k n) = Some n"
proof -
  assume n: "n < 2 ^ w"
  have "fmt_x k n \<noteq> []" by (simp add: fmt_x_def)
  then obtain c cs where c: "fmt_x k n = c # cs" by (cases "fmt_x k n") auto
  then have "hex_char c" by (intro fmt_x_chars [of c k n]) simp
  then have "c \<noteq> CHR ''+''" "c \<noteq> CHR ''-''" using hex_digit_no_sign by auto
  moreover have "parse_digits 16 0 (fmt_x k n) = Some n"
    by (simp add: fmt_x_def parse_zeros parse_hex_digits)
  ultimately show ?thesis using n c by (simp add: from_str_radix_def)
qed

lemma from_str_radix_u8: "from_str_radix 8 16 (fmt_x k (unat (x :: u8))) = Some (unat x)"
  by (rule from_str_radix_fmt_x) (use unsigned_less [of x] in simp)

lemma from_str_radix_u16: "from_str_radix 16 16 (fmt_x k (unat (x :: u16))) = Some (unat x)"
  by (rule from_str_radix_fmt_x) (use unsigned_less [of x] in simp)

lemma str_slice_ascii:
  "\<forall>c \<in> set s. \<not> continuation_byte c \<Longrightarrow> i \<le> j \<Longrightarrow> j \<le> length s \<Longrightarrow>
   str_slice s i j = Some (take (j - i) (drop i s))"
  by (auto simp: str_slice_def is_char_boundary_def)

lemma hex_char_ascii: "hex_char c \<Longrightarrow> \<not> continuation_byte c"
  by auto

lemma fmt_x_2_length [simp]: "length (fmt_x 2 (unat (x :: u8))) = 2"
  using fmt_x_length [of "unat x" 1] unsigned_less [of x] by (simp add: numeral_2_eq_2)

lemma fmt_hex_ascii: "c \<in> set (fmt_hex bs) \<Longrightarrow> \<not> continuation_byte c"
  using fmt_x_chars hex_char_ascii by (auto simp: fmt_hex_def)

lemma fmt_hex_length [simp]: "length (fmt_hex bs) = 2 * length bs"
  by (induction bs) (simp_all add: fmt_hex_def)

lemma from_hex_loop_fmt:
  "from_hex_loop (fmt_hex (xs @ ys)) (2 * length xs) = Some (Some ys)"
proof (induction ys arbitrary: xs)
  case Nil
  then show ?case by (subst from_hex_loop.simps) simp
next
  case (Cons y ys)
  let ?s = "fmt_hex (xs @ y # ys)"
  have split: "?s = fmt_hex xs @ fmt_x 2 (unat y) @ fmt_hex ys" by (simp add: fmt_hex_def)
  have "str_slice ?s (2 * length xs) (2 * length xs + 2) = Some (take 2 (drop (2 * length xs) ?s))"
    by (subst str_slice_ascii) (auto dest: fmt_hex_ascii)
  also have "take 2 (drop (2 * length xs) ?s) = fmt_x 2 (unat y)" unfolding split by simp
  finally have "str_slice ?s (2 * length xs) (2 * length xs + 2) = Some (fmt_x 2 (unat y))" .
  moreover have "from_str_radix 8 16 (fmt_x 2 (unat y)) = Some (unat y)" by (rule from_str_radix_u8)
  moreover have "from_hex_loop ?s (2 * length xs + 2) = Some (Some ys)"
    using Cons.IH [of "xs @ [y]"] by simp
  ultimately show ?case by (subst from_hex_loop.simps) simp
qed

text \<open>
  The hexadecimal form of a domain address parses back to the address; only the empty
  address prints to a text the parser refuses.
\<close>

theorem domain_address_roundtrip:
  "domain_address_from_str (domain_address_to_string a) =
     Some (if address_bytes a = [] then Inl (Custom ''Invalid address length'') else Inr a)"
proof (cases "address_bytes a = []")
  case True
  then show ?thesis by (simp add: domain_address_from_str_def domain_address_to_string_def fmt_hex_def)
next
  case False
  have "from_hex (fmt_hex (address_bytes a)) = Some (Some (address_bytes a))"
    using from_hex_loop_fmt [of "[]" "address_bytes a"] by (simp add: from_hex_def)
  moreover have "fmt_hex (address_bytes a) \<noteq> []"
    using False fmt_hex_length [of "address_bytes a"] by fastforce
  ultimately show ?thesis
    using False by (simp add: domain_address_from_str_def domain_address_to_string_def)
qed

text \<open>
  The parser is laxer than the printer and not total: a sign is accepted in place of a
  digit, and a text that is not ASCII makes it panic instead of returning an error.
\<close>

theorem domain_address_from_str_lax:
  "domain_address_from_str ''+f'' = Some (Inr (DomainAddress [15])) \<and>
   domain_address_from_str [CHR ''a'', CHR 0xC3, CHR 0xA9, CHR ''b''] = None"
  by code_simp

section \<open>PCI addresses\<close>

lemma fmt_x_4_length [simp]: "length (fmt_x 4 (unat (x :: u16))) = 4"
  using fmt_x_length [of "unat x" 3] unsigned_less [of x] by simp

lemma hex_digits_long: "16 \<le> n \<Longrightarrow> 2 \<le> length (hex_digits n)"
  using hex_digits_nonempty [of "n div 16"]
  by (simp add: hex_digits.simps [of n] Suc_le_eq del: hex_digits_nonempty)

lemma pci_string_ascii: "c \<in> set (pci_to_string a) \<Longrightarrow> \<not> continuation_byte c"
  using fmt_x_chars hex_char_ascii by (auto simp: pci_to_string_def continuation_byte_def)

lemma pci_string_length:
  "length (pci_to_string a) = 11 + length (fmt_x 1 (unat (pci_function a)))"
  by (simp add: pci_to_string_def)

lemma fmt_x_1_length_iff: "length (fmt_x 1 n) = 1 \<longleftrightarrow> n < 16"
  using fmt_x_length [of n 0] hex_digits_long [of n]
  by (cases "n < 16") (auto simp: fmt_x_def)

lemma pci_slices:
  assumes "pci_to_string a = s" "length s = 12"
  shows "str_slice s 4 5 = Some '':''" "str_slice s 7 8 = Some '':''" "str_slice s 10 11 = Some ''.''"
    "str_slice s 0 4 = Some (fmt_x 4 (unat (pci_domain a)))"
    "str_slice s 5 7 = Some (fmt_x 2 (unat (pci_bus a)))"
    "str_slice s 8 10 = Some (fmt_x 2 (unat (pci_device a)))"
    "str_slice s 11 12 = Some (fmt_x 1 (unat (pci_function a)))"
proof -
  have ascii: "\<forall>c \<in> set s. \<not> continuation_byte c" using pci_string_ascii assms(1) by blast
  have f: "length (fmt_x 1 (unat (pci_function a))) = 1" using pci_string_length [of a] assms by simp
  note s = assms(1) [symmetric, unfolded pci_to_string_def]
  show "str_slice s 4 5 = Some '':''" "str_slice s 7 8 = Some '':''" "str_slice s 10 11 = Some ''.''"
    "str_slice s 0 4 = Some (fmt_x 4 (unat (pci_domain a)))"
    "str_slice s 5 7 = Some (fmt_x 2 (unat (pci_bus a)))"
    "str_slice s 8 10 = Some (fmt_x 2 (unat (pci_device a)))"
    "str_slice s 11 12 = Some (fmt_x 1 (unat (pci_function a)))"
    using assms(2) f by (simp_all add: str_slice_ascii [OF ascii], simp_all add: s)
qed

text \<open>
  A PCI address with a one-digit function parses back from its text; with a larger
  function, which the type allows, its text is refused for its length.
\<close>

theorem pci_address_roundtrip:
  "pci_from_str (pci_to_string a) =
     Some (if unat (pci_function a) < 16 then Inr a
           else Inl ''PCI address must be 12 characters long'')"
proof (cases "unat (pci_function a) < 16")
  case True
  then have len: "length (pci_to_string a) = 12"
    using fmt_x_1_length_iff [of "unat (pci_function a)"] by (simp add: pci_string_length)
  show ?thesis using True 
    by (simp add: pci_from_str_def len pci_slices [OF refl len] from_str_radix_u8 from_str_radix_u16)
next
  case False
  then have "length (pci_to_string a) \<noteq> 12"
    using fmt_x_1_length_iff [of "unat (pci_function a)"] by (simp add: pci_string_length)
  then show ?thesis using False by (simp add: pci_from_str_def)
qed

end
