(* ===== verification/Write_Iter.thy ===== *)
theory Write_Iter
  imports Fabric_Types
begin

text \<open>
  The contract between a domain and the iterator of a write operation, shared by the verbs and
  the EFA provider: an iterator stands for the list of writes still to be posted, peeking shows a
  first part of it, and advancing by the number of writes the network card accepted removes them.
  A domain that posts what it peeks and advances by what was accepted posts every write once,
  in order, however the acceptances fall.
\<close>

section \<open>Byte shards of a scatter target\<close>

text \<open>
  Both providers compute the bytes of a target that one domain writes the same way, in 32 bits:
  the length and the offset of the shard. A zero number of shards is a division panic.
\<close>

definition scatter_len :: "u64 \<Rightarrow> u32 \<Rightarrow> u32 option" where
  "scatter_len len byte_shards = (if byte_shards = 0 then None else Some ((ucast len :: u32) div byte_shards))"

definition scatter_offset :: "u32 \<Rightarrow> u32 \<Rightarrow> u32" where
  "scatter_offset len byte_shard_idx = len * byte_shard_idx"

section \<open>Valid operations\<close>

text \<open>What the constructors of the iterators assert of a paged and of a scatter operation.\<close>

definition paged_op_ok :: "paged_write_op \<Rightarrow> bool" where
  "paged_op_ok op \<longleftrightarrow> pw_page_indices_beg op < pw_page_indices_end op \<and>
     length (pw_src_page_indices op) = length (pw_dst_page_indices op) \<and>
     pw_page_indices_end op \<le> length (pw_src_page_indices op)"

definition scatter_op_ok :: "scatter_group_write_op \<Rightarrow> nat \<Rightarrow> bool" where
  "scatter_op_ok op num_peers \<longleftrightarrow> sg_dst_beg op < sg_dst_end op \<and> sg_dst_end op \<le> length (sg_dsts op) \<and>
     num_peers = length (sg_dsts op)"

text \<open>What the constructor does not check: the shards, and a key of the domain for every target.\<close>

definition scatter_targets_ok :: "scatter_group_write_op \<Rightarrow> bool" where
  "scatter_targets_ok op \<longleftrightarrow> sg_byte_shards op \<noteq> 0 \<and>
     (\<forall>dst \<in> set (sg_dsts op). sg_domain_idx op < length (addr_rkey_list (sc_dst_mr dst)))"

text \<open>A paged operation of six pages, more than the ring holds.\<close>

definition paged_example :: paged_write_op where
  "paged_example = \<lparr>pw_src_page_indices = [0, 1, 2, 3, 4, 5, 6], pw_dst_page_indices = [6, 5, 4, 3, 2, 1, 0],
     pw_page_indices_beg = 1, pw_page_indices_end = 7, pw_length = 64, pw_src_ptr = 4096,
     pw_src_desc = MemoryRegionLocalDescriptor 7, pw_src_stride = 64, pw_src_offset = 0,
     pw_dst_ptr = 8192, pw_dst_rkey = MemoryRegionRemoteKey 9, pw_dst_stride = 128, pw_dst_offset = 16,
     pw_imm_data = None\<rparr>"

definition scatter_example :: scatter_group_write_op where
  "scatter_example = \<lparr>sg_domain_idx = 0, sg_src_ptr = 4096, sg_src_desc = MemoryRegionLocalDescriptor 7,
     sg_imm_data = Some 3,
     sg_dsts = replicate 3 \<lparr>sc_dst_mr = \<lparr>mrd_ptr = 8192, addr_rkey_list = [(DomainAddress [1], MemoryRegionRemoteKey 9)]\<rparr>,
       sc_length = 64, sc_src_offset = 0, sc_dst_offset = 8\<rparr>,
     sg_dst_beg = 1, sg_dst_end = 3, sg_byte_shards = 2, sg_byte_shard_idx = 1\<rparr>"

section \<open>Posting\<close>

text \<open>
  The client's loop, over the numbers of writes the card accepts at each attempt (capped by what
  is shown; zero is a busy card): it returns what was posted and the iterator reached, or \<open>None\<close> on a panic.
\<close>

fun post_run :: "('it \<Rightarrow> 'w list) \<Rightarrow> (nat \<Rightarrow> 'it \<Rightarrow> 'it option) \<Rightarrow> nat list \<Rightarrow> 'it \<Rightarrow> ('w list \<times> 'it) option" where
  "post_run peek advance [] it = Some ([], it)"
| "post_run peek advance (k # ks) it =
     (let items = peek it; n = min k (length items) in
      if n = 0 then post_run peek advance ks it
      else case advance n it of
             None \<Rightarrow> None
           | Some it' \<Rightarrow> map_option (\<lambda>(ws, it'). (take n items @ ws, it')) (post_run peek advance ks it'))"

locale write_iter =
  fixes peek :: "'it \<Rightarrow> 'w list"
    and advance :: "nat \<Rightarrow> 'it \<Rightarrow> 'it option"
    and todo :: "'it \<Rightarrow> 'w list"
    and iok :: "'it \<Rightarrow> bool"
  assumes peek_prefix: "iok it \<Longrightarrow> peek it = take (length (peek it)) (todo it)"
    and peek_progress: "iok it \<Longrightarrow> todo it \<noteq> [] \<Longrightarrow> peek it \<noteq> []"
    and advance_ok: "iok it \<Longrightarrow> 0 < n \<Longrightarrow> n \<le> length (peek it) \<Longrightarrow>
                       \<exists>it'. advance n it = Some it' \<and> iok it' \<and> todo it' = drop n (todo it)"
begin

lemma peek_take: "iok it \<Longrightarrow> n \<le> length (peek it) \<Longrightarrow> take n (peek it) = take n (todo it)"
  by (metis min.absorb1 peek_prefix take_take)

lemma peek_length: "iok it \<Longrightarrow> length (peek it) \<le> length (todo it)"
  by (metis length_take min.cobounded1 peek_prefix)

text \<open>Whatever the card accepts, the writes posted and those left make up the operation.\<close>

lemma post_run_split:
  "iok it \<Longrightarrow> \<exists>ws it'. post_run peek advance ks it = Some (ws, it') \<and> iok it' \<and> todo it = ws @ todo it'"
proof (induction ks arbitrary: it)
  case (Cons k ks)
  define n where "n = min k (length (peek it))"
  have run: "post_run peek advance (k # ks) it =
      (if n = 0 then post_run peek advance ks it
       else case advance n it of
              None \<Rightarrow> None
            | Some it' \<Rightarrow> map_option (\<lambda>(ws, it'). (take n (peek it) @ ws, it')) (post_run peek advance ks it'))"
    by (simp only: post_run.simps Let_def n_def)
  show ?case
  proof (cases "n = 0")
    case True
    then show ?thesis using Cons by (simp add: run del: post_run.simps)
  next
    case False
    obtain it1 where it1: "advance n it = Some it1" "iok it1" "todo it1 = drop n (todo it)"
      using advance_ok [OF Cons.prems, of n] False n_def by auto
    obtain ws it' where r: "post_run peek advance ks it1 = Some (ws, it')" "iok it'" "todo it1 = ws @ todo it'"
      using Cons.IH [OF it1(2)] by blast
    have "take n (peek it) = take n (todo it)" by (rule peek_take [OF Cons.prems]) (simp add: n_def)
    then have "todo it = (take n (peek it) @ ws) @ todo it'"
      using it1(3) r(3) by (metis append.assoc append_take_drop_id)
    then show ?thesis using it1(1) r False by (simp add: run del: post_run.simps)
  qed
qed simp

text \<open>Every attempt on a card that accepts something makes progress, so enough of them post everything.\<close>

lemma post_run_complete:
  "iok it \<Longrightarrow> length (todo it) \<le> length ks \<Longrightarrow> 0 \<notin> set ks \<Longrightarrow>
   \<exists>it'. post_run peek advance ks it = Some (todo it, it') \<and> iok it' \<and> todo it' = []"
proof (induction ks arbitrary: it)
  case (Cons k ks)
  define n where "n = min k (length (peek it))"
  have run: "post_run peek advance (k # ks) it =
      (if n = 0 then post_run peek advance ks it
       else case advance n it of
              None \<Rightarrow> None
            | Some it' \<Rightarrow> map_option (\<lambda>(ws, it'). (take n (peek it) @ ws, it')) (post_run peek advance ks it'))"
    by (simp only: post_run.simps Let_def n_def)
  show ?case
  proof (cases "todo it = []")
    case True
    then have "peek it = []" using peek_length [OF Cons.prems(1)] by simp
    then show ?thesis using Cons.IH [of it] Cons.prems True by (simp add: run n_def del: post_run.simps)
  next
    case False
    then have n: "0 < n" "n \<le> length (peek it)" using peek_progress Cons.prems by (auto simp: n_def)
    obtain it1 where it1: "advance n it = Some it1" "iok it1" "todo it1 = drop n (todo it)"
      using advance_ok [OF Cons.prems(1) n] by blast
    have "length (todo it1) \<le> length ks" using it1(3) n Cons.prems(2) by auto
    then obtain it' where r: "post_run peek advance ks it1 = Some (todo it1, it')" "iok it'" "todo it' = []"
      using Cons.IH [OF it1(2)] Cons.prems(3) by auto
    have "take n (peek it) @ todo it1 = todo it"
      unfolding it1(3) peek_take [OF Cons.prems(1) n(2)] by simp
    then show ?thesis using it1(1) r n by (simp add: run del: post_run.simps)
  qed
qed auto

end

section \<open>Byte shards\<close>

lemma upt_blocks: "concat (map (\<lambda>k. [l * k..<l * k + l]) [0..<n]) = [0..<l * n]" for l n :: nat
proof (induction n)
  case (Suc n)
  then show ?case using upt_split [of 0 "l * n" "l * n + l"] by (simp add: add.commute)
qed simp

text \<open>
  \<^bold>\<open>C39.\<close> The byte shards that the domains of a group write of one scatter target (below 4 GiB)
  are consecutive and disjoint, and cover all its bytes exactly when the number of domains
  divides the length; otherwise the last \<open>length mod byte_shards\<close> bytes are never written.
\<close>

theorem scatter_shards_cover:
  assumes "0 < n" "n < 2 ^ 32" "len < 2 ^ 32"
  shows "\<exists>l. scatter_len (of_nat len) (of_nat n) = Some l \<and>
           concat (map (\<lambda>k. let off = unat (scatter_offset l (of_nat k)) in [off..<off + unat l]) [0..<n]) =
             [0..<n * (len div n)] \<and>
           (n * (len div n) = len \<longleftrightarrow> n dvd len)"
proof -
  let ?l = "(of_nat len :: u32) div of_nat n"
  have un: "unat (of_nat n :: u32) = n" "unat (of_nat len :: u32) = len"
    using assms by (simp_all add: unat_of_nat take_bit_nat_eq_self)
  then have nz: "(of_nat n :: u32) \<noteq> 0" using assms(1) by fastforce
  have l: "unat ?l = len div n" by (simp add: unat_div un)
  have len: "scatter_len (of_nat len) (of_nat n) = Some ?l"
    using nz assms(3) by (simp add: scatter_len_def unsigned_of_nat take_bit_nat_eq_self)
  have off: "unat (scatter_offset ?l (of_nat k)) = (len div n) * k" if "k < n" for k
  proof -
    have "(len div n) * k \<le> (len div n) * n" using that by simp
    also have "\<dots> \<le> len" by (simp add: mult.commute)
    finally have "(len div n) * k < 2 ^ 32" using assms(3) by simp
    moreover have "unat (of_nat k :: u32) = k" using that assms(2) by (simp add: unat_of_nat take_bit_nat_eq_self)
    ultimately show ?thesis by (simp add: scatter_offset_def unat_word_ariths(2) l)
  qed
  have "map (\<lambda>k. let off = unat (scatter_offset ?l (of_nat k)) in [off..<off + unat ?l]) [0..<n]
      = map (\<lambda>k. [(len div n) * k..<(len div n) * k + len div n]) [0..<n]"
    using off l by (simp add: Let_def)
  then have "concat (map (\<lambda>k. let off = unat (scatter_offset ?l (of_nat k)) in [off..<off + unat ?l]) [0..<n])
      = [0..<n * (len div n)]"
    by (simp only: upt_blocks mult.commute [of n])
  moreover have "n * (len div n) = len \<longleftrightarrow> n dvd len" by (metis dvd_mult_div_cancel dvd_triv_left)
  ultimately show ?thesis using len by blast
qed

theorem scatter_shards_cover_witness:
  "\<exists>l. scatter_len (of_nat 10) (of_nat 4) = Some l \<and>
     concat (map (\<lambda>k. let off = unat (scatter_offset l (of_nat k)) in [off..<off + unat l]) [0..<4]) = [0..<8]"
  using scatter_shards_cover [of 4 10] by force

end
