(* ===== verification/Verbs_Ops.thy ===== *)
theory Verbs_Ops
  imports Write_Iter
begin

text \<open>
  \<^verbatim>\<open>verbs/verbs_rdma_op.rs\<close>: the iterators that turn a write operation into chains of at most
  \<open>WR_CHAIN_LEN\<close> work requests in a small ring of buffers owned by the write context. A work
  request carries its scatter element; its \<open>next\<close> pointer is the index of another slot of the ring.
  An uninitialised slot is \<open>None\<close>, and so is reading one.
\<close>

definition WR_CHAIN_LEN :: nat where
  "WR_CHAIN_LEN = 4"

datatype wr_opcode = IBV_WR_RDMA_WRITE | IBV_WR_RDMA_WRITE_WITH_IMM | IBV_WR_SEND

record send_wr =
  wr_id :: op_context
  wr_next :: "nat option"
  num_sge :: nat
  opcode :: wr_opcode
  wr_imm :: u32
  remote_addr :: u64
  wr_rkey :: u32
  sge_addr :: u64
  sge_length :: u32
  sge_lkey :: u32

type_synonym wr_chain_buffer = "send_wr option list"

text \<open>What a post of a chain reads: the work requests from a slot on, until a null pointer.\<close>

fun read_chain :: "nat \<Rightarrow> wr_chain_buffer \<Rightarrow> nat option \<Rightarrow> send_wr list option" where
  "read_chain k buf None = Some []"
| "read_chain 0 buf (Some i) = None"
| "read_chain (Suc k) buf (Some i) =
     do { slot \<leftarrow> index buf i; wr \<leftarrow> slot; ws \<leftarrow> read_chain k buf (wr_next wr); Some (wr # ws) }"

definition opcode_imm :: "u32 option \<Rightarrow> wr_opcode \<times> u32" where
  "opcode_imm imm_data =
     (case imm_data of
        Some imm_data \<Rightarrow> (IBV_WR_RDMA_WRITE_WITH_IMM, imm_data)
      | None \<Rightarrow> (IBV_WR_RDMA_WRITE, 0))"

section \<open>Single writes\<close>

record verbs_single_iter =
  vs_rma_qp :: ptr
  vs_buf :: wr_chain_buffer
  vs_done :: bool

definition verbs_new_single :: "single_write_op \<Rightarrow> ptr \<Rightarrow> wr_chain_buffer \<Rightarrow> op_context \<Rightarrow> verbs_single_iter" where
  "verbs_new_single op rma_qp buf context =
     (let (opcode, imm) = opcode_imm (sw_imm_data op);
          wr = \<lparr>wr_id = context, wr_next = None, num_sge = 1, opcode = opcode, wr_imm = imm,
                remote_addr = sw_dst_ptr op + sw_dst_offset op,
                wr_rkey = ucast (rkey_val (sw_dst_rkey op)),
                sge_addr = sw_src_ptr op + sw_src_offset op,
                sge_length = ucast (sw_length op),
                sge_lkey = ucast (desc_val (sw_src_desc op))\<rparr>
      in \<lparr>vs_rma_qp = rma_qp, vs_buf = buf[0 := Some wr], vs_done = False\<rparr>)"

definition verbs_new_imm :: "imm_write_op \<Rightarrow> ptr \<Rightarrow> wr_chain_buffer \<Rightarrow> op_context \<Rightarrow> verbs_single_iter" where
  "verbs_new_imm op rma_qp buf context =
     (let wr = \<lparr>wr_id = context, wr_next = None, num_sge = 0, opcode = IBV_WR_RDMA_WRITE_WITH_IMM,
                wr_imm = iw_imm_data op, remote_addr = iw_dst_ptr op,
                wr_rkey = ucast (rkey_val (iw_dst_rkey op)),
                sge_addr = 0, sge_length = 0, sge_lkey = 0\<rparr>
      in \<lparr>vs_rma_qp = rma_qp, vs_buf = buf[0 := Some wr], vs_done = False\<rparr>)"

text \<open>A peek gives the queue pair, the first slot of the chain and the length of the chain.\<close>

definition vs_peek :: "verbs_single_iter \<Rightarrow> ptr \<times> nat option \<times> nat" where
  "vs_peek it = (if vs_done it then (vs_rma_qp it, None, 0) else (vs_rma_qp it, Some 0, 1))"

definition vs_mark_done :: "verbs_single_iter \<Rightarrow> verbs_single_iter" where
  "vs_mark_done it = it\<lparr>vs_done := True\<rparr>"

section \<open>Paged writes\<close>

record verbs_paged_iter =
  vp_rma_qp :: ptr
  vp_buf :: wr_chain_buffer
  i_wr_head :: nat
  i_wr_tail :: nat
  wr_len :: nat
  vp_src_page_indices :: "u32 list"
  vp_dst_page_indices :: "u32 list"
  vp_beg :: nat
  vp_end :: nat
  vp_src_ptr :: ptr
  vp_src_stride :: u64
  vp_dst_ptr :: u64
  vp_dst_stride :: u64
  vp_i_page :: nat

definition vp_fill_wr :: "verbs_paged_iter \<Rightarrow> verbs_paged_iter option" where
  "vp_fill_wr it =
     (let prev = (i_wr_tail it + WR_CHAIN_LEN - 1) mod WR_CHAIN_LEN;
          tail = i_wr_tail it;
          buf = (vp_buf it)[prev := map_option (wr_next_update (\<lambda>_. Some tail)) (vp_buf it ! prev)]
      in do {
        slot \<leftarrow> index buf tail;
        wr \<leftarrow> slot;
        src_page_idx \<leftarrow> index (vp_src_page_indices it) (vp_i_page it);
        dst_page_idx \<leftarrow> index (vp_dst_page_indices it) (vp_i_page it);
        let wr = wr\<lparr>wr_next := None,
                    sge_addr := vp_src_ptr it + vp_src_stride it * ucast src_page_idx,
                    remote_addr := vp_dst_ptr it + vp_dst_stride it * ucast dst_page_idx\<rparr>;
        Some (it\<lparr>vp_buf := buf[tail := Some wr], i_wr_tail := (tail + 1) mod WR_CHAIN_LEN,
                 wr_len := wr_len it + 1, vp_i_page := vp_i_page it + 1\<rparr>) })"

text \<open>The loop that fills the ring; each round uses one more page.\<close>

fun vp_fill_loop :: "nat \<Rightarrow> verbs_paged_iter \<Rightarrow> verbs_paged_iter option" where
  "vp_fill_loop 0 it = Some it"
| "vp_fill_loop (Suc k) it =
     (if vp_i_page it < vp_end it \<and> wr_len it < WR_CHAIN_LEN
      then vp_fill_wr it \<bind> vp_fill_loop k
      else Some it)"

definition verbs_paged_new :: "paged_write_op \<Rightarrow> ptr \<Rightarrow> wr_chain_buffer \<Rightarrow> op_context \<Rightarrow> verbs_paged_iter option" where
  "verbs_paged_new op rma_qp buf context =
     (if \<not> (pw_page_indices_beg op < pw_page_indices_end op) then None
      else if length (pw_src_page_indices op) \<noteq> length (pw_dst_page_indices op) then None
      else if \<not> (pw_page_indices_end op \<le> length (pw_src_page_indices op)) then None
      else
        let (opcode, imm) = opcode_imm (pw_imm_data op);
            chain_len = min (pw_page_indices_end op - pw_page_indices_beg op) WR_CHAIN_LEN;
            wr = \<lparr>wr_id = context, wr_next = None, num_sge = 1, opcode = opcode, wr_imm = imm,
                  remote_addr = 0, wr_rkey = ucast (rkey_val (pw_dst_rkey op)),
                  sge_addr = 0, sge_length = ucast (pw_length op),
                  sge_lkey = ucast (desc_val (pw_src_desc op))\<rparr>
        in vp_fill_loop WR_CHAIN_LEN
             \<lparr>vp_rma_qp = rma_qp,
              vp_buf = replicate chain_len (Some wr) @ drop chain_len buf,
              i_wr_head = 0, i_wr_tail = 0, wr_len = 0,
              vp_src_page_indices = pw_src_page_indices op,
              vp_dst_page_indices = pw_dst_page_indices op,
              vp_beg = pw_page_indices_beg op, vp_end = pw_page_indices_end op,
              vp_src_ptr = pw_src_ptr op + pw_src_offset op, vp_src_stride = pw_src_stride op,
              vp_dst_ptr = pw_dst_ptr op + pw_dst_offset op, vp_dst_stride = pw_dst_stride op,
              vp_i_page = pw_page_indices_beg op\<rparr>)"

definition vp_total_ops :: "verbs_paged_iter \<Rightarrow> nat" where
  "vp_total_ops it = vp_end it - vp_beg it"

definition vp_peek :: "verbs_paged_iter \<Rightarrow> ptr \<times> nat option \<times> nat" where
  "vp_peek it = (if wr_len it = 0 then (0, None, 0) else (vp_rma_qp it, Some (i_wr_head it), wr_len it))"

definition vp_advance :: "nat \<Rightarrow> verbs_paged_iter \<Rightarrow> verbs_paged_iter option" where
  "vp_advance n it =
     (if wr_len it < n then None
      else vp_fill_loop WR_CHAIN_LEN
             (it\<lparr>i_wr_head := (i_wr_head it + n) mod WR_CHAIN_LEN, wr_len := wr_len it - n\<rparr>))"

section \<open>Scatter writes\<close>

record verbs_scatter_iter =
  vc_qp_list :: "ptr list"
  vc_buf :: wr_chain_buffer
  vc_domain_idx :: nat
  vc_src_ptr :: ptr
  vc_dsts :: "scatter_target list"
  vc_dst_beg :: nat
  vc_dst_end :: nat
  vc_byte_shards :: u32
  vc_byte_shard_idx :: u32
  vc_i_dst :: nat

definition vc_fill_wr :: "verbs_scatter_iter \<Rightarrow> verbs_scatter_iter option" where
  "vc_fill_wr it = do {
     slot \<leftarrow> index (vc_buf it) 0;
     wr \<leftarrow> slot;
     dst \<leftarrow> index (vc_dsts it) (vc_i_dst it);
     len \<leftarrow> scatter_len (sc_length dst) (vc_byte_shards it);
     let offset = scatter_offset len (vc_byte_shard_idx it);
     ark \<leftarrow> index (addr_rkey_list (sc_dst_mr dst)) (vc_domain_idx it);
     Some (it\<lparr>vc_buf := (vc_buf it)[0 := Some (wr\<lparr>
        sge_addr := vc_src_ptr it + sc_src_offset dst + ucast offset,
        sge_length := len,
        remote_addr := mrd_ptr (sc_dst_mr dst) + sc_dst_offset dst + ucast offset,
        wr_rkey := ucast (rkey_val (snd ark))\<rparr>)]\<rparr>) }"

definition verbs_scatter_new ::
    "scatter_group_write_op \<Rightarrow> ptr list \<Rightarrow> wr_chain_buffer \<Rightarrow> op_context \<Rightarrow> verbs_scatter_iter option" where
  "verbs_scatter_new op qp_list buf context =
     (if \<not> (sg_dst_beg op < sg_dst_end op) then None
      else if \<not> (sg_dst_end op \<le> length (sg_dsts op)) then None
      else if length qp_list \<noteq> length (sg_dsts op) then None
      else
        let (opcode, imm) = opcode_imm (sg_imm_data op);
            wr = \<lparr>wr_id = context, wr_next = None, num_sge = 1, opcode = opcode, wr_imm = imm,
                  remote_addr = 0, wr_rkey = 0, sge_addr = 0, sge_length = 0,
                  sge_lkey = ucast (desc_val (sg_src_desc op))\<rparr>
        in vc_fill_wr
             \<lparr>vc_qp_list = qp_list, vc_buf = buf[0 := Some wr], vc_domain_idx = sg_domain_idx op,
              vc_src_ptr = sg_src_ptr op, vc_dsts = sg_dsts op, vc_dst_beg = sg_dst_beg op,
              vc_dst_end = sg_dst_end op, vc_byte_shards = sg_byte_shards op,
              vc_byte_shard_idx = sg_byte_shard_idx op, vc_i_dst = sg_dst_beg op\<rparr>)"

definition vc_total_ops :: "verbs_scatter_iter \<Rightarrow> nat" where
  "vc_total_ops it = vc_dst_end it - vc_dst_beg it"

definition vc_peek :: "verbs_scatter_iter \<Rightarrow> (ptr \<times> nat option \<times> nat) option" where
  "vc_peek it =
     (if vc_i_dst it = vc_dst_end it then Some (0, None, 0)
      else map_option (\<lambda>qp. (qp, Some 0, 1)) (index (vc_qp_list it) (vc_i_dst it)))"

definition vc_advance_one :: "verbs_scatter_iter \<Rightarrow> verbs_scatter_iter option" where
  "vc_advance_one it =
     (let it = it\<lparr>vc_i_dst := vc_i_dst it + 1\<rparr>
      in if vc_i_dst it \<noteq> vc_dst_end it then vc_fill_wr it else Some it)"

section \<open>The iterator of a write operation\<close>

datatype verbs_iter =
    VSingle verbs_single_iter
  | VPaged verbs_paged_iter
  | VScatter verbs_scatter_iter

fun verbs_total_ops :: "verbs_iter \<Rightarrow> nat" where
  "verbs_total_ops (VSingle _) = 1"
| "verbs_total_ops (VPaged it) = vp_total_ops it"
| "verbs_total_ops (VScatter it) = vc_total_ops it"

fun verbs_peek :: "verbs_iter \<Rightarrow> (ptr \<times> nat option \<times> nat) option" where
  "verbs_peek (VSingle it) = Some (vs_peek it)"
| "verbs_peek (VPaged it) = Some (vp_peek it)"
| "verbs_peek (VScatter it) = vc_peek it"

fun verbs_advance :: "nat \<Rightarrow> verbs_iter \<Rightarrow> verbs_iter option" where
  "verbs_advance n (VSingle it) = (if n = 1 then Some (VSingle (vs_mark_done it)) else None)"
| "verbs_advance n (VPaged it) = map_option VPaged (vp_advance n it)"
| "verbs_advance n (VScatter it) = (if n = 1 then map_option VScatter (vc_advance_one it) else None)"

section \<open>Sends and receives\<close>

definition verbs_fill_send_op :: "send_op \<Rightarrow> op_context \<Rightarrow> send_wr" where
  "verbs_fill_send_op op context =
     \<lparr>wr_id = context, wr_next = None, num_sge = 1, opcode = IBV_WR_SEND, wr_imm = 0,
      remote_addr = 0, wr_rkey = 0, sge_addr = so_ptr op, sge_length = of_nat (so_len op),
      sge_lkey = ucast (desc_val (so_desc op))\<rparr>"

record recv_wr =
  rwr_id :: op_context
  rwr_num_sge :: nat
  rwr_addr :: u64
  rwr_length :: u32
  rwr_lkey :: u32

definition verbs_fill_recv_op :: "recv_op \<Rightarrow> op_context \<Rightarrow> recv_wr" where
  "verbs_fill_recv_op op context =
     \<lparr>rwr_id = context, rwr_num_sge = 1, rwr_addr = ro_ptr op, rwr_length = of_nat (ro_len op),
      rwr_lkey = ucast (desc_val (ro_desc op))\<rparr>"

section \<open>What an iterator stands for\<close>

fun verbs_buf :: "verbs_iter \<Rightarrow> wr_chain_buffer" where
  "verbs_buf (VSingle it) = vs_buf it"
| "verbs_buf (VPaged it) = vp_buf it"
| "verbs_buf (VScatter it) = vc_buf it"

text \<open>The writes shown by a peek: the chain it points at, each with its queue pair.\<close>

definition strip :: "send_wr \<Rightarrow> send_wr" where
  "strip w = w\<lparr>wr_next := None\<rparr>"

definition verbs_items :: "verbs_iter \<Rightarrow> (ptr \<times> send_wr) list" where
  "verbs_items it =
     (case verbs_peek it of
        None \<Rightarrow> []
      | Some (qp, start, n) \<Rightarrow>
          (case read_chain (Suc WR_CHAIN_LEN) (verbs_buf it) start of
             None \<Rightarrow> []
           | Some ws \<Rightarrow> map (\<lambda>w. (qp, strip w)) ws))"

text \<open>The part of a paged work request that does not depend on the page, and the request of a page.\<close>

definition wr_base :: "send_wr \<Rightarrow> send_wr" where
  "wr_base w = w\<lparr>wr_next := None, sge_addr := 0, remote_addr := 0\<rparr>"

definition wr_at :: "send_wr \<Rightarrow> u64 \<Rightarrow> u64 \<Rightarrow> nat option \<Rightarrow> send_wr" where
  "wr_at b src dst nxt = b\<lparr>wr_next := nxt, sge_addr := src, remote_addr := dst\<rparr>"

definition vp_src :: "verbs_paged_iter \<Rightarrow> nat \<Rightarrow> u64" where
  "vp_src it p = vp_src_ptr it + vp_src_stride it * ucast (vp_src_page_indices it ! p)"

definition vp_dst :: "verbs_paged_iter \<Rightarrow> nat \<Rightarrow> u64" where
  "vp_dst it p = vp_dst_ptr it + vp_dst_stride it * ucast (vp_dst_page_indices it ! p)"

text \<open>
  The ring: page \<open>p\<close> lives in slot \<open>(p - beg) mod WR_CHAIN_LEN\<close>; the pages \<open>lo..<hi\<close> are filled and
  chained in order, the last one ending the chain, and every slot that is ever used has its template.
\<close>

definition ring :: "send_wr \<Rightarrow> (nat \<Rightarrow> u64) \<Rightarrow> (nat \<Rightarrow> u64) \<Rightarrow> nat \<Rightarrow> nat \<Rightarrow> wr_chain_buffer \<Rightarrow> nat \<Rightarrow> nat \<Rightarrow> bool" where
  "ring b A B beg tot buf lo hi \<longleftrightarrow> length buf = 4 \<and>
     (\<forall>k < min tot 4. \<exists>w. buf ! k = Some w \<and> wr_base w = b) \<and>
     (\<forall>p. lo \<le> p \<longrightarrow> p < hi \<longrightarrow> buf ! ((p - beg) mod 4) =
        Some (wr_at b (A p) (B p) (if Suc p = hi then None else Some ((Suc p - beg) mod 4))))"

lemma mod4_differs: "0 < d \<Longrightarrow> d < 4 \<Longrightarrow> a mod 4 \<noteq> (a + d) mod (4 :: nat)"
  by (metis add.right_neutral add_diff_cancel_left' le_add1 mod_eq_dvd_iff_nat nat_dvd_not_less)

lemma slot_differs:
  assumes "beg \<le> p" "p < q" "q < p + 4"
  shows "(p - beg) mod 4 \<noteq> (q - beg) mod (4 :: nat)"
proof -
  have "q - beg = (p - beg) + (q - p)" using assms by simp
  then show ?thesis using mod4_differs [of "q - p" "p - beg"] assms by simp
qed

lemma prev_slot: "beg < hi \<Longrightarrow> (hi - beg + 3) mod 4 = (hi - 1 - beg) mod (4 :: nat)"
proof -
  assume "beg < hi"
  then have "hi - beg + 3 = (hi - 1 - beg) + 4" by simp
  then show ?thesis by (metis mod_add_self2)
qed

lemma wr_base_simps [simp]:
  "wr_base (wr_at b x y n) = wr_base b" "wr_base (w\<lparr>wr_next := n\<rparr>) = wr_base w"
  "wr_base (wr_base w) = wr_base w"
  "wr_at (wr_base w) x y n = wr_at w x y n"
  "strip (wr_at b x y n) = wr_at b x y None"
  by (simp_all add: wr_base_def wr_at_def strip_def)

lemma ring_push:
  assumes r: "ring b A B beg tot buf lo hi" and b: "wr_base b = b"
    and "beg \<le> lo" "lo \<le> hi" "hi < beg + tot" "hi < lo + 4"
  defines "t \<equiv> (hi - beg) mod 4"
  defines "q \<equiv> (t + 3) mod 4"
  defines "buf1 \<equiv> buf[q := map_option (wr_next_update (\<lambda>_. Some t)) (buf ! q)]"
  shows "\<exists>w. buf1 ! t = Some w \<and> wr_base w = b \<and>
           ring b A B beg tot (buf1[t := Some (wr_at w (A hi) (B hi) None)]) lo (Suc hi)"
proof -
  have len: "length buf = 4" using r by (simp add: ring_def)
  have t: "t < 4" "t \<le> hi - beg" by (simp_all add: t_def)
  then have tm: "t < min tot 4" using assms(3-6) by simp
  have q: "q < 4" "q \<noteq> t" using mod4_differs [of 3 t] t(1) by (simp_all add: q_def)
  obtain w where w: "buf ! t = Some w" "wr_base w = b" using r tm unfolding ring_def by blast
  have w1: "buf1 ! t = Some w" using w q len by (simp add: buf1_def)
  let ?w = "wr_at w (A hi) (B hi) None"
  have wat: "wr_at w x y n = wr_at b x y n" for x y n using w(2) by (metis wr_base_simps(4))
  let ?buf = "buf1[t := Some ?w]"
  have tmpl: "\<exists>v. ?buf ! k = Some v \<and> wr_base v = b" if k: "k < min tot 4" for k
  proof -
    obtain v where "buf ! k = Some v" "wr_base v = b" using r k unfolding ring_def by blast
    then show ?thesis
      using k len w(2) by (cases "k = t"; cases "k = q") (simp_all add: buf1_def)
  qed
  have filled: "?buf ! ((p - beg) mod 4) =
      Some (wr_at b (A p) (B p) (if Suc p = Suc hi then None else Some ((Suc p - beg) mod 4)))"
    if p: "lo \<le> p" "p < Suc hi" for p
  proof (cases "p = hi")
    case True
    then show ?thesis using len t wat by (simp add: buf1_def flip: t_def)
  next
    case False
    then have p': "lo \<le> p" "p < hi" using p by simp_all
    have nt: "(p - beg) mod 4 \<noteq> t" unfolding t_def using p' assms(3,6) by (intro slot_differs) simp_all
    have old: "buf ! ((p - beg) mod 4) =
        Some (wr_at b (A p) (B p) (if Suc p = hi then None else Some ((Suc p - beg) mod 4)))"
      using r p' unfolding ring_def by blast
    have qp: "q = (hi - 1 - beg) mod 4"
      unfolding q_def t_def using p' assms(3) prev_slot [of beg hi] by (simp add: mod_add_left_eq)
    show ?thesis
    proof (cases "Suc p = hi")
      case True
      then have "(p - beg) mod 4 = q" using qp by auto
      moreover have "t = (Suc p - beg) mod 4" using True by (simp add: t_def)
      ultimately show ?thesis using old True nt len q by (simp add: buf1_def wr_at_def)
    next
      case False
      then have "(p - beg) mod 4 \<noteq> q" unfolding qp using p' assms(3,6) by (intro slot_differs) simp_all
      then show ?thesis using old False \<open>p \<noteq> hi\<close> nt by (simp add: buf1_def)
    qed
  qed
  have "ring b A B beg tot ?buf lo (Suc hi)"
    unfolding ring_def using tmpl filled len by (simp add: buf1_def)
  then show ?thesis using w1 w(2) by blast
qed

text \<open>Reading the chain from any filled page gives the requests of the pages from there on.\<close>

lemma read_ring:
  assumes r: "ring b A B beg tot buf lo hi"
  shows "lo \<le> p \<Longrightarrow> p \<le> hi \<Longrightarrow> hi - p \<le> k \<Longrightarrow>
    \<exists>ws. read_chain k buf (if p = hi then None else Some ((p - beg) mod 4)) = Some ws \<and>
         map strip ws = map (\<lambda>q. wr_at b (A q) (B q) None) [p..<hi]"
proof (induction k arbitrary: p)
  case (Suc k)
  show ?case
  proof (cases "p = hi")
    case False
    then have p: "p < hi" using Suc.prems by simp
    let ?w = "wr_at b (A p) (B p) (if Suc p = hi then None else Some ((Suc p - beg) mod 4))"
    obtain ws where ws: "read_chain k buf (if Suc p = hi then None else Some ((Suc p - beg) mod 4)) = Some ws"
      "map strip ws = map (\<lambda>q. wr_at b (A q) (B q) None) [Suc p..<hi]"
    proof -
      have "lo \<le> Suc p" "Suc p \<le> hi" "hi - Suc p \<le> k" using Suc.prems p by simp_all
      from Suc.IH [OF this] that show ?thesis by blast
    qed
    have "index buf ((p - beg) mod 4) = Some (Some ?w)"
      using r Suc.prems(1) p unfolding ring_def by simp
    moreover have "wr_next ?w = (if Suc p = hi then None else Some ((Suc p - beg) mod 4))"
      by (simp add: wr_at_def)
    ultimately have "read_chain (Suc k) buf (Some ((p - beg) mod 4)) = Some (?w # ws)"
      using ws(1) by simp
    then show ?thesis using ws(2) p by (simp add: upt_conv_Cons)
  qed simp
qed simp

section \<open>Paged iterators\<close>

definition vp_inv :: "send_wr \<Rightarrow> verbs_paged_iter \<Rightarrow> bool" where
  "vp_inv b it \<longleftrightarrow> wr_base b = b \<and> vp_beg it + wr_len it \<le> vp_i_page it \<and>
     vp_i_page it \<le> vp_end it \<and> vp_beg it < vp_end it \<and> wr_len it \<le> 4 \<and>
     vp_end it \<le> length (vp_src_page_indices it) \<and>
     length (vp_src_page_indices it) = length (vp_dst_page_indices it) \<and>
     i_wr_head it = (vp_i_page it - wr_len it - vp_beg it) mod 4 \<and>
     i_wr_tail it = (vp_i_page it - vp_beg it) mod 4 \<and>
     ring b (vp_src it) (vp_dst it) (vp_beg it) (vp_end it - vp_beg it) (vp_buf it)
       (vp_i_page it - wr_len it) (vp_i_page it)"

definition vp_todo :: "send_wr \<Rightarrow> verbs_paged_iter \<Rightarrow> (ptr \<times> send_wr) list" where
  "vp_todo b it = map (\<lambda>p. (vp_rma_qp it, wr_at b (vp_src it p) (vp_dst it p) None))
     [vp_i_page it - wr_len it..<vp_end it]"

lemma vp_addr_update [simp]:
  "vp_src (it\<lparr>vp_buf := x, i_wr_tail := t, wr_len := n, vp_i_page := i\<rparr>) = vp_src it"
  "vp_dst (it\<lparr>vp_buf := x, i_wr_tail := t, wr_len := n, vp_i_page := i\<rparr>) = vp_dst it"
  "vp_src (it\<lparr>i_wr_head := t, wr_len := n\<rparr>) = vp_src it"
  "vp_dst (it\<lparr>i_wr_head := t, wr_len := n\<rparr>) = vp_dst it"
  by (simp_all add: vp_src_def vp_dst_def fun_eq_iff)

lemma vp_fill_wr_inv:
  assumes inv: "vp_inv b it" and more: "vp_i_page it < vp_end it" "wr_len it < 4"
  shows "\<exists>it'. vp_fill_wr it = Some it' \<and> vp_inv b it' \<and> vp_todo b it' = vp_todo b it \<and>
           wr_len it' = Suc (wr_len it) \<and> vp_end it' = vp_end it \<and> vp_beg it' = vp_beg it \<and>
           vp_i_page it' = Suc (vp_i_page it)"
proof -
  let ?hi = "vp_i_page it" and ?lo = "vp_i_page it - wr_len it"
  define t where "t = i_wr_tail it"
  have t: "t = (?hi - vp_beg it) mod 4" "t < 4" using inv by (simp_all add: t_def vp_inv_def)
  define buf1 where "buf1 = (vp_buf it)[(t + 3) mod 4 := map_option (wr_next_update (\<lambda>_. Some t))
      (vp_buf it ! ((t + 3) mod 4))]"
  have pre: "ring b (vp_src it) (vp_dst it) (vp_beg it) (vp_end it - vp_beg it) (vp_buf it) ?lo ?hi"
    "wr_base b = b" "vp_beg it \<le> ?lo" "?lo \<le> ?hi" "?hi < vp_beg it + (vp_end it - vp_beg it)" "?hi < ?lo + 4"
    using inv more by (auto simp: vp_inv_def)
  obtain w where w: "buf1 ! t = Some w" "wr_base w = b"
    and ring: "ring b (vp_src it) (vp_dst it) (vp_beg it) (vp_end it - vp_beg it)
      (buf1[t := Some (wr_at w (vp_src it ?hi) (vp_dst it ?hi) None)]) ?lo (Suc ?hi)"
    using ring_push [OF pre] unfolding buf1_def t(1) by blast
  have len: "length buf1 = 4" using inv by (simp add: buf1_def vp_inv_def ring_def)
  let ?it = "it\<lparr>vp_buf := buf1[t := Some (wr_at w (vp_src it ?hi) (vp_dst it ?hi) None)],
     i_wr_tail := (t + 1) mod 4, wr_len := wr_len it + 1, vp_i_page := ?hi + 1\<rparr>"
  have idx: "index (vp_src_page_indices it) ?hi = Some (vp_src_page_indices it ! ?hi)"
    "index (vp_dst_page_indices it) ?hi = Some (vp_dst_page_indices it ! ?hi)"
    using inv more by (simp_all add: vp_inv_def)
  have slot: "index buf1 t = Some (Some w)" using w t(2) len by simp
  have "vp_fill_wr it = Some ?it"
    unfolding vp_fill_wr_def WR_CHAIN_LEN_def Let_def t_def [symmetric]
    using slot idx by (simp add: buf1_def [symmetric] vp_src_def vp_dst_def wr_at_def add.commute)
  moreover have "vp_inv b ?it"
    using inv more ring unfolding vp_inv_def
    by (simp add: t(1) mod_Suc_eq Suc_diff_le)
  ultimately show ?thesis by (intro exI [of _ ?it]) (simp add: vp_todo_def)
qed

text \<open>After the fill loop the ring is full or the pages are used up.\<close>

definition vp_ok :: "send_wr \<Rightarrow> verbs_paged_iter \<Rightarrow> bool" where
  "vp_ok b it \<longleftrightarrow> vp_inv b it \<and> (wr_len it = 4 \<or> vp_i_page it = vp_end it)"

lemma vp_fill_loop_inv:
  "vp_inv b it \<Longrightarrow> 4 - wr_len it \<le> k \<Longrightarrow>
   \<exists>it'. vp_fill_loop k it = Some it' \<and> vp_ok b it' \<and> vp_todo b it' = vp_todo b it \<and>
         vp_total_ops it' = vp_total_ops it"
proof (induction k arbitrary: it)
  case 0
  then have "wr_len it = 4" by (simp add: vp_inv_def)
  then show ?case using 0 by (simp add: vp_ok_def)
next
  case (Suc k)
  show ?case
  proof (cases "vp_i_page it < vp_end it \<and> wr_len it < 4")
    case True
    then obtain it1 where it1: "vp_fill_wr it = Some it1" "vp_inv b it1" "vp_todo b it1 = vp_todo b it"
      "wr_len it1 = Suc (wr_len it)" "vp_end it1 = vp_end it" "vp_beg it1 = vp_beg it"
      using vp_fill_wr_inv [OF Suc.prems(1)] by blast
    have "4 - wr_len it1 \<le> k" using it1(4) Suc.prems(2) by simp
    from Suc.IH [OF it1(2) this] show ?thesis
      using True it1 by (simp add: WR_CHAIN_LEN_def vp_total_ops_def)
  next
    case False
    then have "vp_ok b it" using Suc.prems by (auto simp: vp_ok_def vp_inv_def)
    moreover have "vp_fill_loop (Suc k) it = Some it" using False by (auto simp: WR_CHAIN_LEN_def)
    ultimately show ?thesis by blast
  qed
qed

lemma vp_advance_ok:
  assumes ok: "vp_ok b it" and n: "n \<le> wr_len it"
  shows "\<exists>it'. vp_advance n it = Some it' \<and> vp_ok b it' \<and> vp_todo b it' = drop n (vp_todo b it) \<and>
           vp_total_ops it' = vp_total_ops it"
proof -
  let ?it = "it\<lparr>i_wr_head := (i_wr_head it + n) mod 4, wr_len := wr_len it - n\<rparr>"
  have inv: "vp_inv b it" using ok by (simp add: vp_ok_def)
  have lo: "vp_i_page it - (wr_len it - n) = vp_i_page it - wr_len it + n"
    using inv n by (simp add: vp_inv_def)
  have "vp_i_page it - wr_len it + n - vp_beg it = vp_i_page it - wr_len it - vp_beg it + n"
    using inv by (simp add: vp_inv_def)
  then have "vp_inv b ?it"
    using inv n unfolding vp_inv_def ring_def by (auto simp: lo mod_add_left_eq)
  moreover have "vp_todo b ?it = drop n (vp_todo b it)"
    by (simp add: vp_todo_def lo drop_map)
  ultimately show ?thesis
    using vp_fill_loop_inv [of b ?it 4] n by (simp add: vp_advance_def WR_CHAIN_LEN_def vp_total_ops_def)
qed

text \<open>The request of page \<open>p\<close> of a paged operation, straight from the operation.\<close>

definition paged_wr_spec :: "paged_write_op \<Rightarrow> op_context \<Rightarrow> nat \<Rightarrow> send_wr" where
  "paged_wr_spec op context p =
     \<lparr>wr_id = context, wr_next = None, num_sge = 1, opcode = fst (opcode_imm (pw_imm_data op)),
      wr_imm = snd (opcode_imm (pw_imm_data op)),
      remote_addr = pw_dst_ptr op + pw_dst_offset op + pw_dst_stride op * ucast (pw_dst_page_indices op ! p),
      wr_rkey = ucast (rkey_val (pw_dst_rkey op)),
      sge_addr = pw_src_ptr op + pw_src_offset op + pw_src_stride op * ucast (pw_src_page_indices op ! p),
      sge_length = ucast (pw_length op), sge_lkey = ucast (desc_val (pw_src_desc op))\<rparr>"

lemma verbs_paged_new_ok:
  assumes op: "paged_op_ok op" and buf: "length buf = 4"
  shows "\<exists>b it. verbs_paged_new op qp buf context = Some it \<and> vp_ok b it \<and>
           vp_todo b it = map (\<lambda>p. (qp, paged_wr_spec op context p))
             [pw_page_indices_beg op..<pw_page_indices_end op] \<and>
           vp_total_ops it = pw_page_indices_end op - pw_page_indices_beg op"
proof -
  let ?m = "min (pw_page_indices_end op - pw_page_indices_beg op) 4"
  define w where "w = \<lparr>wr_id = context, wr_next = None, num_sge = 1, opcode = fst (opcode_imm (pw_imm_data op)),
     wr_imm = snd (opcode_imm (pw_imm_data op)), remote_addr = 0, wr_rkey = ucast (rkey_val (pw_dst_rkey op)),
     sge_addr = 0, sge_length = ucast (pw_length op), sge_lkey = ucast (desc_val (pw_src_desc op))\<rparr>"
  define it where "it = \<lparr>vp_rma_qp = qp, vp_buf = replicate ?m (Some w) @ drop ?m buf,
     i_wr_head = 0, i_wr_tail = 0, wr_len = 0, vp_src_page_indices = pw_src_page_indices op,
     vp_dst_page_indices = pw_dst_page_indices op,
     vp_beg = pw_page_indices_beg op, vp_end = pw_page_indices_end op,
     vp_src_ptr = pw_src_ptr op + pw_src_offset op, vp_src_stride = pw_src_stride op,
     vp_dst_ptr = pw_dst_ptr op + pw_dst_offset op, vp_dst_stride = pw_dst_stride op,
     vp_i_page = pw_page_indices_beg op\<rparr>"
  have new: "verbs_paged_new op qp buf context = vp_fill_loop 4 it"
    using op by (simp add: verbs_paged_new_def paged_op_ok_def WR_CHAIN_LEN_def case_prod_beta Let_def it_def w_def)
  have "vp_inv w it"
    using op buf by (auto simp: vp_inv_def it_def w_def wr_base_def ring_def paged_op_ok_def nth_append)
  moreover have "vp_todo w it = map (\<lambda>p. (qp, paged_wr_spec op context p))
      [pw_page_indices_beg op..<pw_page_indices_end op]"
    by (simp add: vp_todo_def it_def w_def wr_at_def paged_wr_spec_def vp_src_def vp_dst_def)
  moreover have "vp_total_ops it = pw_page_indices_end op - pw_page_indices_beg op"
    by (simp add: vp_total_ops_def it_def)
  ultimately show ?thesis using vp_fill_loop_inv [of w it 4] new by auto
qed

lemma vp_items:
  assumes "vp_ok b it"
  shows "verbs_items (VPaged it) = take (wr_len it) (vp_todo b it) \<and> wr_len it \<le> length (vp_todo b it)"
proof -
  let ?lo = "vp_i_page it - wr_len it" and ?hi = "vp_i_page it"
  have inv: "vp_inv b it" using assms by (simp add: vp_ok_def)
  obtain ws where ws: "read_chain 5 (vp_buf it) (if ?lo = ?hi then None else Some ((?lo - vp_beg it) mod 4)) = Some ws"
    "map strip ws = map (\<lambda>q. wr_at b (vp_src it q) (vp_dst it q) None) [?lo..<?hi]"
    using read_ring [of b "vp_src it" "vp_dst it" "vp_beg it" "vp_end it - vp_beg it" "vp_buf it" ?lo ?hi ?lo 5]
      inv unfolding vp_inv_def by auto
  have eq: "?lo = ?hi \<longleftrightarrow> wr_len it = 0" "i_wr_head it = (?lo - vp_beg it) mod 4" "wr_len it \<le> ?hi"
    "?lo + wr_len it = ?hi" "?hi \<le> vp_end it"
    using inv by (auto simp: vp_inv_def)
  have "take (wr_len it) (vp_todo b it) =
      map (\<lambda>p. (vp_rma_qp it, wr_at b (vp_src it p) (vp_dst it p) None)) [?lo..<?hi]"
    using eq by (simp add: vp_todo_def take_map take_upt)
  moreover have "verbs_items (VPaged it) = map (Pair (vp_rma_qp it)) (map strip ws)"
    using ws(1) eq by (cases "wr_len it = 0") (auto simp: verbs_items_def vp_peek_def WR_CHAIN_LEN_def)
  ultimately show ?thesis using ws(2) eq by (simp add: vp_todo_def)
qed

section \<open>Scatter iterators\<close>

text \<open>The request for target \<open>i\<close>, from the template in the first slot.\<close>

definition vc_wr :: "verbs_scatter_iter \<Rightarrow> send_wr \<Rightarrow> nat \<Rightarrow> send_wr" where
  "vc_wr it w i =
     (let dst = vc_dsts it ! i;
          len = (ucast (sc_length dst) :: u32) div vc_byte_shards it;
          offset = scatter_offset len (vc_byte_shard_idx it)
      in w\<lparr>sge_addr := vc_src_ptr it + sc_src_offset dst + ucast offset, sge_length := len,
           remote_addr := mrd_ptr (sc_dst_mr dst) + sc_dst_offset dst + ucast offset,
           wr_rkey := ucast (rkey_val (snd (addr_rkey_list (sc_dst_mr dst) ! vc_domain_idx it)))\<rparr>)"

definition vc_wf :: "verbs_scatter_iter \<Rightarrow> bool" where
  "vc_wf it \<longleftrightarrow> vc_dst_end it \<le> length (vc_dsts it) \<and> length (vc_qp_list it) = length (vc_dsts it) \<and>
     vc_byte_shards it \<noteq> 0 \<and>
     (\<forall>i < vc_dst_end it. vc_domain_idx it < length (addr_rkey_list (sc_dst_mr (vc_dsts it ! i))))"

definition vc_ok :: "verbs_scatter_iter \<Rightarrow> bool" where
  "vc_ok it \<longleftrightarrow> vc_wf it \<and> vc_i_dst it \<le> vc_dst_end it \<and> 0 < length (vc_buf it) \<and>
     (\<exists>w. vc_buf it ! 0 = Some w \<and> wr_next w = None \<and>
        (vc_i_dst it < vc_dst_end it \<longrightarrow> w = vc_wr it w (vc_i_dst it)))"

definition vc_todo :: "verbs_scatter_iter \<Rightarrow> (ptr \<times> send_wr) list" where
  "vc_todo it = map (\<lambda>i. (vc_qp_list it ! i, vc_wr it (the (vc_buf it ! 0)) i)) [vc_i_dst it..<vc_dst_end it]"

lemma vc_wr_update [simp]:
  "vc_wr (it\<lparr>vc_buf := b\<rparr>) = vc_wr it" "vc_wr (it\<lparr>vc_i_dst := i\<rparr>) = vc_wr it"
  "vc_wf (it\<lparr>vc_buf := b\<rparr>) = vc_wf it" "vc_wf (it\<lparr>vc_i_dst := i\<rparr>) = vc_wf it"
  by (simp_all add: fun_eq_iff vc_wr_def vc_wf_def)

lemma vc_wr_wr [simp]: "vc_wr it (vc_wr it w i) j = vc_wr it w j" "wr_next (vc_wr it w i) = wr_next w"
  by (simp_all add: vc_wr_def Let_def)

lemma vc_fill_wr_eq:
  assumes "vc_wf it" "vc_i_dst it < vc_dst_end it" "0 < length (vc_buf it)" "vc_buf it ! 0 = Some w"
  shows "vc_fill_wr it = Some (it\<lparr>vc_buf := (vc_buf it)[0 := Some (vc_wr it w (vc_i_dst it))]\<rparr>)"
proof -
  have "vc_i_dst it < length (vc_dsts it)" "vc_byte_shards it \<noteq> 0"
    "vc_domain_idx it < length (addr_rkey_list (sc_dst_mr (vc_dsts it ! vc_i_dst it)))"
    using assms(1,2) by (auto simp: vc_wf_def)
  then show ?thesis
    using assms(3,4) by (simp add: vc_fill_wr_def vc_wr_def scatter_len_def Let_def)
qed

lemma vc_fill_wr_ok:
  assumes "vc_wf it" "vc_i_dst it < vc_dst_end it" "0 < length (vc_buf it)" "vc_buf it ! 0 = Some w"
    "wr_next w = None"
  shows "\<exists>it'. vc_fill_wr it = Some it' \<and> vc_ok it' \<and> vc_todo it' = vc_todo it \<and> vc_total_ops it' = vc_total_ops it"
  unfolding vc_fill_wr_eq [OF assms(1-4)]
  using assms by (simp add: vc_ok_def vc_todo_def vc_total_ops_def)

lemma vc_advance_ok:
  assumes ok: "vc_ok it" and more: "vc_i_dst it < vc_dst_end it"
  shows "\<exists>it'. vc_advance_one it = Some it' \<and> vc_ok it' \<and> vc_todo it' = drop 1 (vc_todo it) \<and>
           vc_total_ops it' = vc_total_ops it"
proof -
  let ?it = "it\<lparr>vc_i_dst := vc_i_dst it + 1\<rparr>"
  obtain w where w: "vc_buf it ! 0 = Some w" "wr_next w = None" "0 < length (vc_buf it)" "vc_wf it"
    using ok by (auto simp: vc_ok_def)
  have todo: "vc_todo ?it = drop 1 (vc_todo it)" by (simp add: vc_todo_def drop_map)
  show ?thesis
  proof (cases "vc_i_dst ?it < vc_dst_end ?it")
    case True
    then show ?thesis
      using vc_fill_wr_ok [of ?it w] w todo
      by (simp add: vc_advance_one_def Let_def vc_total_ops_def)
  next
    case False
    then have "Suc (vc_i_dst it) = vc_dst_end it" using more by simp
    then show ?thesis using w todo by (simp add: vc_advance_one_def vc_ok_def vc_total_ops_def)
  qed
qed

lemma read_chain_one:
  "0 < length buf \<Longrightarrow> buf ! 0 = Some w \<Longrightarrow> wr_next w = None \<Longrightarrow> read_chain (Suc k) buf (Some 0) = Some [w]"
  by (cases k) simp_all

lemma vc_items:
  assumes "vc_ok it"
  shows "verbs_items (VScatter it) = take 1 (vc_todo it)"
proof (cases "vc_i_dst it < vc_dst_end it")
  case True
  obtain w where w: "vc_buf it ! 0 = Some w" "wr_next w = None" "0 < length (vc_buf it)"
    "w = vc_wr it w (vc_i_dst it)" "vc_i_dst it < length (vc_qp_list it)"
    using assms True by (auto simp: vc_ok_def vc_wf_def)
  then have "strip w = w" by (simp add: strip_def)
  then show ?thesis
    using True w by (simp add: verbs_items_def vc_peek_def vc_todo_def upt_conv_Cons read_chain_one)
next
  case False
  then have "vc_i_dst it = vc_dst_end it" using assms by (simp add: vc_ok_def)
  then show ?thesis by (simp add: verbs_items_def vc_peek_def vc_todo_def)
qed

section \<open>The contract of the verbs iterators\<close>

fun verbs_ok :: "verbs_iter \<Rightarrow> bool" where
  "verbs_ok (VSingle it) = (0 < length (vs_buf it) \<and> (\<exists>w. vs_buf it ! 0 = Some w \<and> wr_next w = None))"
| "verbs_ok (VPaged it) = (\<exists>b. vp_ok b it)"
| "verbs_ok (VScatter it) = vc_ok it"

fun verbs_todo :: "verbs_iter \<Rightarrow> (ptr \<times> send_wr) list" where
  "verbs_todo (VSingle it) = (if vs_done it then [] else [(vs_rma_qp it, the (vs_buf it ! 0))])"
| "verbs_todo (VPaged it) = vp_todo (wr_base (the (vp_buf it ! 0))) it"
| "verbs_todo (VScatter it) = vc_todo it"

lemma vp_base_unique: "vp_inv b it \<Longrightarrow> wr_base (the (vp_buf it ! 0)) = b"
  unfolding vp_inv_def ring_def by (metis min_less_iff_conj option.sel zero_less_diff zero_less_numeral)

lemma verbs_todo_paged: "vp_ok b it \<Longrightarrow> verbs_todo (VPaged it) = vp_todo b it"
  using vp_base_unique [of b it] by (simp add: vp_ok_def)

lemma vs_items: "verbs_ok (VSingle it) \<Longrightarrow> verbs_items (VSingle it) = verbs_todo (VSingle it)"
  by (auto simp: verbs_items_def vs_peek_def strip_def read_chain_one)

interpretation vit: write_iter verbs_items verbs_advance verbs_todo verbs_ok
proof unfold_locales
  fix it assume ok: "verbs_ok it"
  then show "verbs_items it = take (length (verbs_items it)) (verbs_todo it)"
  proof (cases it)
    case (VPaged p)
    then show ?thesis using ok vp_items verbs_todo_paged by fastforce
  next
    case (VScatter c)
    then show ?thesis using ok vc_items [of c] by (cases "vc_todo c") simp_all
  qed (simp add: vs_items del: verbs_todo.simps(1))
next
  fix it assume ok: "verbs_ok it" "verbs_todo it \<noteq> []"
  then show "verbs_items it \<noteq> []"
  proof (cases it)
    case (VPaged p)
    then obtain b where b: "vp_ok b p" using ok by auto
    then have "0 < wr_len p" using ok(2) VPaged verbs_todo_paged [OF b] by (auto simp: vp_ok_def vp_todo_def)
    then show ?thesis using vp_items [OF b] VPaged by auto
  qed (auto simp: vs_items vc_items simp del: verbs_todo.simps(1) verbs_ok.simps(1))
next
  fix it n assume ok: "verbs_ok it" and n: "0 < n" "n \<le> length (verbs_items it)"
  show "\<exists>it'. verbs_advance n it = Some it' \<and> verbs_ok it' \<and> verbs_todo it' = drop n (verbs_todo it)"
  proof (cases it)
    case (VSingle s)
    then have "n = 1" "\<not> vs_done s" using ok n vs_items [of s] by (auto split: if_splits)
    then show ?thesis using VSingle ok by (simp add: vs_mark_done_def)
  next
    case (VPaged p)
    then obtain b where b: "vp_ok b p" using ok by auto
    have "n \<le> wr_len p" using n vp_items [OF b] VPaged by auto
    from vp_advance_ok [OF b this] show ?thesis using VPaged verbs_todo_paged b by fastforce
  next
    case (VScatter c)
    then have c: "vc_ok c" "verbs_items it = take 1 (vc_todo c)" using ok vc_items by auto
    then have "n = 1" "vc_todo c \<noteq> []" using n by auto
    then have "vc_i_dst c < vc_dst_end c" by (simp add: vc_todo_def)
    from vc_advance_ok [OF c(1) this] show ?thesis using VScatter \<open>n = 1\<close> by auto
  qed
qed

section \<open>Properties\<close>

text \<open>
  \<^bold>\<open>C38.\<close> A paged write is posted completely and in order. From a valid operation the
  constructor returns an iterator that counts its pages, and for every sequence of non-zero
  acceptances by the card, long enough, the chains read from the ring add up to exactly the
  requests of the pages, in order, on the peer's queue pair. An invalid operation panics.
\<close>

theorem verbs_paged_posts_all:
  assumes buf: "length buf = 4"
  shows "(paged_op_ok op \<longrightarrow>
            (\<exists>it. verbs_paged_new op qp buf context = Some it \<and>
               verbs_total_ops (VPaged it) = pw_page_indices_end op - pw_page_indices_beg op \<and>
               (\<forall>ks. 0 \<notin> set ks \<longrightarrow> verbs_total_ops (VPaged it) \<le> length ks \<longrightarrow>
                  (\<exists>it'. post_run verbs_items verbs_advance ks (VPaged it) =
                     Some (map (\<lambda>p. (qp, paged_wr_spec op context p))
                             [pw_page_indices_beg op..<pw_page_indices_end op], it'))))) \<and>
         (\<not> paged_op_ok op \<longrightarrow> verbs_paged_new op qp buf context = None)"
proof (intro conjI impI)
  assume "paged_op_ok op"
  from verbs_paged_new_ok [OF this buf] obtain b it where
    new: "verbs_paged_new op qp buf context = Some it" "vp_ok b it"
    and todo: "verbs_todo (VPaged it) = map (\<lambda>p. (qp, paged_wr_spec op context p))
                 [pw_page_indices_beg op..<pw_page_indices_end op]"
    and tot: "vp_total_ops it = pw_page_indices_end op - pw_page_indices_beg op"
    using verbs_todo_paged by metis
  have "\<exists>it'. post_run verbs_items verbs_advance ks (VPaged it) = Some (verbs_todo (VPaged it), it')"
    if "0 \<notin> set ks" "verbs_total_ops (VPaged it) \<le> length ks" for ks
    using vit.post_run_complete [of "VPaged it" ks] that new(2) todo tot by auto
  then show "\<exists>it. verbs_paged_new op qp buf context = Some it \<and>
      verbs_total_ops (VPaged it) = pw_page_indices_end op - pw_page_indices_beg op \<and>
      (\<forall>ks. 0 \<notin> set ks \<longrightarrow> verbs_total_ops (VPaged it) \<le> length ks \<longrightarrow>
         (\<exists>it'. post_run verbs_items verbs_advance ks (VPaged it) =
            Some (map (\<lambda>p. (qp, paged_wr_spec op context p))
                    [pw_page_indices_beg op..<pw_page_indices_end op], it')))"
    using new(1) todo tot by auto
next
  assume "\<not> paged_op_ok op"
  then show "verbs_paged_new op qp buf context = None"
    by (auto simp: verbs_paged_new_def paged_op_ok_def)
qed

theorem verbs_paged_posts_all_witness:
  "\<exists>it it'. verbs_paged_new paged_example 5 (replicate 4 None) (CtxWrite (0, 1)) = Some it \<and>
     post_run verbs_items verbs_advance [3, 1, 4, 1, 1, 1] (VPaged it) =
       Some (map (\<lambda>p. (5, paged_wr_spec paged_example (CtxWrite (0, 1)) p)) [1..<7], it')"
proof -
  have "length (replicate 4 None :: wr_chain_buffer) = 4" by simp
  from verbs_paged_posts_all [OF this, of paged_example 5 "CtxWrite (0, 1)", THEN conjunct1]
  obtain it where it: "verbs_paged_new paged_example 5 (replicate 4 None) (CtxWrite (0, 1)) = Some it"
    "verbs_total_ops (VPaged it) = 6"
    "\<forall>ks. 0 \<notin> set ks \<longrightarrow> verbs_total_ops (VPaged it) \<le> length ks \<longrightarrow>
       (\<exists>it'. post_run verbs_items verbs_advance ks (VPaged it) =
          Some (map (\<lambda>p. (5, paged_wr_spec paged_example (CtxWrite (0, 1)) p)) [1..<7], it'))"
    by (auto simp: paged_op_ok_def paged_example_def)
  from it(3) [rule_format, of "[3, 1, 4, 1, 1, 1]"] it(1,2) show ?thesis by auto
qed

text \<open>The request of target \<open>i\<close> of a scatter operation, straight from the operation.\<close>

definition scatter_wr_spec :: "scatter_group_write_op \<Rightarrow> op_context \<Rightarrow> nat \<Rightarrow> send_wr" where
  "scatter_wr_spec op context i =
     (let dst = sg_dsts op ! i;
          len = (ucast (sc_length dst) :: u32) div sg_byte_shards op;
          offset = scatter_offset len (sg_byte_shard_idx op)
      in \<lparr>wr_id = context, wr_next = None, num_sge = 1, opcode = fst (opcode_imm (sg_imm_data op)),
          wr_imm = snd (opcode_imm (sg_imm_data op)),
          remote_addr = mrd_ptr (sc_dst_mr dst) + sc_dst_offset dst + ucast offset,
          wr_rkey = ucast (rkey_val (snd (addr_rkey_list (sc_dst_mr dst) ! sg_domain_idx op))),
          sge_addr = sg_src_ptr op + sc_src_offset dst + ucast offset,
          sge_length = len, sge_lkey = ucast (desc_val (sg_src_desc op))\<rparr>)"

lemma verbs_scatter_new_ok:
  assumes op: "scatter_op_ok op (length qps)" "scatter_targets_ok op" and buf: "0 < length buf"
  shows "\<exists>it. verbs_scatter_new op qps buf context = Some it \<and> vc_ok it \<and>
           vc_todo it = map (\<lambda>i. (qps ! i, scatter_wr_spec op context i)) [sg_dst_beg op..<sg_dst_end op] \<and>
           vc_total_ops it = sg_dst_end op - sg_dst_beg op"
proof -
  define w where "w = \<lparr>wr_id = context, wr_next = None, num_sge = 1, opcode = fst (opcode_imm (sg_imm_data op)),
     wr_imm = snd (opcode_imm (sg_imm_data op)), remote_addr = 0, wr_rkey = 0, sge_addr = 0, sge_length = 0,
     sge_lkey = ucast (desc_val (sg_src_desc op))\<rparr>"
  define it where "it = \<lparr>vc_qp_list = qps, vc_buf = buf[0 := Some w], vc_domain_idx = sg_domain_idx op,
     vc_src_ptr = sg_src_ptr op, vc_dsts = sg_dsts op, vc_dst_beg = sg_dst_beg op,
     vc_dst_end = sg_dst_end op, vc_byte_shards = sg_byte_shards op,
     vc_byte_shard_idx = sg_byte_shard_idx op, vc_i_dst = sg_dst_beg op\<rparr>"
  have new: "verbs_scatter_new op qps buf context = vc_fill_wr it"
    using op(1) by (simp add: verbs_scatter_new_def scatter_op_ok_def case_prod_beta Let_def it_def w_def)
  have wf: "vc_wf it" using op by (simp add: vc_wf_def it_def scatter_op_ok_def scatter_targets_ok_def)
  have "vc_todo it = map (\<lambda>i. (qps ! i, scatter_wr_spec op context i)) [sg_dst_beg op..<sg_dst_end op]"
    using buf by (simp add: vc_todo_def it_def w_def vc_wr_def scatter_wr_spec_def Let_def)
  moreover have "vc_total_ops it = sg_dst_end op - sg_dst_beg op" by (simp add: vc_total_ops_def it_def)
  moreover have "vc_i_dst it < vc_dst_end it" "0 < length (vc_buf it)" "vc_buf it ! 0 = Some w" "wr_next w = None"
    using op buf by (simp_all add: it_def w_def scatter_op_ok_def)
  ultimately show ?thesis using vc_fill_wr_ok [OF wf] new by metis
qed

text \<open>
  A scatter write is posted completely and in order: every target of the range gets
  one request on its own queue pair, with the key of the domain and the byte shard of the
  operation, for every sequence of non-zero acceptances that is long enough. A range or a peer
  list that does not fit the targets panics.
\<close>

theorem verbs_scatter_posts_all:
  assumes "0 < length buf"
  shows "(scatter_op_ok op (length qps) \<longrightarrow> scatter_targets_ok op \<longrightarrow>
            (\<exists>it. verbs_scatter_new op qps buf context = Some it \<and>
               verbs_total_ops (VScatter it) = sg_dst_end op - sg_dst_beg op \<and>
               (\<forall>ks. 0 \<notin> set ks \<longrightarrow> verbs_total_ops (VScatter it) \<le> length ks \<longrightarrow>
                  (\<exists>it'. post_run verbs_items verbs_advance ks (VScatter it) =
                     Some (map (\<lambda>i. (qps ! i, scatter_wr_spec op context i)) [sg_dst_beg op..<sg_dst_end op], it'))))) \<and>
         (\<not> scatter_op_ok op (length qps) \<longrightarrow> verbs_scatter_new op qps buf context = None)"
proof (intro conjI impI)
  assume op: "scatter_op_ok op (length qps)" "scatter_targets_ok op"
  from verbs_scatter_new_ok [OF op assms, of "context"] obtain it where
    new: "verbs_scatter_new op qps buf context = Some it" "vc_ok it"
    and todo: "vc_todo it = map (\<lambda>i. (qps ! i, scatter_wr_spec op context i)) [sg_dst_beg op..<sg_dst_end op]"
    and tot: "vc_total_ops it = sg_dst_end op - sg_dst_beg op" by blast
  have "\<exists>it'. post_run verbs_items verbs_advance ks (VScatter it) = Some (vc_todo it, it')"
    if "0 \<notin> set ks" "verbs_total_ops (VScatter it) \<le> length ks" for ks
    using vit.post_run_complete [of "VScatter it" ks] that new(2) todo tot by auto
  then show "\<exists>it. verbs_scatter_new op qps buf context = Some it \<and>
      verbs_total_ops (VScatter it) = sg_dst_end op - sg_dst_beg op \<and>
      (\<forall>ks. 0 \<notin> set ks \<longrightarrow> verbs_total_ops (VScatter it) \<le> length ks \<longrightarrow>
         (\<exists>it'. post_run verbs_items verbs_advance ks (VScatter it) =
            Some (map (\<lambda>i. (qps ! i, scatter_wr_spec op context i)) [sg_dst_beg op..<sg_dst_end op], it')))"
    using new(1) todo tot by auto
next
  assume "\<not> scatter_op_ok op (length qps)"
  then show "verbs_scatter_new op qps buf context = None"
    by (auto simp: verbs_scatter_new_def scatter_op_ok_def)
qed

theorem verbs_scatter_posts_all_witness:
  "\<exists>it it'. verbs_scatter_new scatter_example [5, 6, 7] (replicate 4 None) (CtxWrite (0, 1)) = Some it \<and>
     post_run verbs_items verbs_advance [1, 2] (VScatter it) =
       Some (map (\<lambda>i. ([5, 6, 7] ! i, scatter_wr_spec scatter_example (CtxWrite (0, 1)) i)) [1..<3], it')"
proof -
  have "0 < length (replicate 4 None :: wr_chain_buffer)" by simp
  from verbs_scatter_posts_all [OF this, of scatter_example "[5, 6, 7]" "CtxWrite (0, 1)", THEN conjunct1]
  obtain it where it: "verbs_scatter_new scatter_example [5, 6, 7] (replicate 4 None) (CtxWrite (0, 1)) = Some it"
    "verbs_total_ops (VScatter it) = 2"
    "\<forall>ks. 0 \<notin> set ks \<longrightarrow> verbs_total_ops (VScatter it) \<le> length ks \<longrightarrow>
       (\<exists>it'. post_run verbs_items verbs_advance ks (VScatter it) =
          Some (map (\<lambda>i. ([5, 6, 7] ! i, scatter_wr_spec scatter_example (CtxWrite (0, 1)) i)) [1..<3], it'))"
    by (auto simp: scatter_op_ok_def scatter_targets_ok_def scatter_example_def)
  from it(3) [rule_format, of "[1, 2]"] it(1,2) show ?thesis by auto
qed

end
