(* ===== verification/Efa_Ops.thy ===== *)
theory Efa_Ops
  imports Write_Iter
begin

text \<open>
  \<^verbatim>\<open>efa/efa_rdma_op.rs\<close>: the iterators that turn a write operation into libfabric RMA messages,
  one at a time, in the buffer of the write context. The message carries its source vector and
  its remote vector. Remote addresses are offsets into the target region.
\<close>

datatype fi_addr = FI_ADDR_UNSPEC | FiAddr u64
datatype fi_flags = NoFlags | FI_REMOTE_CQ_DATA

record rma_msg =
  iov_base :: ptr
  iov_len :: nat
  iov_count :: nat
  m_desc :: u64
  m_addr :: fi_addr
  rma_addr :: u64
  rma_len :: nat
  rma_key :: u64
  m_context :: op_context
  m_data :: u64

type_synonym rma_buffer = "rma_msg option"

definition flags_imm :: "u32 option \<Rightarrow> u64 \<times> fi_flags" where
  "flags_imm imm_data =
     (case imm_data of
        Some imm_data \<Rightarrow> (ucast imm_data, FI_REMOTE_CQ_DATA)
      | None \<Rightarrow> (0, NoFlags))"

section \<open>Single writes\<close>

record efa_single_iter =
  es_buf :: rma_buffer
  es_flags :: fi_flags
  es_done :: bool

definition efa_new_single :: "single_write_op \<Rightarrow> fi_addr \<Rightarrow> op_context \<Rightarrow> efa_single_iter" where
  "efa_new_single op addr context =
     (let (imm, flags) = flags_imm (sw_imm_data op)
      in \<lparr>es_buf = Some \<lparr>iov_base = sw_src_ptr op + sw_src_offset op, iov_len = unat (sw_length op),
            iov_count = 1, m_desc = desc_val (sw_src_desc op), m_addr = addr,
            rma_addr = sw_dst_offset op, rma_len = unat (sw_length op),
            rma_key = rkey_val (sw_dst_rkey op), m_context = context, m_data = imm\<rparr>,
          es_flags = flags, es_done = False\<rparr>)"

definition efa_new_imm :: "imm_write_op \<Rightarrow> fi_addr \<Rightarrow> op_context \<Rightarrow> efa_single_iter" where
  "efa_new_imm op addr context =
     \<lparr>es_buf = Some \<lparr>iov_base = 0, iov_len = 0, iov_count = 0, m_desc = 0, m_addr = addr,
        rma_addr = 0, rma_len = 0, rma_key = rkey_val (iw_dst_rkey op), m_context = context,
        m_data = ucast (iw_imm_data op)\<rparr>,
      es_flags = FI_REMOTE_CQ_DATA, es_done = False\<rparr>"

definition es_peek :: "efa_single_iter \<Rightarrow> rma_msg option \<times> fi_flags" where
  "es_peek it = (if es_done it then (None, NoFlags) else (es_buf it, es_flags it))"

definition es_mark_done :: "efa_single_iter \<Rightarrow> efa_single_iter option" where
  "es_mark_done it = (if es_done it then None else Some (it\<lparr>es_done := True\<rparr>))"

section \<open>Paged writes\<close>

record efa_paged_iter =
  ep_src_page_indices :: "u32 list"
  ep_dst_page_indices :: "u32 list"
  ep_beg :: nat
  ep_end :: nat
  ep_src_ptr :: ptr
  ep_src_stride :: u64
  ep_dst_ptr :: u64
  ep_dst_stride :: u64
  ep_buf :: rma_buffer
  ep_flags :: fi_flags
  ep_i_page :: nat

definition ep_fill_msg :: "efa_paged_iter \<Rightarrow> efa_paged_iter option" where
  "ep_fill_msg it = do {
     src_page_idx \<leftarrow> index (ep_src_page_indices it) (ep_i_page it);
     dst_page_idx \<leftarrow> index (ep_dst_page_indices it) (ep_i_page it);
     msg \<leftarrow> ep_buf it;
     Some (it\<lparr>ep_buf := Some (msg\<lparr>
        iov_base := ep_src_ptr it + ep_src_stride it * ucast src_page_idx,
        rma_addr := ep_dst_stride it * ucast dst_page_idx\<rparr>)\<rparr>) }"

definition efa_paged_new :: "paged_write_op \<Rightarrow> fi_addr \<Rightarrow> op_context \<Rightarrow> efa_paged_iter option" where
  "efa_paged_new op addr context =
     (if \<not> (pw_page_indices_beg op < pw_page_indices_end op) then None
      else if length (pw_src_page_indices op) \<noteq> length (pw_dst_page_indices op) then None
      else if \<not> (pw_page_indices_end op \<le> length (pw_src_page_indices op)) then None
      else
        let (imm, flags) = flags_imm (pw_imm_data op)
        in ep_fill_msg
             \<lparr>ep_src_page_indices = pw_src_page_indices op, ep_dst_page_indices = pw_dst_page_indices op,
              ep_beg = pw_page_indices_beg op, ep_end = pw_page_indices_end op,
              ep_src_ptr = pw_src_ptr op + pw_src_offset op, ep_src_stride = pw_src_stride op,
              ep_dst_ptr = pw_dst_ptr op + pw_dst_offset op, ep_dst_stride = pw_dst_stride op,
              ep_buf = Some \<lparr>iov_base = 0, iov_len = unat (pw_length op), iov_count = 1,
                m_desc = desc_val (pw_src_desc op), m_addr = addr, rma_addr = 0,
                rma_len = unat (pw_length op), rma_key = rkey_val (pw_dst_rkey op),
                m_context = context, m_data = imm\<rparr>,
              ep_flags = flags, ep_i_page = pw_page_indices_beg op\<rparr>)"

definition ep_total_ops :: "efa_paged_iter \<Rightarrow> nat" where
  "ep_total_ops it = ep_end it - ep_beg it"

definition ep_peek :: "efa_paged_iter \<Rightarrow> rma_msg option \<times> fi_flags" where
  "ep_peek it = (if ep_i_page it = ep_end it then (None, NoFlags) else (ep_buf it, ep_flags it))"

definition ep_advance :: "efa_paged_iter \<Rightarrow> efa_paged_iter option" where
  "ep_advance it =
     (if ep_i_page it < ep_end it then
        let it = it\<lparr>ep_i_page := ep_i_page it + 1\<rparr>
        in if ep_i_page it < ep_end it then ep_fill_msg it else Some it
      else None)"

section \<open>Scatter writes\<close>

record efa_scatter_iter =
  ec_addrs :: "fi_addr list"
  ec_buf :: rma_buffer
  ec_flags :: fi_flags
  ec_domain_idx :: nat
  ec_src_ptr :: ptr
  ec_dsts :: "scatter_target list"
  ec_dst_beg :: nat
  ec_dst_end :: nat
  ec_byte_shards :: u32
  ec_byte_shard_idx :: u32
  ec_i_dst :: nat

definition ec_fill_msg :: "efa_scatter_iter \<Rightarrow> efa_scatter_iter option" where
  "ec_fill_msg it = do {
     msg \<leftarrow> ec_buf it;
     dst \<leftarrow> index (ec_dsts it) (ec_i_dst it);
     len \<leftarrow> scatter_len (sc_length dst) (ec_byte_shards it);
     let offset = scatter_offset len (ec_byte_shard_idx it);
     addr \<leftarrow> index (ec_addrs it) (ec_i_dst it);
     ark \<leftarrow> index (addr_rkey_list (sc_dst_mr dst)) (ec_domain_idx it);
     Some (it\<lparr>ec_buf := Some (msg\<lparr>m_addr := addr,
        iov_base := ec_src_ptr it + sc_src_offset dst + ucast offset, iov_len := unat len,
        rma_addr := sc_dst_offset dst + ucast offset, rma_len := unat len,
        rma_key := rkey_val (snd ark)\<rparr>)\<rparr>) }"

definition efa_scatter_new :: "scatter_group_write_op \<Rightarrow> fi_addr list \<Rightarrow> op_context \<Rightarrow> efa_scatter_iter option" where
  "efa_scatter_new op addrs context =
     (if \<not> (sg_dst_beg op < sg_dst_end op) then None
      else if \<not> (sg_dst_end op \<le> length (sg_dsts op)) then None
      else if length addrs \<noteq> length (sg_dsts op) then None
      else
        let (imm, flags) = flags_imm (sg_imm_data op)
        in ec_fill_msg
             \<lparr>ec_addrs = addrs,
              ec_buf = Some \<lparr>iov_base = 0, iov_len = 0, iov_count = 1, m_desc = desc_val (sg_src_desc op),
                m_addr = FI_ADDR_UNSPEC, rma_addr = 0, rma_len = 0, rma_key = 0,
                m_context = context, m_data = imm\<rparr>,
              ec_flags = flags, ec_domain_idx = sg_domain_idx op, ec_src_ptr = sg_src_ptr op,
              ec_dsts = sg_dsts op, ec_dst_beg = sg_dst_beg op, ec_dst_end = sg_dst_end op,
              ec_byte_shards = sg_byte_shards op, ec_byte_shard_idx = sg_byte_shard_idx op,
              ec_i_dst = sg_dst_beg op\<rparr>)"

definition ec_total_ops :: "efa_scatter_iter \<Rightarrow> nat" where
  "ec_total_ops it = ec_dst_end it - ec_dst_beg it"

definition ec_peek :: "efa_scatter_iter \<Rightarrow> rma_msg option \<times> fi_flags" where
  "ec_peek it = (if ec_i_dst it = ec_dst_end it then (None, NoFlags) else (ec_buf it, ec_flags it))"

definition ec_advance :: "efa_scatter_iter \<Rightarrow> efa_scatter_iter option" where
  "ec_advance it =
     (if ec_i_dst it < ec_dst_end it then
        let it = it\<lparr>ec_i_dst := ec_i_dst it + 1\<rparr>
        in if ec_i_dst it < ec_dst_end it then ec_fill_msg it else Some it
      else None)"

section \<open>The iterator of a write operation\<close>

datatype efa_iter = ESingle efa_single_iter | EPaged efa_paged_iter | EScatter efa_scatter_iter

fun efa_total_ops :: "efa_iter \<Rightarrow> nat" where
  "efa_total_ops (ESingle _) = 1"
| "efa_total_ops (EPaged it) = ep_total_ops it"
| "efa_total_ops (EScatter it) = ec_total_ops it"

fun efa_peek :: "efa_iter \<Rightarrow> rma_msg option \<times> fi_flags" where
  "efa_peek (ESingle it) = es_peek it"
| "efa_peek (EPaged it) = ep_peek it"
| "efa_peek (EScatter it) = ec_peek it"

fun efa_advance :: "efa_iter \<Rightarrow> efa_iter option" where
  "efa_advance (ESingle it) = map_option ESingle (es_mark_done it)"
| "efa_advance (EPaged it) = map_option EPaged (ep_advance it)"
| "efa_advance (EScatter it) = map_option EScatter (ec_advance it)"

section \<open>Sends and receives\<close>

record fi_msg =
  fm_iov_base :: ptr
  fm_iov_len :: nat
  fm_desc :: u64
  fm_addr :: fi_addr
  fm_context :: op_context
  fm_data :: u64

definition efa_fill_send_op :: "send_op \<Rightarrow> op_context \<Rightarrow> fi_msg" where
  "efa_fill_send_op op context =
     \<lparr>fm_iov_base = so_ptr op, fm_iov_len = so_len op, fm_desc = desc_val (so_desc op),
      fm_addr = FI_ADDR_UNSPEC, fm_context = context, fm_data = 0\<rparr>"

definition efa_fill_recv_op :: "recv_op \<Rightarrow> op_context \<Rightarrow> fi_msg" where
  "efa_fill_recv_op op context =
     \<lparr>fm_iov_base = ro_ptr op, fm_iov_len = ro_len op, fm_desc = desc_val (ro_desc op),
      fm_addr = FI_ADDR_UNSPEC, fm_context = context, fm_data = 0\<rparr>"

section \<open>What an iterator stands for\<close>

definition efa_items :: "efa_iter \<Rightarrow> (rma_msg \<times> fi_flags) list" where
  "efa_items it = (case efa_peek it of (Some m, fl) \<Rightarrow> [(m, fl)] | (None, _) \<Rightarrow> [])"

text \<open>The provider takes one message at a time.\<close>

definition efa_advance_n :: "nat \<Rightarrow> efa_iter \<Rightarrow> efa_iter option" where
  "efa_advance_n n it = (if n = 1 then efa_advance it else None)"

definition ep_msg :: "efa_paged_iter \<Rightarrow> rma_msg \<Rightarrow> nat \<Rightarrow> rma_msg" where
  "ep_msg it m p = m\<lparr>iov_base := ep_src_ptr it + ep_src_stride it * ucast (ep_src_page_indices it ! p),
     rma_addr := ep_dst_stride it * ucast (ep_dst_page_indices it ! p)\<rparr>"

definition ep_ok :: "efa_paged_iter \<Rightarrow> bool" where
  "ep_ok it \<longleftrightarrow> ep_end it \<le> length (ep_src_page_indices it) \<and>
     length (ep_src_page_indices it) = length (ep_dst_page_indices it) \<and>
     ep_i_page it \<le> ep_end it \<and>
     (\<exists>m. ep_buf it = Some m \<and> (ep_i_page it < ep_end it \<longrightarrow> m = ep_msg it m (ep_i_page it)))"

definition ep_todo :: "efa_paged_iter \<Rightarrow> (rma_msg \<times> fi_flags) list" where
  "ep_todo it = map (\<lambda>p. (ep_msg it (the (ep_buf it)) p, ep_flags it)) [ep_i_page it..<ep_end it]"

definition ec_msg :: "efa_scatter_iter \<Rightarrow> rma_msg \<Rightarrow> nat \<Rightarrow> rma_msg" where
  "ec_msg it m i =
     (let dst = ec_dsts it ! i;
          len = (ucast (sc_length dst) :: u32) div ec_byte_shards it;
          offset = scatter_offset len (ec_byte_shard_idx it)
      in m\<lparr>m_addr := ec_addrs it ! i, iov_base := ec_src_ptr it + sc_src_offset dst + ucast offset,
           iov_len := unat len, rma_addr := sc_dst_offset dst + ucast offset, rma_len := unat len,
           rma_key := rkey_val (snd (addr_rkey_list (sc_dst_mr dst) ! ec_domain_idx it))\<rparr>)"

definition ec_wf :: "efa_scatter_iter \<Rightarrow> bool" where
  "ec_wf it \<longleftrightarrow> ec_dst_end it \<le> length (ec_dsts it) \<and> length (ec_addrs it) = length (ec_dsts it) \<and>
     ec_byte_shards it \<noteq> 0 \<and>
     (\<forall>i < ec_dst_end it. ec_domain_idx it < length (addr_rkey_list (sc_dst_mr (ec_dsts it ! i))))"

definition ec_ok :: "efa_scatter_iter \<Rightarrow> bool" where
  "ec_ok it \<longleftrightarrow> ec_wf it \<and> ec_i_dst it \<le> ec_dst_end it \<and>
     (\<exists>m. ec_buf it = Some m \<and> (ec_i_dst it < ec_dst_end it \<longrightarrow> m = ec_msg it m (ec_i_dst it)))"

definition ec_todo :: "efa_scatter_iter \<Rightarrow> (rma_msg \<times> fi_flags) list" where
  "ec_todo it = map (\<lambda>i. (ec_msg it (the (ec_buf it)) i, ec_flags it)) [ec_i_dst it..<ec_dst_end it]"

fun efa_ok :: "efa_iter \<Rightarrow> bool" where
  "efa_ok (ESingle it) = (es_buf it \<noteq> None)"
| "efa_ok (EPaged it) = ep_ok it"
| "efa_ok (EScatter it) = ec_ok it"

fun efa_todo :: "efa_iter \<Rightarrow> (rma_msg \<times> fi_flags) list" where
  "efa_todo (ESingle it) = (if es_done it then [] else [(the (es_buf it), es_flags it)])"
| "efa_todo (EPaged it) = ep_todo it"
| "efa_todo (EScatter it) = ec_todo it"

lemma ep_msg_simps [simp]:
  "ep_msg (it\<lparr>ep_buf := b\<rparr>) = ep_msg it" "ep_msg (it\<lparr>ep_i_page := i\<rparr>) = ep_msg it"
  "ep_msg it (ep_msg it m i) j = ep_msg it m j"
  by (simp_all add: fun_eq_iff ep_msg_def)

lemma ec_msg_simps [simp]:
  "ec_msg (it\<lparr>ec_buf := b\<rparr>) = ec_msg it" "ec_msg (it\<lparr>ec_i_dst := i\<rparr>) = ec_msg it"
  "ec_wf (it\<lparr>ec_buf := b\<rparr>) = ec_wf it" "ec_wf (it\<lparr>ec_i_dst := i\<rparr>) = ec_wf it"
  "ec_msg it (ec_msg it m i) j = ec_msg it m j"
  by (simp_all add: fun_eq_iff ec_msg_def ec_wf_def Let_def)

text \<open>Filling the buffer for the current page or target.\<close>

lemma ep_fill_ok:
  assumes "ep_end it \<le> length (ep_src_page_indices it)"
    "length (ep_src_page_indices it) = length (ep_dst_page_indices it)"
    "ep_i_page it < ep_end it" "ep_buf it = Some m"
  shows "\<exists>it'. ep_fill_msg it = Some it' \<and> ep_ok it' \<and> ep_todo it' = ep_todo it \<and> ep_total_ops it' = ep_total_ops it"
proof -
  have "ep_fill_msg it = Some (it\<lparr>ep_buf := Some (ep_msg it m (ep_i_page it))\<rparr>)"
    using assms by (simp add: ep_fill_msg_def ep_msg_def)
  then show ?thesis using assms by (simp add: ep_ok_def ep_todo_def ep_total_ops_def)
qed

lemma ec_fill_ok:
  assumes "ec_wf it" "ec_i_dst it < ec_dst_end it" "ec_buf it = Some m"
  shows "\<exists>it'. ec_fill_msg it = Some it' \<and> ec_ok it' \<and> ec_todo it' = ec_todo it \<and> ec_total_ops it' = ec_total_ops it"
proof -
  have "ec_i_dst it < length (ec_dsts it)" "ec_i_dst it < length (ec_addrs it)" "ec_byte_shards it \<noteq> 0"
    "ec_domain_idx it < length (addr_rkey_list (sc_dst_mr (ec_dsts it ! ec_i_dst it)))"
    using assms(1,2) by (auto simp: ec_wf_def)
  then have "ec_fill_msg it = Some (it\<lparr>ec_buf := Some (ec_msg it m (ec_i_dst it))\<rparr>)"
    using assms by (simp add: ec_fill_msg_def ec_msg_def scatter_len_def Let_def)
  then show ?thesis using assms by (simp add: ec_ok_def ec_todo_def ec_total_ops_def)
qed

lemma ep_advance_ok:
  assumes ok: "ep_ok it" and more: "ep_i_page it < ep_end it"
  shows "\<exists>it'. ep_advance it = Some it' \<and> ep_ok it' \<and> ep_todo it' = drop 1 (ep_todo it)"
proof (cases "Suc (ep_i_page it) < ep_end it")
  case True
  let ?it = "it\<lparr>ep_i_page := Suc (ep_i_page it)\<rparr>"
  obtain m where "ep_buf it = Some m" using ok by (auto simp: ep_ok_def)
  moreover have "ep_todo ?it = drop 1 (ep_todo it)" by (simp add: ep_todo_def drop_map)
  ultimately show ?thesis
    using ep_fill_ok [of ?it m] ok True by (auto simp: ep_advance_def ep_ok_def)
next
  case False
  then show ?thesis using ok more by (auto simp: ep_advance_def ep_ok_def ep_todo_def drop_map)
qed

lemma ec_advance_ok:
  assumes ok: "ec_ok it" and more: "ec_i_dst it < ec_dst_end it"
  shows "\<exists>it'. ec_advance it = Some it' \<and> ec_ok it' \<and> ec_todo it' = drop 1 (ec_todo it)"
proof (cases "Suc (ec_i_dst it) < ec_dst_end it")
  case True
  let ?it = "it\<lparr>ec_i_dst := Suc (ec_i_dst it)\<rparr>"
  obtain m where "ec_buf it = Some m" "ec_wf it" using ok by (auto simp: ec_ok_def)
  moreover have "ec_todo ?it = drop 1 (ec_todo it)" by (simp add: ec_todo_def drop_map)
  ultimately show ?thesis
    using ec_fill_ok [of ?it m] True by (auto simp: ec_advance_def)
next
  case False
  then show ?thesis using ok more by (auto simp: ec_advance_def ec_ok_def ec_todo_def drop_map)
qed

lemma efa_items_todo: "efa_ok it \<Longrightarrow> efa_items it = take 1 (efa_todo it)"
proof (cases it)
  case (EPaged p)
  assume "efa_ok it"
  then show ?thesis using EPaged
    by (cases "ep_i_page p < ep_end p") (auto simp: efa_items_def ep_peek_def ep_ok_def ep_todo_def upt_conv_Cons)
next
  case (EScatter c)
  assume "efa_ok it"
  then show ?thesis using EScatter
    by (cases "ec_i_dst c < ec_dst_end c") (auto simp: efa_items_def ec_peek_def ec_ok_def ec_todo_def upt_conv_Cons)
qed (auto simp: efa_items_def es_peek_def)

lemma take_1_length: "xs = take 1 ys \<Longrightarrow> xs = take (length xs) ys"
  by (cases ys) auto

interpretation eit: write_iter efa_items efa_advance_n efa_todo efa_ok
proof unfold_locales
  fix it n assume ok: "efa_ok it" and n: "0 < n" "n \<le> length (efa_items it)"
  then have n1: "n = 1" and ne: "efa_todo it \<noteq> []" using efa_items_todo [OF ok] by auto
  show "\<exists>it'. efa_advance_n n it = Some it' \<and> efa_ok it' \<and> efa_todo it' = drop n (efa_todo it)"
  proof (cases it)
    case (ESingle s)
    then show ?thesis using ok ne n1 by (auto simp: efa_advance_n_def es_mark_done_def split: if_splits)
  next
    case (EPaged p)
    then have "ep_i_page p < ep_end p" using ne by (simp add: ep_todo_def)
    then show ?thesis using ep_advance_ok [of p] EPaged ok n1 by (auto simp: efa_advance_n_def)
  next
    case (EScatter c)
    then have "ec_i_dst c < ec_dst_end c" using ne by (simp add: ec_todo_def)
    then show ?thesis using ec_advance_ok [of c] EScatter ok n1 by (auto simp: efa_advance_n_def)
  qed
next
  fix it assume "efa_ok it"
  then show "efa_items it = take (length (efa_items it)) (efa_todo it)"
    by (rule take_1_length [OF efa_items_todo])
qed (simp add: efa_items_todo)

section \<open>Properties\<close>

text \<open>The message of page \<open>p\<close>, straight from the operation. The destination offset is not part of it.\<close>

definition paged_msg_spec :: "paged_write_op \<Rightarrow> fi_addr \<Rightarrow> op_context \<Rightarrow> nat \<Rightarrow> rma_msg" where
  "paged_msg_spec op addr context p =
     \<lparr>iov_base = pw_src_ptr op + pw_src_offset op + pw_src_stride op * ucast (pw_src_page_indices op ! p),
      iov_len = unat (pw_length op), iov_count = 1, m_desc = desc_val (pw_src_desc op), m_addr = addr,
      rma_addr = pw_dst_stride op * ucast (pw_dst_page_indices op ! p), rma_len = unat (pw_length op),
      rma_key = rkey_val (pw_dst_rkey op), m_context = context, m_data = fst (flags_imm (pw_imm_data op))\<rparr>"

lemma efa_paged_new_ok:
  assumes op: "paged_op_ok op"
  shows "\<exists>it. efa_paged_new op addr context = Some it \<and> ep_ok it \<and>
           ep_todo it = map (\<lambda>p. (paged_msg_spec op addr context p, snd (flags_imm (pw_imm_data op))))
             [pw_page_indices_beg op..<pw_page_indices_end op] \<and>
           ep_total_ops it = pw_page_indices_end op - pw_page_indices_beg op"
proof -
  define m where "m = \<lparr>iov_base = 0, iov_len = unat (pw_length op), iov_count = 1,
     m_desc = desc_val (pw_src_desc op), m_addr = addr, rma_addr = 0, rma_len = unat (pw_length op),
     rma_key = rkey_val (pw_dst_rkey op), m_context = context, m_data = fst (flags_imm (pw_imm_data op))\<rparr>"
  define it where "it = \<lparr>ep_src_page_indices = pw_src_page_indices op,
     ep_dst_page_indices = pw_dst_page_indices op, ep_beg = pw_page_indices_beg op, ep_end = pw_page_indices_end op,
     ep_src_ptr = pw_src_ptr op + pw_src_offset op, ep_src_stride = pw_src_stride op,
     ep_dst_ptr = pw_dst_ptr op + pw_dst_offset op, ep_dst_stride = pw_dst_stride op,
     ep_buf = Some m, ep_flags = snd (flags_imm (pw_imm_data op)), ep_i_page = pw_page_indices_beg op\<rparr>"
  have new: "efa_paged_new op addr context = ep_fill_msg it"
    using op by (simp add: efa_paged_new_def paged_op_ok_def case_prod_beta Let_def it_def m_def)
  have pre: "ep_end it \<le> length (ep_src_page_indices it)"
    "length (ep_src_page_indices it) = length (ep_dst_page_indices it)"
    "ep_i_page it < ep_end it" "ep_buf it = Some m"
    using op by (simp_all add: it_def paged_op_ok_def)
  have "ep_todo it = map (\<lambda>p. (paged_msg_spec op addr context p, snd (flags_imm (pw_imm_data op))))
      [pw_page_indices_beg op..<pw_page_indices_end op]"
    by (simp add: ep_todo_def it_def m_def ep_msg_def paged_msg_spec_def)
  moreover have "ep_total_ops it = pw_page_indices_end op - pw_page_indices_beg op"
    by (simp add: ep_total_ops_def it_def)
  ultimately show ?thesis using ep_fill_ok [OF pre] new by auto
qed

text \<open>
  On EFA too a paged write is posted completely and in order, one message per page
  whatever the card accepts, and an invalid operation panics. The remote address of a page is its
  index times the stride: the destination offset of the request does not take part, so two
  requests that differ only in it post the same messages.
\<close>

theorem efa_paged_posts_all:
  "(paged_op_ok op \<longrightarrow>
      (\<exists>it. efa_paged_new (op\<lparr>pw_dst_offset := off\<rparr>) addr context = Some it \<and>
         efa_total_ops (EPaged it) = pw_page_indices_end op - pw_page_indices_beg op \<and>
         (\<forall>ks. 0 \<notin> set ks \<longrightarrow> efa_total_ops (EPaged it) \<le> length ks \<longrightarrow>
            (\<exists>it'. post_run efa_items efa_advance_n ks (EPaged it) =
               Some (map (\<lambda>p. (paged_msg_spec op addr context p, snd (flags_imm (pw_imm_data op))))
                       [pw_page_indices_beg op..<pw_page_indices_end op], it'))))) \<and>
   (\<not> paged_op_ok op \<longrightarrow> efa_paged_new op addr context = None)"
proof (intro conjI impI)
  assume "paged_op_ok op"
  then have "paged_op_ok (op\<lparr>pw_dst_offset := off\<rparr>)" by (simp add: paged_op_ok_def)
  from efa_paged_new_ok [OF this, of addr "context"] obtain it where
    new: "efa_paged_new (op\<lparr>pw_dst_offset := off\<rparr>) addr context = Some it" "ep_ok it"
    and todo: "ep_todo it = map (\<lambda>p. (paged_msg_spec op addr context p, snd (flags_imm (pw_imm_data op))))
                 [pw_page_indices_beg op..<pw_page_indices_end op]"
    and tot: "ep_total_ops it = pw_page_indices_end op - pw_page_indices_beg op"
    by (auto simp: paged_msg_spec_def)
  have "\<exists>it'. post_run efa_items efa_advance_n ks (EPaged it) = Some (ep_todo it, it')"
    if "0 \<notin> set ks" "efa_total_ops (EPaged it) \<le> length ks" for ks
    using eit.post_run_complete [of "EPaged it" ks] that new(2) todo tot by auto
  then show "\<exists>it. efa_paged_new (op\<lparr>pw_dst_offset := off\<rparr>) addr context = Some it \<and>
         efa_total_ops (EPaged it) = pw_page_indices_end op - pw_page_indices_beg op \<and>
         (\<forall>ks. 0 \<notin> set ks \<longrightarrow> efa_total_ops (EPaged it) \<le> length ks \<longrightarrow>
            (\<exists>it'. post_run efa_items efa_advance_n ks (EPaged it) =
               Some (map (\<lambda>p. (paged_msg_spec op addr context p, snd (flags_imm (pw_imm_data op))))
                       [pw_page_indices_beg op..<pw_page_indices_end op], it')))"
    using new(1) todo tot by auto
next
  assume "\<not> paged_op_ok op"
  then show "efa_paged_new op addr context = None"
    by (auto simp: efa_paged_new_def paged_op_ok_def)
qed

theorem efa_paged_posts_all_witness:
  "\<exists>it it'. efa_paged_new (paged_example\<lparr>pw_dst_offset := 77\<rparr>) (FiAddr 3) (CtxWrite (0, 1)) = Some it \<and>
     post_run efa_items efa_advance_n [1, 1, 1, 1, 1, 1] (EPaged it) =
       Some (map (\<lambda>p. (paged_msg_spec paged_example (FiAddr 3) (CtxWrite (0, 1)) p, NoFlags)) [1..<7], it')"
proof -
  from efa_paged_posts_all [of paged_example 77 "FiAddr 3" "CtxWrite (0, 1)", THEN conjunct1]
  obtain it where it: "efa_paged_new (paged_example\<lparr>pw_dst_offset := 77\<rparr>) (FiAddr 3) (CtxWrite (0, 1)) = Some it"
    "efa_total_ops (EPaged it) = 6"
    "\<forall>ks. 0 \<notin> set ks \<longrightarrow> efa_total_ops (EPaged it) \<le> length ks \<longrightarrow>
       (\<exists>it'. post_run efa_items efa_advance_n ks (EPaged it) =
          Some (map (\<lambda>p. (paged_msg_spec paged_example (FiAddr 3) (CtxWrite (0, 1)) p, NoFlags)) [1..<7], it'))"
    by (auto simp: paged_op_ok_def paged_example_def flags_imm_def)
  from it(3) [rule_format, of "[1, 1, 1, 1, 1, 1]"] it(1,2) show ?thesis by auto
qed

end
