(* ===== verification/Domain_Group.thy ===== *)
theory Domain_Group
  imports Sharding Imm_Count "HOL-Library.AList"
begin

text \<open>
  \<^verbatim>\<open>domain_group.rs\<close>: a group drives the network domains of one GPU. It splits a transfer request
  into operations of the domains, and merges the completions of the domains into completions of
  the transfer. The trait \<^verbatim>\<open>RdmaDomain\<close> (\<^verbatim>\<open>provider.rs\<close>) is a record of operations over the domain's
  state. Operations that assert give \<open>None\<close> when they panic.
\<close>

section \<open>The trait of a domain\<close>

record 'd rdma_domain_ops =
  d_link_speed :: "'d \<Rightarrow> u64"
  d_addr :: "'d \<Rightarrow> domain_address"
  d_register_mr_local :: "memory_region \<Rightarrow> 'd \<Rightarrow> unit result \<times> 'd"
  d_register_mr_allow_remote :: "memory_region \<Rightarrow> 'd \<Rightarrow> memory_region_remote_key result \<times> 'd"
  d_unregister_mr :: "ptr \<Rightarrow> 'd \<Rightarrow> 'd"
  d_get_mem_desc :: "ptr \<Rightarrow> 'd \<Rightarrow> memory_region_local_descriptor result"
  d_submit_recv :: "transfer_id \<Rightarrow> recv_op \<Rightarrow> 'd \<Rightarrow> 'd option"
  d_submit_send :: "transfer_id \<Rightarrow> domain_address \<Rightarrow> send_op \<Rightarrow> 'd \<Rightarrow> 'd option"
  d_submit_write :: "transfer_id \<Rightarrow> domain_address \<Rightarrow> write_op \<Rightarrow> 'd \<Rightarrow> 'd option"
  d_add_peer_group :: "peer_group_handle \<Rightarrow> domain_address list \<Rightarrow> 'd \<Rightarrow> unit result \<times> 'd"
  d_submit_group_write :: "transfer_id \<Rightarrow> peer_group_handle option \<Rightarrow> group_write_op \<Rightarrow> 'd \<Rightarrow> 'd option"
  d_poll_progress :: "'d \<Rightarrow> imm_count_map \<Rightarrow> ('d \<times> imm_count_map) option"
  d_get_completion :: "'d \<Rightarrow> domain_completion_entry option \<times> 'd"

section \<open>The group\<close>

record write_op_context =
  num_used_domains :: usize
  cnt_domain_completion :: usize
  woc_tx_counter :: "transfer_counter option"

text \<open>
  The peer groups are kept in insertion order; they have different addresses (lemma
  \<open>add_peer_group_wf\<close>), so the order in which the hash table is searched does not matter.
\<close>

record 'd domain_group =
  dg_domains :: "'d list"
  write_ops :: "transfer_id \<rightharpoonup> write_op_context"
  rr_next :: usize
  next_peer_group_handle :: u32
  peer_groups :: "(peer_group_handle \<times> domain_address list list) list"

definition domain_group_new :: "'d list \<Rightarrow> 'd domain_group" where
  "domain_group_new domains =
     \<lparr>dg_domains = domains, write_ops = Map.empty, rr_next = 0, next_peer_group_handle = 0,
      peer_groups = []\<rparr>"

definition aggregate_link_speed :: "'d rdma_domain_ops \<Rightarrow> 'd domain_group \<Rightarrow> u64" where
  "aggregate_link_speed ops g = sum_list (map (d_link_speed ops) (dg_domains g))"

fun register_remote_loop ::
    "'d rdma_domain_ops \<Rightarrow> memory_region \<Rightarrow> 'd list
       \<Rightarrow> (domain_address \<times> memory_region_remote_key) list result \<times> 'd list" where
  "register_remote_loop ops region [] = (Inr [], [])"
| "register_remote_loop ops region (d # ds) =
     (case d_register_mr_allow_remote ops region d of
        (Inl e, d') \<Rightarrow> (Inl e, d' # ds)
      | (Inr rkey, d') \<Rightarrow>
          (case register_remote_loop ops region ds of
             (Inl e, ds') \<Rightarrow> (Inl e, d' # ds')
           | (Inr rest, ds') \<Rightarrow> (Inr ((d_addr ops d', rkey) # rest), d' # ds')))"

definition register_mr_allow_remote ::
    "'d rdma_domain_ops \<Rightarrow> memory_region \<Rightarrow> 'd domain_group
       \<Rightarrow> (memory_region_handle \<times> memory_region_descriptor) result \<times> 'd domain_group" where
  "register_mr_allow_remote ops region g =
     (case register_remote_loop ops region (dg_domains g) of
        (Inl e, ds) \<Rightarrow> (Inl e, g\<lparr>dg_domains := ds\<rparr>)
      | (Inr pairs, ds) \<Rightarrow>
          (Inr (MemoryRegionHandle (region_ptr region),
                \<lparr>mrd_ptr = region_ptr region, addr_rkey_list = pairs\<rparr>),
           g\<lparr>dg_domains := ds\<rparr>))"

fun register_local_loop :: "'d rdma_domain_ops \<Rightarrow> memory_region \<Rightarrow> 'd list \<Rightarrow> unit result \<times> 'd list" where
  "register_local_loop ops region [] = (Inr (), [])"
| "register_local_loop ops region (d # ds) =
     (case d_register_mr_local ops region d of
        (Inl e, d') \<Rightarrow> (Inl e, d' # ds)
      | (Inr _, d') \<Rightarrow> (case register_local_loop ops region ds of (r, ds') \<Rightarrow> (r, d' # ds')))"

definition register_mr_local ::
    "'d rdma_domain_ops \<Rightarrow> memory_region \<Rightarrow> 'd domain_group \<Rightarrow> memory_region_handle result \<times> 'd domain_group" where
  "register_mr_local ops region g =
     (case register_local_loop ops region (dg_domains g) of
        (Inl e, ds) \<Rightarrow> (Inl e, g\<lparr>dg_domains := ds\<rparr>)
      | (Inr _, ds) \<Rightarrow> (Inr (MemoryRegionHandle (region_ptr region)), g\<lparr>dg_domains := ds\<rparr>))"

definition unregister_mr :: "'d rdma_domain_ops \<Rightarrow> ptr \<Rightarrow> 'd domain_group \<Rightarrow> 'd domain_group" where
  "unregister_mr ops p g = g\<lparr>dg_domains := map (d_unregister_mr ops p) (dg_domains g)\<rparr>"

text \<open>Adding a group to each domain: the addresses of domain \<open>i\<close> are the \<open>i\<close>-th of every peer.\<close>

fun add_peer_group_loop ::
    "'d rdma_domain_ops \<Rightarrow> peer_group_handle \<Rightarrow> domain_address list list \<Rightarrow> nat \<Rightarrow> 'd list
       \<Rightarrow> (unit result \<times> 'd list) option" where
  "add_peer_group_loop ops handle addrs i [] = Some (Inr (), [])"
| "add_peer_group_loop ops handle addrs i (d # ds) = do {
     domain_addrs \<leftarrow> those (map (\<lambda>addr. index addr i) addrs);
     case d_add_peer_group ops handle domain_addrs d of
       (Inl e, d') \<Rightarrow> Some (Inl e, d' # ds)
     | (Inr _, d') \<Rightarrow> do {
         (r, ds') \<leftarrow> add_peer_group_loop ops handle addrs (Suc i) ds;
         Some (r, d' # ds') } }"

definition find_peer_group ::
    "domain_address list list \<Rightarrow> (peer_group_handle \<times> domain_address list list) list \<Rightarrow> peer_group_handle option" where
  "find_peer_group addrs groups = map_option fst (find (\<lambda>(_, group). group = addrs) groups)"

definition add_peer_group ::
    "'d rdma_domain_ops \<Rightarrow> domain_address list list \<Rightarrow> 'd domain_group
       \<Rightarrow> (peer_group_handle result \<times> 'd domain_group) option" where
  "add_peer_group ops addrs g =
     (case find_peer_group addrs (peer_groups g) of
        Some handle \<Rightarrow> Some (Inr handle, g)
      | None \<Rightarrow>
          (let handle = PeerGroupHandle (next_peer_group_handle g);
               g = g\<lparr>next_peer_group_handle := next_peer_group_handle g + 1,
                     peer_groups := AList.update handle addrs (peer_groups g)\<rparr>
           in do {
             (r, ds) \<leftarrow> add_peer_group_loop ops handle addrs 0 (dg_domains g);
             let g = g\<lparr>dg_domains := ds\<rparr>;
             Some (case r of Inl e \<Rightarrow> (Inl e, g) | Inr _ \<Rightarrow> (Inr handle, g)) }))"

section \<open>Submitting transfers\<close>

definition track :: "transfer_id \<Rightarrow> usize \<Rightarrow> transfer_counter option \<Rightarrow> 'd domain_group \<Rightarrow> 'd domain_group" where
  "track tid n tx g =
     g\<lparr>write_ops := (write_ops g)(tid \<mapsto>
        \<lparr>num_used_domains = n, cnt_domain_completion = 0, woc_tx_counter = tx\<rparr>)\<rparr>"

definition mismatch_error :: fabric_lib_error where
  "mismatch_error = Custom ''Number of target addresses must match the number of domains''"

subsection \<open>Immediates and barriers\<close>

text \<open>The writes of chunk \<open>i\<close>: each goes to the \<open>i\<close>-th address of its target, on one domain.\<close>

definition imm_chunk ::
    "'d rdma_domain_ops \<Rightarrow> transfer_id \<Rightarrow> u32 \<Rightarrow> nat \<Rightarrow> nat \<times> memory_region_descriptor list
       \<Rightarrow> 'd list \<Rightarrow> 'd list option" where
  "imm_chunk ops tid imm_data first_domain = (\<lambda>(i, dst_mrs) ds.
     foldM (\<lambda>dst_mr ds. do {
       (dst_addr, dst_rkey) \<leftarrow> index (addr_rkey_list dst_mr) i;
       update_at ((first_domain + i) mod length ds)
         (d_submit_write ops tid dst_addr
            (ImmW \<lparr>iw_imm_data = imm_data, iw_dst_ptr = mrd_ptr dst_mr, iw_dst_rkey = dst_rkey\<rparr>)) ds })
       dst_mrs ds)"

definition submit_imm_transfer_request ::
    "'d rdma_domain_ops \<Rightarrow> transfer_id \<Rightarrow> u32 \<Rightarrow> memory_region_descriptor list \<Rightarrow> domain_group_routing
       \<Rightarrow> transfer_counter option \<Rightarrow> 'd domain_group \<Rightarrow> (unit result \<times> 'd domain_group) option" where
  "submit_imm_transfer_request ops tid imm_data dst_mrs domain tx g =
     (let num_domains = length (dg_domains g) in
      if \<exists>dst_mr \<in> set dst_mrs. length (addr_rkey_list dst_mr) \<noteq> num_domains
      then Some (Inl mismatch_error, g)
      else
        let g = track tid (length dst_mrs) tx g in do {
          r \<leftarrow> (case domain of
             RoundRobinSharded num_shards \<Rightarrow>
               if num_shards \<noteq> 1
               then Some (Inl (Custom ''DomainGroupRouting::RoundRobinSharded should have num_shards = 1 for BarrierTransferRequest''))
               else if num_domains = 0 then None
               else Some (Inr (rr_next g, div_ceil (length dst_mrs) num_domains,
                               (rr_next g + min num_domains (length dst_mrs)) mod num_domains))
           | Pinned domain_idx \<Rightarrow>
               if num_domains \<le> unat domain_idx
               then Some (Inl (Custom ''DomainGroupRouting::Pinned.domain_idx is out of bounds''))
               else Some (Inr (unat domain_idx, length dst_mrs, rr_next g)));
          case r of
            Inl e \<Rightarrow> Some (Inl e, g)
          | Inr (first_domain, imm_per_domain, rr) \<Rightarrow> do {
              let g = g\<lparr>rr_next := rr\<rparr>;
              cs \<leftarrow> chunks imm_per_domain dst_mrs;
              ds \<leftarrow> foldM (imm_chunk ops tid imm_data first_domain) (List.enumerate 0 cs) (dg_domains g);
              Some (Inr (), g\<lparr>dg_domains := ds\<rparr>) } })"

subsection \<open>Single transfers\<close>

definition single_op :: "single_transfer_request \<Rightarrow> memory_region_local_descriptor \<Rightarrow> memory_region_remote_key
    \<Rightarrow> nat \<Rightarrow> nat \<Rightarrow> write_op" where
  "single_op request src_desc dst_rkey offset len =
     SingleW \<lparr>sw_src_ptr = mr_ptr (st_src_mr request), sw_src_desc = src_desc,
       sw_src_offset = st_src_offset request + of_nat offset, sw_length = of_nat len,
       sw_imm_data = st_imm_data request, sw_dst_ptr = mrd_ptr (st_dst_mr request),
       sw_dst_rkey = dst_rkey, sw_dst_offset = st_dst_offset request + of_nat offset\<rparr>"

text \<open>The loop that builds the operations; an error leaves with the round-robin index moved.\<close>

fun single_loop ::
    "'d rdma_domain_ops \<Rightarrow> single_transfer_request \<Rightarrow> (nat \<times> nat) list \<Rightarrow> 'd domain_group
       \<Rightarrow> ((write_op \<times> domain_address) list result \<times> 'd domain_group) option" where
  "single_loop ops request [] g = Some (Inr [], g)"
| "single_loop ops request ((offset, len) # ranges) g =
     (let (i, g) = (case st_domain request of
            RoundRobinSharded _ \<Rightarrow> (rr_next g, g\<lparr>rr_next := (rr_next g + 1) mod length (dg_domains g)\<rparr>)
          | Pinned domain_idx \<Rightarrow> (unat domain_idx, g))
      in do {
        domain \<leftarrow> index (dg_domains g) i;
        (dst_addr, dst_rkey) \<leftarrow> index (addr_rkey_list (st_dst_mr request)) i;
        case d_get_mem_desc ops (mr_ptr (st_src_mr request)) domain of
          Inl e \<Rightarrow> Some (Inl e, g)
        | Inr src_desc \<Rightarrow> do {
            (r, g) \<leftarrow> single_loop ops request ranges g;
            case r of
              Inl e \<Rightarrow> Some (Inl e, g)
            | Inr rest \<Rightarrow> Some (Inr ((single_op request src_desc dst_rkey offset len, dst_addr) # rest), g) } })"

text \<open>The operations are submitted to the domains in array order.\<close>

definition submit_zip ::
    "'d rdma_domain_ops \<Rightarrow> transfer_id \<Rightarrow> (write_op \<times> domain_address) list \<Rightarrow> 'd list \<Rightarrow> 'd list option" where
  "submit_zip ops tid rdma_ops ds =
     foldM (\<lambda>(k, rdma_op, dst_addr) ds. update_at k (d_submit_write ops tid dst_addr rdma_op) ds)
       (List.enumerate 0 (take (length ds) rdma_ops)) ds"

definition submit_single_transfer_request ::
    "'d rdma_domain_ops \<Rightarrow> transfer_id \<Rightarrow> single_transfer_request \<Rightarrow> transfer_counter option
       \<Rightarrow> 'd domain_group \<Rightarrow> (unit result \<times> 'd domain_group) option" where
  "submit_single_transfer_request ops tid request tx g =
     (if length (addr_rkey_list (st_dst_mr request)) \<noteq> length (dg_domains g)
      then Some (Inl mismatch_error, g)
      else case (case st_domain request of
             RoundRobinSharded num_shards \<Rightarrow>
               if length (dg_domains g) < unat num_shards
               then Inl (Custom ''DomainGroupRouting::RoundRobinSharded.num_shards is greater than the number of domains'')
               else Inr (unat num_shards)
           | Pinned domain_idx \<Rightarrow>
               if length (dg_domains g) \<le> unat domain_idx
               then Inl (Custom ''DomainGroupRouting::Pinned.domain_idx is out of bounds'')
               else Inr 1) of
        Inl e \<Rightarrow> Some (Inl e, g)
      | Inr num_shards \<Rightarrow>
          if num_shards = 0 then None
          else do {
            (r, g) \<leftarrow> single_loop ops request (shard_single_transfer (unat (st_length request)) num_shards) g;
            case r of
              Inl e \<Rightarrow> Some (Inl e, g)
            | Inr rdma_ops \<Rightarrow> do {
                let g = track tid (length rdma_ops) tx g;
                ds \<leftarrow> submit_zip ops tid rdma_ops (dg_domains g);
                Some (Inr (), g\<lparr>dg_domains := ds\<rparr>) } })"

subsection \<open>Paged transfers\<close>

definition paged_op :: "paged_transfer_request \<Rightarrow> memory_region_local_descriptor \<Rightarrow> memory_region_remote_key
    \<Rightarrow> nat \<Rightarrow> nat \<Rightarrow> write_op" where
  "paged_op request src_desc dst_rkey beg stop =
     PagedW \<lparr>pw_src_page_indices = pt_src_page_indices request,
       pw_dst_page_indices = pt_dst_page_indices request, pw_page_indices_beg = beg,
       pw_page_indices_end = stop, pw_length = pt_length request, pw_src_ptr = mr_ptr (pt_src_mr request),
       pw_src_desc = src_desc, pw_src_stride = pt_src_stride request, pw_src_offset = pt_src_offset request,
       pw_dst_ptr = mrd_ptr (pt_dst_mr request), pw_dst_rkey = dst_rkey,
       pw_dst_stride = pt_dst_stride request, pw_dst_offset = pt_dst_offset request,
       pw_imm_data = pt_imm_data request\<rparr>"

fun paged_loop ::
    "'d rdma_domain_ops \<Rightarrow> transfer_id \<Rightarrow> paged_transfer_request \<Rightarrow> (nat \<times> nat) list \<Rightarrow> 'd domain_group
       \<Rightarrow> (unit result \<times> 'd domain_group) option" where
  "paged_loop ops tid request [] g = Some (Inr (), g)"
| "paged_loop ops tid request ((beg, stop) # ranges) g =
     (let i = rr_next g;
          g = g\<lparr>rr_next := (rr_next g + 1) mod length (dg_domains g)\<rparr>
      in do {
        domain \<leftarrow> index (dg_domains g) i;
        (dst_addr, dst_rkey) \<leftarrow> index (addr_rkey_list (pt_dst_mr request)) i;
        case d_get_mem_desc ops (mr_ptr (pt_src_mr request)) domain of
          Inl e \<Rightarrow> Some (Inl e, g)
        | Inr src_desc \<Rightarrow> do {
            ds \<leftarrow> update_at i (d_submit_write ops tid dst_addr (paged_op request src_desc dst_rkey beg stop))
                    (dg_domains g);
            paged_loop ops tid request ranges (g\<lparr>dg_domains := ds\<rparr>) } })"

definition submit_paged_transfer_request ::
    "'d rdma_domain_ops \<Rightarrow> transfer_id \<Rightarrow> paged_transfer_request \<Rightarrow> transfer_counter option
       \<Rightarrow> 'd domain_group \<Rightarrow> (unit result \<times> 'd domain_group) option" where
  "submit_paged_transfer_request ops tid request tx g =
     (if length (addr_rkey_list (pt_dst_mr request)) \<noteq> length (dg_domains g)
      then Some (Inl mismatch_error, g)
      else if length (pt_src_page_indices request) \<noteq> length (pt_dst_page_indices request)
      then Some (Inl (Custom ''Length of source and destination page indices must match''), g)
      else if length (dg_domains g) = 0 then None
      else
        let page_range = divide_evenly (length (pt_src_page_indices request)) (length (dg_domains g))
        in paged_loop ops tid request page_range (track tid (length page_range) tx g))"

subsection \<open>Scatter transfers\<close>

definition scatter_op :: "scatter_transfer_request \<Rightarrow> nat \<Rightarrow> memory_region_local_descriptor \<Rightarrow> nat \<Rightarrow> nat
    \<Rightarrow> u32 \<Rightarrow> u32 \<Rightarrow> group_write_op" where
  "scatter_op request domain_idx src_desc beg stop byte_shards byte_shard_idx =
     ScatterW \<lparr>sg_domain_idx = domain_idx, sg_src_ptr = mr_ptr (sct_src_mr request), sg_src_desc = src_desc,
       sg_imm_data = sct_imm_data request, sg_dsts = sct_dsts request, sg_dst_beg = beg, sg_dst_end = stop,
       sg_byte_shards = byte_shards, sg_byte_shard_idx = byte_shard_idx\<rparr>"

text \<open>
  The shards of a scatter: the domain, its range of targets, the number of byte shards and its
  own. Each shard then takes the source descriptor of its domain; the first failure returns.
\<close>

definition scatter_shards :: "scatter_transfer_request \<Rightarrow> nat \<Rightarrow> (nat \<times> nat \<times> nat \<times> u32 \<times> u32) list" where
  "scatter_shards request n =
     (case sct_domain request of
        AllDomainsShardPeers \<Rightarrow>
          map (\<lambda>(domain_idx, beg, stop). (domain_idx, beg, stop, 1, 0))
            (List.enumerate 0 (take n (divide_evenly (length (sct_dsts request)) n)))
      | AllDomainsShardBytes \<Rightarrow>
          map (\<lambda>domain_idx. (domain_idx, 0, length (sct_dsts request), of_nat n, of_nat domain_idx)) [0..<n]
      | SingleDomain domain_idx \<Rightarrow> [(unat domain_idx, 0, length (sct_dsts request), 1, 0)])"

fun scatter_loop ::
    "'d rdma_domain_ops \<Rightarrow> scatter_transfer_request \<Rightarrow> (nat \<times> nat \<times> nat \<times> u32 \<times> u32) list \<Rightarrow> 'd list
       \<Rightarrow> (nat \<times> group_write_op) list result option" where
  "scatter_loop ops request [] ds = Some (Inr [])"
| "scatter_loop ops request ((domain_idx, beg, stop, shards, shard_idx) # rest) ds = do {
     domain \<leftarrow> index ds domain_idx;
     case d_get_mem_desc ops (mr_ptr (sct_src_mr request)) domain of
       Inl e \<Rightarrow> Some (Inl e)
     | Inr src_desc \<Rightarrow> do {
         r \<leftarrow> scatter_loop ops request rest ds;
         Some (case r of
           Inl e \<Rightarrow> Inl e
         | Inr rdma_ops \<Rightarrow>
             Inr ((domain_idx, scatter_op request domain_idx src_desc beg stop shards shard_idx) # rdma_ops)) } }"

definition submit_scatter_transfer_request ::
    "'d rdma_domain_ops \<Rightarrow> transfer_id \<Rightarrow> scatter_transfer_request \<Rightarrow> transfer_counter option
       \<Rightarrow> 'd domain_group \<Rightarrow> (unit result \<times> 'd domain_group) option" where
  "submit_scatter_transfer_request ops tid request tx g =
     (if sct_dsts request = [] then Some (Inl (Custom ''Empty scatter targets''), g)
      else case (case sct_dst_handle request of
             None \<Rightarrow> Inr ()
           | Some dst_handle \<Rightarrow>
               (case map_of (peer_groups g) dst_handle of
                  None \<Rightarrow> Inl (Custom ''PeerGroupHandle not found'')
                | Some addrs \<Rightarrow>
                    if length (sct_dsts request) \<noteq> length addrs
                    then Inl (Custom ''Number of scatter targets must match the number of peer group addresses'')
                    else Inr ())) of
        Inl e \<Rightarrow> Some (Inl e, g)
      | Inr _ \<Rightarrow>
          if length (dg_domains g) = 0 \<and> sct_domain request = AllDomainsShardPeers then None
          else do {
            r \<leftarrow> scatter_loop ops request (scatter_shards request (length (dg_domains g))) (dg_domains g);
            case r of
              Inl e \<Rightarrow> Some (Inl e, g)
            | Inr rdma_ops \<Rightarrow> do {
                let g = track tid (length rdma_ops) tx g;
                ds \<leftarrow> foldM (\<lambda>(domain_idx, rdma_op).
                         update_at domain_idx (d_submit_group_write ops tid (sct_dst_handle request) rdma_op))
                       rdma_ops (dg_domains g);
                Some (Inr (), g\<lparr>dg_domains := ds\<rparr>) } })"

subsection \<open>Dispatch\<close>

fun submit_transfer_request ::
    "'d rdma_domain_ops \<Rightarrow> transfer_id \<Rightarrow> transfer_request \<Rightarrow> transfer_counter option
       \<Rightarrow> 'd domain_group \<Rightarrow> (unit result \<times> 'd domain_group) option" where
  "submit_transfer_request ops tid (ImmReq request) tx g =
     submit_imm_transfer_request ops tid (it_imm_data request) [it_dst_mr request] (it_domain request) tx g"
| "submit_transfer_request ops tid (BarrierReq request) tx g =
     submit_imm_transfer_request ops tid (bt_imm_data request) (bt_dst_mrs request) (bt_domain request) tx g"
| "submit_transfer_request ops tid (SingleReq request) tx g =
     submit_single_transfer_request ops tid request tx g"
| "submit_transfer_request ops tid (PagedReq request) tx g =
     submit_paged_transfer_request ops tid request tx g"
| "submit_transfer_request ops tid (ScatterReq request) tx g =
     submit_scatter_transfer_request ops tid request tx g"

definition group_submit_send ::
    "'d rdma_domain_ops \<Rightarrow> transfer_id \<Rightarrow> memory_region_handle \<Rightarrow> ptr \<Rightarrow> usize \<Rightarrow> domain_address
       \<Rightarrow> 'd domain_group \<Rightarrow> (unit result \<times> 'd domain_group) option" where
  "group_submit_send ops tid mr p len addr g = do {
     domain \<leftarrow> index (dg_domains g) 0;
     case d_get_mem_desc ops (mr_ptr mr) domain of
       Inl e \<Rightarrow> Some (Inl e, g)
     | Inr desc \<Rightarrow> do {
         ds \<leftarrow> update_at 0 (d_submit_send ops tid addr \<lparr>so_ptr = p, so_len = len, so_desc = desc\<rparr>) (dg_domains g);
         Some (Inr (), g\<lparr>dg_domains := ds\<rparr>) } }"

definition group_submit_recv ::
    "'d rdma_domain_ops \<Rightarrow> transfer_id \<Rightarrow> memory_region_handle \<Rightarrow> ptr \<Rightarrow> usize
       \<Rightarrow> 'd domain_group \<Rightarrow> (unit result \<times> 'd domain_group) option" where
  "group_submit_recv ops tid mr p len g = do {
     domain \<leftarrow> index (dg_domains g) 0;
     case d_get_mem_desc ops (mr_ptr mr) domain of
       Inl e \<Rightarrow> Some (Inl e, g)
     | Inr desc \<Rightarrow> do {
         ds \<leftarrow> update_at 0 (d_submit_recv ops tid \<lparr>ro_ptr = p, ro_len = len, ro_desc = desc\<rparr>) (dg_domains g);
         Some (Inr (), g\<lparr>dg_domains := ds\<rparr>) } }"

section \<open>Progress and completions\<close>

text \<open>The map of immediate counters is shared by all domains, so polling threads it through them.\<close>

definition group_poll_progress ::
    "'d rdma_domain_ops \<Rightarrow> 'd domain_group \<Rightarrow> imm_count_map \<Rightarrow> ('d domain_group \<times> imm_count_map) option" where
  "group_poll_progress ops g m = do {
     (ds, m) \<leftarrow> foldM (\<lambda>i (ds, m). do {
         d \<leftarrow> index ds i;
         (d', m') \<leftarrow> d_poll_progress ops d m;
         Some (ds[i := d'], m') }) [0..<length (dg_domains g)] (dg_domains g, m);
     Some (g\<lparr>dg_domains := ds\<rparr>, m) }"

text \<open>
  One completion of a domain: either the loop over the domains goes on (\<open>None\<close>), or the call
  returns a value. The counters of the transfers live in the store of shared cells.
\<close>

fun merge_completion ::
    "domain_completion_entry \<Rightarrow> (transfer_id \<rightharpoonup> write_op_context) \<times> store
       \<Rightarrow> domain_completion_entry option option \<times> (transfer_id \<rightharpoonup> write_op_context) \<times> store" where
  "merge_completion (DError transfer_id err) (wo, s) =
     (let s = (case wo transfer_id of
                 Some write_op \<Rightarrow> (case woc_tx_counter write_op of Some tx_counter \<Rightarrow> tx_error tx_counter s | None \<Rightarrow> s)
               | None \<Rightarrow> s)
      in (Some (Some (DError transfer_id err)), wo(transfer_id := None), s))"
| "merge_completion (DTransfer transfer_id) (wo, s) =
     (case wo transfer_id of
        None \<Rightarrow> (None, wo, s)
      | Some ctx \<Rightarrow>
          (let ctx = ctx\<lparr>cnt_domain_completion := cnt_domain_completion ctx + 1\<rparr> in
           if num_used_domains ctx = cnt_domain_completion ctx
           then (case woc_tx_counter ctx of
                   Some tx_counter \<Rightarrow> (Some None, wo(transfer_id := None), tx_done tx_counter s)
                 | None \<Rightarrow> (Some (Some (DTransfer transfer_id)), wo(transfer_id := None), s))
           else (None, wo(transfer_id \<mapsto> ctx), s)))"
| "merge_completion (DImmData imm_data) (wo, s) = (Some (Some (DImmData imm_data)), wo, s)"
| "merge_completion (DRecv transfer_id data_len) (wo, s) = (Some (Some (DRecv transfer_id data_len)), wo, s)"
| "merge_completion (DSend transfer_id) (wo, s) = (Some (Some (DSend transfer_id)), wo, s)"
| "merge_completion (DImmCountReached imm) (wo, s) = (Some (Some (DImmCountReached imm)), wo, s)"

fun completion_loop ::
    "'d rdma_domain_ops \<Rightarrow> 'd list \<Rightarrow> (transfer_id \<rightharpoonup> write_op_context) \<times> store
       \<Rightarrow> domain_completion_entry option \<times> 'd list \<times> (transfer_id \<rightharpoonup> write_op_context) \<times> store" where
  "completion_loop ops [] ws = (None, [], ws)"
| "completion_loop ops (d # ds) ws =
     (case d_get_completion ops d of
        (None, d') \<Rightarrow> (case completion_loop ops ds ws of (r, ds', ws') \<Rightarrow> (r, d' # ds', ws'))
      | (Some c, d') \<Rightarrow>
          (case merge_completion c ws of
             (Some r, ws') \<Rightarrow> (r, d' # ds, ws')
           | (None, ws') \<Rightarrow>
               (case completion_loop ops ds ws' of (r, ds', ws'') \<Rightarrow> (r, d' # ds', ws''))))"

definition group_get_completion ::
    "'d rdma_domain_ops \<Rightarrow> 'd domain_group \<Rightarrow> store \<Rightarrow> domain_completion_entry option \<times> 'd domain_group \<times> store" where
  "group_get_completion ops g s =
     (case completion_loop ops (dg_domains g) (write_ops g, s) of
        (r, ds, wo, s') \<Rightarrow> (r, g\<lparr>dg_domains := ds, write_ops := wo\<rparr>, s'))"

section \<open>Merging completions\<close>

text \<open>A run of completions of the domains, in the order the group takes them: what it returns, and its state.\<close>

fun merge_run ::
    "domain_completion_entry list \<Rightarrow> (transfer_id \<rightharpoonup> write_op_context) \<times> store
       \<Rightarrow> domain_completion_entry list \<times> (transfer_id \<rightharpoonup> write_op_context) \<times> store" where
  "merge_run [] ws = ([], ws)"
| "merge_run (c # cs) ws =
     (let (r, ws) = merge_completion c ws; (rs, ws) = merge_run cs ws
      in ((case r of Some (Some x) \<Rightarrow> x # rs | _ \<Rightarrow> rs), ws))"

definition is_error_of :: "transfer_id \<Rightarrow> domain_completion_entry \<Rightarrow> bool" where
  "is_error_of tid c = (case c of DError t _ \<Rightarrow> t = tid | _ \<Rightarrow> False)"

text \<open>Completions of other transfers, and every other kind of completion, leave the context alone.\<close>

lemma merge_other:
  assumes "c \<noteq> DTransfer tid" "\<not> is_error_of tid c"
  shows "fst (snd (merge_completion c ws)) tid = fst ws tid"
    and "fst (merge_completion c ws) \<noteq> Some (Some (DTransfer tid))"
  using assms
  by (cases ws; cases c; auto simp: is_error_of_def Let_def split: option.splits if_splits)+

lemma merge_untracked:
  assumes "fst ws tid = None"
  shows "fst (snd (merge_completion c ws)) tid = None"
    and "fst (merge_completion c ws) \<noteq> Some (Some (DTransfer tid))"
  using assms by (cases ws; cases c; auto simp: Let_def split: option.splits if_splits)+

lemma merge_run_untracked:
  "fst ws tid = None \<Longrightarrow> fst (snd (merge_run cs ws)) tid = None \<and> DTransfer tid \<notin> set (fst (merge_run cs ws))"
proof (induction cs arbitrary: ws)
  case (Cons c cs)
  have "fst (snd (merge_completion c ws)) tid = None" "fst (merge_completion c ws) \<noteq> Some (Some (DTransfer tid))"
    using merge_untracked [OF Cons.prems] by simp_all
  then show ?case using Cons.IH [of "snd (merge_completion c ws)"]
    by (auto simp: Let_def case_prod_beta split: option.split)
qed simp

definition ctx_at :: "usize \<Rightarrow> usize \<Rightarrow> transfer_counter option \<Rightarrow> write_op_context" where
  "ctx_at n k tx = \<lparr>num_used_domains = n, cnt_domain_completion = k, woc_tx_counter = tx\<rparr>"

lemma merge_transfer:
  assumes "fst ws tid = Some (ctx_at n k tx)"
  shows "fst (merge_completion (DTransfer tid) ws) =
           (if Suc k = n then Some (if tx = None then Some (DTransfer tid) else None) else None)"
    and "fst (snd (merge_completion (DTransfer tid) ws)) tid =
           (if Suc k = n then None else Some (ctx_at n (Suc k) tx))"
  using assms by (cases ws; auto simp: ctx_at_def Let_def split: option.split)+

lemma merge_run_tracked:
  assumes "fst ws tid = Some (ctx_at n k tx)" "k < n" "\<forall>c \<in> set cs. \<not> is_error_of tid c"
  shows "filter (\<lambda>x. x = DTransfer tid) (fst (merge_run cs ws)) =
           (if tx = None \<and> n \<le> k + count_list cs (DTransfer tid) then [DTransfer tid] else []) \<and>
         fst (snd (merge_run cs ws)) tid =
           (if n \<le> k + count_list cs (DTransfer tid) then None
            else Some (ctx_at n (k + count_list cs (DTransfer tid)) tx))"
  using assms
proof (induction cs arbitrary: ws k)
  case (Cons c cs)
  let ?ws = "snd (merge_completion c ws)"
  have run: "fst (merge_run (c # cs) ws) =
      (case fst (merge_completion c ws) of Some (Some x) \<Rightarrow> x # fst (merge_run cs ?ws) | _ \<Rightarrow> fst (merge_run cs ?ws))"
    "snd (merge_run (c # cs) ws) = snd (merge_run cs ?ws)"
    by (auto simp: Let_def case_prod_beta split: option.split)
  show ?case
  proof (cases "c = DTransfer tid")
    case False
    have f: "fst ?ws tid = Some (ctx_at n k tx)" "fst (merge_completion c ws) \<noteq> Some (Some (DTransfer tid))"
      using merge_other [OF False, of ws] Cons.prems by simp_all
    have "filter (\<lambda>x. x = DTransfer tid) (fst (merge_run (c # cs) ws)) =
        filter (\<lambda>x. x = DTransfer tid) (fst (merge_run cs ?ws))"
      unfolding run(1) using f(2) by (auto split: option.split)
    then show ?thesis using Cons.IH [OF f(1)] Cons.prems(2,3) False unfolding run(2) by simp
  next
    case True
    note m = merge_transfer [OF Cons.prems(1)]
    show ?thesis
    proof (cases "Suc k = n")
      case hit: True
      have "fst ?ws tid = None" using m(2) hit True by simp
      from merge_run_untracked [OF this, of cs]
      have "filter (\<lambda>x. x = DTransfer tid) (fst (merge_run cs ?ws)) = []" "fst (snd (merge_run cs ?ws)) tid = None"
        by (auto simp: filter_empty_conv)
      then show ?thesis using m(1) hit True run by (auto split: option.split)
    next
      case False
      have "fst ?ws tid = Some (ctx_at n (Suc k) tx)" using m(2) False True by simp
      from Cons.IH [OF this] have "filter (\<lambda>x. x = DTransfer tid) (fst (merge_run cs ?ws)) =
           (if tx = None \<and> n \<le> Suc k + count_list cs (DTransfer tid) then [DTransfer tid] else []) \<and>
         fst (snd (merge_run cs ?ws)) tid =
           (if n \<le> Suc k + count_list cs (DTransfer tid) then None
            else Some (ctx_at n (Suc k + count_list cs (DTransfer tid)) tx))"
        using Cons.prems False by simp
      then show ?thesis using m(1) False True run by simp
    qed
  qed
qed simp

text \<open>
  \<^bold>\<open>C16.\<close> A transfer completes exactly once: in any stream of domain completions without an
  error of the transfer, interleaved with anything else, the group reports a tracked transfer
  once if all the domains it uses have reported and not before, and then forgets it. A transfer
  with a counter is not reported (its counter is bumped instead).
\<close>

theorem transfer_completes_once:
  assumes "0 < n" "\<forall>c \<in> set cs. \<not> is_error_of tid c"
  shows "let (out, wo, s') = merge_run cs (write_ops (track tid n tx g), s);
             k = count_list cs (DTransfer tid)
         in filter (\<lambda>x. x = DTransfer tid) out = (if tx = None \<and> n \<le> k then [DTransfer tid] else []) \<and>
            wo tid = (if n \<le> k then None else Some (ctx_at n k tx))"
proof -
  have "fst (write_ops (track tid n tx g), s) tid = Some (ctx_at n 0 tx)" by (simp add: track_def ctx_at_def)
  from merge_run_tracked [OF this assms] show ?thesis by (simp add: Let_def case_prod_beta)
qed

theorem transfer_completes_once_witness:
  "filter (\<lambda>x. x = DTransfer (TransferId 1))
     (fst (merge_run [DTransfer (TransferId 1), DImmData 4, DTransfer (TransferId 1), DTransfer (TransferId 1)]
        (write_ops (track (TransferId 1) 2 None (domain_group_new ([] :: unit list))), store0))) = [DTransfer (TransferId 1)]"
  using transfer_completes_once [of 2
      "[DTransfer (TransferId 1), DImmData 4, DTransfer (TransferId 1), DTransfer (TransferId 1)]" "TransferId 1"
      None "domain_group_new ([] :: unit list)" store0]
  by (simp add: is_error_of_def Let_def case_prod_beta del: merge_run.simps merge_completion.simps)

text \<open>One call takes at most one completion from each domain, in array order, and merges them.\<close>

lemma completion_loop_merges:
  "\<exists>cs. snd (snd (completion_loop ops ds ws)) = snd (merge_run cs ws) \<and>
        fst (merge_run cs ws) = (case fst (completion_loop ops ds ws) of None \<Rightarrow> [] | Some x \<Rightarrow> [x]) \<and>
        set cs \<subseteq> {c. \<exists>d \<in> set ds. fst (d_get_completion ops d) = Some c} \<and>
        length (fst (snd (completion_loop ops ds ws))) = length ds"
proof (induction ds arbitrary: ws)
  case Nil
  show ?case by (intro exI [of _ "[]"]) simp
next
  case (Cons d ds)
  obtain co d' where d: "d_get_completion ops d = (co, d')" by (cases "d_get_completion ops d")
  show ?case
  proof (cases co)
    case None
    obtain cs where "snd (snd (completion_loop ops ds ws)) = snd (merge_run cs ws)"
      "fst (merge_run cs ws) = (case fst (completion_loop ops ds ws) of None \<Rightarrow> [] | Some x \<Rightarrow> [x])"
      "set cs \<subseteq> {c. \<exists>d \<in> set ds. fst (d_get_completion ops d) = Some c}"
      "length (fst (snd (completion_loop ops ds ws))) = length ds" using Cons.IH by blast
    then show ?thesis using d None by (intro exI [of _ cs]) (auto simp: case_prod_beta)
  next
    case (Some c)
    obtain r ws' where m: "merge_completion c ws = (r, ws')" by (cases "merge_completion c ws")
    show ?thesis
    proof (cases r)
      case None
      obtain cs where "snd (snd (completion_loop ops ds ws')) = snd (merge_run cs ws')"
        "fst (merge_run cs ws') = (case fst (completion_loop ops ds ws') of None \<Rightarrow> [] | Some x \<Rightarrow> [x])"
        "set cs \<subseteq> {c. \<exists>d \<in> set ds. fst (d_get_completion ops d) = Some c}"
        "length (fst (snd (completion_loop ops ds ws'))) = length ds" using Cons.IH by blast
      then show ?thesis using d Some m None by (intro exI [of _ "c # cs"]) (auto simp: case_prod_beta)
    next
      case (Some out)
      then show ?thesis using d \<open>co = Some c\<close> m
        by (intro exI [of _ "[c]"]) (auto split: option.split)
    qed
  qed
qed

subsection \<open>Transfer counters\<close>

text \<open>
  Several transfers may share one pair of counters. \<open>pending_on\<close> counts the tracked transfers of a
  counter; other counters must use other cells.
\<close>

definition pending_on :: "transfer_counter \<Rightarrow> (transfer_id \<rightharpoonup> write_op_context) \<Rightarrow> nat" where
  "pending_on t wo = card {tid. \<exists>ctx. wo tid = Some ctx \<and> woc_tx_counter ctx = Some t}"

definition counters_apart :: "transfer_counter \<Rightarrow> (transfer_id \<rightharpoonup> write_op_context) \<Rightarrow> bool" where
  "counters_apart t wo \<longleftrightarrow> tc_err_counter t \<noteq> tc_counter t \<and>
     (\<forall>tid ctx u. wo tid = Some ctx \<longrightarrow> woc_tx_counter ctx = Some u \<longrightarrow> u \<noteq> t \<longrightarrow>
        tc_counter u \<noteq> tc_counter t \<and> tc_err_counter u \<noteq> tc_counter t)"

lemma tx_cells:
  "cells (tx_done u s) c = cells s c + (if tc_counter u = c then 1 else 0)"
  "tc_err_counter u \<noteq> c \<Longrightarrow> cells (tx_error u s) c = cells s c + (if tc_counter u = c then 1 else 0)"
  by (auto simp: tx_done_def tx_error_def fetch_add_def)

lemma finite_pending: "finite (dom wo) \<Longrightarrow> finite {tid. \<exists>ctx. wo tid = Some ctx \<and> woc_tx_counter ctx = Some t}"
  by (rule finite_subset [of _ "dom wo"]) auto

lemma pending_remove:
  assumes "finite (dom wo)" "wo tid = Some ctx"
  shows "pending_on t wo = pending_on t (wo(tid := None)) + (if woc_tx_counter ctx = Some t then 1 else 0)"
proof -
  let ?P = "\<lambda>wo. {tid. \<exists>ctx. wo tid = Some ctx \<and> woc_tx_counter ctx = Some t}"
  have fin: "finite (?P wo)" by (rule finite_pending [OF assms(1)])
  show ?thesis
  proof (cases "woc_tx_counter ctx = Some t")
    case True
    then have "?P wo = insert tid (?P (wo(tid := None)))" "tid \<notin> ?P (wo(tid := None))"
      using assms(2) by auto
    then show ?thesis using True fin by (simp add: pending_on_def)
  next
    case False
    then have "?P wo = ?P (wo(tid := None))" using assms(2) by auto
    then show ?thesis using False by (simp add: pending_on_def)
  qed
qed

lemma pending_same:
  "wo tid = Some ctx \<Longrightarrow> woc_tx_counter ctx' = woc_tx_counter ctx \<Longrightarrow> pending_on t (wo(tid \<mapsto> ctx')) = pending_on t wo"
  unfolding pending_on_def by (rule arg_cong [of _ _ card]) auto

definition counter_inv :: "transfer_counter \<Rightarrow> u64 \<Rightarrow> (transfer_id \<rightharpoonup> write_op_context) \<times> store \<Rightarrow> bool" where
  "counter_inv t v = (\<lambda>(wo, s). finite (dom wo) \<and> counters_apart t wo \<and>
     cells s (tc_counter t) + of_nat (pending_on t wo) = v)"

lemma counters_apart_remove: "counters_apart t wo \<Longrightarrow> counters_apart t (wo(tid := None))"
  unfolding counters_apart_def by simp

lemma counter_inv_finish:
  assumes inv: "counter_inv t v (wo, s)" and ctx: "wo tid = Some ctx"
    and s': "s' = (case woc_tx_counter ctx of Some u \<Rightarrow> f u s | None \<Rightarrow> s)"
    and f: "f = tx_done \<or> f = tx_error"
  shows "counter_inv t v (wo(tid := None), s')"
proof -
  have apart: "u = t \<or> (tc_counter u \<noteq> tc_counter t \<and> tc_err_counter u \<noteq> tc_counter t)"
    if "woc_tx_counter ctx = Some u" for u
    using inv ctx that unfolding counter_inv_def counters_apart_def by auto
  have err: "tc_err_counter t \<noteq> tc_counter t" using inv by (simp add: counter_inv_def counters_apart_def)
  have "cells s' (tc_counter t) = cells s (tc_counter t) + (if woc_tx_counter ctx = Some t then 1 else 0)"
  proof (cases "woc_tx_counter ctx")
    case (Some u)
    show ?thesis using f
    proof
      assume "f = tx_done"
      then show ?thesis using apart [OF Some] Some s' by (auto simp: tx_cells)
    next
      assume "f = tx_error"
      then show ?thesis using apart [OF Some] Some s' err by (auto simp: tx_cells)
    qed
  qed (simp add: s')
  then show ?thesis
    using inv pending_remove [of wo tid ctx t] ctx
    by (auto simp: counter_inv_def counters_apart_remove)
qed

lemma counter_inv_merge: "counter_inv t v ws \<Longrightarrow> counter_inv t v (snd (merge_completion c ws))"
proof (cases ws; cases c)
  fix wo s tid err
  assume inv: "counter_inv t v ws" and ws: "ws = (wo, s)" and c: "c = DError tid err"
  show ?thesis
  proof (cases "wo tid")
    case None
    then show ?thesis using inv ws c by (simp add: Let_def fun_upd_idem)
  next
    case (Some ctx)
    from counter_inv_finish [OF inv [unfolded ws] Some refl, of tx_error] show ?thesis
      using ws c Some by (simp add: Let_def)
  qed
next
  fix wo s tid
  assume inv: "counter_inv t v ws" and ws: "ws = (wo, s)" and c: "c = DTransfer tid"
  show ?thesis
  proof (cases "wo tid")
    case None
    then show ?thesis using inv ws c by simp
  next
    case (Some ctx)
    have "counter_inv t v (wo(tid \<mapsto> ctx\<lparr>cnt_domain_completion := Suc (cnt_domain_completion ctx)\<rparr>), s)"
      using inv Some pending_same [of wo tid ctx "ctx\<lparr>cnt_domain_completion := Suc (cnt_domain_completion ctx)\<rparr>" t]
      unfolding ws counter_inv_def counters_apart_def by (auto split: if_splits)
    then show ?thesis
      using ws c Some counter_inv_finish [OF inv [unfolded ws] Some refl, of tx_done]
      by (auto simp: Let_def split: option.split)
  qed
qed (use merge_completion.simps in auto)



section \<open>Sharding a request over the domains\<close>

text \<open>The calls a paged transfer makes: a domain and its range of pages, round robin from \<open>rr\<close>.\<close>

fun paged_plan :: "nat \<Rightarrow> nat \<Rightarrow> (nat \<times> nat) list \<Rightarrow> (nat \<times> nat \<times> nat) list" where
  "paged_plan n rr [] = []"
| "paged_plan n rr ((beg, stop) # rest) = (rr, beg, stop) # paged_plan n ((rr + 1) mod n) rest"

lemma paged_plan_indices:
  "rr < n \<Longrightarrow> map fst (paged_plan n rr rs) = map (\<lambda>j. (rr + j) mod n) [0..<length rs]"
proof (induction rs arbitrary: rr)
  case (Cons r rs)
  obtain beg stop where r: "r = (beg, stop)" by (cases r)
  have "map (\<lambda>j. (rr + j) mod n) [0..<Suc (length rs)] =
      rr mod n # map (\<lambda>j. (rr + Suc j) mod n) [0..<length rs]"
    by (simp add: map_upt_Suc del: upt_Suc)
  moreover have "map (\<lambda>j. ((rr + 1) mod n + j) mod n) [0..<length rs] = map (\<lambda>j. (rr + Suc j) mod n) [0..<length rs]"
    by (simp add: mod_add_left_eq)
  moreover have "(rr + 1) mod n < n" using Cons.prems by (intro mod_less_divisor) simp
  ultimately show ?case using Cons r by simp
qed simp

lemma round_robin_distinct: "m \<le> n \<Longrightarrow> distinct (map (\<lambda>j. (rr + j) mod n) [0..<m])" for n m rr :: nat
proof -
  assume m: "m \<le> n"
  have "inj_on (\<lambda>j. (rr + j) mod n) {0..<m}"
  proof (rule linorder_inj_onI)
    fix i j assume ij: "i < j" "i \<in> {0..<m}" "j \<in> {0..<m}"
    then have "\<not> n dvd (rr + j) - (rr + i)" using m by (auto dest: dvd_imp_le)
    then show "(rr + i) mod n \<noteq> (rr + j) mod n"
      using mod_eq_dvd_iff_nat [of "rr + i" "rr + j" n] ij(1) by auto
  qed auto
  then show ?thesis by (simp add: distinct_map)
qed

lemma paged_plan_distinct: "rr < n \<Longrightarrow> length rs \<le> n \<Longrightarrow> distinct (map fst (paged_plan n rr rs))"
  by (simp add: paged_plan_indices round_robin_distinct)

lemma paged_plan_ranges: "map snd (paged_plan n rr rs) = rs"
  by (induction n rr rs rule: paged_plan.induct) auto

lemma paged_plan_length [simp]: "length (paged_plan n rr rs) = length rs"
  by (induction n rr rs rule: paged_plan.induct) auto

definition paged_call ::
    "'d rdma_domain_ops \<Rightarrow> transfer_id \<Rightarrow> paged_transfer_request \<Rightarrow> (nat \<Rightarrow> memory_region_local_descriptor)
       \<Rightarrow> nat \<times> nat \<times> nat \<Rightarrow> 'd list \<Rightarrow> 'd list option" where
  "paged_call ops tid request desc = (\<lambda>(i, beg, stop). let ark = addr_rkey_list (pt_dst_mr request) ! i in
     update_at i (d_submit_write ops tid (fst ark) (paged_op request (desc i) (snd ark) beg stop)))"

lemma paged_loop_calls:
  assumes "length (addr_rkey_list (pt_dst_mr request)) = n" "n = length (dg_domains g)" "rr_next g < n"
    "length rs \<le> n"
    "\<forall>i \<in> set (map fst (paged_plan n (rr_next g) rs)).
       d_get_mem_desc ops (mr_ptr (pt_src_mr request)) (dg_domains g ! i) = Inr (desc i)"
  shows "paged_loop ops tid request rs g = do {
           ds \<leftarrow> foldM (paged_call ops tid request desc) (paged_plan n (rr_next g) rs) (dg_domains g);
           Some (Inr (), g\<lparr>dg_domains := ds, rr_next := (rr_next g + length rs) mod n\<rparr>) }"
  using assms
proof (induction rs arbitrary: g)
  case (Cons r rs)
  obtain beg stop where r: "r = (beg, stop)" by (cases r)
  let ?i = "rr_next g" and ?rr = "(rr_next g + 1) mod n"
  let ?ark = "addr_rkey_list (pt_dst_mr request) ! ?i"
  let ?call = "d_submit_write ops tid (fst ?ark) (paged_op request (desc ?i) (snd ?ark) beg stop)"
  have i: "?i < length (dg_domains g)" "?i < length (addr_rkey_list (pt_dst_mr request))"
    using Cons.prems by simp_all
  have step: "paged_loop ops tid request (r # rs) g = do {
      ds \<leftarrow> update_at ?i ?call (dg_domains g);
      paged_loop ops tid request rs (g\<lparr>rr_next := ?rr, dg_domains := ds\<rparr>) }"
    using i Cons.prems r by (simp add: Let_def case_prod_beta)
  show ?case
  proof (cases "update_at ?i ?call (dg_domains g)")
    case None
    then show ?thesis unfolding step using r by (simp add: paged_call_def Let_def)
  next
    case (Some ds)
    let ?g = "g\<lparr>rr_next := ?rr, dg_domains := ds\<rparr>"
    have len: "length ds = n" using update_at_length [OF Some] Cons.prems(2) by simp
    have ni: "?i \<notin> set (map fst (paged_plan n ?rr rs))"
      using paged_plan_distinct [of ?i n "r # rs"] Cons.prems(3,4) r by simp
    have "\<forall>i \<in> set (map fst (paged_plan n ?rr rs)).
        d_get_mem_desc ops (mr_ptr (pt_src_mr request)) (dg_domains ?g ! i) = Inr (desc i)"
    proof
      fix i assume i: "i \<in> set (map fst (paged_plan n ?rr rs))"
      then have "i \<in> set (map fst (paged_plan n ?i (r # rs)))" "i \<noteq> ?i" using r ni by (simp, metis)
      then show "d_get_mem_desc ops (mr_ptr (pt_src_mr request)) (dg_domains ?g ! i) = Inr (desc i)"
        using bspec [OF Cons.prems(5), of i] update_at_other [OF Some] by simp
    qed
    moreover have "?rr < n" using Cons.prems(3) by (intro mod_less_divisor) simp
    ultimately have "paged_loop ops tid request rs ?g = do {
           ds \<leftarrow> foldM (paged_call ops tid request desc) (paged_plan n ?rr rs) ds;
           Some (Inr (), ?g\<lparr>dg_domains := ds, rr_next := (?rr + length rs) mod n\<rparr>) }"
      using Cons.IH [of ?g] Cons.prems(1,4) len by simp
    moreover have "(?rr + length rs) mod n = (?i + length (r # rs)) mod n"
      by (simp add: mod_add_left_eq)
    ultimately show ?thesis
      unfolding step using Some r by (simp add: paged_call_def Let_def)
  qed
qed (simp add: assms)

text \<open>
  \<^bold>\<open>C18.\<close> A paged transfer is split over the domains without loss: with registered source
  memory, submitting it makes one write call on each of a list of different domains, each with
  that domain's own source descriptor and remote key, whose page ranges concatenate to all the
  pages of the request, and the number of calls is what the group waits for.
\<close>

theorem submit_paged_covers:
  assumes "length (addr_rkey_list (pt_dst_mr request)) = length (dg_domains g)"
    "length (pt_src_page_indices request) = length (pt_dst_page_indices request)"
    "rr_next g < length (dg_domains g)"
    "\<forall>i < length (dg_domains g). d_get_mem_desc ops (mr_ptr (pt_src_mr request)) (dg_domains g ! i) = Inr (desc i)"
  shows "\<exists>plan. submit_paged_transfer_request ops tid request tx g = do {
             ds \<leftarrow> foldM (paged_call ops tid request desc) plan (dg_domains g);
             Some (Inr (), (track tid (length plan) tx g)
               \<lparr>dg_domains := ds, rr_next := (rr_next g + length plan) mod length (dg_domains g)\<rparr>) } \<and>
           distinct (map fst plan) \<and> (\<forall>i \<in> set (map fst plan). i < length (dg_domains g)) \<and>
           concat (map (\<lambda>(i, beg, stop). [beg..<stop]) plan) = [0..<length (pt_src_page_indices request)]"
proof -
  let ?n = "length (dg_domains g)"
  let ?rs = "divide_evenly (length (pt_src_page_indices request)) ?n"
  let ?plan = "paged_plan ?n (rr_next g) ?rs"
  let ?g = "track tid (length ?rs) tx g"
  have n: "0 < ?n" using assms(3) by linarith
  have g: "dg_domains ?g = dg_domains g" "rr_next ?g = rr_next g" by (simp_all add: track_def)
  have len: "length ?rs \<le> ?n" by (rule divide_evenly_length)
  have idx: "\<forall>i \<in> set (map fst ?plan). i < ?n"
    unfolding paged_plan_indices [OF assms(3)] using n by auto
  have "paged_loop ops tid request ?rs ?g = do {
           ds \<leftarrow> foldM (paged_call ops tid request desc) ?plan (dg_domains g);
           Some (Inr (), ?g\<lparr>dg_domains := ds, rr_next := (rr_next g + length ?rs) mod ?n\<rparr>) }"
    using paged_loop_calls [of request ?n ?g ?rs ops desc tid] assms len idx unfolding g by simp
  then have "submit_paged_transfer_request ops tid request tx g = do {
           ds \<leftarrow> foldM (paged_call ops tid request desc) ?plan (dg_domains g);
           Some (Inr (), ?g\<lparr>dg_domains := ds, rr_next := (rr_next g + length ?plan) mod ?n\<rparr>) }"
    using assms(1,2) n by (simp add: submit_paged_transfer_request_def Let_def)
  moreover have "concat (map (\<lambda>(i, beg, stop). [beg..<stop]) ?plan) = [0..<length (pt_src_page_indices request)]"
  proof -
    have "map (\<lambda>(i, beg, stop). [beg..<stop]) ?plan = map (\<lambda>(b, e). [b..<e]) (map snd ?plan)"
      by (simp add: case_prod_beta)
    then show ?thesis unfolding paged_plan_ranges using divide_evenly_concat [OF n] by simp
  qed
  ultimately show ?thesis
    using paged_plan_distinct [OF assms(3) len] idx by (intro exI [of _ ?plan]) simp
qed

text \<open>
  A domain that records its calls, on which the examples run: memory descriptors carry the
  number of the domain.
\<close>

datatype rec_call = RecWrite transfer_id domain_address write_op | RecGroup transfer_id group_write_op

record rec_domain =
  rec_id :: nat
  rec_calls :: "rec_call list"

definition rec_ops :: "rec_domain rdma_domain_ops" where
  "rec_ops = \<lparr>d_link_speed = (\<lambda>d. 100), d_addr = (\<lambda>d. DomainAddress [of_nat (rec_id d)]),
     d_register_mr_local = (\<lambda>r d. (Inr (), d)),
     d_register_mr_allow_remote = (\<lambda>r d. (Inr (MemoryRegionRemoteKey (of_nat (rec_id d))), d)),
     d_unregister_mr = (\<lambda>p d. d),
     d_get_mem_desc = (\<lambda>p d. Inr (MemoryRegionLocalDescriptor (of_nat (rec_id d)))),
     d_submit_recv = (\<lambda>t op d. Some d), d_submit_send = (\<lambda>t a op d. Some d),
     d_submit_write = (\<lambda>t a op d. Some (d\<lparr>rec_calls := rec_calls d @ [RecWrite t a op]\<rparr>)),
     d_add_peer_group = (\<lambda>h as d. (Inr (), d)),
     d_submit_group_write = (\<lambda>t h op d. Some (d\<lparr>rec_calls := rec_calls d @ [RecGroup t op]\<rparr>)),
     d_poll_progress = (\<lambda>d m. Some (d, m)), d_get_completion = (\<lambda>d. (None, d))\<rparr>"

definition rec_group :: "nat \<Rightarrow> rec_domain domain_group" where
  "rec_group rr = (domain_group_new (map (\<lambda>i. \<lparr>rec_id = i, rec_calls = []\<rparr>) [0..<2]))\<lparr>rr_next := rr\<rparr>"

definition rec_mr :: memory_region_descriptor where
  "rec_mr = \<lparr>mrd_ptr = 64, addr_rkey_list = [(DomainAddress [0], MemoryRegionRemoteKey 0), (DomainAddress [1], MemoryRegionRemoteKey 1)]\<rparr>"

definition rec_paged :: paged_transfer_request where
  "rec_paged = \<lparr>pt_length = 64, pt_src_mr = MemoryRegionHandle 32, pt_src_page_indices = [0, 1, 2], pt_src_stride = 64,
     pt_src_offset = 0, pt_dst_mr = rec_mr, pt_dst_page_indices = [2, 1, 0], pt_dst_stride = 64, pt_dst_offset = 0,
     pt_imm_data = None\<rparr>"

theorem submit_paged_covers_witness:
  "\<exists>plan. submit_paged_transfer_request rec_ops (TransferId 1) rec_paged None (rec_group 1) = do {
       ds \<leftarrow> foldM (paged_call rec_ops (TransferId 1) rec_paged (\<lambda>i. MemoryRegionLocalDescriptor (of_nat i))) plan
              (dg_domains (rec_group 1));
       Some (Inr (), (track (TransferId 1) (length plan) None (rec_group 1))
         \<lparr>dg_domains := ds, rr_next := (1 + length plan) mod 2\<rparr>) } \<and>
     concat (map (\<lambda>(i, beg, stop). [beg..<stop]) plan) = [0..<3]"
proof -
  have n: "length (dg_domains (rec_group 1)) = 2" "rr_next (rec_group 1) = 1"
    by (simp_all add: rec_group_def domain_group_new_def)
  have "\<forall>i < length (dg_domains (rec_group 1)).
      d_get_mem_desc rec_ops (mr_ptr (pt_src_mr rec_paged)) (dg_domains (rec_group 1) ! i) =
        Inr (MemoryRegionLocalDescriptor (of_nat i))"
    by (simp add: rec_group_def domain_group_new_def rec_ops_def nth_append)
  moreover have "length (addr_rkey_list (pt_dst_mr rec_paged)) = length (dg_domains (rec_group 1))"
    "length (pt_src_page_indices rec_paged) = length (pt_dst_page_indices rec_paged)"
    "rr_next (rec_group 1) < length (dg_domains (rec_group 1))" "length (pt_src_page_indices rec_paged) = 3"
    unfolding n by (simp_all add: rec_paged_def rec_mr_def)
  ultimately show ?thesis using submit_paged_covers [of rec_paged "rec_group 1"] unfolding n by metis
qed

subsection \<open>Requests that never complete\<close>

text \<open>
  \<^bold>\<open>C21.\<close> A paged request without pages is accepted, makes no call to any domain, and is
  tracked with zero domains: no stream of completions ever makes the group report it.
\<close>

theorem submit_paged_empty_stuck:
  assumes "length (addr_rkey_list (pt_dst_mr request)) = length (dg_domains g)" "dg_domains g \<noteq> []"
    "pt_src_page_indices request = []" "pt_dst_page_indices request = []"
    "\<forall>c \<in> set cs. \<not> is_error_of tid c"
  shows "submit_paged_transfer_request ops tid request tx g = Some (Inr (), track tid 0 tx g) \<and>
         DTransfer tid \<notin> set (fst (merge_run cs (write_ops (track tid 0 tx g), s)))"
proof -
  have "divide_evenly 0 (length (dg_domains g)) = []" using assms(2) by (simp add: divide_evenly_empty_iff)
  then have sub: "submit_paged_transfer_request ops tid request tx g = Some (Inr (), track tid 0 tx g)"
    using assms by (simp add: submit_paged_transfer_request_def)
  have "\<exists>k. fst ws tid = Some (ctx_at 0 k tx) \<Longrightarrow> DTransfer tid \<notin> set (fst (merge_run cs ws))" for ws
    using assms(5)
  proof (induction cs arbitrary: ws)
    case (Cons c cs)
    then obtain k where k: "fst ws tid = Some (ctx_at 0 k tx)" by blast
    let ?m = "merge_completion c ws"
    have "fst ?m \<noteq> Some (Some (DTransfer tid)) \<and> (\<exists>k. fst (snd ?m) tid = Some (ctx_at 0 k tx))"
      using merge_transfer [OF k] merge_other [of c tid ws] k Cons.prems(2) by (cases "c = DTransfer tid") auto
    then show ?case using Cons.IH [of "snd ?m"] Cons.prems(2)
      by (auto simp: Let_def case_prod_beta split: option.split)
  qed simp
  then show ?thesis using sub by (auto simp: track_def ctx_at_def)
qed

theorem submit_paged_empty_stuck_witness:
  "DTransfer (TransferId 1) \<notin> set (fst (merge_run [DTransfer (TransferId 1)]
     (write_ops (track (TransferId 1) 0 None (rec_group 0)), store0)))"
  using submit_paged_empty_stuck [of "rec_paged\<lparr>pt_src_page_indices := [], pt_dst_page_indices := []\<rparr>"
      "rec_group 0" "[DTransfer (TransferId 1)]" "TransferId 1" rec_ops None store0]
  by (simp add: rec_paged_def rec_mr_def rec_group_def domain_group_new_def is_error_of_def upt_conv_Cons
      del: merge_run.simps)

subsection \<open>Single transfers\<close>

lemma shard_one: "shard_single_transfer sz 1 = [(0, sz)]"
  using round_up_ge [of MIN_SIZE sz] by (auto simp: shard_single_transfer_def MIN_SIZE_def)

text \<open>The operation of shard \<open>j\<close>, built with the descriptor, address and key of domain \<open>i\<close>.\<close>

definition single_shard ::
    "single_transfer_request \<Rightarrow> (nat \<Rightarrow> memory_region_local_descriptor) \<Rightarrow> nat \<Rightarrow> nat \<times> nat \<Rightarrow> write_op \<times> domain_address" where
  "single_shard request desc i = (\<lambda>(offset, len). let ark = addr_rkey_list (st_dst_mr request) ! i in
     (single_op request (desc i) (snd ark) offset len, fst ark))"

lemma single_loop_pinned:
  assumes "st_domain request = Pinned k" "unat k < length (dg_domains g)"
    "length (addr_rkey_list (st_dst_mr request)) = length (dg_domains g)"
    "d_get_mem_desc ops (mr_ptr (st_src_mr request)) (dg_domains g ! unat k) = Inr (desc (unat k))"
  shows "single_loop ops request rs g = Some (Inr (map (single_shard request desc (unat k)) rs), g)"
proof (induction rs)
  case (Cons r rs)
  then show ?case using assms by (cases r) (simp add: single_shard_def Let_def case_prod_beta)
qed simp

lemma single_loop_round_robin:
  assumes "st_domain request = RoundRobinSharded k"
    "length (addr_rkey_list (st_dst_mr request)) = length (dg_domains g)" "rr_next g < length (dg_domains g)"
    "\<forall>i < length (dg_domains g). d_get_mem_desc ops (mr_ptr (st_src_mr request)) (dg_domains g ! i) = Inr (desc i)"
  shows "single_loop ops request rs g =
           Some (Inr (map (\<lambda>(j, r). single_shard request desc ((rr_next g + j) mod length (dg_domains g)) r)
                        (List.enumerate 0 rs)),
                 g\<lparr>rr_next := (rr_next g + length rs) mod length (dg_domains g)\<rparr>)"
  using assms
proof (induction rs arbitrary: g)
  case (Cons r rs)
  let ?n = "length (dg_domains g)"
  let ?g = "g\<lparr>rr_next := (rr_next g + 1) mod ?n\<rparr>"
  have "(rr_next g + 1) mod ?n < ?n" using Cons.prems(3) by (intro mod_less_divisor) linarith
  then have IH: "single_loop ops request rs ?g =
      Some (Inr (map (\<lambda>(j, r). single_shard request desc (((rr_next g + 1) mod ?n + j) mod ?n) r) (List.enumerate 0 rs)),
            g\<lparr>rr_next := ((rr_next g + 1) mod ?n + length rs) mod ?n\<rparr>)"
    using Cons.IH [of ?g] Cons.prems by simp
  have shift: "map (\<lambda>(j, r). single_shard request desc (((rr_next g + 1) mod ?n + j) mod ?n) r) (List.enumerate 0 rs) =
      map (\<lambda>(j, r). single_shard request desc ((rr_next g + j) mod ?n) r) (List.enumerate 1 rs)"
    by (rule nth_equalityI) (simp_all add: nth_enumerate_eq mod_add_left_eq)
  show ?case
    using Cons.prems IH shift
    by (cases r) (simp add: single_shard_def Let_def case_prod_beta mod_add_left_eq)
qed (simp add: assms)

text \<open>
  A single transfer pinned to a domain is built with the descriptor, peer address and
  key of that domain, but handed to the first domain of the group, whichever domain was asked for.
\<close>

theorem submit_single_pinned_first:
  assumes "st_domain request = Pinned k" "unat k < length (dg_domains g)"
    "length (addr_rkey_list (st_dst_mr request)) = length (dg_domains g)"
    "d_get_mem_desc ops (mr_ptr (st_src_mr request)) (dg_domains g ! unat k) = Inr (desc (unat k))"
  shows "submit_single_transfer_request ops tid request tx g = do {
           ds \<leftarrow> update_at 0 (d_submit_write ops tid
                     (snd (single_shard request desc (unat k) (0, unat (st_length request))))
                     (fst (single_shard request desc (unat k) (0, unat (st_length request))))) (dg_domains g);
           Some (Inr (), (track tid 1 tx g)\<lparr>dg_domains := ds\<rparr>) }"
proof -
  have "dg_domains (track tid m tx g) = dg_domains g" for m by (simp add: track_def)
  moreover have "single_loop ops request [(0, unat (st_length request))] g =
      Some (Inr [single_shard request desc (unat k) (0, unat (st_length request))], g)"
    using single_loop_pinned [where desc = desc, OF assms, of "[(0, unat (st_length request))]"] by simp
  moreover have "0 < length (dg_domains g)" using assms(2) by linarith
  ultimately show ?thesis
    using assms(1-3) shard_one [of "unat (st_length request)"]
    by (simp add: submit_single_transfer_request_def submit_zip_def case_prod_beta del: single_loop.simps)
qed

definition rec_single :: single_transfer_request where
  "rec_single = \<lparr>st_src_mr = MemoryRegionHandle 32, st_src_offset = 0, st_length = 100, st_imm_data = None,
     st_dst_mr = rec_mr, st_dst_offset = 0, st_domain = Pinned 1\<rparr>"

theorem submit_single_pinned_first_witness:
  "submit_single_transfer_request rec_ops (TransferId 1) rec_single None (rec_group 0) =
     do { ds \<leftarrow> update_at 0 (d_submit_write rec_ops (TransferId 1) (DomainAddress [1])
            (single_op rec_single (MemoryRegionLocalDescriptor 1) (MemoryRegionRemoteKey 1) 0 100)) (dg_domains (rec_group 0));
          Some (Inr (), (track (TransferId 1) 1 None (rec_group 0))\<lparr>dg_domains := ds\<rparr>) }"
  using submit_single_pinned_first [of rec_single 1 "rec_group 0" rec_ops "\<lambda>i. MemoryRegionLocalDescriptor (of_nat i)"
      "TransferId 1" None]
  by (simp add: rec_single_def rec_mr_def rec_group_def domain_group_new_def single_shard_def rec_ops_def
      upt_conv_Cons)

text \<open>
  \<^bold>\<open>C20.\<close> A sharded single transfer hands one shard to each of the first \<open>num_shards\<close> domains and
  waits for as many completions; shard \<open>j\<close> is built for the domain the round robin points at, so it
  goes to the domain it was built for exactly when the round robin starts at the first domain.
\<close>

theorem submit_single_sharded:
  assumes "st_domain request = RoundRobinSharded k" "0 < unat k" "unat k \<le> length (dg_domains g)"
    "length (addr_rkey_list (st_dst_mr request)) = length (dg_domains g)" "rr_next g < length (dg_domains g)"
    "\<forall>i < length (dg_domains g). d_get_mem_desc ops (mr_ptr (st_src_mr request)) (dg_domains g ! i) = Inr (desc i)"
  shows "submit_single_transfer_request ops tid request tx g = do {
           ds \<leftarrow> foldM (\<lambda>(j, r). let (op, addr) = single_shard request desc ((rr_next g + j) mod length (dg_domains g)) r
                              in update_at j (d_submit_write ops tid addr op))
                  (List.enumerate 0 (shard_single_transfer (unat (st_length request)) (unat k))) (dg_domains g);
           Some (Inr (), (track tid (unat k) tx g)
             \<lparr>rr_next := (rr_next g + unat k) mod length (dg_domains g), dg_domains := ds\<rparr>) } \<and>
         ((\<forall>j < unat k. (rr_next g + j) mod length (dg_domains g) = j) \<longleftrightarrow> rr_next g = 0)"
proof
  let ?n = "length (dg_domains g)"
  let ?rs = "shard_single_transfer (unat (st_length request)) (unat k)"
  have len: "length ?rs = unat k" by (simp add: shard_single_transfer_def shard_loop_length)
  let ?f = "\<lambda>(j, r). single_shard request desc ((rr_next g + j) mod ?n) r"
  have enum: "List.enumerate 0 (map ?f (List.enumerate 0 rs)) = map (\<lambda>(j, r). (j, ?f (j, r))) (List.enumerate 0 rs)" for rs
    by (rule nth_equalityI) (simp_all add: nth_enumerate_eq)
  have zip: "submit_zip ops tid (map ?f (List.enumerate 0 ?rs)) (dg_domains g) =
      foldM (\<lambda>(j, r). let (op, addr) = single_shard request desc ((rr_next g + j) mod ?n) r
                     in update_at j (d_submit_write ops tid addr op)) (List.enumerate 0 ?rs) (dg_domains g)"
    using assms(3) len unfolding submit_zip_def
    by (simp add: enum [unfolded case_prod_unfold] foldM_map case_prod_unfold Let_def)
  have dom: "dg_domains (track tid m tx h) = dg_domains h" "(track tid m tx h)\<lparr>rr_next := x\<rparr> = track tid m tx (h\<lparr>rr_next := x\<rparr>)"
    for m h x by (simp_all add: track_def)
  show "submit_single_transfer_request ops tid request tx g = do {
           ds \<leftarrow> foldM (\<lambda>(j, r). let (op, addr) = single_shard request desc ((rr_next g + j) mod ?n) r
                              in update_at j (d_submit_write ops tid addr op)) (List.enumerate 0 ?rs) (dg_domains g);
           Some (Inr (), (track tid (unat k) tx g)\<lparr>rr_next := (rr_next g + unat k) mod ?n, dg_domains := ds\<rparr>) }"
    using assms(1-4) single_loop_round_robin [where desc = desc, OF assms(1,4-6), of ?rs] len zip
    by (simp add: submit_single_transfer_request_def dom)
  show "(\<forall>j < unat k. (rr_next g + j) mod ?n = j) \<longleftrightarrow> rr_next g = 0"
  proof
    assume "\<forall>j < unat k. (rr_next g + j) mod ?n = j"
    then have "(rr_next g + 0) mod ?n = 0" using assms(2) by blast
    then show "rr_next g = 0" using assms(5) by simp
  qed (use assms(3) in simp)
qed

theorem submit_single_sharded_witness:
  "\<not> (\<forall>j < 2. (rr_next (rec_group 1) + j) mod length (dg_domains (rec_group 1)) = j)"
proof -
  let ?r = "rec_single\<lparr>st_domain := RoundRobinSharded 2\<rparr>"
  have n: "length (dg_domains (rec_group 1)) = 2" "rr_next (rec_group 1) = 1"
    by (simp_all add: rec_group_def domain_group_new_def)
  have "\<forall>i < length (dg_domains (rec_group 1)).
      d_get_mem_desc rec_ops (mr_ptr (st_src_mr ?r)) (dg_domains (rec_group 1) ! i) =
        Inr (MemoryRegionLocalDescriptor (of_nat i))"
    by (simp add: rec_group_def domain_group_new_def rec_ops_def nth_append)
  from submit_single_sharded [where desc = "\<lambda>i. MemoryRegionLocalDescriptor (of_nat i)", OF _ _ _ _ _ this, of 2]
  show ?thesis unfolding n by (simp add: rec_single_def rec_mr_def)
qed

subsection \<open>Immediates\<close>

text \<open>The write of an immediate to one target, with its \<open>i\<close>-th address, on domain \<open>k\<close>.\<close>

definition imm_call ::
    "'d rdma_domain_ops \<Rightarrow> transfer_id \<Rightarrow> u32 \<Rightarrow> nat \<Rightarrow> nat \<Rightarrow> memory_region_descriptor \<Rightarrow> 'd list \<Rightarrow> 'd list option" where
  "imm_call ops tid imm_data k i dst_mr = (let ark = addr_rkey_list dst_mr ! i in
     update_at k (d_submit_write ops tid (fst ark)
       (ImmW \<lparr>iw_imm_data = imm_data, iw_dst_ptr = mrd_ptr dst_mr, iw_dst_rkey = snd ark\<rparr>)))"

lemma imm_chunk_calls:
  assumes "\<forall>m \<in> set mrs. i < length (addr_rkey_list m)" "length ds = n"
  shows "imm_chunk ops tid imm_data first (i, mrs) ds = foldM (imm_call ops tid imm_data ((first + i) mod n) i) mrs ds"
  using assms
proof (induction mrs arbitrary: ds)
  case (Cons m mrs)
  have "update_at ((first + i) mod n) f ds = Some ds' \<Longrightarrow> length ds' = n" for f ds'
    using update_at_length Cons.prems(2) by metis
  then show ?case
    using Cons by (auto simp: imm_chunk_def imm_call_def Let_def case_prod_beta split: Option.bind_splits)
qed (simp add: imm_chunk_def)

text \<open>
  An immediate or barrier pinned to a domain makes one write on that domain for every
  target and waits for all of them, but every write uses the target's first address and key,
  which belong to the pinned domain only if it is the first.
\<close>

theorem submit_imm_pinned:
  assumes "\<forall>m \<in> set dst_mrs. length (addr_rkey_list m) = length (dg_domains g)" "dst_mrs \<noteq> []"
    "unat k < length (dg_domains g)"
  shows "submit_imm_transfer_request ops tid imm_data dst_mrs (Pinned k) tx g = do {
           ds \<leftarrow> foldM (imm_call ops tid imm_data (unat k) 0) dst_mrs (dg_domains g);
           Some (Inr (), (track tid (length dst_mrs) tx g)\<lparr>dg_domains := ds\<rparr>) }"
proof -
  let ?n = "length (dg_domains g)"
  have "chunks (length dst_mrs) dst_mrs = Some [dst_mrs]"
    using assms(2) by (cases dst_mrs) (simp_all add: chunks_def)
  moreover have "imm_chunk ops tid imm_data (unat k) (0, dst_mrs) (dg_domains g) =
      foldM (imm_call ops tid imm_data ((unat k + 0) mod ?n) 0) dst_mrs (dg_domains g)"
    using assms by (intro imm_chunk_calls) auto
  moreover have "\<not> (\<exists>m \<in> set dst_mrs. length (addr_rkey_list m) \<noteq> ?n)" using assms(1) by blast
  moreover have "dg_domains (track tid (length dst_mrs) tx g) = dg_domains g"
    "(track tid (length dst_mrs) tx g)\<lparr>rr_next := rr_next (track tid (length dst_mrs) tx g)\<rparr> = track tid (length dst_mrs) tx g"
    by (simp_all add: track_def)
  ultimately show ?thesis
    using assms(3) by (simp add: submit_imm_transfer_request_def Let_def)
qed

theorem submit_imm_pinned_witness:
  "submit_imm_transfer_request rec_ops (TransferId 1) 9 [rec_mr] (Pinned 1) None (rec_group 0) = do {
     ds \<leftarrow> foldM (imm_call rec_ops (TransferId 1) 9 1 0) [rec_mr] (dg_domains (rec_group 0));
     Some (Inr (), (track (TransferId 1) 1 None (rec_group 0))\<lparr>dg_domains := ds\<rparr>) }"
  using submit_imm_pinned [of "[rec_mr]" "rec_group 0" 1 rec_ops "TransferId 1" 9 None]
  by (simp add: rec_mr_def rec_group_def domain_group_new_def)

text \<open>
  The failures of an immediate or barrier request: wrong target lists are refused with
  the group unchanged; a wrong routing is refused too, but leaves the transfer tracked for
  completions that will never come; and a request without targets panics.
\<close>

theorem submit_imm_failures:
  assumes "dg_domains g \<noteq> []"
  shows "((\<exists>m \<in> set dst_mrs. length (addr_rkey_list m) \<noteq> length (dg_domains g)) \<longrightarrow>
            submit_imm_transfer_request ops tid imm_data dst_mrs routing tx g = Some (Inl mismatch_error, g)) \<and>
         ((\<forall>m \<in> set dst_mrs. length (addr_rkey_list m) = length (dg_domains g)) \<longrightarrow> k \<noteq> 1 \<longrightarrow>
            (\<exists>e. submit_imm_transfer_request ops tid imm_data dst_mrs (RoundRobinSharded k) tx g =
                   Some (Inl e, track tid (length dst_mrs) tx g))) \<and>
         ((\<forall>m \<in> set dst_mrs. length (addr_rkey_list m) = length (dg_domains g)) \<longrightarrow> length (dg_domains g) \<le> unat k \<longrightarrow>
            (\<exists>e. submit_imm_transfer_request ops tid imm_data dst_mrs (Pinned k) tx g =
                   Some (Inl e, track tid (length dst_mrs) tx g))) \<and>
         submit_imm_transfer_request ops tid imm_data [] (RoundRobinSharded 1) tx g = None"
  using assms by (auto simp: submit_imm_transfer_request_def Let_def chunks_def)

theorem submit_imm_failures_witness:
  "\<exists>e. submit_imm_transfer_request rec_ops (TransferId 1) 9 [rec_mr] (RoundRobinSharded 2) None (rec_group 0) =
     Some (Inl e, track (TransferId 1) 1 None (rec_group 0))"
  using submit_imm_failures [of "rec_group 0" "[rec_mr]" rec_ops "TransferId 1" 9 "Pinned 0" None 2]
  by (simp add: rec_mr_def rec_group_def domain_group_new_def)

subsection \<open>Scatter transfers\<close>

definition scatter_handle_ok :: "scatter_transfer_request \<Rightarrow> 'd domain_group \<Rightarrow> bool" where
  "scatter_handle_ok request g =
     (case sct_dst_handle request of
        None \<Rightarrow> True
      | Some h \<Rightarrow> (case map_of (peer_groups g) h of None \<Rightarrow> False | Some addrs \<Rightarrow> length (sct_dsts request) = length addrs))"

definition scatter_calls ::
    "scatter_transfer_request \<Rightarrow> (nat \<Rightarrow> memory_region_local_descriptor) \<Rightarrow> nat \<Rightarrow> (nat \<times> group_write_op) list" where
  "scatter_calls request desc n =
     map (\<lambda>(i, beg, stop, shards, idx). (i, scatter_op request i (desc i) beg stop shards idx)) (scatter_shards request n)"

lemma scatter_loop_calls:
  assumes "\<forall>x \<in> set xs. fst x < length ds"
    "\<forall>i < length ds. d_get_mem_desc ops (mr_ptr (sct_src_mr request)) (ds ! i) = Inr (desc i)"
  shows "scatter_loop ops request xs ds =
    Some (Inr (map (\<lambda>(i, beg, stop, shards, idx). (i, scatter_op request i (desc i) beg stop shards idx)) xs))"
  using assms(1)
proof (induction xs)
  case (Cons x xs)
  then show ?case using assms(2) by (cases x) simp
qed simp

lemma scatter_shards_indices:
  assumes "0 < n" "\<forall>k. sct_domain request = SingleDomain k \<longrightarrow> unat k < n"
  shows "distinct (map fst (scatter_shards request n)) \<and> (\<forall>x \<in> set (scatter_shards request n). fst x < n)"
proof (cases "sct_domain request")
  case AllDomainsShardPeers
  let ?rs = "divide_evenly (length (sct_dsts request)) n"
  have "map fst (scatter_shards request n) = [0..<length ?rs]"
    using AllDomainsShardPeers divide_evenly_length [of "length (sct_dsts request)" n]
    by (simp add: scatter_shards_def case_prod_unfold comp_def)
  then show ?thesis
    using divide_evenly_length [of "length (sct_dsts request)" n] by (metis atLeastLessThan_iff distinct_upt
        image_eqI less_le_trans set_map set_upt)
qed (use assms in \<open>auto simp: scatter_shards_def comp_def\<close>)

lemma scatter_shards_peers:
  assumes "0 < n" "sct_domain request = AllDomainsShardPeers"
  shows "concat (map (\<lambda>(i, beg, stop, shards, idx). [beg..<stop]) (scatter_shards request n)) = [0..<length (sct_dsts request)]"
proof -
  let ?m = "length (sct_dsts request)"
  have "map (\<lambda>(i, beg, stop, shards, idx). [beg..<stop]) (scatter_shards request n) =
      map (\<lambda>(b, e). [b..<e]) (map snd (List.enumerate 0 (divide_evenly ?m n)))"
    using assms(2) divide_evenly_length [of ?m n]
    by (simp add: scatter_shards_def case_prod_unfold comp_def, intro nth_equalityI)
      (simp_all add: nth_enumerate_eq)
  then show ?thesis using divide_evenly_concat [OF assms(1), of ?m] by simp
qed


definition rec_scatter :: scatter_transfer_request where
  "rec_scatter = \<lparr>sct_src_mr = MemoryRegionHandle 32, sct_dst_handle = None,
     sct_dsts = replicate 3 \<lparr>sc_dst_mr = rec_mr, sc_length = 64, sc_src_offset = 0, sc_dst_offset = 0\<rparr>,
     sct_imm_data = None, sct_domain = AllDomainsShardPeers\<rparr>"


subsection \<open>Peer groups\<close>

text \<open>Handles are given out in increasing order, one per list of addresses.\<close>

definition peer_groups_wf :: "'d domain_group \<Rightarrow> bool" where
  "peer_groups_wf g \<longleftrightarrow> distinct (map fst (peer_groups g)) \<and> distinct (map snd (peer_groups g)) \<and>
     (\<forall>h \<in> set (map fst (peer_groups g)). pgh_val h < next_peer_group_handle g)"

lemma alist_update_new: "k \<notin> set (map fst al) \<Longrightarrow> AList.update k v al = al @ [(k, v)]"
  by (induction al) auto

lemma find_peer_group_iff:
  assumes "distinct (map snd gs)"
  shows "find_peer_group addrs gs = Some h \<longleftrightarrow> (h, addrs) \<in> set gs"
  using assms
  by (induction gs) (auto simp: find_peer_group_def image_iff split: if_splits)

lemma find_peer_group_None: "find_peer_group addrs gs = None \<longleftrightarrow> addrs \<notin> set (map snd gs)"
  by (force simp: find_peer_group_def find_None_iff)

lemma add_peer_group_new:
  assumes wf: "peer_groups_wf g" and new: "find_peer_group addrs (peer_groups g) = None"
    and room: "next_peer_group_handle g + 1 \<noteq> 0"
  defines "h \<equiv> PeerGroupHandle (next_peer_group_handle g)"
  defines "g1 \<equiv> g\<lparr>next_peer_group_handle := next_peer_group_handle g + 1,
                    peer_groups := AList.update h addrs (peer_groups g)\<rparr>"
  shows "peer_groups_wf (g1\<lparr>dg_domains := ds\<rparr>) \<and> (h, addrs) \<in> set (peer_groups g1)"
proof -
  have fresh: "h \<notin> set (map fst (peer_groups g))"
    using wf unfolding peer_groups_wf_def h_def by (metis less_irrefl peer_group_handle.sel)
  have "next_peer_group_handle g < next_peer_group_handle g + 1"
    using room unatSuc [of "next_peer_group_handle g"] by (simp add: word_less_nat_alt add.commute)
  then have "pgh_val k < next_peer_group_handle g + 1" if "k \<in> set (map fst (peer_groups g)) \<or> k = h" for k
    using wf that unfolding peer_groups_wf_def h_def by (metis less_trans peer_group_handle.sel)
  then show ?thesis
    using wf fresh new by (auto simp: peer_groups_wf_def g1_def alist_update_new find_peer_group_None)
qed

lemma add_peer_group_wf:
  assumes wf: "peer_groups_wf g" and room: "next_peer_group_handle g + 1 \<noteq> 0"
    and call: "add_peer_group ops addrs g = Some (r, g')"
  shows "peer_groups_wf g' \<and> (\<exists>h. (h, addrs) \<in> set (peer_groups g') \<and> (\<forall>k. r = Inr k \<longrightarrow> k = h))"
proof (cases "find_peer_group addrs (peer_groups g)")
  case None
  let ?h = "PeerGroupHandle (next_peer_group_handle g)"
  let ?g = "g\<lparr>next_peer_group_handle := next_peer_group_handle g + 1,
              peer_groups := AList.update ?h addrs (peer_groups g)\<rparr>"
  obtain ds where g': "g' = ?g\<lparr>dg_domains := ds\<rparr>" and r: "\<forall>k. r = Inr k \<longrightarrow> k = ?h"
    using call None by (auto simp: add_peer_group_def Let_def split: Option.bind_splits sum.splits)
  have "peer_groups_wf g' \<and> (?h, addrs) \<in> set (peer_groups g')"
    using add_peer_group_new [OF wf None room, of ds] unfolding g' by simp
  then show ?thesis using r by blast
next
  case (Some h)
  then have "g' = g" "r = Inr h" using call by (auto simp: add_peer_group_def)
  moreover have "(h, addrs) \<in> set (peer_groups g)"
    using Some wf by (simp add: peer_groups_wf_def find_peer_group_iff)
  ultimately show ?thesis using wf by simp
qed

text \<open>
  Peer groups are unique: while handles have not run out, adding a group keeps one
  handle per list of addresses, a successful call returns the handle under which the
  addresses are filed, and repeating the call returns a handle and changes nothing. This also
  holds after a call that failed in some domain: the retry reports success without calling any domain.
\<close>

theorem add_peer_group_idempotent:
  assumes "peer_groups_wf g" "next_peer_group_handle g + 1 \<noteq> 0" "add_peer_group ops addrs g = Some (r, g')"
  shows "peer_groups_wf g' \<and>
         (\<exists>h. map_of (peer_groups g') h = Some addrs \<and> add_peer_group ops addrs g' = Some (Inr h, g') \<and>
              (\<forall>k. r = Inr k \<longrightarrow> k = h))"
proof -
  obtain h where h: "peer_groups_wf g'" "(h, addrs) \<in> set (peer_groups g')" "\<forall>k. r = Inr k \<longrightarrow> k = h"
    using add_peer_group_wf [OF assms] by blast
  then have "map_of (peer_groups g') h = Some addrs" "find_peer_group addrs (peer_groups g') = Some h"
    by (simp_all add: peer_groups_wf_def find_peer_group_iff)
  then show ?thesis using h by (auto simp: add_peer_group_def)
qed

theorem add_peer_group_idempotent_witness:
  "\<exists>h g'. add_peer_group (rec_ops\<lparr>d_add_peer_group := \<lambda>h as d. (Inl (Errno 12), d)\<rparr>) [] (rec_group 0) = Some (Inl (Errno 12), g') \<and>
     add_peer_group (rec_ops\<lparr>d_add_peer_group := \<lambda>h as d. (Inl (Errno 12), d)\<rparr>) [] g' = Some (Inr h, g')"
proof -
  let ?ops = "rec_ops\<lparr>d_add_peer_group := \<lambda>h as d. (Inl (Errno 12), d)\<rparr>"
  have wf: "peer_groups_wf (rec_group 0)" "next_peer_group_handle (rec_group 0) + 1 \<noteq> 0"
    by (simp_all add: peer_groups_wf_def rec_group_def domain_group_new_def)
  obtain g' where g': "add_peer_group ?ops [] (rec_group 0) = Some (Inl (Errno 12), g')"
    by (simp add: add_peer_group_def rec_group_def domain_group_new_def find_peer_group_def upt_conv_Cons)
  from add_peer_group_idempotent [OF wf g'] g' show ?thesis by blast
qed

end
