(* ===== verification/Domain_Contract.thy ===== *)
theory Domain_Contract
  imports Domain_Group Write_Iter
begin

text \<open>
  What a group relies on in its domains (\<^verbatim>\<open>provider.rs\<close>): calls of the trait as data, sequences of
  them, and the contract that no permitted call panics and every call keeps the domain's invariant. The
  providers are shown to keep it, and the group's operations are safe over any domain that does.
\<close>

datatype domain_call =
    CallRecv transfer_id recv_op
  | CallSend transfer_id domain_address send_op
  | CallWrite transfer_id domain_address write_op
  | CallAddGroup peer_group_handle "domain_address list"
  | CallGroupWrite transfer_id "peer_group_handle option" group_write_op
  | CallRegister memory_region bool
  | CallUnregister ptr
  | CallPoll
  | CallCompletion

fun domain_step :: "'d rdma_domain_ops \<Rightarrow> domain_call \<Rightarrow> 'd \<times> imm_count_map \<Rightarrow> ('d \<times> imm_count_map) option" where
  "domain_step ops (CallRecv tid op) (d, m) = map_option (\<lambda>d. (d, m)) (d_submit_recv ops tid op d)"
| "domain_step ops (CallSend tid a op) (d, m) = map_option (\<lambda>d. (d, m)) (d_submit_send ops tid a op d)"
| "domain_step ops (CallWrite tid a op) (d, m) = map_option (\<lambda>d. (d, m)) (d_submit_write ops tid a op d)"
| "domain_step ops (CallAddGroup h as) (d, m) = Some (snd (d_add_peer_group ops h as d), m)"
| "domain_step ops (CallGroupWrite tid h op) (d, m) = map_option (\<lambda>d. (d, m)) (d_submit_group_write ops tid h op d)"
| "domain_step ops (CallRegister r allow_remote) (d, m) =
     Some (if allow_remote then snd (d_register_mr_allow_remote ops r d) else snd (d_register_mr_local ops r d), m)"
| "domain_step ops (CallUnregister p) (d, m) = Some (d_unregister_mr ops p d, m)"
| "domain_step ops CallPoll (d, m) = d_poll_progress ops d m"
| "domain_step ops CallCompletion (d, m) = Some (snd (d_get_completion ops d), m)"

text \<open>A client that makes the calls of a list, leaving out those that are not permitted when their turn comes.\<close>

definition domain_run ::
    "('d \<Rightarrow> domain_call \<Rightarrow> bool) \<Rightarrow> 'd rdma_domain_ops \<Rightarrow> domain_call list \<Rightarrow> 'd \<times> imm_count_map
       \<Rightarrow> ('d \<times> imm_count_map) option" where
  "domain_run cok ops = foldM (\<lambda>c s. if cok (fst s) c then domain_step ops c s else Some s)"

text \<open>The operations a domain accepts without a panic.\<close>

fun write_op_ok :: "write_op \<Rightarrow> bool" where
  "write_op_ok (SingleW op) = True"
| "write_op_ok (ImmW op) = True"
| "write_op_ok (PagedW op) = paged_op_ok op"

text \<open>A scatter is also checked against the number of peers of its group, where that is known.\<close>

fun group_write_ok :: "nat option \<Rightarrow> group_write_op \<Rightarrow> bool" where
  "group_write_ok num_peers (ScatterW op) \<longleftrightarrow>
     scatter_op_ok op (length (sg_dsts op)) \<and> scatter_targets_ok op \<and>
     (case num_peers of None \<Rightarrow> True | Some k \<Rightarrow> k = length (sg_dsts op))"

locale rdma_domain =
  fixes ops :: "'d rdma_domain_ops"
    and dinv :: "'d \<Rightarrow> bool"
    and cok :: "'d \<Rightarrow> domain_call \<Rightarrow> bool"
  assumes step_safe: "dinv d \<Longrightarrow> cok d c \<Longrightarrow> \<exists>d' m'. domain_step ops c (d, m) = Some (d', m') \<and> dinv d'"
    and poll_ok: "cok d CallPoll"
begin

lemma run_safe: "dinv d \<Longrightarrow> \<exists>d' m'. domain_run cok ops cs (d, m) = Some (d', m') \<and> dinv d'"
proof (induction cs arbitrary: d m)
  case (Cons c cs)
  show ?case
  proof (cases "cok d c")
    case True
    from step_safe [OF Cons.prems this, of m] obtain d' m' where
      "domain_step ops c (d, m) = Some (d', m')" "dinv d'" by blast
    then show ?thesis using Cons.IH [of d' m'] True by (simp add: domain_run_def)
  next
    case False
    then show ?thesis using Cons by (simp add: domain_run_def)
  qed
qed (simp add: domain_run_def)

lemma poll_safe: "dinv d \<Longrightarrow> \<exists>d' m'. d_poll_progress ops d m = Some (d', m') \<and> dinv d'"
  using step_safe [OF _ poll_ok, of d m] by simp

text \<open>Polling a group polls every domain, none of which panics.\<close>

lemma group_poll_safe:
  assumes "\<forall>d \<in> set (dg_domains g). dinv d"
  shows "\<exists>g' m'. group_poll_progress ops g m = Some (g', m') \<and> (\<forall>d \<in> set (dg_domains g'). dinv d) \<and>
           length (dg_domains g') = length (dg_domains g) \<and> write_ops g' = write_ops g"
proof -
  let ?f = "\<lambda>i (ds, m). do { d \<leftarrow> index ds i; (d', m') \<leftarrow> d_poll_progress ops d m; Some (ds[i := d'], m') }"
  have "\<exists>ds' m'. foldM ?f is (ds, m) = Some (ds', m') \<and> (\<forall>d \<in> set ds'. dinv d) \<and> length ds' = length ds"
    if "\<forall>i \<in> set is. i < length ds" "\<forall>d \<in> set ds. dinv d" for "is" ds m
    using that
  proof (induction "is" arbitrary: ds m)
    case (Cons i "is")
    then have i: "i < length ds" by simp
    then have "dinv (ds ! i)" using Cons.prems(2) by simp
    from poll_safe [OF this, of m] obtain d' m' where p: "d_poll_progress ops (ds ! i) m = Some (d', m')" "dinv d'"
      by blast
    have "\<forall>d \<in> set (ds[i := d']). dinv d" using Cons.prems(2) p(2) set_update_subset_insert [of ds i d'] by blast
    then show ?case using Cons.IH [of "ds[i := d']" m'] Cons.prems(1) i p(1) by simp
  qed simp
  from this [of "[0..<length (dg_domains g)]" "dg_domains g" m] assms show ?thesis
    by (auto simp: group_poll_progress_def)
qed

end

end
