(* ===== verification/Write_Ctx.thy ===== *)
theory Write_Ctx
  imports Fabric_Types Pools "HOL-Library.Multiset"
begin

text \<open>
  The life of a write context, which \<^verbatim>\<open>efa/efa_domain.rs\<close> and \<^verbatim>\<open>verbs/verbs_domain.rs\<close> share line for
  line: a context is allocated from a pool, posts its operations, waits in the queue of pending
  contexts while the card is busy, counts completions, and is returned to the pool. Contexts live
  in a heap keyed by their address, which is the context value of every operation they post;
  looking up an address that is not live is a use after free and gives \<open>None\<close>, like a panic. What
  differs between the providers is a parameter: the iterator \<open>'it\<close>, the card \<open>'n\<close> and the function
  that posts operations of a context.
\<close>

record 'it write_ctx =
  ctx_transfer_id :: transfer_id
  ctx_iter :: 'it
  ctx_buf_slot :: slot
  ctx_total_ops :: usize
  ctx_posted :: usize
  ctx_finished :: usize
  ctx_in_queue :: bool
  ctx_bad :: bool

record 'it ctx_store =
  cs_pool :: object_pool
  cs_buf_pool :: object_pool
  cs_heap :: "slot \<rightharpoonup> 'it write_ctx"
  cs_queue :: "slot list"

definition cs_set :: "slot \<Rightarrow> 'it write_ctx \<Rightarrow> 'it ctx_store \<Rightarrow> 'it ctx_store" where
  "cs_set a ctx s = s\<lparr>cs_heap := (cs_heap s)(a \<mapsto> ctx)\<rparr>"

text \<open>Allocation of a context, the eager posting, and the queue for what is left.\<close>

definition cs_submit ::
    "('it write_ctx \<Rightarrow> 'n \<Rightarrow> ('it write_ctx \<times> 'n) option) \<Rightarrow> ('it \<Rightarrow> nat)
       \<Rightarrow> transfer_id \<Rightarrow> (slot \<Rightarrow> slot \<Rightarrow> 'it option) \<Rightarrow> 'it ctx_store \<Rightarrow> 'n \<Rightarrow> ('it ctx_store \<times> 'n) option" where
  "cs_submit prog total_ops tid construct s n =
     (let (slot, pool) = alloc_uninit (cs_pool s);
          (buf, buf_pool) = alloc_uninit (cs_buf_pool s)
      in do {
        it \<leftarrow> construct slot buf;
        (ctx, n) \<leftarrow> prog
           \<lparr>ctx_transfer_id = tid, ctx_iter = it, ctx_buf_slot = buf,
            ctx_total_ops = total_ops it, ctx_posted = 0, ctx_finished = 0, ctx_in_queue = False,
            ctx_bad = False\<rparr> n;
        let s = s\<lparr>cs_pool := pool, cs_buf_pool := buf_pool\<rparr>;
        if ctx_posted ctx \<noteq> ctx_total_ops ctx
        then Some (cs_set slot (ctx\<lparr>ctx_in_queue := True\<rparr>) (s\<lparr>cs_queue := cs_queue s @ [slot]\<rparr>), n)
        else Some (cs_set slot ctx s, n) })"

definition cs_maybe_drop :: "slot \<Rightarrow> 'it ctx_store \<Rightarrow> 'it ctx_store option" where
  "cs_maybe_drop a s = do {
     ctx \<leftarrow> cs_heap s a;
     if ctx_finished ctx \<noteq> ctx_posted ctx then Some s
     else if ctx_in_queue ctx then Some s
     else Some (s\<lparr>cs_buf_pool := free_and_drop (ctx_buf_slot ctx) (cs_buf_pool s),
                  cs_pool := free_and_drop a (cs_pool s),
                  cs_heap := (cs_heap s)(a := None)\<rparr>) }"

text \<open>
  The loop over the queue. Each round removes the first context or ends the loop, so as many
  rounds as the queue is long are enough (lemma \<open>cs_progress_rounds\<close>).
\<close>

fun cs_progress ::
    "('it write_ctx \<Rightarrow> 'n \<Rightarrow> ('it write_ctx \<times> 'n) option) \<Rightarrow> nat \<Rightarrow> 'it ctx_store \<Rightarrow> 'n
       \<Rightarrow> ('it ctx_store \<times> 'n) option" where
  "cs_progress prog 0 s n = Some (s, n)"
| "cs_progress prog (Suc k) s n =
     (case cs_queue s of
        [] \<Rightarrow> Some (s, n)
      | a # q \<Rightarrow> do {
          ctx \<leftarrow> cs_heap s a;
          if \<not> (ctx_finished ctx \<le> ctx_posted ctx) then None
          else if ctx_bad ctx then do {
            s \<leftarrow> cs_maybe_drop a (cs_set a (ctx\<lparr>ctx_in_queue := False\<rparr>) (s\<lparr>cs_queue := q\<rparr>));
            cs_progress prog k s n }
          else do {
            (ctx, n) \<leftarrow> prog ctx n;
            let s = cs_set a ctx s;
            if ctx_posted ctx \<noteq> ctx_total_ops ctx then Some (s, n)
            else cs_progress prog k (s\<lparr>cs_queue := q\<rparr>) n } })"

text \<open>A completion of an operation of a context, successful or with an error: the transfer to report, if any.\<close>

definition cs_complete :: "slot \<Rightarrow> 'it ctx_store \<Rightarrow> (transfer_id option \<times> 'it ctx_store) option" where
  "cs_complete a s = do {
     ctx \<leftarrow> cs_heap s a;
     let ctx = ctx\<lparr>ctx_finished := ctx_finished ctx + 1\<rparr>;
     let s = cs_set a ctx s;
     if ctx_finished ctx < ctx_total_ops ctx then Some (None, s)
     else do {
       s \<leftarrow> cs_maybe_drop a s;
       Some (Some (ctx_transfer_id ctx), s) } }"

definition cs_fail :: "slot \<Rightarrow> 'it ctx_store \<Rightarrow> (transfer_id option \<times> 'it ctx_store) option" where
  "cs_fail a s = do {
     ctx \<leftarrow> cs_heap s a;
     let r = (if ctx_bad ctx then None else Some (ctx_transfer_id ctx));
     s \<leftarrow> cs_maybe_drop a (cs_set a (ctx\<lparr>ctx_finished := ctx_finished ctx + 1, ctx_bad := True\<rparr>) s);
     Some (r, s) }"

section \<open>The invariant\<close>

declare split_paired_All [simp del] split_paired_Ex [simp del]

text \<open>
  A context at address \<open>a\<close> with \<open>k\<close> operations on the card: the address is that of its slot, its
  iterator posts operations with that address, and the counters account for every operation.
\<close>

definition ctx_ok :: "(slot \<Rightarrow> 'it \<Rightarrow> bool) \<Rightarrow> ('it \<Rightarrow> nat) \<Rightarrow> nat \<Rightarrow> slot \<Rightarrow> 'it write_ctx \<Rightarrow> bool" where
  "ctx_ok iok left k a ctx \<longleftrightarrow>
     iok a (ctx_iter ctx) \<and>
     left (ctx_iter ctx) + ctx_posted ctx = ctx_total_ops ctx \<and> ctx_finished ctx + k = ctx_posted ctx"

definition ctx_same :: "'it write_ctx \<Rightarrow> 'it write_ctx \<Rightarrow> bool" where
  "ctx_same c c' \<longleftrightarrow> ctx_transfer_id c' = ctx_transfer_id c \<and> 
     ctx_buf_slot c' = ctx_buf_slot c \<and> ctx_total_ops c' = ctx_total_ops c \<and>
     ctx_finished c' = ctx_finished c \<and> ctx_in_queue c' = ctx_in_queue c \<and> ctx_bad c' = ctx_bad c"

definition heap_ok :: "(slot \<Rightarrow> 'it \<Rightarrow> bool) \<Rightarrow> ('it \<Rightarrow> nat) \<Rightarrow> (slot \<Rightarrow> nat) \<Rightarrow> (slot \<rightharpoonup> 'it write_ctx) \<Rightarrow> bool" where
  "heap_ok iok left out H \<longleftrightarrow>
     (\<forall>a ctx. H a = Some ctx \<longrightarrow> ctx_ok iok left (out a) a ctx) \<and> (\<forall>a. H a = None \<longrightarrow> out a = 0)"

definition pools_ok :: "object_pool \<Rightarrow> object_pool \<Rightarrow> (slot \<rightharpoonup> 'it write_ctx) \<Rightarrow> bool" where
  "pools_ok p q H \<longleftrightarrow> op_inv p (dom H) \<and> op_inv q (ctx_buf_slot ` ran H) \<and>
     (\<forall>a b x y. H a = Some x \<longrightarrow> H b = Some y \<longrightarrow> ctx_buf_slot x = ctx_buf_slot y \<longrightarrow> a = b)"

definition queue_ok :: "slot list \<Rightarrow> (slot \<rightharpoonup> 'it write_ctx) \<Rightarrow> bool" where
  "queue_ok q H \<longleftrightarrow> distinct q \<and>
     (\<forall>a \<in> set q. \<exists>ctx. H a = Some ctx \<and> ctx_in_queue ctx \<and> ctx_posted ctx < ctx_total_ops ctx)"

definition store_ok :: "(slot \<Rightarrow> 'it \<Rightarrow> bool) \<Rightarrow> ('it \<Rightarrow> nat) \<Rightarrow> (slot \<Rightarrow> nat) \<Rightarrow> 'it ctx_store \<Rightarrow> bool" where
  "store_ok iok left out s \<longleftrightarrow> heap_ok iok left out (cs_heap s) \<and>
     pools_ok (cs_pool s) (cs_buf_pool s) (cs_heap s) \<and> queue_ok (cs_queue s) (cs_heap s)"

text \<open>
  A live context that no operation frees any more: it has left the queue, and either it still
  carries the mark of being queued or none of its operations is on the card.
\<close>

definition cs_leaked :: "(slot \<Rightarrow> nat) \<Rightarrow> slot \<Rightarrow> 'it ctx_store \<Rightarrow> bool" where
  "cs_leaked out a s \<longleftrightarrow> a \<notin> set (cs_queue s) \<and>
     (\<exists>ctx. cs_heap s a = Some ctx \<and> (ctx_in_queue ctx \<or> out a = 0))"

definition leaks_kept :: "(slot \<Rightarrow> nat) \<Rightarrow> 'it ctx_store \<Rightarrow> (slot \<Rightarrow> nat) \<Rightarrow> 'it ctx_store \<Rightarrow> bool" where
  "leaks_kept out s out' s' \<longleftrightarrow> (\<forall>a. cs_leaked out a s \<longrightarrow> cs_leaked out' a s')"

lemma cs_set_simps [simp]:
  "cs_pool (cs_set a c s) = cs_pool s" "cs_buf_pool (cs_set a c s) = cs_buf_pool s"
  "cs_queue (cs_set a c s) = cs_queue s" "cs_heap (cs_set a c s) = (cs_heap s)(a \<mapsto> c)"
  by (simp_all add: cs_set_def)

lemma ctx_same_refl [simp]: "ctx_same c c"
  by (simp add: ctx_same_def)

lemma ctx_same_trans: "ctx_same a b \<Longrightarrow> ctx_same b c \<Longrightarrow> ctx_same a c"
  by (simp add: ctx_same_def)

subsection \<open>Updates of one context\<close>

lemma heap_ok_upd:
  assumes "heap_ok iok left out H" "ctx_ok iok left (out' a) a c" "\<And>b. b \<noteq> a \<Longrightarrow> out' b = out b"
  shows "heap_ok iok left out' (H(a \<mapsto> c))"
  using assms by (auto simp: heap_ok_def)

lemma heap_okD: "heap_ok iok left out H \<Longrightarrow> H a = Some c \<Longrightarrow> ctx_ok iok left (out a) a c"
  by (simp add: heap_ok_def)

lemma heap_ok_live: "heap_ok iok left out H \<Longrightarrow> 0 < out a \<Longrightarrow> \<exists>c. H a = Some c"
  by (cases "H a") (auto simp: heap_ok_def)

lemma heap_ok_free:
  assumes "heap_ok iok left out H" "out a = 0"
  shows "heap_ok iok left out (H(a := None))"
  using assms by (simp add: heap_ok_def)

lemma ran_upd_same:
  assumes "H a = Some c" "f c' = f c"
  shows "f ` ran (H(a \<mapsto> c')) = f ` ran H"
proof -
  have "f ` ran (H(a \<mapsto> c')) = insert (f c') (f ` ran (H(a := None)))"
    by (auto simp: ran_def image_iff split: if_splits)
  also have "\<dots> = insert (f c) (f ` ran (H(a := None)))" using assms(2) by simp
  also have "\<dots> = f ` ran (H(a \<mapsto> c))" by (auto simp: ran_def image_iff split: if_splits)
  also have "H(a \<mapsto> c) = H" using assms(1) by auto
  finally show ?thesis .
qed

lemma pools_ok_upd:
  assumes "pools_ok p q H" "H a = Some c" "ctx_buf_slot c' = ctx_buf_slot c"
  shows "pools_ok p q (H(a \<mapsto> c'))"
  using assms ran_upd_same [of H a c ctx_buf_slot c']
  unfolding pools_ok_def by (auto simp: fun_upd_apply insert_absorb domI)

lemma ran_free:
  assumes inj: "\<And>b y. H b = Some y \<Longrightarrow> f y = f c \<Longrightarrow> b = a" and "H a = Some c"
  shows "f ` ran (H(a := None)) = f ` ran H - {f c}"
proof (intro equalityI subsetI)
  fix x assume "x \<in> f ` ran (H(a := None))"
  then obtain b y where "H b = Some y" "b \<noteq> a" "x = f y" by (auto simp: ran_def split: if_splits)
  then show "x \<in> f ` ran H - {f c}" using inj by (auto intro: ranI)
next
  fix x assume "x \<in> f ` ran H - {f c}"
  then obtain b y where b: "H b = Some y" "x = f y" "x \<noteq> f c" by (auto simp: ran_def)
  then have "(H(a := None)) b = Some y" using assms(2) by auto
  then show "x \<in> f ` ran (H(a := None))" unfolding b(2) by (intro imageI ranI)
qed

lemma pools_ok_free:
  assumes ok: "pools_ok p q H" and a: "H a = Some c"
  shows "pools_ok (free_and_drop a p) (free_and_drop (ctx_buf_slot c) q) (H(a := None))"
proof -
  have in_ran: "c \<in> ran H" using a by (auto simp: ran_def)
  have 2: "ctx_buf_slot ` ran (H(a := None)) = ctx_buf_slot ` ran H - {ctx_buf_slot c}"
    by (rule ran_free [of H _ c a, OF _ a]) (use ok a in \<open>unfold pools_ok_def; blast\<close>)
  have "op_inv (free_and_drop a p) (dom H - {a})"
    by (rule opool.free_keeps) (use ok a in \<open>auto simp: pools_ok_def\<close>)
  moreover have "op_inv (free_and_drop (ctx_buf_slot c) q) (ctx_buf_slot ` ran (H(a := None)))"
    unfolding 2 by (rule opool.free_keeps) (use ok in_ran in \<open>auto simp: pools_ok_def\<close>)
  ultimately show ?thesis using ok by (auto simp: pools_ok_def split: if_splits)
qed

lemma pools_ok_alloc:
  assumes ok: "pools_ok p q H" and al: "alloc_uninit p = (a, p')" "alloc_uninit q = (ctx_buf_slot c, q')"
  shows "H a = None" "pools_ok p' q' (H(a \<mapsto> c))"
proof -
  have f: "a \<notin> dom H" "op_inv p' (insert a (dom H))"
    "ctx_buf_slot c \<notin> ctx_buf_slot ` ran H" "op_inv q' (insert (ctx_buf_slot c) (ctx_buf_slot ` ran H))"
    using opool.alloc_fresh [of p "dom H" a p']
      opool.alloc_fresh [of q "ctx_buf_slot ` ran H" "ctx_buf_slot c" q'] ok al
    by (simp_all add: pools_ok_def)
  show a: "H a = None" using f(1) by auto
  have r: "ran (H(a \<mapsto> c)) = insert c (ran H)" using a by (rule ran_map_upd)
  have new: "ctx_buf_slot y \<noteq> ctx_buf_slot c" "ctx_buf_slot c \<noteq> ctx_buf_slot y" if "H b = Some y" for b y
    using f(3) ranI [of H b y, OF that] by (metis imageI)+
  have inj: "\<forall>b d x y. (H(a \<mapsto> c)) b = Some x \<longrightarrow> (H(a \<mapsto> c)) d = Some y \<longrightarrow>
      ctx_buf_slot x = ctx_buf_slot y \<longrightarrow> b = d"
    using ok new unfolding pools_ok_def by (simp split: if_splits)
  have d: "dom (H(a \<mapsto> c)) = insert a (dom H)" by simp
  show "pools_ok p' q' (H(a \<mapsto> c))"
    unfolding pools_ok_def d r image_insert by (intro conjI f inj)
qed

lemma queue_ok_upd:
  assumes "queue_ok q H" "a \<in> set q \<Longrightarrow> ctx_in_queue c \<and> ctx_posted c < ctx_total_ops c"
  shows "queue_ok q (H(a \<mapsto> c))"
  using assms by (auto simp: queue_ok_def)

lemma queue_okD:
  "queue_ok q H \<Longrightarrow> a \<in> set q \<Longrightarrow> H a = Some c \<Longrightarrow> ctx_in_queue c \<and> ctx_posted c < ctx_total_ops c"
  by (auto simp: queue_ok_def)

text \<open>Replacing a live context keeps the store, if the new one is in order.\<close>

lemma store_ok_set:
  assumes ok: "store_ok iok left out s" and a: "cs_heap s a = Some c"
    and c: "ctx_ok iok left (out' a) a c'" "\<And>b. b \<noteq> a \<Longrightarrow> out' b = out b"
    and same: "ctx_buf_slot c' = ctx_buf_slot c"
    and q: "a \<in> set (cs_queue s) \<Longrightarrow> ctx_in_queue c' \<and> ctx_posted c' < ctx_total_ops c'"
  shows "store_ok iok left out' (cs_set a c' s)"
  using ok heap_ok_upd [of iok left out _ out' a c', OF _ c] pools_ok_upd [of _ _ "cs_heap s" a c c', OF _ a same]
    queue_ok_upd [OF _ q]
  by (simp add: store_ok_def)

lemma store_okD: "store_ok iok left out s \<Longrightarrow> cs_heap s a = Some c \<Longrightarrow> ctx_ok iok left (out a) a c"
  by (simp add: store_ok_def heap_ok_def)

lemma store_ok_live: "store_ok iok left out s \<Longrightarrow> 0 < out a \<Longrightarrow> \<exists>c. cs_heap s a = Some c"
  using heap_ok_live [of iok left out "cs_heap s" a] by (simp add: store_ok_def)

lemma store_ok_queueD:
  "store_ok iok left out s \<Longrightarrow> cs_heap s a = Some c \<Longrightarrow> a \<in> set (cs_queue s) \<Longrightarrow>
   ctx_in_queue c \<and> ctx_posted c < ctx_total_ops c"
  using queue_okD [of "cs_queue s" "cs_heap s" a c] by (simp add: store_ok_def)

lemma store_ok_queue: "store_ok iok left out s \<Longrightarrow> cs_queue s = a # q \<Longrightarrow> store_ok iok left out (s\<lparr>cs_queue := q\<rparr>)"
  by (simp add: store_ok_def queue_ok_def)

lemma maybe_drop_ok:
  assumes ok: "store_ok iok left out s" and live: "cs_heap s a = Some c"
    and flag: "a \<in> set (cs_queue s) \<Longrightarrow> ctx_in_queue c"
  shows "\<exists>s'. cs_maybe_drop a s = Some s' \<and> store_ok iok left out s' \<and> cs_queue s' = cs_queue s"
proof (cases "ctx_finished c = ctx_posted c \<and> \<not> ctx_in_queue c")
  case True
  have "out a = 0" using True store_okD [of iok left out s a c] ok live by (simp add: ctx_ok_def)
  moreover have "a \<notin> set (cs_queue s)" using True flag by blast
  ultimately show ?thesis
    using True ok live heap_ok_free [of iok left out "cs_heap s" a]
      pools_ok_free [of "cs_pool s" "cs_buf_pool s" "cs_heap s" a c]
    by (auto simp: cs_maybe_drop_def store_ok_def queue_ok_def)
next
  case False
  then show ?thesis using ok live by (auto simp: cs_maybe_drop_def)
qed

lemma maybe_drop_other: "cs_maybe_drop a s = Some s' \<Longrightarrow> b \<noteq> a \<Longrightarrow> cs_heap s' b = cs_heap s b"
  by (auto simp: cs_maybe_drop_def split: Option.bind_splits if_splits)

lemma maybe_drop_queue: "cs_maybe_drop a s = Some s' \<Longrightarrow> cs_queue s' = cs_queue s"
  by (auto simp: cs_maybe_drop_def split: Option.bind_splits if_splits)

lemma cs_progress_rounds:
  "length (cs_queue s) \<le> k \<Longrightarrow> cs_progress prog k s n = cs_progress prog (length (cs_queue s)) s n"
proof (induction k arbitrary: s n)
  case (Suc k)
  show ?case
  proof (cases "cs_queue s")
    case (Cons a q)
    have IH: "cs_progress prog k t m = cs_progress prog (length q) t m" if "cs_queue t = q" for t m
      using Suc.IH [of t m] Suc.prems Cons that by simp
    have drop: "cs_queue t = q" if "cs_maybe_drop a (cs_set a c (s\<lparr>cs_queue := q\<rparr>)) = Some t" for c t
      using maybe_drop_queue [OF that] by simp
    show ?thesis using Cons by (auto simp: IH drop Let_def intro!: Option.bind_cong split: prod.splits)
  qed simp
qed simp

section \<open>Completions\<close>

text \<open>One operation less on the card.\<close>

definition out_dec :: "slot \<Rightarrow> (slot \<Rightarrow> nat) \<Rightarrow> slot \<Rightarrow> nat" where
  "out_dec a out = out(a := out a - 1)"

lemma ctx_ok_finish:
  "ctx_ok iok left (out a) a c \<Longrightarrow> 0 < out a \<Longrightarrow>
   ctx_ok iok left (out_dec a out a) a (c\<lparr>ctx_finished := ctx_finished c + 1\<rparr>) \<and>
   ctx_ok iok left (out_dec a out a) a (c\<lparr>ctx_finished := ctx_finished c + 1, ctx_bad := True\<rparr>)"
  by (auto simp: ctx_ok_def out_dec_def)

text \<open>
  A successful completion of an operation on the card: the transfer is reported exactly by the
  last of its operations.
\<close>

lemma cs_complete_ok:
  assumes ok: "store_ok iok left out s" and out: "0 < out a"
  shows "\<exists>c r s'. cs_heap s a = Some c \<and> cs_complete a s = Some (r, s') \<and>
           store_ok iok left (out_dec a out) s' \<and> cs_queue s' = cs_queue s \<and>
           r = (if left (ctx_iter c) = 0 \<and> out a = 1 then Some (ctx_transfer_id c) else None)"
proof -
  obtain c where a: "cs_heap s a = Some c" using store_ok_live [of iok left out s a] ok out by blast
  let ?c = "c\<lparr>ctx_finished := ctx_finished c + 1\<rparr>"
  have c: "ctx_ok iok left (out a) a c" by (rule store_okD [of iok left out s a c, OF ok a])
  have q: "a \<in> set (cs_queue s) \<Longrightarrow> ctx_in_queue c \<and> ctx_posted c < ctx_total_ops c"
    by (rule store_ok_queueD [OF ok a])
  have ok': "store_ok iok left (out_dec a out) (cs_set a ?c s)"
    by (rule store_ok_set [OF ok a]) (use ctx_ok_finish [where out = out and a = a, OF c out] q in \<open>auto simp: out_dec_def\<close>)
  have last: "left (ctx_iter c) = 0 \<and> out a = 1 \<longleftrightarrow> \<not> (Suc (ctx_finished c) < ctx_total_ops c)"
    using c out by (auto simp: ctx_ok_def)
  show ?thesis
  proof (cases "Suc (ctx_finished c) < ctx_total_ops c")
    case True
    then show ?thesis using a ok' last by (simp add: cs_complete_def Let_def)
  next
    case False
    obtain s' where "cs_maybe_drop a (cs_set a ?c s) = Some s'" "store_ok iok left (out_dec a out) s'"
      "cs_queue s' = cs_queue s"
      using maybe_drop_ok [OF ok', of a ?c] q by auto
    then show ?thesis using a False last by (simp add: cs_complete_def Let_def)
  qed
qed

lemma cs_fail_ok:
  assumes ok: "store_ok iok left out s" and out: "0 < out a"
  shows "\<exists>c r s'. cs_heap s a = Some c \<and> cs_fail a s = Some (r, s') \<and>
           store_ok iok left (out_dec a out) s' \<and> cs_queue s' = cs_queue s \<and>
           r = (if ctx_bad c then None else Some (ctx_transfer_id c))"
proof -
  obtain c where a: "cs_heap s a = Some c" using store_ok_live [of iok left out s a] ok out by blast
  let ?c = "c\<lparr>ctx_finished := ctx_finished c + 1, ctx_bad := True\<rparr>"
  have c: "ctx_ok iok left (out a) a c" by (rule store_okD [of iok left out s a c, OF ok a])
  have q: "a \<in> set (cs_queue s) \<Longrightarrow> ctx_in_queue c \<and> ctx_posted c < ctx_total_ops c"
    by (rule store_ok_queueD [OF ok a])
  have ok': "store_ok iok left (out_dec a out) (cs_set a ?c s)"
    by (rule store_ok_set [OF ok a]) (use ctx_ok_finish [where out = out and a = a, OF c out] q in \<open>auto simp: out_dec_def\<close>)
  obtain s' where "cs_maybe_drop a (cs_set a ?c s) = Some s'" "store_ok iok left (out_dec a out) s'"
    "cs_queue s' = cs_queue s"
    using maybe_drop_ok [OF ok', of a ?c] q by auto
  then show ?thesis using a by (simp add: cs_fail_def)
qed

section \<open>Contexts that are never freed\<close>

text \<open>
  \<^verbatim>\<open>in_queue\<close> is cleared only for a context with an error, and a successful completion drops a context
  only when all operations of the transfer have finished, posted or not.
\<close>

lemma leaks_kept_refl: "leaks_kept out s out s"
  by (simp add: leaks_kept_def)

lemma leaks_kept_trans: "leaks_kept out s out' t \<Longrightarrow> leaks_kept out' t out'' u \<Longrightarrow> leaks_kept out s out'' u"
  by (simp add: leaks_kept_def)

text \<open>A completion, successful or not, concerns a context with an operation on the card.\<close>

lemma leaked_finish:
  assumes leak: "cs_leaked out a s" and b: "cs_heap s b = Some c" "0 < out b"
    and c': "ctx_in_queue c' = ctx_in_queue c"
  shows "cs_leaked (out_dec b out) a (cs_set b c' s)"
    "cs_maybe_drop b (cs_set b c' s) = Some s' \<Longrightarrow> cs_leaked (out_dec b out) a s'"
proof -
  show 1: "cs_leaked (out_dec b out) a (cs_set b c' s)"
    using assms by (auto simp: cs_leaked_def out_dec_def)
  assume "cs_maybe_drop b (cs_set b c' s) = Some s'"
  then show "cs_leaked (out_dec b out) a s'"
  proof (cases "a = b")
    case True
    then have "ctx_in_queue c'" using leak b c' by (auto simp: cs_leaked_def)
    then show ?thesis using 1 \<open>cs_maybe_drop b (cs_set b c' s) = Some s'\<close> by (simp add: cs_maybe_drop_def split: if_splits)
  next
    case False
    then show ?thesis using 1 maybe_drop_other [of b "cs_set b c' s" s' a]
        maybe_drop_queue [of b "cs_set b c' s" s'] \<open>cs_maybe_drop b (cs_set b c' s) = Some s'\<close>
      by (simp add: cs_leaked_def)
  qed
qed

lemma leaks_complete:
  assumes r: "cs_complete b s = Some (r, s')" and out: "0 < out b"
  shows "leaks_kept out s (out_dec b out) s'"
  unfolding leaks_kept_def
proof (intro allI impI)
  fix a assume leak: "cs_leaked out a s"
  obtain c where b: "cs_heap s b = Some c" using r by (cases "cs_heap s b") (simp_all add: cs_complete_def)
  let ?c = "c\<lparr>ctx_finished := ctx_finished c + 1\<rparr>"
  have "ctx_in_queue ?c = ctx_in_queue c" by simp
  from leaked_finish [of out a s b c ?c, OF leak b out this] show "cs_leaked (out_dec b out) a s'"
    using r b by (auto simp: cs_complete_def Let_def bind_eq_Some_conv split: if_splits)
qed

lemma leaks_fail:
  assumes r: "cs_fail b s = Some (r, s')" and out: "0 < out b"
  shows "leaks_kept out s (out_dec b out) s'"
  unfolding leaks_kept_def
proof (intro allI impI)
  fix a assume leak: "cs_leaked out a s"
  obtain c where b: "cs_heap s b = Some c" using r by (cases "cs_heap s b") (simp_all add: cs_fail_def)
  let ?c = "c\<lparr>ctx_finished := ctx_finished c + 1, ctx_bad := True\<rparr>"
  have "ctx_in_queue ?c = ctx_in_queue c" by simp
  from leaked_finish(2) [of out a s b c ?c, OF leak b out this] show "cs_leaked (out_dec b out) a s'"
    using r b by (auto simp: cs_fail_def Let_def bind_eq_Some_conv)
qed

text \<open>A context that stopped posting after an error is leaked when its last operation on the card succeeds.\<close>

lemma complete_leaks:
  assumes ok: "store_ok iok left out s" and c: "cs_heap s a = Some c" "a \<notin> set (cs_queue s)"
    "0 < left (ctx_iter c)" "out a = 1" and r: "cs_complete a s = Some (r, s')"
  shows "r = None \<and> cs_leaked (out_dec a out) a s'"
  using store_okD [OF ok c(1)] c r
  by (auto simp: cs_complete_def Let_def ctx_ok_def cs_leaked_def out_dec_def split: if_splits)

text \<open>What the loop over the queue keeps: a context without an error leaves the queue leaked.\<close>

definition cs_kept :: "(slot \<Rightarrow> nat) \<Rightarrow> 'it ctx_store \<Rightarrow> (slot \<Rightarrow> nat) \<Rightarrow> 'it ctx_store \<Rightarrow> bool" where
  "cs_kept out s out' s' \<longleftrightarrow> leaks_kept out s out' s' \<and>
     (\<forall>a c. a \<in> set (cs_queue s) \<longrightarrow> cs_heap s a = Some c \<longrightarrow> \<not> ctx_bad c \<longrightarrow>
        cs_leaked out' a s' \<or> a \<in> set (cs_queue s') \<and> (\<exists>c'. cs_heap s' a = Some c' \<and> \<not> ctx_bad c'))"

lemma cs_kept_refl: "cs_kept out s out s"
  by (simp add: cs_kept_def leaks_kept_refl)

lemma cs_kept_trans: "cs_kept out s out' t \<Longrightarrow> cs_kept out' t out'' u \<Longrightarrow> cs_kept out s out'' u"
  unfolding cs_kept_def leaks_kept_def by metis

lemma cs_kept_drop:
  assumes same: "\<And>b. b \<noteq> a \<Longrightarrow> cs_heap s' b = cs_heap s b" and a: "cs_heap s a = Some c" "ctx_bad c"
    and q: "cs_queue s = a # cs_queue s'"
  shows "cs_kept out s out s'"
  unfolding cs_kept_def leaks_kept_def
proof (intro conjI allI impI)
  fix b assume "cs_leaked out b s"
  then have "b \<noteq> a" using q by (auto simp: cs_leaked_def)
  with \<open>cs_leaked out b s\<close> show "cs_leaked out b s'" using same q by (simp add: cs_leaked_def)
next
  fix b d assume b: "b \<in> set (cs_queue s)" "cs_heap s b = Some d" "\<not> ctx_bad d"
  then have "b \<noteq> a" using a by auto
  then show "cs_leaked out b s' \<or> b \<in> set (cs_queue s') \<and> (\<exists>c'. cs_heap s' b = Some c' \<and> \<not> ctx_bad c')"
    using b same q by auto
qed

text \<open>Posting from the first context, which then stays first or leaves the queue.\<close>

lemma cs_kept_post:
  assumes a: "cs_heap s a = Some c" "cs_queue s = a # q" and c': "ctx_in_queue c'" "ctx_bad c' = ctx_bad c"
    and out: "\<And>b. b \<noteq> a \<Longrightarrow> out' b = out b" and q': "q' = cs_queue s \<or> q' = q"
  shows "cs_kept out s out' ((cs_set a c' s)\<lparr>cs_queue := q'\<rparr>)"
  using assms by (auto simp: cs_kept_def leaks_kept_def cs_leaked_def)

section \<open>Operations on the card\<close>

text \<open>
  What a card holds between a post and its completion: the kind and the context of every operation.
  Writes carry the address of their context, sends and receives their transfer, receives for
  immediates nothing, messages of the handshake their buffer.
\<close>

datatype op_kind = KWrite | KSend | KRecv | KImm | KUdSend | KUdRecv

type_synonym posted_ops = "(op_kind \<times> op_context) multiset"

fun posted_kind_ok :: "op_kind \<times> op_context \<Rightarrow> bool" where
  "posted_kind_ok (KWrite, CtxWrite a) = True"
| "posted_kind_ok (KSend, CtxTid t) = True"
| "posted_kind_ok (KRecv, CtxTid t) = True"
| "posted_kind_ok (KImm, CtxNull) = True"
| "posted_kind_ok (KUdSend, CtxBuf p) = True"
| "posted_kind_ok (KUdRecv, CtxBuf p) = True"
| "posted_kind_ok _ = False"

definition posted_ok :: "posted_ops \<Rightarrow> bool" where
  "posted_ok M \<longleftrightarrow> (\<forall>x \<in># M. posted_kind_ok x)"

definition on_card :: "posted_ops \<Rightarrow> slot \<Rightarrow> nat" where
  "on_card M a = count M (KWrite, CtxWrite a)"

lemma posted_ok_simps [simp]:
  "posted_ok {#}" "posted_ok (add_mset x M) \<longleftrightarrow> posted_kind_ok x \<and> posted_ok M" "posted_ok (M + N) \<longleftrightarrow> posted_ok M \<and> posted_ok N"
  by (auto simp: posted_ok_def)

lemma on_card_write [simp]:
  "on_card (add_mset (KWrite, CtxWrite a) M) = (on_card M)(a := Suc (on_card M a))"
  by (auto simp: on_card_def fun_eq_iff)

lemma on_card_other [simp]: "k \<noteq> KWrite \<Longrightarrow> on_card (add_mset (k, x) M) = on_card M"
  by (auto simp: on_card_def fun_eq_iff)

lemma on_card_empty [simp]: "on_card {#} = (\<lambda>_. 0)"
  by (simp add: on_card_def fun_eq_iff)

lemma out_dec_on_card: "out_dec a (on_card (add_mset (KWrite, CtxWrite a) M)) = on_card M"
  by (auto simp: out_dec_def)

lemma posted_kind_okE:
  "posted_kind_ok (KWrite, x) \<Longrightarrow> \<exists>a. x = CtxWrite a" "posted_kind_ok (KSend, x) \<Longrightarrow> \<exists>t. x = CtxTid t"
  "posted_kind_ok (KRecv, x) \<Longrightarrow> \<exists>t. x = CtxTid t" "posted_kind_ok (KImm, x) \<Longrightarrow> x = CtxNull"
  "posted_kind_ok (KUdSend, x) \<Longrightarrow> \<exists>p. x = CtxBuf p" "posted_kind_ok (KUdRecv, x) \<Longrightarrow> \<exists>p. x = CtxBuf p"
  by (cases x; simp)+

section \<open>Clients\<close>

text \<open>
  What a provider gives: it posts operations of a context with the context's address, one more on
  the card for each, and touches nothing else. \<open>nok\<close> is what is known of the card.
\<close>

locale ctx_client =
  fixes iok :: "slot \<Rightarrow> 'it \<Rightarrow> bool"
    and left :: "'it \<Rightarrow> nat"
    and prog :: "'it write_ctx \<Rightarrow> 'n \<Rightarrow> ('it write_ctx \<times> 'n) option"
    and out :: "'n \<Rightarrow> slot \<Rightarrow> nat"
    and nok :: "'n \<Rightarrow> bool"
  assumes prog_ok: "nok n \<Longrightarrow> ctx_ok iok left (out n a) a c \<Longrightarrow>
          \<exists>c' n'. prog c n = Some (c', n') \<and> nok n' \<and> ctx_ok iok left (out n' a) a c' \<and>
                  (\<forall>b. b \<noteq> a \<longrightarrow> out n' b = out n b) \<and> ctx_same c c'"
begin

lemma submit_ok:
  assumes n: "nok n" and ok: "store_ok iok left (out n) s"
    and con: "\<And>a b. \<exists>it. construct a b = Some it \<and> iok a it \<and> left it = nops it"
  shows "\<exists>s' n'. cs_submit prog nops tid construct s n = Some (s', n') \<and> nok n' \<and>
           store_ok iok left (out n') s' \<and> leaks_kept (out n) s (out n') s'"
proof -
  obtain slot pool buf bpool where al: "alloc_uninit (cs_pool s) = (slot, pool)" "alloc_uninit (cs_buf_pool s) = (buf, bpool)"
    by fastforce
  obtain it where it: "construct slot buf = Some it" "iok slot it" "left it = nops it"
    using con by blast
  define c where "c = \<lparr>ctx_transfer_id = tid, ctx_iter = it, ctx_buf_slot = buf,
    ctx_total_ops = nops it, ctx_posted = 0, ctx_finished = 0, ctx_in_queue = False, ctx_bad = False\<rparr>"
  have okp: "pools_ok (cs_pool s) (cs_buf_pool s) (cs_heap s)" using ok by (simp add: store_ok_def)
  have fresh: "cs_heap s slot = None"
    using pools_ok_alloc(1) [of _ _ _ slot pool c bpool, OF okp al(1)] al(2) by (simp add: c_def)
  then have "ctx_ok iok left (out n slot) slot c"
    using ok it by (auto simp: ctx_ok_def c_def store_ok_def heap_ok_def)
  from prog_ok [OF n this] obtain c' n' where p: "prog c n = Some (c', n')" "nok n'"
    "ctx_ok iok left (out n' slot) slot c'" "\<And>b. b \<noteq> slot \<Longrightarrow> out n' b = out n b" "ctx_same c c'" by blast
  define c'' where "c'' = (if ctx_posted c' \<noteq> ctx_total_ops c' then c'\<lparr>ctx_in_queue := True\<rparr> else c')"
  have slots: "ctx_buf_slot c'' = buf" using p(5) by (auto simp: ctx_same_def c_def c''_def)
  have c'': "ctx_ok iok left (out n' slot) slot c''" using p(3) by (auto simp: ctx_ok_def c''_def)
  have heap: "heap_ok iok left (out n') ((cs_heap s)(slot \<mapsto> c''))"
    using heap_ok_upd [of iok left "out n" "cs_heap s" "out n'" slot c'', OF _ c'' p(4)] ok
    by (simp add: store_ok_def)
  have pools: "pools_ok pool bpool ((cs_heap s)(slot \<mapsto> c''))"
    using pools_ok_alloc(2) [of _ _ _ slot pool c'' bpool, OF okp al(1)] al(2) slots by simp
  have nq: "slot \<notin> set (cs_queue s)" using ok fresh by (auto simp: store_ok_def queue_ok_def)
  have queue: "queue_ok (if ctx_posted c' \<noteq> ctx_total_ops c' then cs_queue s @ [slot] else cs_queue s) ((cs_heap s)(slot \<mapsto> c''))"
    using ok nq p(3) by (auto simp: store_ok_def queue_ok_def c''_def ctx_ok_def)
  have "cs_submit prog nops tid construct s n =
      Some (cs_set slot c'' (s\<lparr>cs_pool := pool, cs_buf_pool := bpool,
        cs_queue := if ctx_posted c' \<noteq> ctx_total_ops c' then cs_queue s @ [slot] else cs_queue s\<rparr>), n')"
    using al it(1) p(1) by (simp add: cs_submit_def Let_def c''_def flip: c_def)
  then show ?thesis using p(2,4) heap pools queue fresh
    by (auto simp: store_ok_def cs_leaked_def leaks_kept_def)
qed

text \<open>One round of the queue loop on the first context.\<close>

lemma first_ok:
  assumes n: "nok n" and ok: "store_ok iok left (out n) s" and q: "cs_queue s = a # q"
  shows "\<exists>c. cs_heap s a = Some c \<and> ctx_finished c \<le> ctx_posted c \<and> a \<notin> set q \<and>
           (ctx_bad c \<longrightarrow> (\<exists>s'. cs_maybe_drop a (cs_set a (c\<lparr>ctx_in_queue := False\<rparr>) (s\<lparr>cs_queue := q\<rparr>)) = Some s' \<and>
              store_ok iok left (out n) s' \<and> cs_queue s' = q)) \<and>
           (\<exists>c' n'. prog c n = Some (c', n') \<and> nok n' \<and> ctx_same c c' \<and>
              (\<forall>b. b \<noteq> a \<longrightarrow> out n' b = out n b) \<and>
              (ctx_posted c' \<noteq> ctx_total_ops c' \<longrightarrow> store_ok iok left (out n') (cs_set a c' s)) \<and>
              store_ok iok left (out n') (cs_set a c' (s\<lparr>cs_queue := q\<rparr>)))"
proof -
  have okq: "store_ok iok left (out n) (s\<lparr>cs_queue := q\<rparr>)" by (rule store_ok_queue [OF ok q])
  obtain c where a: "cs_heap s a = Some c" and aq: "a \<notin> set q" "ctx_in_queue c"
    using ok q by (auto simp: store_ok_def queue_ok_def)
  have c: "ctx_ok iok left (out n a) a c" by (rule store_okD [of iok left "out n" s a c, OF ok a])
  have "store_ok iok left (out n) (cs_set a (c\<lparr>ctx_in_queue := False\<rparr>) (s\<lparr>cs_queue := q\<rparr>))"
    by (rule store_ok_set [OF okq]) (use a c aq in \<open>auto simp: ctx_ok_def\<close>)
  from maybe_drop_ok [OF this, of a "c\<lparr>ctx_in_queue := False\<rparr>"] have drop: "\<exists>s'. cs_maybe_drop a (cs_set a (c\<lparr>ctx_in_queue := False\<rparr>) (s\<lparr>cs_queue := q\<rparr>)) = Some s' \<and>
      store_ok iok left (out n) s' \<and> cs_queue s' = q" using aq by simp
  obtain c' n' where p: "prog c n = Some (c', n')" "nok n'" "ctx_ok iok left (out n' a) a c'"
    "\<And>b. b \<noteq> a \<Longrightarrow> out n' b = out n b" "ctx_same c c'" using prog_ok [OF n c] by blast
  have same: "ctx_buf_slot c' = ctx_buf_slot c" "ctx_in_queue c'"
    using p(5) aq(2) by (auto simp: ctx_same_def)
  have le: "ctx_posted c' \<le> ctx_total_ops c'" using p(3) by (auto simp: ctx_ok_def)
  have s1: "store_ok iok left (out n') (cs_set a c' s)" if "ctx_posted c' \<noteq> ctx_total_ops c'"
    by (rule store_ok_set [OF ok a p(3,4) same(1)]) (use le that same in auto)
  have s2: "store_ok iok left (out n') (cs_set a c' (s\<lparr>cs_queue := q\<rparr>))"
    by (rule store_ok_set [OF okq _ p(3,4) same(1)]) (use a aq in auto)
  have "ctx_finished c \<le> ctx_posted c" using c by (auto simp: ctx_ok_def)
  then show ?thesis using a aq(1) drop p(1,2,4,5) s1 s2 by blast
qed

text \<open>A round of the loop ends it or leaves a store in order for the next one.\<close>

lemma progress_round:
  assumes n: "nok n" and ok: "store_ok iok left (out n) s" and q: "cs_queue s = a # q"
  shows "\<exists>s1 n1. nok n1 \<and> store_ok iok left (out n1) s1 \<and> cs_kept (out n) s (out n1) s1 \<and>
           ((\<forall>k. cs_progress prog (Suc k) s n = cs_progress prog k s1 n1) \<or>
            (\<forall>k. cs_progress prog (Suc k) s n = Some (s1, n1)))"
proof -
  from first_ok [OF n ok q] obtain c where c: "cs_heap s a = Some c" "ctx_finished c \<le> ctx_posted c" "a \<notin> set q"
    and bad: "ctx_bad c \<Longrightarrow> \<exists>s'. cs_maybe_drop a (cs_set a (c\<lparr>ctx_in_queue := False\<rparr>) (s\<lparr>cs_queue := q\<rparr>)) = Some s' \<and>
            store_ok iok left (out n) s' \<and> cs_queue s' = q"
    and good: "\<exists>c' n'. prog c n = Some (c', n') \<and> nok n' \<and> ctx_same c c' \<and> (\<forall>b. b \<noteq> a \<longrightarrow> out n' b = out n b) \<and>
            (ctx_posted c' \<noteq> ctx_total_ops c' \<longrightarrow> store_ok iok left (out n') (cs_set a c' s)) \<and>
            store_ok iok left (out n') (cs_set a c' (s\<lparr>cs_queue := q\<rparr>))" by blast
  show ?thesis
  proof (cases "ctx_bad c")
    case True
    with bad obtain s1 where d: "cs_maybe_drop a (cs_set a (c\<lparr>ctx_in_queue := False\<rparr>) (s\<lparr>cs_queue := q\<rparr>)) = Some s1"
      "store_ok iok left (out n) s1" "cs_queue s1 = q" by blast
    have "cs_kept (out n) s (out n) s1"
      by (rule cs_kept_drop [of a _ _ c]) (use True c q d(3) maybe_drop_other [OF d(1)] in simp_all)
    then show ?thesis using n d c q True by (intro exI [of _ s1] exI [of _ n]) simp
  next
    case False
    from good obtain c' n' where p: "prog c n = Some (c', n')" "nok n'" "ctx_same c c'"
      "\<And>b. b \<noteq> a \<Longrightarrow> out n' b = out n b"
      "ctx_posted c' \<noteq> ctx_total_ops c' \<Longrightarrow> store_ok iok left (out n') (cs_set a c' s)"
      "store_ok iok left (out n') (cs_set a c' (s\<lparr>cs_queue := q\<rparr>))" by blast
    have eq: "cs_set a c' (s\<lparr>cs_queue := q\<rparr>) = (cs_set a c' s)\<lparr>cs_queue := q\<rparr>"
      "cs_set a c' s = (cs_set a c' s)\<lparr>cs_queue := cs_queue s\<rparr>" by (simp_all add: cs_set_def)
    have same: "ctx_in_queue c'" "ctx_bad c' = ctx_bad c" using p(3) store_ok_queueD [OF ok c(1)] q
      by (auto simp: ctx_same_def)
    have kept: "cs_kept (out n) s (out n') (cs_set a c' s)" "cs_kept (out n) s (out n') ((cs_set a c' s)\<lparr>cs_queue := q\<rparr>)"
      using cs_kept_post [where out = "out n" and out' = "out n'", OF c(1) q same p(4)] eq(2) by metis+
    have step: "cs_progress prog (Suc k) s n =
        (if ctx_posted c' \<noteq> ctx_total_ops c' then Some (cs_set a c' s, n')
         else cs_progress prog k ((cs_set a c' s)\<lparr>cs_queue := q\<rparr>) n')" for k
      using False c(1,2) q p(1) by (simp add: Let_def)
    show ?thesis
    proof (cases "ctx_posted c' = ctx_total_ops c'")
      case True
      then show ?thesis unfolding step using p(2) p(6) [unfolded eq(1)] kept(2) by metis
    next
      case False
      then show ?thesis unfolding step using p(2) p(5) kept(1) by metis
    qed
  qed
qed

lemma progress_ok:
  "nok n \<Longrightarrow> store_ok iok left (out n) s \<Longrightarrow>
   \<exists>s' n'. cs_progress prog k s n = Some (s', n') \<and> nok n' \<and> store_ok iok left (out n') s' \<and>
     cs_kept (out n) s (out n') s'"
proof (induction k arbitrary: s n)
  case 0
  then show ?case by (simp add: cs_kept_refl)
next
  case (Suc k)
  show ?case
  proof (cases "cs_queue s")
    case Nil
    then show ?thesis using Suc.prems by (simp add: cs_kept_refl)
  next
    case (Cons a q)
    from progress_round [OF Suc.prems Cons] obtain s1 n1 where 1: "nok n1" "store_ok iok left (out n1) s1"
      "cs_kept (out n) s (out n1) s1"
      "cs_progress prog (Suc k) s n = cs_progress prog k s1 n1 \<or> cs_progress prog (Suc k) s n = Some (s1, n1)" by blast
    from Suc.IH [OF 1(1,2)] cs_kept_trans [OF 1(3)] 1 show ?thesis by fastforce
  qed
qed

end

end
