(* ===== verification/Efa_Domain.thy ===== *)
theory Efa_Domain
  imports Domain_Group Write_Ctx Addressing Efa_Ops "HOL-Library.Multiset"
begin

text \<open>
  \<^verbatim>\<open>efa/efa_domain.rs\<close>: one libfabric domain. libfabric is a parameter (\<open>efa_env\<close>) over a state \<open>'n\<close> of
  the network card. The write contexts and their queue are a store of theory \<open>Write_Ctx\<close>. \<open>None\<close> is a
  panic or a use after free.
\<close>

section \<open>The environment\<close>

text \<open>The return code of a posting call: success, \<^verbatim>\<open>-FI_EAGAIN\<close>, or another error.\<close>

datatype fi_ret = FiOk | FiEagain | FiErr int

record writedata_args =
  wd_buf :: ptr
  wd_len :: nat
  wd_desc :: u64
  wd_data :: u64
  wd_addr :: fi_addr
  wd_remote_addr :: u64
  wd_key :: u64
  wd_context :: op_context

text \<open>A completion entry; its flags are the four bits the code tests.\<close>

record cq_entry =
  cq_remote_write :: bool
  cq_write :: bool
  cq_send :: bool
  cq_recv :: bool
  cq_context :: op_context
  cq_len :: nat
  cq_data :: u64

record cq_err_entry =
  ce_send :: bool
  ce_recv :: bool
  ce_write :: bool
  ce_context :: op_context
  ce_message :: string

datatype cq_read_ret = CqEntries "cq_entry list" | CqErrAvail | CqAgain | CqOther int

record efa_mr =
  efa_mr_key :: u64
  efa_mr_desc :: u64

text \<open>The attributes of a registration: access rights, the range, the CUDA device and the dmabuf, if any.\<close>

record fi_mr_attr =
  mra_remote_access :: bool
  mra_base :: ptr
  mra_len :: usize
  mra_cuda :: "int option"
  mra_dmabuf_fd :: "int option"

record 'n efa_env =
  deref_desc :: "u64 \<Rightarrow> u64"
  fi_writemsg :: "rma_msg \<Rightarrow> 'n \<Rightarrow> fi_ret \<times> 'n"
  fi_writedata :: "writedata_args \<Rightarrow> 'n \<Rightarrow> fi_ret \<times> 'n"
  fi_recvmsg :: "fi_msg \<Rightarrow> 'n \<Rightarrow> fi_ret \<times> 'n"
  fi_sendmsg :: "fi_msg \<Rightarrow> 'n \<Rightarrow> fi_ret \<times> 'n"
  fi_cq_read :: "nat \<Rightarrow> 'n \<Rightarrow> cq_read_ret \<times> 'n"
  fi_cq_readerr :: "'n \<Rightarrow> cq_err_entry option \<times> 'n"
  fi_av_insert :: "u8 list \<Rightarrow> 'n \<Rightarrow> (int \<times> u64) \<times> 'n"
  fi_mr_regattr :: "fi_mr_attr \<Rightarrow> 'n \<Rightarrow> (int \<times> efa_mr option) \<times> 'n"
  fi_mr_bind :: "efa_mr \<Rightarrow> 'n \<Rightarrow> int \<times> 'n"
  fi_mr_enable :: "efa_mr \<Rightarrow> 'n \<Rightarrow> int \<times> 'n"
  fi_close_mr :: "efa_mr \<Rightarrow> 'n \<Rightarrow> 'n"

section \<open>The domain\<close>

type_synonym efa_ctx = "efa_iter write_ctx"

record 'n efa_domain =
  ed_addr :: domain_address
  ed_link_speed :: u64
  peer_addr_map :: "domain_address \<rightharpoonup> fi_addr"
  ed_peer_groups :: "peer_group_handle \<rightharpoonup> fi_addr list"
  local_mr_map :: "ptr \<rightharpoonup> efa_mr"
  ed_recv_ops :: "(transfer_id \<times> recv_op) list"
  ed_send_ops :: "(transfer_id \<times> fi_addr \<times> send_op) list"
  ed_writes :: "efa_iter ctx_store"
  ed_completions :: "domain_completion_entry list"
  ed_cuda_device :: int
  ed_nic :: 'n

text \<open>The state at the end of \<^verbatim>\<open>open\<close>, for the address and the card that libfabric gave.\<close>

definition efa_opened :: "domain_address \<Rightarrow> u64 \<Rightarrow> int \<Rightarrow> 'n \<Rightarrow> 'n efa_domain option" where
  "efa_opened addr link_speed cuda_device n = do {
     objpool_write_op \<leftarrow> with_chunk_size 1024;
     objpool_msg \<leftarrow> with_chunk_size 1024;
     Some \<lparr>ed_addr = addr, ed_link_speed = link_speed, peer_addr_map = Map.empty, ed_peer_groups = Map.empty,
       local_mr_map = Map.empty, ed_recv_ops = [], ed_send_ops = [],
       ed_writes = \<lparr>cs_pool = objpool_write_op, cs_buf_pool = objpool_msg, cs_heap = Map.empty, cs_queue = []\<rparr>,
       ed_completions = [], ed_cuda_device = cuda_device, ed_nic = n\<rparr> }"

definition efa_complete :: "domain_completion_entry \<Rightarrow> 'n efa_domain \<Rightarrow> 'n efa_domain" where
  "efa_complete c d = d\<lparr>ed_completions := ed_completions d @ [c]\<rparr>"

definition get_or_add_remote_addr :: "'n efa_env \<Rightarrow> domain_address \<Rightarrow> 'n efa_domain \<Rightarrow> fi_addr result \<times> 'n efa_domain" where
  "get_or_add_remote_addr env peer d =
     (case peer_addr_map d peer of
        Some a \<Rightarrow> (Inr a, d)
      | None \<Rightarrow>
          (let ((ret, addr_id), n) = fi_av_insert env (address_bytes peer) (ed_nic d);
               d = d\<lparr>ed_nic := n\<rparr>
           in if ret = 1
              then (Inr (FiAddr addr_id), d\<lparr>peer_addr_map := (peer_addr_map d)(peer \<mapsto> FiAddr addr_id)\<rparr>)
              else (Inl (Libfabric \<lparr>lfe_code = ret, lfe_context = ''fi_av_insert''\<rparr>), d)))"

section \<open>Memory registration\<close>

definition mr_attr_of :: "memory_region \<Rightarrow> bool \<Rightarrow> fi_mr_attr" where
  "mr_attr_of region allow_remote =
     \<lparr>mra_remote_access = allow_remote, mra_base = region_ptr region, mra_len = region_len region,
      mra_cuda = (case region_mapping region of
                    HostMapping \<Rightarrow> None | DeviceMapping device_id _ \<Rightarrow> Some (uint (device_num device_id))),
      mra_dmabuf_fd = (case region_mapping region of
                    HostMapping \<Rightarrow> None | DeviceMapping _ dmabuf_fd \<Rightarrow> dmabuf_fd)\<rparr>"

definition efa_register_mr ::
    "'n efa_env \<Rightarrow> memory_region \<Rightarrow> bool \<Rightarrow> 'n efa_domain \<Rightarrow> memory_region_remote_key result \<times> 'n efa_domain" where
  "efa_register_mr env region allow_remote d =
     (case local_mr_map d (region_ptr region) of
        Some mr \<Rightarrow> (Inr (MemoryRegionRemoteKey (efa_mr_key mr)), d)
      | None \<Rightarrow>
          (let original_cuda_device = ed_cuda_device d;
               d = (case region_mapping region of
                      HostMapping \<Rightarrow> d
                    | DeviceMapping device_id None \<Rightarrow>
                        if original_cuda_device \<noteq> uint (device_num device_id)
                        then d\<lparr>ed_cuda_device := uint (device_num device_id)\<rparr> else d
                    | DeviceMapping device_id (Some dmabuf_fd) \<Rightarrow> d);
               ((ret, mr), n) = fi_mr_regattr env (mr_attr_of region allow_remote) (ed_nic d);
               d = d\<lparr>ed_nic := n\<rparr>
           in case mr of
                None \<Rightarrow> (Inl (Libfabric \<lparr>lfe_code = ret, lfe_context = ''fi_mr_regattr''\<rparr>), d)
              | Some mr \<Rightarrow>
                  (let (ret, n) = fi_mr_bind env mr (ed_nic d); d = d\<lparr>ed_nic := n\<rparr>
                   in if ret \<noteq> 0 then (Inl (Libfabric \<lparr>lfe_code = ret, lfe_context = ''fi_mr_bind''\<rparr>), d)
                      else
                        let (ret, n) = fi_mr_enable env mr (ed_nic d); d = d\<lparr>ed_nic := n\<rparr>
                        in if ret \<noteq> 0 then (Inl (Libfabric \<lparr>lfe_code = ret, lfe_context = ''fi_mr_enable''\<rparr>), d)
                           else (Inr (MemoryRegionRemoteKey (efa_mr_key mr)),
                                 d\<lparr>local_mr_map := (local_mr_map d)(region_ptr region \<mapsto> mr),
                                   ed_cuda_device := original_cuda_device\<rparr>))))"

definition efa_unregister_mr :: "'n efa_env \<Rightarrow> ptr \<Rightarrow> 'n efa_domain \<Rightarrow> 'n efa_domain" where
  "efa_unregister_mr env p d =
     (case local_mr_map d p of
        Some mr \<Rightarrow> d\<lparr>local_mr_map := (local_mr_map d)(p := None), ed_nic := fi_close_mr env mr (ed_nic d)\<rparr>
      | None \<Rightarrow> d)"

definition efa_get_mem_desc :: "ptr \<Rightarrow> 'n efa_domain \<Rightarrow> memory_region_local_descriptor result" where
  "efa_get_mem_desc p d =
     (case local_mr_map d p of
        None \<Rightarrow> Inl (Custom ''Local MR not found'')
      | Some mr \<Rightarrow> Inr (MemoryRegionLocalDescriptor (efa_mr_desc mr)))"

section \<open>Sends and receives\<close>

fun efa_recv_loop :: "'n efa_env \<Rightarrow> (transfer_id \<times> recv_op) list \<Rightarrow> 'n \<Rightarrow> ((transfer_id \<times> recv_op) list \<times> 'n) option" where
  "efa_recv_loop env [] n = Some ([], n)"
| "efa_recv_loop env ((tid, op) # q) n =
     (case fi_recvmsg env (efa_fill_recv_op op (CtxTid (tid_val tid))) n of
        (FiOk, n) \<Rightarrow> efa_recv_loop env q n
      | (FiEagain, n) \<Rightarrow> Some ((tid, op) # q, n)
      | (FiErr _, n) \<Rightarrow> None)"

definition efa_progress_recv_ops :: "'n efa_env \<Rightarrow> 'n efa_domain \<Rightarrow> 'n efa_domain option" where
  "efa_progress_recv_ops env d =
     map_option (\<lambda>(q, n). d\<lparr>ed_recv_ops := q, ed_nic := n\<rparr>) (efa_recv_loop env (ed_recv_ops d) (ed_nic d))"

fun efa_send_loop ::
    "'n efa_env \<Rightarrow> (transfer_id \<times> fi_addr \<times> send_op) list \<Rightarrow> 'n \<Rightarrow> ((transfer_id \<times> fi_addr \<times> send_op) list \<times> 'n) option" where
  "efa_send_loop env [] n = Some ([], n)"
| "efa_send_loop env ((tid, dest, op) # q) n =
     (case fi_sendmsg env ((efa_fill_send_op op (CtxTid (tid_val tid)))\<lparr>fm_addr := dest\<rparr>) n of
        (FiOk, n) \<Rightarrow> efa_send_loop env q n
      | (FiEagain, n) \<Rightarrow> Some ((tid, dest, op) # q, n)
      | (FiErr _, n) \<Rightarrow> None)"

definition efa_progress_send_ops :: "'n efa_env \<Rightarrow> 'n efa_domain \<Rightarrow> 'n efa_domain option" where
  "efa_progress_send_ops env d =
     map_option (\<lambda>(q, n). d\<lparr>ed_send_ops := q, ed_nic := n\<rparr>) (efa_send_loop env (ed_send_ops d) (ed_nic d))"

section \<open>Posting writes\<close>

text \<open>A message with an immediate is posted by \<^verbatim>\<open>fi_writedata\<close>, one without by \<^verbatim>\<open>fi_writemsg\<close>.\<close>

definition writedata_of :: "'n efa_env \<Rightarrow> rma_msg \<Rightarrow> writedata_args" where
  "writedata_of env m =
     \<lparr>wd_buf = (if iov_count m = 0 then 0 else iov_base m), wd_len = (if iov_count m = 0 then 0 else iov_len m),
      wd_desc = (if m_desc m \<noteq> 0 then deref_desc env (m_desc m) else 0), wd_data = m_data m,
      wd_addr = m_addr m, wd_remote_addr = rma_addr m, wd_key = rma_key m, wd_context = m_context m\<rparr>"

definition efa_post :: "'n efa_env \<Rightarrow> rma_msg \<Rightarrow> fi_flags \<Rightarrow> 'n \<Rightarrow> (fi_ret \<times> 'n) option" where
  "efa_post env m flags n =
     (if flags \<noteq> NoFlags then
        (if iov_count m \<noteq> 0 \<and> iov_count m \<noteq> 1 then None
         else Some (fi_writedata env (writedata_of env m) n))
      else Some (fi_writemsg env m n))"

text \<open>One round of the posting loop; the flag says that a message was posted.\<close>

definition efa_write_step :: "'n efa_env \<Rightarrow> efa_ctx \<Rightarrow> 'n \<Rightarrow> (bool \<times> efa_ctx \<times> 'n) option" where
  "efa_write_step env ctx n =
     (case efa_peek (ctx_iter ctx) of
        (None, _) \<Rightarrow> Some (False, ctx, n)
      | (Some m, flags) \<Rightarrow> do {
          (ret, n) \<leftarrow> efa_post env m flags n;
          case ret of
            FiOk \<Rightarrow> do {
              it \<leftarrow> efa_advance (ctx_iter ctx);
              Some (True, ctx\<lparr>ctx_iter := it, ctx_posted := ctx_posted ctx + 1\<rparr>, n) }
          | FiEagain \<Rightarrow> Some (False, ctx, n)
          | FiErr _ \<Rightarrow> None })"

fun efa_write_loop :: "'n efa_env \<Rightarrow> nat \<Rightarrow> efa_ctx \<Rightarrow> 'n \<Rightarrow> (efa_ctx \<times> 'n) option" where
  "efa_write_loop env 0 ctx n = map_option snd (efa_write_step env ctx n)"
| "efa_write_loop env (Suc k) ctx n = do {
     (posted, ctx, n) \<leftarrow> efa_write_step env ctx n;
     if posted \<and> k \<noteq> 0 then efa_write_loop env k ctx n else Some (ctx, n) }"

definition efa_progress_write_op_context :: "'n efa_env \<Rightarrow> efa_ctx \<Rightarrow> nat \<Rightarrow> 'n \<Rightarrow> (efa_ctx \<times> 'n) option" where
  "efa_progress_write_op_context env ctx max_submit n =
     (if ctx_bad ctx then Some (ctx, n) else efa_write_loop env max_submit ctx n)"

definition efa_set_writes :: "'n efa_domain \<Rightarrow> efa_iter ctx_store \<times> 'n \<Rightarrow> 'n efa_domain" where
  "efa_set_writes d r = d\<lparr>ed_writes := fst r, ed_nic := snd r\<rparr>"

text \<open>The eager posting sends one message, whether or not other contexts wait in the queue.\<close>

definition efa_do_submit_write ::
    "'n efa_env \<Rightarrow> transfer_id \<Rightarrow> (op_context \<Rightarrow> efa_iter option) \<Rightarrow> 'n efa_domain \<Rightarrow> 'n efa_domain option" where
  "efa_do_submit_write env tid construct d =
     map_option (efa_set_writes d)
       (cs_submit (\<lambda>ctx. efa_progress_write_op_context env ctx 1) efa_total_ops tid
          (\<lambda>slot _. construct (CtxWrite slot)) (ed_writes d) (ed_nic d))"

definition efa_do_submit_group_write ::
    "'n efa_env \<Rightarrow> transfer_id \<Rightarrow> fi_addr list \<Rightarrow> group_write_op \<Rightarrow> 'n efa_domain \<Rightarrow> 'n efa_domain option" where
  "efa_do_submit_group_write env tid addrs op d =
     efa_do_submit_write env tid
       (\<lambda>rawctx. case op of ScatterW op \<Rightarrow> map_option EScatter (efa_scatter_new op addrs rawctx)) d"

definition efa_progress_write_ops :: "'n efa_env \<Rightarrow> 'n efa_domain \<Rightarrow> 'n efa_domain option" where
  "efa_progress_write_ops env d =
     map_option (efa_set_writes d)
       (cs_progress (\<lambda>ctx. efa_progress_write_op_context env ctx 32) (length (cs_queue (ed_writes d)))
          (ed_writes d) (ed_nic d))"

definition efa_progress_ops :: "'n efa_env \<Rightarrow> 'n efa_domain \<Rightarrow> 'n efa_domain option" where
  "efa_progress_ops env d = do {
     d \<leftarrow> efa_progress_recv_ops env d;
     d \<leftarrow> efa_progress_send_ops env d;
     efa_progress_write_ops env d }"

section \<open>Completions\<close>

definition efa_handle_cqe ::
    "cq_entry \<Rightarrow> 'n efa_domain \<Rightarrow> imm_count_map
       \<Rightarrow> (domain_completion_entry option \<times> 'n efa_domain \<times> imm_count_map) option" where
  "efa_handle_cqe c d m =
     (if cq_remote_write c then
        (let imm = ucast (cq_data c); (st, m) = imm_inc imm m
         in Some (case st of
              Vacant \<Rightarrow> (Some (DImmData imm), d, m)
            | NotReached \<Rightarrow> (None, d, m)
            | Reached \<Rightarrow> (Some (DImmCountReached imm), d, m)))
      else if cq_write c then
        do {
          p \<leftarrow> ctx_as_mut (cq_context c);
          case p of
            None \<Rightarrow> Some (None, d, m)
          | Some a \<Rightarrow> do {
              (r, w) \<leftarrow> cs_complete a (ed_writes d);
              Some (map_option DTransfer r, d\<lparr>ed_writes := w\<rparr>, m) } }
      else if cq_send c then map_option (\<lambda>tid. (Some (DSend tid), d, m)) (ctx_tid (cq_context c))
      else if cq_recv c then map_option (\<lambda>tid. (Some (DRecv tid (cq_len c)), d, m)) (ctx_tid (cq_context c))
      else Some (None, d, m))"

fun efa_handle_cqes ::
    "cq_entry list \<Rightarrow> 'n efa_domain \<Rightarrow> imm_count_map \<Rightarrow> ('n efa_domain \<times> imm_count_map) option" where
  "efa_handle_cqes [] d m = Some (d, m)"
| "efa_handle_cqes (c # cs) d m = do {
     (r, d, m) \<leftarrow> efa_handle_cqe c d m;
     efa_handle_cqes cs (case r of Some x \<Rightarrow> efa_complete x d | None \<Rightarrow> d) m }"

text \<open>A completion error: which transfer to report, if any.\<close>

definition efa_handle_error :: "cq_err_entry \<Rightarrow> 'n efa_domain \<Rightarrow> 'n efa_domain option" where
  "efa_handle_error e d = do {
     (r, d) \<leftarrow>
       (if ce_send e then map_option (\<lambda>tid. (Some tid, d)) (ctx_tid (ce_context e))
        else if ce_recv e then map_option (\<lambda>tid. (Some tid, d)) (ctx_tid (ce_context e))
        else if ce_write e then
          do {
            p \<leftarrow> ctx_as_mut (ce_context e);
            case p of
              None \<Rightarrow> Some (None, d)
            | Some a \<Rightarrow> do {
                (r, w) \<leftarrow> cs_fail a (ed_writes d);
                Some (r, d\<lparr>ed_writes := w\<rparr>) } }
        else Some (None, d));
     Some (case r of
       Some tid \<Rightarrow> efa_complete (DError tid (CompletionError (ce_message e))) d
     | None \<Rightarrow> d) }"

definition READ_COUNT :: nat where
  "READ_COUNT = 16"

text \<open>
  The loop runs until the queue is drained or an error entry was read; it need not end on a card
  that always has a completion to report, which is the value \<open>None\<close> (as is a panic).
\<close>

partial_function (option) efa_poll_cq ::
    "'n efa_env \<Rightarrow> 'n efa_domain \<Rightarrow> imm_count_map \<Rightarrow> ('n efa_domain \<times> imm_count_map) option" where
  "efa_poll_cq env d m =
     (case fi_cq_read env READ_COUNT (ed_nic d) of
        (CqEntries cs, n) \<Rightarrow> do {
          (d, m) \<leftarrow> efa_handle_cqes cs (d\<lparr>ed_nic := n\<rparr>) m;
          efa_poll_cq env d m }
      | (CqErrAvail, n) \<Rightarrow>
          (case fi_cq_readerr env n of
             (Some e, n) \<Rightarrow> map_option (\<lambda>d. (d, m)) (efa_handle_error e (d\<lparr>ed_nic := n\<rparr>))
           | (None, n) \<Rightarrow> None)
      | (CqAgain, n) \<Rightarrow> Some (d\<lparr>ed_nic := n\<rparr>, m)
      | (CqOther _, n) \<Rightarrow> None)"

section \<open>The operations of the trait\<close>

definition resolve_error :: "domain_address \<Rightarrow> fabric_lib_error" where
  "resolve_error a = CompletionError (''Failed to resolve remote address: '' @ domain_address_to_string a)"

definition efa_submit_recv :: "transfer_id \<Rightarrow> recv_op \<Rightarrow> 'n efa_domain \<Rightarrow> 'n efa_domain" where
  "efa_submit_recv tid op d = d\<lparr>ed_recv_ops := ed_recv_ops d @ [(tid, op)]\<rparr>"

definition efa_submit_send :: "'n efa_env \<Rightarrow> transfer_id \<Rightarrow> domain_address \<Rightarrow> send_op \<Rightarrow> 'n efa_domain \<Rightarrow> 'n efa_domain" where
  "efa_submit_send env tid dest op d =
     (case get_or_add_remote_addr env dest d of
        (Inl _, d) \<Rightarrow> efa_complete (DError tid (resolve_error dest)) d
      | (Inr a, d) \<Rightarrow> d\<lparr>ed_send_ops := ed_send_ops d @ [(tid, a, op)]\<rparr>)"

definition efa_submit_write ::
    "'n efa_env \<Rightarrow> transfer_id \<Rightarrow> domain_address \<Rightarrow> write_op \<Rightarrow> 'n efa_domain \<Rightarrow> 'n efa_domain option" where
  "efa_submit_write env tid dest op d =
     (case get_or_add_remote_addr env dest d of
        (Inl _, d) \<Rightarrow> Some (efa_complete (DError tid (resolve_error dest)) d)
      | (Inr a, d) \<Rightarrow>
          efa_do_submit_write env tid (\<lambda>rawctx. case op of
              SingleW op \<Rightarrow> Some (ESingle (efa_new_single op a rawctx))
            | ImmW op \<Rightarrow> Some (ESingle (efa_new_imm op a rawctx))
            | PagedW op \<Rightarrow> map_option EPaged (efa_paged_new op a rawctx)) d)"

text \<open>Resolving addresses one after the other, up to the first failure (or the panic of the iterator).\<close>

fun resolve_all ::
    "'n efa_env \<Rightarrow> domain_address option list \<Rightarrow> 'n efa_domain
       \<Rightarrow> (((domain_address \<times> fabric_lib_error) + fi_addr list) \<times> 'n efa_domain) option" where
  "resolve_all env [] d = Some (Inr [], d)"
| "resolve_all env (None # as) d = None"
| "resolve_all env (Some a # as) d =
     (case get_or_add_remote_addr env a d of
        (Inl e, d) \<Rightarrow> Some (Inl (a, e), d)
      | (Inr x, d) \<Rightarrow>
          map_option (\<lambda>(r, d). (case r of Inl e \<Rightarrow> Inl e | Inr xs \<Rightarrow> Inr (x # xs), d)) (resolve_all env as d))"

definition efa_add_peer_group ::
    "'n efa_env \<Rightarrow> peer_group_handle \<Rightarrow> domain_address list \<Rightarrow> 'n efa_domain \<Rightarrow> unit result \<times> 'n efa_domain" where
  "efa_add_peer_group env handle addrs d =
     (if ed_peer_groups d handle \<noteq> None then (Inr (), d)
      else case the (resolve_all env (map Some addrs) d) of
             (Inl (_, e), d) \<Rightarrow> (Inl e, d)
           | (Inr fi_addrs, d) \<Rightarrow> (Inr (), d\<lparr>ed_peer_groups := (ed_peer_groups d)(handle \<mapsto> fi_addrs)\<rparr>))"

definition efa_submit_group_write ::
    "'n efa_env \<Rightarrow> transfer_id \<Rightarrow> peer_group_handle option \<Rightarrow> group_write_op \<Rightarrow> 'n efa_domain \<Rightarrow> 'n efa_domain option" where
  "efa_submit_group_write env tid handle op d =
     (case handle of
        Some handle \<Rightarrow>
          (case ed_peer_groups d handle of
             None \<Rightarrow> Some (efa_complete (DError tid (Custom ''Peer group not found'')) d)
           | Some addrs \<Rightarrow> efa_do_submit_group_write env tid addrs op d)
      | None \<Rightarrow> do {
          (r, d) \<leftarrow> resolve_all env (peer_addr_iter op) d;
          case r of
            Inl (a, _) \<Rightarrow> Some (efa_complete (DError tid (resolve_error a)) d)
          | Inr addrs \<Rightarrow> efa_do_submit_group_write env tid addrs op d })"

definition efa_poll_progress ::
    "'n efa_env \<Rightarrow> 'n efa_domain \<Rightarrow> imm_count_map \<Rightarrow> ('n efa_domain \<times> imm_count_map) option" where
  "efa_poll_progress env d m = do { d \<leftarrow> efa_progress_ops env d; efa_poll_cq env d m }"

definition efa_get_completion :: "'n efa_domain \<Rightarrow> domain_completion_entry option \<times> 'n efa_domain" where
  "efa_get_completion d =
     (case ed_completions d of [] \<Rightarrow> (None, d) | c # cs \<Rightarrow> (Some c, d\<lparr>ed_completions := cs\<rparr>))"

definition efa_ops :: "'n efa_env \<Rightarrow> 'n efa_domain rdma_domain_ops" where
  "efa_ops env =
     \<lparr>d_link_speed = ed_link_speed, d_addr = ed_addr,
      d_register_mr_local = (\<lambda>r d. (case efa_register_mr env r False d of (Inl e, d) \<Rightarrow> (Inl e, d) | (Inr _, d) \<Rightarrow> (Inr (), d))),
      d_register_mr_allow_remote = (\<lambda>r d. efa_register_mr env r True d),
      d_unregister_mr = efa_unregister_mr env, d_get_mem_desc = efa_get_mem_desc,
      d_submit_recv = (\<lambda>t op d. Some (efa_submit_recv t op d)),
      d_submit_send = (\<lambda>t a op d. Some (efa_submit_send env t a op d)),
      d_submit_write = efa_submit_write env, d_add_peer_group = efa_add_peer_group env,
      d_submit_group_write = efa_submit_group_write env,
      d_poll_progress = efa_poll_progress env, d_get_completion = efa_get_completion\<rparr>"

end
