(* ===== verification/Efa_Safety.thy ===== *)
theory Efa_Safety
  imports Efa_Domain Domain_Contract
begin

text \<open>
  The EFA domain over a card that keeps libfabric's contract: every posted write completes at most
  once and carries the context it was posted with. Then no completion refers to a freed context, no
  assertion fails, and polling returns.
\<close>

declare split_paired_All [simp del] split_paired_Ex [simp del]

section \<open>What is known of the card\<close>

definition posts :: "('n \<Rightarrow> posted_ops) \<Rightarrow> op_kind \<times> op_context \<Rightarrow> 'n \<Rightarrow> fi_ret \<times> 'n \<Rightarrow> bool" where
  "posts outst x n r \<longleftrightarrow>
     fst r = FiOk \<and> outst (snd r) = add_mset x (outst n) \<or> fst r = FiEagain \<and> outst (snd r) = outst n"

text \<open>The operations a completion takes off the card; the reception of a remote write is none of them.\<close>

definition cqe_op :: "cq_entry \<Rightarrow> posted_ops" where
  "cqe_op c =
     (if cq_remote_write c then {#}
      else if cq_write c then {#(KWrite, cq_context c)#}
      else if cq_send c then {#(KSend, cq_context c)#}
      else if cq_recv c then {#(KRecv, cq_context c)#} else {#})"

definition cqe_ops :: "cq_entry list \<Rightarrow> posted_ops" where
  "cqe_ops cs = sum_list (map cqe_op cs)"

definition err_op :: "cq_err_entry \<Rightarrow> posted_ops" where
  "err_op e =
     (if ce_send e then {#(KSend, ce_context e)#}
      else if ce_recv e then {#(KRecv, ce_context e)#}
      else if ce_write e then {#(KWrite, ce_context e)#} else {#})"

text \<open>
  \<open>outst n\<close> are the operations on the card, \<open>ncq n\<close> bounds the reads of the completion queue before it
  is found empty.
\<close>

definition efa_reads :: "'n efa_env \<Rightarrow> ('n \<Rightarrow> posted_ops) \<Rightarrow> ('n \<Rightarrow> nat) \<Rightarrow> 'n \<Rightarrow> bool" where
  "efa_reads env outst ncq n \<longleftrightarrow>
     (case fi_cq_read env READ_COUNT n of
        (CqEntries cs, n') \<Rightarrow> ncq n' < ncq n \<and> outst n = outst n' + cqe_ops cs
      | (CqErrAvail, n') \<Rightarrow>
          (case fi_cq_readerr env n' of
             (Some e, n'') \<Rightarrow> outst n = outst n'' + err_op e
           | (None, _) \<Rightarrow> False)
      | (CqAgain, n') \<Rightarrow> outst n' = outst n
      | (CqOther _, _) \<Rightarrow> False)"

definition efa_contract :: "'n efa_env \<Rightarrow> ('n \<Rightarrow> posted_ops) \<Rightarrow> ('n \<Rightarrow> nat) \<Rightarrow> bool" where
  "efa_contract env outst ncq \<longleftrightarrow>
     (\<forall>m n. posts outst (KWrite, m_context m) n (fi_writemsg env m n)) \<and>
     (\<forall>m n. posts outst (KWrite, wd_context m) n (fi_writedata env m n)) \<and>
     (\<forall>m n. posts outst (KRecv, fm_context m) n (fi_recvmsg env m n)) \<and>
     (\<forall>m n. posts outst (KSend, fm_context m) n (fi_sendmsg env m n)) \<and>
     (\<forall>n. efa_reads env outst ncq n) \<and>
     (\<forall>a n. outst (snd (fi_av_insert env a n)) = outst n) \<and>
     (\<forall>a n. outst (snd (fi_mr_regattr env a n)) = outst n) \<and>
     (\<forall>r n. outst (snd (fi_mr_bind env r n)) = outst n) \<and>
     (\<forall>r n. outst (snd (fi_mr_enable env r n)) = outst n) \<and>
     (\<forall>r n. outst (fi_close_mr env r n) = outst n)"

lemma efa_contractD:
  assumes "efa_contract env outst ncq"
  shows "posts outst (KWrite, m_context m) n (fi_writemsg env m n)"
    "posts outst (KWrite, wd_context w) n (fi_writedata env w n)"
    "posts outst (KRecv, fm_context x) n (fi_recvmsg env x n)" "posts outst (KSend, fm_context x) n (fi_sendmsg env x n)"
    "efa_reads env outst ncq n"
  using assms by (auto simp: efa_contract_def)

lemma efa_contract_quiet:
  assumes "efa_contract env outst ncq"
  shows "outst (snd (fi_av_insert env a n)) = outst n" "outst (snd (fi_mr_regattr env at n)) = outst n"
    "outst (snd (fi_mr_bind env r n)) = outst n" "outst (snd (fi_mr_enable env r n)) = outst n"
    "outst (fi_close_mr env r n) = outst n"
  using assms by (simp_all add: efa_contract_def)

section \<open>The iterator of a context\<close>

definition efa_iok :: "slot \<Rightarrow> efa_iter \<Rightarrow> bool" where
  "efa_iok a it \<longleftrightarrow> efa_ok it \<and> (\<forall>x \<in> set (efa_todo it). m_context (fst x) = CtxWrite a \<and> iov_count (fst x) \<le> 1)"

definition efa_left :: "efa_iter \<Rightarrow> nat" where
  "efa_left it = length (efa_todo it)"

lemma efa_peek_cases:
  assumes "efa_iok a it"
  shows "efa_peek it = (None, snd (efa_peek it)) \<and> efa_todo it = [] \<or>
    (\<exists>m fl it'. efa_peek it = (Some m, fl) \<and> m_context m = CtxWrite a \<and> iov_count m \<le> 1 \<and>
       efa_advance it = Some it' \<and> efa_iok a it' \<and> efa_left it = Suc (efa_left it'))"
proof (cases "efa_todo it")
  case Nil
  then have "efa_items it = []" using assms efa_items_todo by (auto simp: efa_iok_def)
  then show ?thesis using Nil by (auto simp: efa_items_def split: prod.splits option.splits)
next
  case (Cons x xs)
  have ok: "efa_ok it" using assms by (simp add: efa_iok_def)
  have items: "efa_items it = [x]" using efa_items_todo [OF ok] Cons by simp
  then obtain m fl where p: "efa_peek it = (Some m, fl)" "x = (m, fl)"
    by (auto simp: efa_items_def split: prod.splits option.splits)
  from eit.advance_ok [OF ok, of 1] items obtain it' where
    "efa_advance it = Some it'" "efa_ok it'" "efa_todo it' = xs" using Cons by (auto simp: efa_advance_n_def)
  then show ?thesis using p assms Cons by (auto simp: efa_iok_def efa_left_def)
qed

lemma efa_scatter_new_ok:
  assumes op: "scatter_op_ok op (length addrs)" "scatter_targets_ok op"
  shows "\<exists>it. efa_scatter_new op addrs (CtxWrite a) = Some it \<and> efa_iok a (EScatter it) \<and>
           efa_left (EScatter it) = efa_total_ops (EScatter it)"
proof -
  define m where "m = \<lparr>iov_base = 0, iov_len = 0, iov_count = 1, m_desc = desc_val (sg_src_desc op),
    m_addr = FI_ADDR_UNSPEC, rma_addr = 0, rma_len = 0, rma_key = 0, m_context = CtxWrite a,
    m_data = fst (flags_imm (sg_imm_data op))\<rparr>"
  define it where "it = \<lparr>ec_addrs = addrs, ec_buf = Some m, ec_flags = snd (flags_imm (sg_imm_data op)),
    ec_domain_idx = sg_domain_idx op, ec_src_ptr = sg_src_ptr op, ec_dsts = sg_dsts op,
    ec_dst_beg = sg_dst_beg op, ec_dst_end = sg_dst_end op, ec_byte_shards = sg_byte_shards op,
    ec_byte_shard_idx = sg_byte_shard_idx op, ec_i_dst = sg_dst_beg op\<rparr>"
  have new: "efa_scatter_new op addrs (CtxWrite a) = ec_fill_msg it"
    using op(1) by (simp add: efa_scatter_new_def scatter_op_ok_def case_prod_beta Let_def it_def m_def)
  have "ec_wf it" "ec_i_dst it < ec_dst_end it" "ec_buf it = Some m"
    using op by (auto simp: it_def ec_wf_def scatter_op_ok_def scatter_targets_ok_def)
  from ec_fill_ok [OF this] obtain it' where f: "ec_fill_msg it = Some it'" "ec_ok it'"
    "ec_todo it' = ec_todo it" "ec_total_ops it' = ec_total_ops it" by blast
  have "\<forall>x \<in> set (ec_todo it). m_context (fst x) = CtxWrite a \<and> iov_count (fst x) \<le> 1"
    by (auto simp: ec_todo_def ec_msg_def it_def m_def Let_def)
  moreover have "length (ec_todo it) = ec_total_ops it" by (simp add: ec_todo_def ec_total_ops_def it_def)
  ultimately show ?thesis using new f by (auto simp: efa_iok_def efa_left_def)
qed

lemma efa_write_new_ok:
  assumes "write_op_ok op"
  shows "\<exists>it. (case op of
              SingleW op \<Rightarrow> Some (ESingle (efa_new_single op d (CtxWrite a)))
            | ImmW op \<Rightarrow> Some (ESingle (efa_new_imm op d (CtxWrite a)))
            | PagedW op \<Rightarrow> map_option EPaged (efa_paged_new op d (CtxWrite a))) = Some it \<and>
           efa_iok a it \<and> efa_left it = efa_total_ops it"
proof (cases op)
  case (PagedW p)
  with assms have "paged_op_ok p" by simp
  from efa_paged_new_ok [OF this, of d "CtxWrite a"] show ?thesis
    using PagedW by (auto simp: efa_iok_def efa_left_def paged_msg_spec_def)
qed (auto simp: efa_iok_def efa_left_def efa_new_single_def efa_new_imm_def case_prod_beta Let_def)

section \<open>Posting keeps the counters\<close>

lemma efa_post_ok:
  assumes con: "efa_contract env outst ncq" and m: "iov_count m \<le> 1"
  shows "\<exists>r. efa_post env m fl n = Some r \<and> posts outst (KWrite, m_context m) n r"
proof -
  have "wd_context (writedata_of env m) = m_context m" by (simp add: writedata_of_def)
  moreover have "efa_post env m fl n =
      Some (if fl \<noteq> NoFlags then fi_writedata env (writedata_of env m) n else fi_writemsg env m n)"
    using m by (auto simp: efa_post_def)
  ultimately show ?thesis
    using efa_contractD(1) [OF con, of m n] efa_contractD(2) [OF con, of "writedata_of env m" n] by simp
qed

text \<open>One post: the counters of the context keep up with the card.\<close>

definition keeps_ctx :: "('n \<Rightarrow> posted_ops) \<Rightarrow> slot \<Rightarrow> efa_ctx \<Rightarrow> 'n \<Rightarrow> efa_ctx \<Rightarrow> 'n \<Rightarrow> bool" where
  "keeps_ctx outst a c n c' n' \<longleftrightarrow>
     ctx_ok efa_iok efa_left (on_card (outst n') a) a c' \<and> posted_ok (outst n') \<and>
     (\<forall>b. b \<noteq> a \<longrightarrow> on_card (outst n') b = on_card (outst n) b) \<and> ctx_same c c'"

lemma efa_step_ok:
  assumes con: "efa_contract env outst ncq" and c: "ctx_ok efa_iok efa_left (on_card (outst n) a) a c"
    and p: "posted_ok (outst n)"
  shows "\<exists>b c' n'. efa_write_step env c n = Some (b, c', n') \<and> keeps_ctx outst a c n c' n'"
proof -
  have "efa_iok a (ctx_iter c)" using c by (simp add: ctx_ok_def)
  from efa_peek_cases [OF this] show ?thesis
  proof
    assume "efa_peek (ctx_iter c) = (None, snd (efa_peek (ctx_iter c))) \<and> efa_todo (ctx_iter c) = []"
    then have "efa_write_step env c n = Some (False, c, n)"
      by (metis (no_types, lifting) efa_write_step_def case_prod_conv option.simps(4))
    then show ?thesis using c p by (auto simp: keeps_ctx_def)
  next
    assume "\<exists>m fl it'. efa_peek (ctx_iter c) = (Some m, fl) \<and> m_context m = CtxWrite a \<and> iov_count m \<le> 1 \<and>
       efa_advance (ctx_iter c) = Some it' \<and> efa_iok a it' \<and> efa_left (ctx_iter c) = Suc (efa_left it')"
    then obtain m fl it' where m: "efa_peek (ctx_iter c) = (Some m, fl)" "m_context m = CtxWrite a" "iov_count m \<le> 1"
      "efa_advance (ctx_iter c) = Some it'" "efa_iok a it'" "efa_left (ctx_iter c) = Suc (efa_left it')" by blast
    obtain r n' where r: "efa_post env m fl n = Some (r, n')" "posts outst (KWrite, CtxWrite a) n (r, n')"
      using efa_post_ok [OF con m(3), of fl n] m(2) by auto
    have "r = FiOk \<and> outst n' = add_mset (KWrite, CtxWrite a) (outst n) \<or> r = FiEagain \<and> outst n' = outst n"
      using r(2) by (simp add: posts_def)
    then show ?thesis
      using c p m(1,4,5,6) r(1) by (auto simp: efa_write_step_def keeps_ctx_def ctx_ok_def ctx_same_def)
  qed
qed

lemma keeps_ctx_trans: "keeps_ctx outst a c n c' n' \<Longrightarrow> keeps_ctx outst a c' n' c'' n'' \<Longrightarrow> keeps_ctx outst a c n c'' n''"
  by (auto simp: keeps_ctx_def intro: ctx_same_trans)

lemma efa_loop_ok:
  assumes con: "efa_contract env outst ncq"
  shows "ctx_ok efa_iok efa_left (on_card (outst n) a) a c \<Longrightarrow> posted_ok (outst n) \<Longrightarrow>
    \<exists>c' n'. efa_write_loop env k c n = Some (c', n') \<and> keeps_ctx outst a c n c' n'"
proof (induction k arbitrary: c n)
  case 0
  from efa_step_ok [OF con 0] show ?case by fastforce
next
  case (Suc k)
  from efa_step_ok [OF con Suc.prems] obtain b c1 n1 where
    s: "efa_write_step env c n = Some (b, c1, n1)" "keeps_ctx outst a c n c1 n1" by blast
  then have "\<exists>c' n'. efa_write_loop env k c1 n1 = Some (c', n') \<and> keeps_ctx outst a c1 n1 c' n'"
    by (intro Suc.IH) (auto simp: keeps_ctx_def)
  then show ?case using s keeps_ctx_trans [OF s(2)] by (cases "b \<and> k \<noteq> 0") fastforce+
qed

interpretation ectx: ctx_client efa_iok efa_left
    "\<lambda>ctx. efa_progress_write_op_context env ctx k" "\<lambda>n. on_card (outst n)"
    "\<lambda>n. efa_contract env outst ncq \<and> posted_ok (outst n)"
  for env :: "'n efa_env" and outst ncq k
proof unfold_locales
  show "\<exists>c' n'. efa_progress_write_op_context env c k n = Some (c', n') \<and>
          (efa_contract env outst ncq \<and> posted_ok (outst n')) \<and>
          ctx_ok efa_iok efa_left (on_card (outst n') a) a c' \<and>
          (\<forall>b. b \<noteq> a \<longrightarrow> on_card (outst n') b = on_card (outst n) b) \<and> ctx_same c c'"
    if "efa_contract env outst ncq \<and> posted_ok (outst n)" "ctx_ok efa_iok efa_left (on_card (outst n) a) a c" for n a c
    using efa_loop_ok [of env outst ncq n a c k] that
    by (auto simp: efa_progress_write_op_context_def keeps_ctx_def)
qed

section \<open>The invariant of a domain\<close>

abbreviation writes_ok :: "posted_ops \<Rightarrow> 'n efa_domain \<Rightarrow> bool" where
  "writes_ok out d \<equiv> store_ok efa_iok efa_left (on_card out) (ed_writes d)"

definition efa_inv :: "('n \<Rightarrow> posted_ops) \<Rightarrow> 'n efa_domain \<Rightarrow> bool" where
  "efa_inv outst d \<longleftrightarrow> posted_ok (outst (ed_nic d)) \<and> writes_ok (outst (ed_nic d)) d"

text \<open>An operation that touches neither the contexts nor the writes on the card.\<close>

definition same_writes :: "posted_ops \<Rightarrow> posted_ops \<Rightarrow> bool" where
  "same_writes M N \<longleftrightarrow> on_card N = on_card M \<and> (posted_ok M \<longrightarrow> posted_ok N)"

definition quiet :: "('n \<Rightarrow> posted_ops) \<Rightarrow> 'n efa_domain \<Rightarrow> 'n efa_domain \<Rightarrow> bool" where
  "quiet outst d d' \<longleftrightarrow> ed_writes d' = ed_writes d \<and> same_writes (outst (ed_nic d)) (outst (ed_nic d'))"

text \<open>A good step keeps the invariant and frees no leaked context.\<close>

definition efa_good :: "('n \<Rightarrow> posted_ops) \<Rightarrow> 'n efa_domain \<Rightarrow> 'n efa_domain \<Rightarrow> bool" where
  "efa_good outst d d' \<longleftrightarrow> efa_inv outst d' \<and>
     leaks_kept (on_card (outst (ed_nic d))) (ed_writes d) (on_card (outst (ed_nic d'))) (ed_writes d')"

lemma same_writes_refl [simp]: "same_writes M M"
  by (simp add: same_writes_def)

lemma same_writes_trans: "same_writes M N \<Longrightarrow> same_writes N K \<Longrightarrow> same_writes M K"
  by (simp add: same_writes_def)

lemma quiet_good: "efa_inv outst d \<Longrightarrow> quiet outst d d' \<Longrightarrow> efa_good outst d d'"
  by (simp add: efa_good_def efa_inv_def quiet_def same_writes_def leaks_kept_refl)

lemma efa_good_trans: "efa_good outst d e \<Longrightarrow> efa_good outst e f \<Longrightarrow> efa_good outst d f"
  unfolding efa_good_def using leaks_kept_trans by blast

lemma efa_good_inv: "efa_good outst d e \<Longrightarrow> efa_inv outst e"
  by (simp add: efa_good_def)

lemma quiet_refl [simp]: "quiet outst d d"
  by (simp add: quiet_def)

lemma quiet_trans: "quiet outst d e \<Longrightarrow> quiet outst e f \<Longrightarrow> quiet outst d f"
  by (auto simp: quiet_def intro: same_writes_trans)

lemma good_complete [simp]:
  "efa_good outst d (efa_complete c e) = efa_good outst d e"
  by (simp add: efa_good_def efa_inv_def efa_complete_def)

subsection \<open>Addresses and registration\<close>

lemma resolve_quiet:
  assumes "efa_contract env outst ncq"
  shows "quiet outst d (snd (get_or_add_remote_addr env a d)) \<and>
         ed_peer_groups (snd (get_or_add_remote_addr env a d)) = ed_peer_groups d"
  using efa_contract_quiet(1) [OF assms, of "address_bytes a" "ed_nic d"]
  by (auto simp: get_or_add_remote_addr_def quiet_def case_prod_beta Let_def split: option.splits)

lemma resolve_all_ok:
  assumes con: "efa_contract env outst ncq"
  shows "None \<notin> set as \<Longrightarrow> \<exists>r d'. resolve_all env as d = Some (r, d') \<and> quiet outst d d' \<and>
           ed_peer_groups d' = ed_peer_groups d \<and> (\<forall>xs. r = Inr xs \<longrightarrow> length xs = length as)"
proof (induction as arbitrary: d)
  case (Cons x as)
  then obtain a where x: "x = Some a" by (cases x) auto
  obtain r d1 where r: "get_or_add_remote_addr env a d = (r, d1)" by fastforce
  have q: "quiet outst d d1" "ed_peer_groups d1 = ed_peer_groups d" using resolve_quiet [OF con, of d a] r by simp_all
  show ?case
  proof (cases r)
    case (Inl e)
    then show ?thesis using x r q by simp
  next
    case (Inr y)
    obtain s d2 where "resolve_all env as d1 = Some (s, d2)" "quiet outst d1 d2" "ed_peer_groups d2 = ed_peer_groups d1"
      "\<forall>xs. s = Inr xs \<longrightarrow> length xs = length as" using Cons.IH [of d1] Cons.prems by auto
    then show ?thesis using x r q Inr quiet_trans by (auto split: sum.splits)
  qed
qed simp

lemma register_quiet:
  assumes con: "efa_contract env outst ncq"
  shows "quiet outst d (snd (efa_register_mr env r b d))"
  using efa_contract_quiet(2-4) [OF con]
  by (auto simp: efa_register_mr_def quiet_def case_prod_beta Let_def split: option.splits mapping_kind.splits)

subsection \<open>Posting\<close>

lemma posts_message:
  assumes "posts outst (k, CtxTid t) n (r, n')" "k = KSend \<or> k = KRecv"
  shows "(r = FiOk \<or> r = FiEagain) \<and> same_writes (outst n) (outst n')"
  using assms by (auto simp: posts_def same_writes_def)

lemma recv_loop_ok:
  assumes con: "efa_contract env outst ncq"
  shows "\<exists>q' n'. efa_recv_loop env q n = Some (q', n') \<and> same_writes (outst n) (outst n')"
proof (induction q arbitrary: n)
  case (Cons x q)
  obtain tid op where x: "x = (tid, op)" by fastforce
  define msg where "msg = efa_fill_recv_op op (CtxTid (tid_val tid))"
  obtain r n1 where r: "fi_recvmsg env msg n = (r, n1)" by fastforce
  have "fm_context msg = CtxTid (tid_val tid)" by (simp add: msg_def efa_fill_recv_op_def)
  then have "(r = FiOk \<or> r = FiEagain) \<and> same_writes (outst n) (outst n1)"
    using posts_message [of outst KRecv "tid_val tid" n r n1] efa_contractD(3) [OF con, of msg n] r by simp
  moreover obtain q' n' where "efa_recv_loop env q n1 = Some (q', n')" "same_writes (outst n1) (outst n')"
    using Cons.IH [of n1] by blast
  ultimately show ?case using x r same_writes_trans [of "outst n" "outst n1" "outst n'"] by (elim conjE disjE) (simp_all flip: msg_def)
qed simp

lemma send_loop_ok:
  assumes con: "efa_contract env outst ncq"
  shows "\<exists>q' n'. efa_send_loop env q n = Some (q', n') \<and> same_writes (outst n) (outst n')"
proof (induction q arbitrary: n)
  case (Cons x q)
  obtain tid dest op where x: "x = (tid, dest, op)" by (cases x) fastforce
  define msg where "msg = (efa_fill_send_op op (CtxTid (tid_val tid)))\<lparr>fm_addr := dest\<rparr>"
  obtain r n1 where r: "fi_sendmsg env msg n = (r, n1)" by fastforce
  have "fm_context msg = CtxTid (tid_val tid)" by (simp add: msg_def efa_fill_send_op_def)
  then have "(r = FiOk \<or> r = FiEagain) \<and> same_writes (outst n) (outst n1)"
    using posts_message [of outst KSend "tid_val tid" n r n1] efa_contractD(4) [OF con, of msg n] r by simp
  moreover obtain q' n' where "efa_send_loop env q n1 = Some (q', n')" "same_writes (outst n1) (outst n')"
    using Cons.IH [of n1] by blast
  ultimately show ?case using x r same_writes_trans [of "outst n" "outst n1" "outst n'"] by (elim conjE disjE) (simp_all flip: msg_def)
qed simp

lemma do_submit_ok:
  assumes con: "efa_contract env outst ncq" and inv: "efa_inv outst d"
    and it: "\<And>a. \<exists>it. construct (CtxWrite a) = Some it \<and> efa_iok a it \<and> efa_left it = efa_total_ops it"
  shows "\<exists>d'. efa_do_submit_write env tid construct d = Some d' \<and> efa_good outst d d'"
proof -
  have n: "efa_contract env outst ncq \<and> posted_ok (outst (ed_nic d))" "writes_ok (outst (ed_nic d)) d"
    using con inv by (simp_all add: efa_inv_def)
  from ectx.submit_ok [OF n, of "\<lambda>a _. construct (CtxWrite a)" efa_total_ops 1 tid] it
  obtain s' n' where "cs_submit (\<lambda>ctx. efa_progress_write_op_context env ctx 1) efa_total_ops tid
      (\<lambda>a _. construct (CtxWrite a)) (ed_writes d) (ed_nic d) = Some (s', n')" "posted_ok (outst n')"
    "store_ok efa_iok efa_left (on_card (outst n')) s'"
    "leaks_kept (on_card (outst (ed_nic d))) (ed_writes d) (on_card (outst n')) s'" by auto
  then show ?thesis by (simp add: efa_do_submit_write_def efa_set_writes_def efa_good_def efa_inv_def)
qed

lemma do_submit_group_ok:
  assumes con: "efa_contract env outst ncq" and inv: "efa_inv outst d"
    and op: "group_write_ok (Some (length addrs)) op"
  shows "\<exists>d'. efa_do_submit_group_write env tid addrs op d = Some d' \<and> efa_good outst d d'"
proof (cases op)
  case (ScatterW sc)
  then have "scatter_op_ok sc (length addrs)" "scatter_targets_ok sc" using op by auto
  from efa_scatter_new_ok [OF this] have "\<exists>it. map_option EScatter (efa_scatter_new sc addrs (CtxWrite a)) = Some it \<and>
      efa_iok a it \<and> efa_left it = efa_total_ops it" for a by fastforce
  then show ?thesis unfolding efa_do_submit_group_write_def ScatterW group_write_op.case
    by (intro do_submit_ok [OF con inv])
qed

lemma progress_ops_ok:
  assumes con: "efa_contract env outst ncq" and inv: "efa_inv outst d"
  shows "\<exists>d'. efa_progress_ops env d = Some d' \<and> efa_good outst d d' \<and>
           cs_kept (on_card (outst (ed_nic d))) (ed_writes d) (on_card (outst (ed_nic d'))) (ed_writes d')"
proof -
  obtain q1 n1 where 1: "efa_recv_loop env (ed_recv_ops d) (ed_nic d) = Some (q1, n1)"
    "same_writes (outst (ed_nic d)) (outst n1)" using recv_loop_ok [OF con] by metis
  obtain q2 n2 where 2: "efa_send_loop env (ed_send_ops d) n1 = Some (q2, n2)"
    "same_writes (outst n1) (outst n2)" using send_loop_ok [OF con] by metis
  have card: "on_card (outst n2) = on_card (outst (ed_nic d))" using 1(2) 2(2) by (simp add: same_writes_def)
  have n: "efa_contract env outst ncq \<and> posted_ok (outst n2)" "writes_ok (outst n2) d"
    using con inv 1(2) 2(2) by (simp_all add: efa_inv_def same_writes_def)
  from ectx.progress_ok [OF n] obtain s' n' where
    "cs_progress (\<lambda>ctx. efa_progress_write_op_context env ctx 32) (length (cs_queue (ed_writes d))) (ed_writes d) n2 = Some (s', n')"
    "posted_ok (outst n')" "store_ok efa_iok efa_left (on_card (outst n')) s'"
    "cs_kept (on_card (outst (ed_nic d))) (ed_writes d) (on_card (outst n')) s'" unfolding card by blast
  then show ?thesis using 1(1) 2(1)
    by (simp add: efa_progress_ops_def efa_progress_recv_ops_def efa_progress_send_ops_def
        efa_progress_write_ops_def efa_set_writes_def efa_good_def efa_inv_def cs_kept_def)
qed

subsection \<open>Completions\<close>

text \<open>
  A successful completion of a write on the card: the transfer is reported exactly when nothing
  is left to post and nothing else of the context is on the card.
\<close>

lemma handle_write_cqe:
  assumes c: "cq_write c" "\<not> cq_remote_write c" "cq_context c = CtxWrite a"
    and ok: "writes_ok (add_mset (KWrite, CtxWrite a) out) d"
  shows "\<exists>x w. cs_heap (ed_writes d) a = Some x \<and>
           efa_handle_cqe c d m = Some (if efa_left (ctx_iter x) = 0 \<and> on_card out a = 0
               then Some (DTransfer (ctx_transfer_id x)) else None, d\<lparr>ed_writes := w\<rparr>, m) \<and>
           store_ok efa_iok efa_left (on_card out) w \<and>
           leaks_kept (on_card (add_mset (KWrite, CtxWrite a) out)) (ed_writes d) (on_card out) w"
proof -
  let ?out = "on_card (add_mset (KWrite, CtxWrite a) out)"
  have pos: "0 < ?out a" by simp
  from cs_complete_ok [OF ok pos] obtain x r w where w: "cs_heap (ed_writes d) a = Some x"
    "cs_complete a (ed_writes d) = Some (r, w)" "store_ok efa_iok efa_left (on_card out) w"
    "r = (if efa_left (ctx_iter x) = 0 \<and> on_card out a = 0 then Some (ctx_transfer_id x) else None)"
    unfolding out_dec_on_card by auto
  have "leaks_kept ?out (ed_writes d) (on_card out) w"
    using leaks_complete [OF w(2), of ?out, OF pos] unfolding out_dec_on_card .
  then show ?thesis using c w by (auto simp: efa_handle_cqe_def)
qed

lemma handle_cqe_ok:
  assumes ok: "writes_ok (out + cqe_op c) d" "posted_ok (cqe_op c)"
  shows "\<exists>r d' m'. efa_handle_cqe c d m = Some (r, d', m') \<and> ed_nic d' = ed_nic d \<and> writes_ok out d' \<and>
      leaks_kept (on_card (out + cqe_op c)) (ed_writes d) (on_card out) (ed_writes d')"
proof (cases "cq_write c \<and> \<not> cq_remote_write c")
  case True
  then have "cqe_op c = {#(KWrite, cq_context c)#}" by (simp add: cqe_op_def)
  moreover then obtain a where a: "cq_context c = CtxWrite a" using ok(2) posted_kind_okE(1) [of "cq_context c"] by auto
  ultimately have eq: "out + cqe_op c = add_mset (KWrite, CtxWrite a) out" by simp
  from handle_write_cqe [OF _ _ a, of out d m] True ok(1) show ?thesis unfolding eq by fastforce
next
  case False
  then have card: "on_card (out + cqe_op c) = on_card out" by (auto simp: cqe_op_def)
  have "\<exists>r m'. efa_handle_cqe c d m = Some (r, d, m')"
    using False ok(2) posted_kind_okE(2,3) [of "cq_context c"]
    by (cases "imm_inc (ucast (cq_data c)) m")
      (auto simp: efa_handle_cqe_def cqe_op_def Let_def split: imm_count_status.splits if_splits)
  then show ?thesis using ok(1) leaks_kept_refl unfolding card by fastforce
qed

lemma handle_cqes_ok:
  "writes_ok (out + cqe_ops cs) d \<Longrightarrow> posted_ok (cqe_ops cs) \<Longrightarrow>
    \<exists>d' m'. efa_handle_cqes cs d m = Some (d', m') \<and> ed_nic d' = ed_nic d \<and> writes_ok out d' \<and>
      leaks_kept (on_card (out + cqe_ops cs)) (ed_writes d) (on_card out) (ed_writes d')"
proof (induction cs arbitrary: d m)
  case Nil
  then show ?case by (simp add: cqe_ops_def leaks_kept_refl)
next
  case (Cons c cs)
  have eq: "out + cqe_ops (c # cs) = (out + cqe_ops cs) + cqe_op c" by (simp add: cqe_ops_def union_ac)
  have p: "posted_ok (cqe_op c)" "posted_ok (cqe_ops cs)" using Cons.prems(2) by (simp_all add: cqe_ops_def)
  from handle_cqe_ok [OF Cons.prems(1) [unfolded eq] p(1), of m] obtain r d1 m1 where
    1: "efa_handle_cqe c d m = Some (r, d1, m1)" "ed_nic d1 = ed_nic d" "writes_ok (out + cqe_ops cs) d1"
    "leaks_kept (on_card (out + cqe_ops (c # cs))) (ed_writes d) (on_card (out + cqe_ops cs)) (ed_writes d1)"
    unfolding eq by blast
  let ?d = "case r of Some x \<Rightarrow> efa_complete x d1 | None \<Rightarrow> d1"
  have d: "ed_nic ?d = ed_nic d1" "ed_writes ?d = ed_writes d1" by (simp_all add: efa_complete_def split: option.splits)
  have "writes_ok (out + cqe_ops cs) ?d" unfolding d by (rule 1(3))
  from Cons.IH [OF this p(2), of m1] obtain d' m' where
    "efa_handle_cqes cs ?d m1 = Some (d', m')" "ed_nic d' = ed_nic d" "writes_ok out d'"
    "leaks_kept (on_card (out + cqe_ops cs)) (ed_writes d1) (on_card out) (ed_writes d')"
    unfolding d 1(2) by blast
  then show ?case using 1(1) leaks_kept_trans [OF 1(4)] by auto
qed

lemma handle_error_ok:
  assumes ok: "writes_ok (out + err_op e) d" "posted_ok (err_op e)"
  shows "\<exists>d'. efa_handle_error e d = Some d' \<and> ed_nic d' = ed_nic d \<and> writes_ok out d' \<and>
      leaks_kept (on_card (out + err_op e)) (ed_writes d) (on_card out) (ed_writes d')"
proof (cases "ce_write e \<and> \<not> ce_send e \<and> \<not> ce_recv e")
  case True
  then have "err_op e = {#(KWrite, ce_context e)#}" by (simp add: err_op_def)
  moreover then obtain a where a: "ce_context e = CtxWrite a" using ok(2) posted_kind_okE(1) [of "ce_context e"] by auto
  ultimately have eq: "out + err_op e = add_mset (KWrite, CtxWrite a) out" by simp
  let ?out = "on_card (add_mset (KWrite, CtxWrite a) out)"
  have pos: "0 < ?out a" by simp
  from cs_fail_ok [OF ok(1) [unfolded eq] pos] obtain r w where w:
    "cs_fail a (ed_writes d) = Some (r, w)" "store_ok efa_iok efa_left (on_card out) w"
    unfolding out_dec_on_card by auto
  have "leaks_kept ?out (ed_writes d) (on_card out) w"
    using leaks_fail [OF w(1), of ?out, OF pos] unfolding out_dec_on_card .
  then show ?thesis unfolding eq using True a w by (auto simp: efa_handle_error_def efa_complete_def split: option.splits)
next
  case False
  then have card: "on_card (out + err_op e) = on_card out" by (auto simp: err_op_def)
  have "\<exists>d'. efa_handle_error e d = Some d' \<and> ed_nic d' = ed_nic d \<and> ed_writes d' = ed_writes d"
    using False ok(2) posted_kind_okE(2,3) [of "ce_context e"]
    by (auto simp: efa_handle_error_def err_op_def efa_complete_def split: if_splits)
  then show ?thesis using ok(1) leaks_kept_refl unfolding card by fastforce
qed

text \<open>Polling returns: every read that finds completions lowers the bound on the reads.\<close>

lemma poll_cq_ok:
  assumes con: "efa_contract env outst ncq"
  shows "efa_inv outst d \<Longrightarrow> \<exists>d' m'. efa_poll_cq env d m = Some (d', m') \<and> efa_good outst d d'"
proof (induction "ncq (ed_nic d)" arbitrary: d m rule: less_induct)
  case less
  obtain r n where r: "fi_cq_read env READ_COUNT (ed_nic d) = (r, n)" by fastforce
  note reads = efa_contractD(5) [OF con, of "ed_nic d", unfolded efa_reads_def r]
  note inv = less.prems [unfolded efa_inv_def]
  show ?case
  proof (cases r)
    case (CqEntries cs)
    with reads have *: "ncq n < ncq (ed_nic d)" "outst (ed_nic d) = outst n + cqe_ops cs" by simp_all
    from handle_cqes_ok [of "outst n" cs "d\<lparr>ed_nic := n\<rparr>" m] inv *(2) obtain d1 m1 where
      1: "efa_handle_cqes cs (d\<lparr>ed_nic := n\<rparr>) m = Some (d1, m1)" "ed_nic d1 = n" "efa_good outst d d1"
      by (auto simp: efa_good_def efa_inv_def)
    from less.hyps [of d1 m1] *(1) 1 efa_good_inv obtain d' m' where
      "efa_poll_cq env d1 m1 = Some (d', m')" "efa_good outst d1 d'" by metis
    then show ?thesis using efa_good_trans [OF 1(3)] 1(1) r CqEntries by (subst efa_poll_cq.simps) simp
  next
    case CqErrAvail
    with reads obtain e n' where e: "fi_cq_readerr env n = (Some e, n')"
      "outst (ed_nic d) = outst n' + err_op e"
      by (auto split: option.splits prod.splits)
    from handle_error_ok [of "outst n'" e "d\<lparr>ed_nic := n'\<rparr>"] inv e(2) obtain d' where
      "efa_handle_error e (d\<lparr>ed_nic := n'\<rparr>) = Some d'" "efa_good outst d d'"
      by (auto simp: efa_good_def efa_inv_def)
    then show ?thesis using r CqErrAvail e(1) by (subst efa_poll_cq.simps) simp
  next
    case CqAgain
    with reads inv have "efa_good outst d (d\<lparr>ed_nic := n\<rparr>)" by (simp add: efa_good_def efa_inv_def leaks_kept_refl)
    then show ?thesis using r CqAgain by (subst efa_poll_cq.simps) simp
  next
    case (CqOther x)
    with reads show ?thesis by simp
  qed
qed

section \<open>The contract of a domain\<close>

text \<open>The calls that do not panic: well-formed operations, with as many targets as the group has peers.\<close>

fun efa_call_ok :: "'n efa_domain \<Rightarrow> domain_call \<Rightarrow> bool" where
  "efa_call_ok d (CallWrite tid a op) = write_op_ok op"
| "efa_call_ok d (CallGroupWrite tid h op) =
     group_write_ok (case h of None \<Rightarrow> None | Some h \<Rightarrow> map_option length (ed_peer_groups d h)) op"
| "efa_call_ok d c = True"

lemma submit_write_ok:
  assumes con: "efa_contract env outst ncq" and inv: "efa_inv outst d" and op: "write_op_ok op"
  shows "\<exists>d'. efa_submit_write env tid a op d = Some d' \<and> efa_good outst d d'"
proof -
  obtain r d1 where r: "get_or_add_remote_addr env a d = (r, d1)" by fastforce
  have g: "efa_good outst d d1" using resolve_quiet [OF con, of d a] r quiet_good [OF inv] by simp
  show ?thesis
  proof (cases r)
    case (Inl e)
    then show ?thesis using r g by (simp add: efa_submit_write_def)
  next
    case (Inr x)
    from do_submit_ok [OF con efa_good_inv [OF g], where tid = tid, OF efa_write_new_ok [OF op, of x]]
    show ?thesis using r Inr efa_good_trans [OF g] by (auto simp: efa_submit_write_def)
  qed
qed

lemma submit_group_write_ok:
  assumes con: "efa_contract env outst ncq" and inv: "efa_inv outst d"
    and op: "efa_call_ok d (CallGroupWrite tid h op)"
  shows "\<exists>d'. efa_submit_group_write env tid h op d = Some d' \<and> efa_good outst d d'"
proof (cases h)
  case (Some g)
  have refl: "efa_good outst d d" by (rule quiet_good [OF inv]) simp
  show ?thesis
  proof (cases "ed_peer_groups d g")
    case None
    then show ?thesis using Some refl by (simp add: efa_submit_group_write_def)
  next
    case as: (Some addrs)
    then show ?thesis using Some op do_submit_group_ok [OF con inv, of addrs op tid]
      by (simp add: efa_submit_group_write_def)
  qed
next
  case None
  obtain sc where sc: "op = ScatterW sc" by (cases op)
  have "None \<notin> set (peer_addr_iter op)" using op sc None
    by (auto simp: scatter_targets_ok_def index_Some_iff)
  from resolve_all_ok [OF con this, of d] obtain r d1 where r: "resolve_all env (peer_addr_iter op) d = Some (r, d1)"
    "quiet outst d d1" "\<And>xs. r = Inr xs \<Longrightarrow> length xs = length (peer_addr_iter op)" by blast
  have g: "efa_good outst d d1" by (rule quiet_good [OF inv r(2)])
  show ?thesis
  proof (cases r)
    case (Inl e)
    then show ?thesis using r g None by (cases e) (simp add: efa_submit_group_write_def)
  next
    case (Inr addrs)
    then have "group_write_ok (Some (length addrs)) op" using op r(3) sc None by simp
    from do_submit_group_ok [OF con efa_good_inv [OF g] this, of tid] show ?thesis
      using r Inr None efa_good_trans [OF g] by (auto simp: efa_submit_group_write_def)
  qed
qed

lemma efa_step_good:
  assumes con: "efa_contract env outst ncq" and inv: "efa_inv outst d" and c: "efa_call_ok d c"
  shows "\<exists>d' m'. domain_step (efa_ops env) c (d, m) = Some (d', m') \<and> efa_good outst d d'"
proof -
  note q = quiet_good [OF inv]
  show ?thesis
  proof (cases c)
    case (CallSend tid a op)
    then show ?thesis using resolve_quiet [OF con, of d a]
      by (auto simp: efa_ops_def efa_submit_send_def quiet_def efa_complete_def intro!: q split: prod.splits sum.splits)
  next
    case (CallWrite tid a op)
    then show ?thesis using submit_write_ok [OF con inv, of op tid a] c by (auto simp: efa_ops_def)
  next
    case (CallAddGroup h as)
    have "None \<notin> set (map Some as)" by auto
    from resolve_all_ok [OF con this, of d] CallAddGroup show ?thesis
      by (auto simp: efa_ops_def efa_add_peer_group_def quiet_def efa_complete_def intro!: q split: sum.splits)
  next
    case (CallGroupWrite tid h op)
    then show ?thesis using submit_group_write_ok [OF con inv, of tid h op] c by (auto simp: efa_ops_def)
  next
    case (CallRegister r b)
    have "quiet outst d (snd (efa_register_mr env r b d))" by (rule register_quiet [OF con])
    then show ?thesis using CallRegister
      by (cases b) (auto simp: efa_ops_def case_prod_beta intro!: q split: sum.splits)
  next
    case (CallUnregister p)
    then show ?thesis using efa_contract_quiet(5) [OF con]
      by (auto simp: efa_ops_def efa_unregister_mr_def quiet_def efa_complete_def intro!: q split: option.splits)
  next
    case CallPoll
    obtain d1 where d1: "efa_progress_ops env d = Some d1" "efa_good outst d d1"
      using progress_ops_ok [OF con inv] by blast
    from poll_cq_ok [OF con efa_good_inv [OF d1(2)], of m] d1 efa_good_trans [OF d1(2)] CallPoll show ?thesis
      by (auto simp: efa_ops_def efa_poll_progress_def)
  qed (auto simp: efa_ops_def efa_submit_recv_def efa_get_completion_def quiet_def efa_complete_def intro!: q split: list.splits)
qed

interpretation efa: rdma_domain "efa_ops env" "\<lambda>d. efa_contract env outst ncq \<and> efa_inv outst d" efa_call_ok
  for env :: "'n efa_env" and outst ncq
proof unfold_locales
  show "\<exists>d' m'. domain_step (efa_ops env) c (d, m) = Some (d', m') \<and> efa_contract env outst ncq \<and> efa_inv outst d'"
    if "efa_contract env outst ncq \<and> efa_inv outst d" "efa_call_ok d c" for d c m
    using efa_step_good [of env outst ncq d c m] that efa_good_inv by blast
qed simp

section \<open>An example card\<close>

text \<open>
  A card that completes every operation it accepts, in order, one per read of the completion queue;
  the list of answers says which of the next posts it refuses.
\<close>

type_synonym sim_card = "bool list \<times> (op_kind \<times> op_context) list"

fun sim_post :: "op_kind \<times> op_context \<Rightarrow> sim_card \<Rightarrow> fi_ret \<times> sim_card" where
  "sim_post x (False # answers, q) = (FiEagain, (answers, q))"
| "sim_post x (answers, q) = (FiOk, (tl answers, q @ [x]))"

fun sim_read :: "sim_card \<Rightarrow> cq_read_ret \<times> sim_card" where
  "sim_read (answers, []) = (CqAgain, (answers, []))"
| "sim_read (answers, (k, x) # q) =
     (CqEntries [\<lparr>cq_remote_write = False, cq_write = (k = KWrite), cq_send = (k = KSend), cq_recv = (k = KRecv),
        cq_context = x, cq_len = 0, cq_data = 0\<rparr>], (answers, q))"

definition sim_env :: "sim_card efa_env" where
  "sim_env = \<lparr>deref_desc = id, fi_writemsg = (\<lambda>m. sim_post (KWrite, m_context m)),
     fi_writedata = (\<lambda>w. sim_post (KWrite, wd_context w)), fi_recvmsg = (\<lambda>m. sim_post (KRecv, fm_context m)),
     fi_sendmsg = (\<lambda>m. sim_post (KSend, fm_context m)), fi_cq_read = (\<lambda>k. sim_read),
     fi_cq_readerr = (\<lambda>n. (None, n)), fi_av_insert = (\<lambda>a n. ((1, 7), n)),
     fi_mr_regattr = (\<lambda>a n. ((0, Some \<lparr>efa_mr_key = 1, efa_mr_desc = 2\<rparr>), n)),
     fi_mr_bind = (\<lambda>r n. (0, n)), fi_mr_enable = (\<lambda>r n. (0, n)), fi_close_mr = (\<lambda>r n. n)\<rparr>"

definition sim_ops :: "sim_card \<Rightarrow> posted_ops" where
  "sim_ops n = mset (filter (\<lambda>x. fst x = KWrite \<or> fst x = KSend \<or> fst x = KRecv) (snd n))"

lemma sim_posts: "fst x = KWrite \<or> fst x = KSend \<or> fst x = KRecv \<Longrightarrow> posts sim_ops x n (sim_post x n)"
  by (cases "(x, n)" rule: sim_post.cases) (auto simp: posts_def sim_ops_def)

lemma sim_reads: "efa_reads sim_env sim_ops (length \<circ> snd) n"
proof (cases n rule: sim_read.cases)
  case (2 answers k x q)
  then show ?thesis
    by (cases k) (simp_all add: efa_reads_def sim_env_def sim_ops_def cqe_ops_def cqe_op_def)
qed (simp add: efa_reads_def sim_env_def)

lemma sim_contract: "efa_contract sim_env sim_ops (length \<circ> snd)"
  unfolding efa_contract_def by (intro conjI allI sim_reads) (simp_all add: sim_env_def sim_posts)

definition sim_start :: "bool list \<Rightarrow> sim_card efa_domain" where
  "sim_start answers = the (efa_opened (DomainAddress [1]) 100 0 (answers, []))"

section \<open>Properties\<close>

lemma opened_inv:
  assumes "efa_opened addr speed dev n = Some d" "outst n = {#}"
  shows "efa_inv outst d"
proof -
  obtain p where "with_chunk_size 1024 = Some p" by (simp add: with_chunk_size_def)
  then show ?thesis using assms op_inv_new [of 1024 p]
    by (auto simp: efa_opened_def efa_inv_def store_ok_def heap_ok_def pools_ok_def queue_ok_def)
qed

lemma sim_start_inv: "efa_inv sim_ops (sim_start answers)"
  by (rule opened_inv [of "DomainAddress [1]" 100 0 "(answers, [])"])
    (simp_all add: sim_start_def efa_opened_def with_chunk_size_def sim_ops_def)

text \<open>
  \<^bold>\<open>C1.\<close> An EFA domain is memory safe and does not panic. On a card that keeps libfabric's contract
  (posts succeed or ask to retry, every operation completes at most once with its own context, a
  poll finds finitely many completions), every sequence of trait calls with well-formed operations
  on a freshly opened domain returns: no completion refers to a freed write context, no assertion
  fails, every loop ends, and every live context accounts for exactly its operations on the card.
\<close>

theorem efa_domain_safe:
  assumes "efa_contract env outst ncq" "efa_opened addr speed dev n = Some d" "outst n = {#}"
  shows "\<exists>d' m'. domain_run efa_call_ok (efa_ops env) cs (d, m) = Some (d', m') \<and> efa_inv outst d'"
  using efa.run_safe [OF conjI, OF assms(1) opened_inv [where outst = outst, OF assms(2,3)], of cs m] by blast

theorem efa_domain_safe_witness:
  "\<exists>d' m'. domain_run efa_call_ok (efa_ops sim_env)
     [CallRegister \<lparr>region_ptr = 4096, region_len = 4096, region_mapping = HostMapping\<rparr> True,
      CallWrite (TransferId 1) (DomainAddress [2]) (PagedW paged_example),
      CallGroupWrite (TransferId 2) None (ScatterW scatter_example), CallPoll, CallPoll, CallCompletion]
     (sim_start [True, False], imm_count_map_new store0) = Some (d', m') \<and> efa_inv sim_ops d'"
proof -
  have "efa_opened (DomainAddress [1]) 100 0 ([True, False], []) = Some (sim_start [True, False])"
    by (simp add: sim_start_def efa_opened_def with_chunk_size_def)
  from efa_domain_safe [OF sim_contract this] show ?thesis by (simp add: sim_ops_def)
qed

text \<open>
  \<^bold>\<open>C2.\<close> A transfer is reported by the last of its completions and by no other: in a state that
  keeps the invariant, a write completion from the card finds its context alive and produces the
  transfer's completion exactly when nothing is left to post and nothing else of the context is on
  the card. It does not look at the error mark: a transfer already reported as failed is reported
  again as done when its last operation succeeds.
\<close>

theorem efa_transfer_reported_last:
  assumes "efa_inv outst d" and "outst (ed_nic d) = add_mset (KWrite, CtxWrite a) out"
    and "cq_write c" "\<not> cq_remote_write c" "cq_context c = CtxWrite a"
  shows "\<exists>x d'. cs_heap (ed_writes d) a = Some x \<and>
     efa_handle_cqe c d m = Some (if efa_left (ctx_iter x) = 0 \<and> on_card out a = 0
       then Some (DTransfer (ctx_transfer_id x)) else None, d', m) \<and>
     ctx_finished x + on_card out a + 1 = ctx_posted x \<and>
     efa_left (ctx_iter x) + ctx_posted x = ctx_total_ops x"
proof -
  have ok: "writes_ok (add_mset (KWrite, CtxWrite a) out) d" using assms(1,2) by (simp add: efa_inv_def)
  from handle_write_cqe [OF assms(3-5) ok, of m] store_okD [OF ok] show ?thesis
    by (fastforce simp: ctx_ok_def)
qed

lemma efa_run_good:
  assumes con: "efa_contract env outst ncq"
  shows "efa_inv outst d \<Longrightarrow> domain_run efa_call_ok (efa_ops env) cs (d, m) = Some (d', m') \<Longrightarrow> efa_good outst d d'"
proof (induction cs arbitrary: d m)
  case Nil
  then show ?case using quiet_good [OF Nil(1) quiet_refl] by (simp add: domain_run_def)
next
  case (Cons c cs)
  show ?case
  proof (cases "efa_call_ok d c")
    case True
    from efa_step_good [OF con Cons.prems(1) True, of m] obtain d1 m1 where
      s: "domain_step (efa_ops env) c (d, m) = Some (d1, m1)" "efa_good outst d d1" by blast
    have "efa_good outst d1 d'"
      by (rule Cons.IH [OF efa_good_inv [OF s(2)]]) (use Cons.prems(2) True s(1) in \<open>simp add: domain_run_def\<close>)
    then show ?thesis by (rule efa_good_trans [OF s(2)])
  next
    case False
    then show ?thesis using Cons by (simp add: domain_run_def)
  qed
qed

text \<open>A single write, queued because the card refused it at first.\<close>

definition sim_single :: single_write_op where
  "sim_single = \<lparr>sw_src_ptr = 4096, sw_src_desc = MemoryRegionLocalDescriptor 7, sw_src_offset = 0, sw_length = 64,
     sw_imm_data = None, sw_dst_ptr = 8192, sw_dst_rkey = MemoryRegionRemoteKey 9, sw_dst_offset = 0\<rparr>"

definition sim_submitted :: "bool list \<Rightarrow> sim_card efa_domain" where
  "sim_submitted answers =
     the (efa_submit_write sim_env (TransferId 1) (DomainAddress [2]) (SingleW sim_single) (sim_start answers))"

lemma write_loop_numeral:
  "efa_write_loop env (numeral k) c n = do {
     (posted, c, n) \<leftarrow> efa_write_step env c n;
     if posted \<and> pred_numeral k \<noteq> 0 then efa_write_loop env (pred_numeral k) c n else Some (c, n) }"
  unfolding numeral_eq_Suc efa_write_loop.simps ..

lemmas sim_defs = write_loop_numeral Let_def sim_start_def sim_env_def sim_single_def efa_opened_def with_chunk_size_def efa_submit_write_def
  get_or_add_remote_addr_def efa_do_submit_write_def efa_set_writes_def cs_submit_def alloc_uninit_def vec_pop_def
  efa_new_single_def flags_imm_def efa_progress_write_op_context_def efa_write_step_def es_peek_def efa_post_def
  es_mark_done_def efa_progress_ops_def efa_progress_recv_ops_def efa_progress_send_ops_def
  efa_progress_write_ops_def cs_set_def

text \<open>
  \<^bold>\<open>C3.\<close> A write that had to wait is never freed. Let a context without an error be in the queue. Once
  posting has taken it out of the queue, it is allocated for ever: after any further calls its
  slot is still live, although its transfer completes.
\<close>

theorem efa_queued_context_leaks:
  assumes con: "efa_contract env outst ncq" and inv: "efa_inv outst d"
    and a: "a \<in> set (cs_queue (ed_writes d))" "cs_heap (ed_writes d) a = Some c" "\<not> ctx_bad c"
    and d1: "efa_progress_ops env d = Some d1" "a \<notin> set (cs_queue (ed_writes d1))"
    and run: "domain_run efa_call_ok (efa_ops env) cs (d1, m) = Some (d2, m')"
  shows "cs_heap (ed_writes d2) a \<noteq> None"
proof -
  from progress_ops_ok [OF con inv] d1(1) have g: "efa_good outst d d1"
    "cs_kept (on_card (outst (ed_nic d))) (ed_writes d) (on_card (outst (ed_nic d1))) (ed_writes d1)" by auto
  then have "cs_leaked (on_card (outst (ed_nic d1))) a (ed_writes d1)"
    using a d1(2) unfolding cs_kept_def by blast
  moreover have "efa_good outst d1 d2" by (rule efa_run_good [OF con efa_good_inv [OF g(1)] run])
  ultimately have "cs_leaked (on_card (outst (ed_nic d2))) a (ed_writes d2)"
    by (simp add: efa_good_def leaks_kept_def)
  then show ?thesis by (auto simp: cs_leaked_def)
qed

theorem efa_queued_context_leaks_witness:
  "\<exists>d1. efa_progress_ops sim_env (sim_submitted [False]) = Some d1 \<and>
     (\<forall>cs m d2 m'. domain_run efa_call_ok (efa_ops sim_env) cs (d1, m) = Some (d2, m') \<longrightarrow>
        cs_heap (ed_writes d2) (0, 0) \<noteq> None)"
proof -
  define d where "d = sim_submitted [False]"
  have inv0: "efa_inv sim_ops (sim_start [False])" by (rule sim_start_inv)
  have "\<exists>d'. efa_submit_write sim_env (TransferId 1) (DomainAddress [2]) (SingleW sim_single) (sim_start [False]) = Some d' \<and>
      efa_good sim_ops (sim_start [False]) d'"
    by (rule submit_write_ok [OF sim_contract inv0]) simp
  then have inv: "efa_inv sim_ops d" using efa_good_inv unfolding d_def sim_submitted_def by fastforce
  obtain c where c: "cs_queue (ed_writes d) = [(0, 0)]" "cs_heap (ed_writes d) (0, 0) = Some c" "\<not> ctx_bad c"
    by (simp add: d_def sim_submitted_def sim_defs)
  obtain d1 where d1: "efa_progress_ops sim_env d = Some d1" "cs_queue (ed_writes d1) = []"
    by (simp add: d_def sim_submitted_def sim_defs)
  have "cs_heap (ed_writes d2) (0, 0) \<noteq> None"
    if "domain_run efa_call_ok (efa_ops sim_env) cs (d1, m) = Some (d2, m')" for cs m d2 m'
    by (rule efa_queued_context_leaks [OF sim_contract inv _ c(2,3) d1(1) _ that]) (simp_all add: c(1) d1(2))
  then show ?thesis using d1(1) unfolding d_def by blast
qed

text \<open>
  Nor is a context freed that stopped posting after an error and whose last operation on the card
  succeeds: the completion reports nothing and leaves the context allocated for ever, although no
  operation refers to it any more.
\<close>

theorem efa_failed_context_leaks:
  assumes con: "efa_contract env outst ncq" and inv: "efa_inv outst d"
    and a: "a \<notin> set (cs_queue (ed_writes d))" "cs_heap (ed_writes d) a = Some x" "0 < efa_left (ctx_iter x)"
    and card: "outst (ed_nic d) = add_mset (KWrite, CtxWrite a) (outst n)" "on_card (outst n) a = 0"
    and c: "cq_write c" "\<not> cq_remote_write c" "cq_context c = CtxWrite a"
    and h: "efa_handle_cqe c (d\<lparr>ed_nic := n\<rparr>) m = Some (r, d1, m1)"
    and run: "domain_run efa_call_ok (efa_ops env) cs (d1, m1) = Some (d2, m2)"
  shows "r = None \<and> cs_heap (ed_writes d2) a \<noteq> None"
proof -
  have ok: "store_ok efa_iok efa_left (on_card (outst (ed_nic d))) (ed_writes d)" "posted_ok (outst n)"
    using inv card(1) by (simp_all add: efa_inv_def)
  obtain w r' where w: "cs_complete a (ed_writes d) = Some (r', w)" "d1 = d\<lparr>ed_nic := n, ed_writes := w\<rparr>"
    "r = map_option DTransfer r'"
    using h c by (auto simp: efa_handle_cqe_def bind_eq_Some_conv)
  have one: "on_card (outst (ed_nic d)) a = 1" unfolding card(1) using card(2) by simp
  have dec: "out_dec a (on_card (outst (ed_nic d))) = on_card (outst n)"
    unfolding card(1) by (rule out_dec_on_card)
  from complete_leaks [OF ok(1) a(2,1,3) one w(1)] have leak: "r' = None" "cs_leaked (on_card (outst n)) a w"
    unfolding dec by simp_all
  have "0 < on_card (outst (ed_nic d)) a" using one by simp
  from cs_complete_ok [OF ok(1) this] w(1) have "efa_inv outst d1"
    unfolding dec using ok(2) w(2) by (auto simp: efa_inv_def)
  from efa_run_good [OF con this run] have "cs_leaked (on_card (outst (ed_nic d2))) a (ed_writes d2)"
    using leak(2) w(2) by (simp add: efa_good_def leaks_kept_def)
  then show ?thesis using leak(1) w(3) by (auto simp: cs_leaked_def)
qed

text \<open>
  A paged write whose first operation fails while its second is on the card: the context is taken
  out of the queue with operations left.
\<close>

definition sim_error :: cq_err_entry where
  "sim_error = \<lparr>ce_send = False, ce_recv = False, ce_write = True, ce_context = CtxWrite (0, 0), ce_message = ''flush''\<rparr>"

definition sim_done :: cq_entry where
  "sim_done = \<lparr>cq_remote_write = False, cq_write = True, cq_send = False, cq_recv = False,
     cq_context = CtxWrite (0, 0), cq_len = 0, cq_data = 0\<rparr>"

definition sim_failed :: "sim_card efa_domain option" where
  "sim_failed = do {
     d \<leftarrow> efa_submit_write sim_env (TransferId 1) (DomainAddress [2]) (PagedW paged_example) (sim_start [True, True, False]);
     d \<leftarrow> efa_progress_ops sim_env d;
     d \<leftarrow> efa_handle_error sim_error (d\<lparr>ed_nic := ([], [(KWrite, CtxWrite (0, 0))])\<rparr>);
     efa_progress_ops sim_env d }"

lemma sim_failed_state:
  "map_option (\<lambda>d. (ed_nic d, cs_queue (ed_writes d), map_option (efa_left \<circ> ctx_iter) (cs_heap (ed_writes d) (0, 0)))) sim_failed
     = Some (([], [(KWrite, CtxWrite (0, 0))]), [], Some 4)"
  by code_simp

lemma sim_posted_state:
  "map_option ed_nic (efa_submit_write sim_env (TransferId 1) (DomainAddress [2]) (PagedW paged_example)
     (sim_start [True, True, False]) \<bind> efa_progress_ops sim_env) =
   Some ([], [(KWrite, CtxWrite (0, 0)), (KWrite, CtxWrite (0, 0))])"
  by code_simp

lemma sim_failed_inv: "\<exists>d. sim_failed = Some d \<and> efa_inv sim_ops d"
proof -
  let ?w = "(KWrite, CtxWrite (0, 0))"
  have "write_op_ok (PagedW paged_example)" by (simp add: paged_op_ok_def paged_example_def)
  from submit_write_ok [OF sim_contract sim_start_inv this] obtain d1 where
    1: "efa_submit_write sim_env (TransferId 1) (DomainAddress [2]) (PagedW paged_example) (sim_start [True, True, False]) = Some d1"
    "efa_inv sim_ops d1" using efa_good_inv by blast
  from progress_ops_ok [OF sim_contract 1(2)] obtain d2 where
    2: "efa_progress_ops sim_env d1 = Some d2" "efa_inv sim_ops d2" using efa_good_inv by blast
  have nic: "ed_nic d2 = ([], [?w, ?w])" using sim_posted_state 1(1) 2(1) by simp
  let ?d = "d2\<lparr>ed_nic := ([], [?w])\<rparr>"
  have "sim_ops ([], [?w]) + err_op sim_error = sim_ops (ed_nic d2)" "posted_ok (err_op sim_error)"
    by (simp_all add: nic sim_ops_def err_op_def sim_error_def)
  then have "writes_ok (sim_ops ([], [?w]) + err_op sim_error) ?d" "posted_ok (err_op sim_error)"
    using 2(2) by (simp_all add: efa_inv_def)
  from handle_error_ok [OF this] obtain d3 where 3: "efa_handle_error sim_error ?d = Some d3"
    "ed_nic d3 = ([], [?w])" "writes_ok (sim_ops ([], [?w])) d3" by auto
  then have "efa_inv sim_ops d3" by (simp add: efa_inv_def sim_ops_def)
  from progress_ops_ok [OF sim_contract this] 1(1) 2(1) 3(1) show ?thesis
    using efa_good_inv unfolding sim_failed_def by fastforce
qed

theorem efa_failed_context_leaks_witness:
  "\<exists>d d1 m1. sim_failed = Some d \<and>
     efa_handle_cqe sim_done (d\<lparr>ed_nic := ([], [])\<rparr>) (imm_count_map_new store0) = Some (None, d1, m1) \<and>
     (\<forall>cs d2 m2. domain_run efa_call_ok (efa_ops sim_env) cs (d1, m1) = Some (d2, m2) \<longrightarrow>
        cs_heap (ed_writes d2) (0, 0) \<noteq> None)"
proof -
  let ?w = "(KWrite, CtxWrite (0, 0))" and ?m = "imm_count_map_new store0"
  obtain d where d: "sim_failed = Some d" "efa_inv sim_ops d" using sim_failed_inv by blast
  obtain x where x: "ed_nic d = ([], [?w])" "(0, 0) \<notin> set (cs_queue (ed_writes d))"
    "cs_heap (ed_writes d) (0, 0) = Some x" "0 < efa_left (ctx_iter x)"
    using sim_failed_state unfolding d(1) by (auto simp: comp_def)
  have c: "cq_write sim_done" "\<not> cq_remote_write sim_done" "cq_context sim_done = CtxWrite (0, 0)"
    by (simp_all add: sim_done_def)
  have card: "sim_ops (ed_nic d) = add_mset ?w (sim_ops ([], []))" "on_card (sim_ops ([], [])) (0, 0) = 0"
    by (simp_all add: x(1) sim_ops_def)
  have "writes_ok (add_mset ?w (sim_ops ([], []))) (d\<lparr>ed_nic := ([], [])\<rparr>)"
    using d(2) card(1) by (simp add: efa_inv_def)
  from handle_write_cqe [OF c this, of ?m] obtain r d1 where
    h: "efa_handle_cqe sim_done (d\<lparr>ed_nic := ([], [])\<rparr>) ?m = Some (r, d1, ?m)" by blast
  have leak: "r = None \<and> cs_heap (ed_writes d2) (0, 0) \<noteq> None"
    if "domain_run efa_call_ok (efa_ops sim_env) cs (d1, ?m) = Some (d2, m2)" for cs d2 m2
    by (rule efa_failed_context_leaks [OF sim_contract d(2) x(2-4) card c h that])
  have "domain_run efa_call_ok (efa_ops sim_env) [] (d1, ?m) = Some (d1, ?m)" by (simp add: domain_run_def)
  from leak [OF this] h d(1) leak show ?thesis by blast
qed

theorem efa_transfer_reported_last_witness:
  "\<exists>d d'. sim_submitted [] = d \<and>
     efa_handle_cqe sim_done d (imm_count_map_new store0) = Some (Some (DTransfer (TransferId 1)), d', imm_count_map_new store0)"
proof -
  let ?w = "(KWrite, CtxWrite (0, 0))" and ?m = "imm_count_map_new store0" and ?d = "sim_submitted []"
  have "\<exists>d'. efa_submit_write sim_env (TransferId 1) (DomainAddress [2]) (SingleW sim_single) (sim_start []) = Some d' \<and>
      efa_good sim_ops (sim_start []) d'"
    by (rule submit_write_ok [OF sim_contract sim_start_inv]) simp
  then have inv: "efa_inv sim_ops ?d" using efa_good_inv unfolding sim_submitted_def by fastforce
  have st: "(ed_nic ?d, map_option (\<lambda>x. (efa_left (ctx_iter x), ctx_transfer_id x)) (cs_heap (ed_writes ?d) (0, 0)))
      = (([], [?w]), Some (0, TransferId 1))" by code_simp
  have card: "sim_ops (ed_nic ?d) = add_mset ?w {#}" using st by (simp add: sim_ops_def)
  have c: "cq_write sim_done" "\<not> cq_remote_write sim_done" "cq_context sim_done = CtxWrite (0, 0)"
    by (simp_all add: sim_done_def)
  from efa_transfer_reported_last [OF inv card c, of ?m] st show ?thesis by auto
qed

end
