(* ===== verification/Verbs_Domain.thy ===== *)
theory Verbs_Domain
  imports Domain_Group Write_Ctx Addressing Verbs_Ops
begin

text \<open>
  \<^verbatim>\<open>verbs/verbs_domain.rs\<close> and \<^verbatim>\<open>verbs/verbs_qp.rs\<close>: one ibverbs device. A domain reaches every peer over
  two connected queue pairs, one for messages and one for writes, set up by a handshake over a datagram
  queue pair; what is submitted before the handshake waits with the peer. ibverbs, postcard and
  the order of a hash map are parameters (\<open>verbs_env\<close>) over a state \<open>'n\<close> of the card. \<open>None\<close> is a panic or
  undefined behaviour.
\<close>

definition MAX_OPS :: usize where
  "MAX_OPS = 1024"

definition NUM_IMM_RECVS :: usize where
  "NUM_IMM_RECVS = 128"

definition GRH_BYTES :: usize where
  "GRH_BYTES = 40"

definition MAX_UD_MSG_BYTES :: usize where
  "MAX_UD_MSG_BYTES = 4096"

definition NUM_UD_RECVS :: usize where
  "NUM_UD_RECVS = 128"

definition MAX_UD_SENDS :: usize where
  "MAX_UD_SENDS = 128"

definition ENOMEM :: int where
  "ENOMEM = 12"

section \<open>The environment\<close>

datatype qp_state = QpsReset | QpsInit | QpsRtr | QpsRts | QpsErr

record ah_attr =
  ah_is_global :: bool
  ah_dlid :: u16
  ah_dgid :: "gid option"
  ah_hop_limit :: u8
  ah_sgid_index :: u8
  ah_port_num :: u8

text \<open>
  The attributes given to \<^verbatim>\<open>ibv_modify_qp\<close>: a field is present when its bit of the mask is set. The
  access flags are local write, remote read and remote write.
\<close>

record qp_attr =
  qa_state :: "qp_state option"
  qa_pkey_index :: "u16 option"
  qa_port_num :: "u8 option"
  qa_qkey :: "u32 option"
  qa_access_flags :: "(bool \<times> bool \<times> bool) option"
  qa_av :: "ah_attr option"
  qa_path_mtu :: "u32 option"
  qa_dest_qp_num :: "u32 option"
  qa_rq_psn :: "u32 option"
  qa_max_dest_rd_atomic :: "u8 option"
  qa_min_rnr_timer :: "u8 option"
  qa_timeout :: "u8 option"
  qa_retry_cnt :: "u8 option"
  qa_rnr_retry :: "u8 option"
  qa_sq_psn :: "u32 option"
  qa_max_rd_atomic :: "u8 option"

definition no_attr :: qp_attr where
  "no_attr = \<lparr>qa_state = None, qa_pkey_index = None, qa_port_num = None, qa_qkey = None, qa_access_flags = None,
     qa_av = None, qa_path_mtu = None, qa_dest_qp_num = None, qa_rq_psn = None, qa_max_dest_rd_atomic = None,
     qa_min_rnr_timer = None, qa_timeout = None, qa_retry_cnt = None, qa_rnr_retry = None, qa_sq_psn = None,
     qa_max_rd_atomic = None\<rparr>"

datatype qp_type = QptUd | QptRc ptr

text \<open>
  A completion. \<open>wc_buf\<close> are the bytes the card left in the buffer of a datagram, which nobody
  writes before the buffer is posted again.
\<close>

datatype wc_opcode = WcRecv | WcSend | WcRdmaWrite | WcRecvRdmaWithImm | WcOther

record wc =
  wc_qp_num :: u32
  wc_status :: int
  wc_opcode :: wc_opcode
  wc_wr_id :: op_context
  wc_byte_len :: u32
  wc_imm :: u32
  wc_buf :: "u8 list"

text \<open>The result of posting a chain: all of it, the requests before a first bad one, or another error.\<close>

datatype post_ret = PostOk | PostNomem nat | PostErr int

datatype poll_ret = Polled "wc list" | PollErr int

record verbs_mr =
  vmr_rkey :: u32
  vmr_lkey :: u32

text \<open>The access flags of a registration: local write and relaxed ordering always, remote read and write if allowed.\<close>

record mr_access =
  mrac_remote_read :: bool
  mrac_remote_write :: bool

record ud_wr =
  uw_wr_id :: op_context
  uw_addr :: ptr
  uw_length :: u32
  uw_lkey :: u32
  uw_ah :: ptr
  uw_remote_qpn :: u32
  uw_remote_qkey :: u32
  uw_payload :: "u8 list"

record peer_handshake_info =
  hs_ud_addr :: verbs_ud_address
  hs_lid :: u16
  hs_gid :: gid
  hs_msg_qp_num :: u32
  hs_msg_psn :: u32
  hs_rma_qp_num :: u32
  hs_rma_psn :: u32

record 'n verbs_env =
  ibv_create_qp :: "qp_type \<Rightarrow> u32 \<Rightarrow> 'n \<Rightarrow> (ptr \<times> u32) option \<times> 'n"
  ibv_modify_qp :: "ptr \<Rightarrow> qp_attr \<Rightarrow> 'n \<Rightarrow> int \<times> 'n"
  ibv_create_ah :: "ah_attr \<Rightarrow> 'n \<Rightarrow> ptr option \<times> 'n"
  ibv_post_send :: "ptr \<Rightarrow> send_wr list \<Rightarrow> 'n \<Rightarrow> post_ret \<times> 'n"
  ibv_post_send_ud :: "ptr \<Rightarrow> ud_wr \<Rightarrow> 'n \<Rightarrow> int \<times> 'n"
  ibv_post_recv :: "ptr \<Rightarrow> recv_wr \<Rightarrow> 'n \<Rightarrow> int \<times> 'n"
  ibv_post_srq_recv :: "ptr \<Rightarrow> recv_wr \<Rightarrow> 'n \<Rightarrow> int \<times> 'n"
  ibv_poll_cq :: "nat \<Rightarrow> 'n \<Rightarrow> poll_ret \<times> 'n"
  ibv_reg_mr :: "ptr \<Rightarrow> usize \<Rightarrow> mr_access \<Rightarrow> 'n \<Rightarrow> verbs_mr option \<times> 'n"
  ibv_reg_dmabuf_mr :: "u64 \<Rightarrow> usize \<Rightarrow> u64 \<Rightarrow> int \<Rightarrow> mr_access \<Rightarrow> 'n \<Rightarrow> verbs_mr option \<times> 'n"
  ibv_dereg_mr :: "verbs_mr \<Rightarrow> 'n \<Rightarrow> 'n"
  last_os_error :: "'n \<Rightarrow> int"
  ibv_wc_status_str :: "int \<Rightarrow> string"
  errno_str :: "int \<Rightarrow> string"
  other_error_str :: "fabric_lib_error \<Rightarrow> string"
  postcard_to_slice :: "peer_handshake_info \<Rightarrow> usize \<Rightarrow> u8 list option"
  postcard_from_bytes :: "u8 list \<Rightarrow> peer_handshake_info option"
  hash_order :: "peer_group_handle list \<Rightarrow> peer_group_handle list"

text \<open>The messages of \<^verbatim>\<open>FabricLibError\<close>; those that only format a foreign code are a parameter.\<close>

definition error_to_string :: "'n verbs_env \<Rightarrow> fabric_lib_error \<Rightarrow> string" where
  "error_to_string env e =
     (case e of
        DomainErr s \<Rightarrow> ''DomainError: '' @ s
      | Verbs v \<Rightarrow> ''VerbsError: code '' @ errno_str env (ve_code v) @ '', context: '' @ ve_context v
      | VerbsCompletionError s \<Rightarrow> ''VerbsCompletionError: '' @ s
      | CompletionError s \<Rightarrow> ''Libfabric CompletionError: '' @ s
      | Custom s \<Rightarrow> ''FabricLibError: '' @ s
      | _ \<Rightarrow> other_error_str env e)"

definition verbs_err :: "int \<Rightarrow> string \<Rightarrow> fabric_lib_error" where
  "verbs_err code ctx = Verbs \<lparr>ve_code = code, ve_context = ctx\<rparr>"

text \<open>The return code of a call, an error unless it is zero.\<close>

definition code_result :: "string \<Rightarrow> int \<times> 'n \<Rightarrow> unit result \<times> 'n" where
  "code_result ctx r = (if fst r \<noteq> 0 then Inl (verbs_err (fst r) ctx) else Inr (), snd r)"

text \<open>A sequence of fallible calls on a state, left at the first error.\<close>

definition res_then :: "'a result \<times> 's \<Rightarrow> ('a \<Rightarrow> 's \<Rightarrow> 'b result \<times> 's) \<Rightarrow> 'b result \<times> 's" where
  "res_then r f = (case r of (Inl e, s) \<Rightarrow> (Inl e, s) | (Inr x, s) \<Rightarrow> f x s)"

section \<open>Queue pairs\<close>

record ud_queue_pair =
  udq_addr :: verbs_ud_address
  udq_qp :: ptr

record rc_queue_pair =
  rcq_addr :: verbs_rc_address
  rcq_qp :: ptr

definition ud_queue_pair_new ::
    "'n verbs_env \<Rightarrow> gid \<Rightarrow> u16 \<Rightarrow> u32 \<Rightarrow> u32 \<Rightarrow> 'n \<Rightarrow> ud_queue_pair result \<times> 'n" where
  "ud_queue_pair_new env g lid qkey max_wr n =
     (case ibv_create_qp env QptUd max_wr n of
        (None, n) \<Rightarrow> (Inl (verbs_err (last_os_error env n) ''ibv_create_qp: UD''), n)
      | (Some (qp, qp_num), n) \<Rightarrow>
          (Inr \<lparr>udq_addr = \<lparr>ud_gid = g, ud_lid = lid, ud_qp_num = qp_num, ud_qkey = qkey\<rparr>, udq_qp = qp\<rparr>, n))"

definition ud_reset_to_init :: "'n verbs_env \<Rightarrow> ud_queue_pair \<Rightarrow> u16 \<Rightarrow> u8 \<Rightarrow> 'n \<Rightarrow> unit result \<times> 'n" where
  "ud_reset_to_init env q pkey_index port_num n =
     code_result ''ibv_modify_qp: ud_reset_to_init''
       (ibv_modify_qp env (udq_qp q)
          (no_attr\<lparr>qa_state := Some QpsInit, qa_pkey_index := Some pkey_index, qa_port_num := Some port_num,
                   qa_qkey := Some (ud_qkey (udq_addr q))\<rparr>) n)"

definition ud_init_to_rtr :: "'n verbs_env \<Rightarrow> ud_queue_pair \<Rightarrow> 'n \<Rightarrow> unit result \<times> 'n" where
  "ud_init_to_rtr env q n =
     code_result ''ibv_modify_qp: ud_init_to_rtr''
       (ibv_modify_qp env (udq_qp q) (no_attr\<lparr>qa_state := Some QpsRtr\<rparr>) n)"

definition ud_rtr_to_rts :: "'n verbs_env \<Rightarrow> ud_queue_pair \<Rightarrow> 'n \<Rightarrow> unit result \<times> 'n" where
  "ud_rtr_to_rts env q n =
     code_result ''ibv_modify_qp: ud_rtr_to_rts''
       (ibv_modify_qp env (udq_qp q) (no_attr\<lparr>qa_state := Some QpsRts, qa_sq_psn := Some 0\<rparr>) n)"

definition rc_queue_pair_new ::
    "'n verbs_env \<Rightarrow> ptr \<Rightarrow> gid \<Rightarrow> u16 \<Rightarrow> u32 \<Rightarrow> u32 \<Rightarrow> 'n \<Rightarrow> rc_queue_pair result \<times> 'n" where
  "rc_queue_pair_new env srq g lid max_wr psn n =
     (case ibv_create_qp env (QptRc srq) max_wr n of
        (None, n) \<Rightarrow> (Inl (verbs_err (last_os_error env n) ''ibv_create_qp''), n)
      | (Some (qp, qp_num), n) \<Rightarrow>
          (Inr \<lparr>rcq_addr = \<lparr>rc_gid = g, rc_lid = lid, rc_qp_num = qp_num, rc_psn = psn\<rparr>, rcq_qp = qp\<rparr>, n))"

definition rc_init_attr :: "u8 \<Rightarrow> u16 \<Rightarrow> qp_attr" where
  "rc_init_attr port_num pkey_index =
     no_attr\<lparr>qa_state := Some QpsInit, qa_pkey_index := Some pkey_index, qa_port_num := Some port_num,
             qa_access_flags := Some (True, True, True)\<rparr>"

definition rc_reset_to_init :: "'n verbs_env \<Rightarrow> rc_queue_pair \<Rightarrow> u8 \<Rightarrow> u16 \<Rightarrow> 'n \<Rightarrow> unit result \<times> 'n" where
  "rc_reset_to_init env q port_num pkey_index n =
     code_result ''ibv_modify_qp: rc_reset_to_init'' (ibv_modify_qp env (rcq_qp q) (rc_init_attr port_num pkey_index) n)"

text \<open>On InfiniBand the peer is addressed by its LID, otherwise by its GID.\<close>

definition rc_rtr_attr :: "bool \<Rightarrow> u8 \<Rightarrow> u8 \<Rightarrow> u32 \<Rightarrow> u32 \<Rightarrow> u32 \<Rightarrow> u16 \<Rightarrow> gid \<Rightarrow> qp_attr" where
  "rc_rtr_attr is_infiniband gid_index port_num path_mtu peer_qp_num peer_psn peer_lid peer_gid =
     no_attr\<lparr>qa_state := Some QpsRtr,
       qa_av := Some (if is_infiniband
         then \<lparr>ah_is_global = False, ah_dlid = peer_lid, ah_dgid = None, ah_hop_limit = 0, ah_sgid_index = 0, ah_port_num = port_num\<rparr>
         else \<lparr>ah_is_global = True, ah_dlid = 0, ah_dgid = Some peer_gid, ah_hop_limit = 64, ah_sgid_index = gid_index,
               ah_port_num = port_num\<rparr>),
       qa_path_mtu := Some path_mtu, qa_dest_qp_num := Some peer_qp_num, qa_rq_psn := Some peer_psn,
       qa_max_dest_rd_atomic := Some 1, qa_min_rnr_timer := Some 12\<rparr>"

definition rc_init_to_rtr ::
    "'n verbs_env \<Rightarrow> rc_queue_pair \<Rightarrow> bool \<Rightarrow> u8 \<Rightarrow> u8 \<Rightarrow> u32 \<Rightarrow> u32 \<Rightarrow> u32 \<Rightarrow> u16 \<Rightarrow> gid \<Rightarrow> 'n \<Rightarrow> unit result \<times> 'n" where
  "rc_init_to_rtr env q is_infiniband gid_index port_num path_mtu peer_qp_num peer_psn peer_lid peer_gid n =
     code_result ''ibv_modify_qp: rc_init_to_rtr''
       (ibv_modify_qp env (rcq_qp q)
          (rc_rtr_attr is_infiniband gid_index port_num path_mtu peer_qp_num peer_psn peer_lid peer_gid) n)"

text \<open>The send sequence number is set from the number of the peer.\<close>

definition rc_rts_attr :: "u32 \<Rightarrow> qp_attr" where
  "rc_rts_attr peer_psn =
     no_attr\<lparr>qa_state := Some QpsRts, qa_timeout := Some 14, qa_retry_cnt := Some 7, qa_rnr_retry := Some 7,
             qa_sq_psn := Some peer_psn, qa_max_rd_atomic := Some 1\<rparr>"

definition rc_rtr_to_rts :: "'n verbs_env \<Rightarrow> rc_queue_pair \<Rightarrow> u32 \<Rightarrow> 'n \<Rightarrow> unit result \<times> 'n" where
  "rc_rtr_to_rts env q peer_psn n =
     code_result ''ibv_modify_qp: rc_rtr_to_rts'' (ibv_modify_qp env (rcq_qp q) (rc_rts_attr peer_psn) n)"

section \<open>The domain\<close>

datatype outbound_op = OutSend send_op | OutWrite write_op

datatype peer_state = Connecting "(transfer_id \<times> outbound_op) list" "slot list" | Established

record verbs_peer =
  peer_ud_addr :: verbs_ud_address
  peer_ah :: ptr
  peer_msg_rc :: rc_queue_pair
  peer_rma_rc :: rc_queue_pair
  peer_st :: peer_state

text \<open>A hash set of queue pairs is a list without duplicates.\<close>

record pending_group_write_op =
  pg_transfer_id :: transfer_id
  pg_op :: "group_write_op option"
  pg_rma_qps :: "ptr list"
  pg_pending_peers :: "ptr list"

record connecting_peer_group =
  cg_rma_qps :: "ptr list"
  cg_pending_peers :: "ptr list"
  cg_pending_group_ops :: "(transfer_id \<times> group_write_op) list"

text \<open>
  The pending group writes live in an object pool: \<open>vd_pending\<close> holds those that are initialised.
  The map of the connecting groups is a list of entries with distinct keys.
\<close>

record 'n verbs_domain =
  vd_port_num :: u8
  vd_gid_index :: u8
  vd_lid :: u16
  vd_gid :: gid
  vd_mtu :: u32
  vd_is_infiniband :: bool
  vd_link_speed :: u64
  vd_msg_srq :: ptr
  vd_rma_srq :: ptr
  vd_ud :: ud_queue_pair
  vd_addr :: domain_address
  vd_peers :: "domain_address \<rightharpoonup> verbs_peer"
  vd_connecting :: "(peer_group_handle \<times> connecting_peer_group) list"
  vd_peer_groups :: "peer_group_handle \<rightharpoonup> ptr list"
  vd_mr_map :: "ptr \<rightharpoonup> verbs_mr"
  vd_writes :: "verbs_iter ctx_store"
  vd_pending_pool :: object_pool
  vd_pending :: "slot \<rightharpoonup> pending_group_write_op"
  vd_recv_ops :: "(transfer_id \<times> recv_op) list"
  vd_send_ops :: "(transfer_id \<times> ptr \<times> send_op) list"
  vd_completions :: "domain_completion_entry list"
  vd_ud_mempool :: memory_pool
  vd_ud_mempool_lkey :: memory_region_local_descriptor
  vd_nic :: 'n

text \<open>The value \<^verbatim>\<open>open\<close> builds once the queue pair for datagrams is active; \<open>base\<close> is where its buffers are allocated.\<close>

definition verbs_opened ::
    "u8 \<Rightarrow> u8 \<Rightarrow> u16 \<Rightarrow> gid \<Rightarrow> u32 \<Rightarrow> bool \<Rightarrow> u64 \<Rightarrow> ptr \<Rightarrow> ptr \<Rightarrow> ud_queue_pair \<Rightarrow> ptr \<Rightarrow> 'n \<Rightarrow> 'n verbs_domain option" where
  "verbs_opened port gid_index lid gid mtu is_infiniband link_speed msg_srq rma_srq ud base n = do {
     objpool_write_op \<leftarrow> with_chunk_size MAX_OPS;
     objpool_wr \<leftarrow> with_chunk_size MAX_OPS;
     objpool_pending \<leftarrow> with_chunk_size MAX_OPS;
     Some \<lparr>vd_port_num = port, vd_gid_index = gid_index, vd_lid = lid, vd_gid = gid, vd_mtu = mtu,
       vd_is_infiniband = is_infiniband, vd_link_speed = link_speed, vd_msg_srq = msg_srq, vd_rma_srq = rma_srq,
       vd_ud = ud, vd_addr = ud_into_domain_address (udq_addr ud), vd_peers = Map.empty, vd_connecting = [],
       vd_peer_groups = Map.empty, vd_mr_map = Map.empty,
       vd_writes = \<lparr>cs_pool = objpool_write_op, cs_buf_pool = objpool_wr, cs_heap = Map.empty, cs_queue = []\<rparr>,
       vd_pending_pool = objpool_pending, vd_pending = Map.empty, vd_recv_ops = [], vd_send_ops = [], vd_completions = [],
       vd_ud_mempool = memory_pool_new base MAX_UD_MSG_BYTES (NUM_UD_RECVS + MAX_UD_SENDS),
       vd_ud_mempool_lkey = MemoryRegionLocalDescriptor 0, vd_nic = n\<rparr> }"

definition verbs_complete :: "domain_completion_entry \<Rightarrow> 'n verbs_domain \<Rightarrow> 'n verbs_domain" where
  "verbs_complete c d = d\<lparr>vd_completions := vd_completions d @ [c]\<rparr>"

text \<open>A call on the card from within the domain.\<close>

definition on_nic :: "('n \<Rightarrow> 'a \<times> 'n) \<Rightarrow> 'n verbs_domain \<Rightarrow> 'a \<times> 'n verbs_domain" where
  "on_nic f d = (let (r, n) = f (vd_nic d) in (r, d\<lparr>vd_nic := n\<rparr>))"

subsection \<open>Memory registration\<close>

definition verbs_register_mr ::
    "'n verbs_env \<Rightarrow> memory_region \<Rightarrow> bool \<Rightarrow> 'n verbs_domain \<Rightarrow> memory_region_remote_key result \<times> 'n verbs_domain" where
  "verbs_register_mr env region allow_remote d =
     (case vd_mr_map d (region_ptr region) of
        Some mr \<Rightarrow> (Inr (MemoryRegionRemoteKey (ucast (vmr_rkey mr))), d)
      | None \<Rightarrow>
          (let access = \<lparr>mrac_remote_read = allow_remote, mrac_remote_write = allow_remote\<rparr>;
               plain = (on_nic (ibv_reg_mr env (region_ptr region) (region_len region) access) d, ''ibv_reg_mr'');
               ((mr, d), fname) =
                 (case region_mapping region of
                    HostMapping \<Rightarrow> plain
                  | DeviceMapping _ None \<Rightarrow> plain
                  | DeviceMapping _ (Some fd) \<Rightarrow>
                      (on_nic (ibv_reg_dmabuf_mr env 0 (region_len region) (region_ptr region) fd access) d,
                       ''ibv_reg_dmabuf_mr''))
           in case mr of
                None \<Rightarrow> (Inl (verbs_err (last_os_error env (vd_nic d)) fname), d)
              | Some mr \<Rightarrow>
                  (Inr (MemoryRegionRemoteKey (ucast (vmr_rkey mr))), d\<lparr>vd_mr_map := (vd_mr_map d)(region_ptr region \<mapsto> mr)\<rparr>)))"

definition verbs_unregister_mr :: "'n verbs_env \<Rightarrow> ptr \<Rightarrow> 'n verbs_domain \<Rightarrow> 'n verbs_domain" where
  "verbs_unregister_mr env p d =
     (case vd_mr_map d p of
        Some mr \<Rightarrow> d\<lparr>vd_mr_map := (vd_mr_map d)(p := None), vd_nic := ibv_dereg_mr env mr (vd_nic d)\<rparr>
      | None \<Rightarrow> d)"

definition verbs_get_mem_desc :: "ptr \<Rightarrow> 'n verbs_domain \<Rightarrow> memory_region_local_descriptor result" where
  "verbs_get_mem_desc p d =
     (case vd_mr_map d p of
        None \<Rightarrow> Inl (Custom ''Local MR not found'')
      | Some mr \<Rightarrow> Inr (MemoryRegionLocalDescriptor (ucast (vmr_lkey mr))))"

subsection \<open>Datagrams\<close>

definition post_ud_recv :: "'n verbs_env \<Rightarrow> ptr \<Rightarrow> 'n verbs_domain \<Rightarrow> unit result \<times> 'n verbs_domain" where
  "post_ud_recv env buf d =
     on_nic (\<lambda>n. code_result ''ibv_post_recv: UD RECV''
       (ibv_post_recv env (udq_qp (vd_ud d))
          \<lparr>rwr_id = CtxBuf buf, rwr_num_sge = 1, rwr_addr = buf,
           rwr_length = of_nat (mp_chunk_size (vd_ud_mempool d)),
           rwr_lkey = ucast (desc_val (vd_ud_mempool_lkey d))\<rparr> n)) d"

definition post_imm_recv :: "'n verbs_env \<Rightarrow> 'n verbs_domain \<Rightarrow> unit result \<times> 'n verbs_domain" where
  "post_imm_recv env d =
     on_nic (\<lambda>n. code_result ''ibv_post_srq_recv: IMM RECV''
       (ibv_post_srq_recv env (vd_rma_srq d)
          \<lparr>rwr_id = CtxNull, rwr_num_sge = 0, rwr_addr = 0, rwr_length = 0, rwr_lkey = 0\<rparr> n)) d"

text \<open>Two loops that post receives until the first error.\<close>

fun post_ud_recvs :: "'n verbs_env \<Rightarrow> nat \<Rightarrow> 'n verbs_domain \<Rightarrow> (unit result \<times> 'n verbs_domain) option" where
  "post_ud_recvs env 0 d = Some (Inr (), d)"
| "post_ud_recvs env (Suc k) d = do {
     (p, pool) \<leftarrow> mp_alloc (vd_ud_mempool d);
     let (r, d) = post_ud_recv env p (d\<lparr>vd_ud_mempool := pool\<rparr>);
     case r of Inl e \<Rightarrow> Some (Inl e, d) | Inr _ \<Rightarrow> post_ud_recvs env k d }"

fun post_imm_recvs :: "'n verbs_env \<Rightarrow> nat \<Rightarrow> 'n verbs_domain \<Rightarrow> unit result \<times> 'n verbs_domain" where
  "post_imm_recvs env 0 d = (Inr (), d)"
| "post_imm_recvs env (Suc k) d = res_then (post_imm_recv env d) (\<lambda>_. post_imm_recvs env k)"

definition post_init :: "'n verbs_env \<Rightarrow> 'n verbs_domain \<Rightarrow> (unit result \<times> 'n verbs_domain) option" where
  "post_init env d =
     (let pool = vd_ud_mempool d;
          region = \<lparr>region_ptr = buffer_ptr pool, region_len = buffer_len pool, region_mapping = HostMapping\<rparr>;
          (r, d) = verbs_register_mr env region True d
      in case r of
           Inl e \<Rightarrow> Some (Inl e, d)
         | Inr _ \<Rightarrow>
             (case verbs_get_mem_desc (buffer_ptr pool) d of
                Inl e \<Rightarrow> Some (Inl e, d)
              | Inr lkey \<Rightarrow> do {
                  (r, d) \<leftarrow> post_ud_recvs env NUM_UD_RECVS (d\<lparr>vd_ud_mempool_lkey := lkey\<rparr>);
                  case r of
                    Inl e \<Rightarrow> Some (Inl e, d)
                  | Inr _ \<Rightarrow> Some (post_imm_recvs env NUM_IMM_RECVS d) }))"

definition ud_send ::
    "'n verbs_env \<Rightarrow> verbs_ud_address \<Rightarrow> ptr \<Rightarrow> ptr \<Rightarrow> peer_handshake_info \<Rightarrow> 'n verbs_domain
       \<Rightarrow> unit result \<times> 'n verbs_domain" where
  "ud_send env peer_addr ah buf msg d =
     (case postcard_to_slice env msg (mp_chunk_size (vd_ud_mempool d)) of
        None \<Rightarrow> (Inl (Custom ''Failed to serialize UD message''), d)
      | Some bytes \<Rightarrow>
          on_nic (\<lambda>n. code_result ''ibv_post_send: UD SEND''
            (ibv_post_send_ud env (udq_qp (vd_ud d))
               \<lparr>uw_wr_id = CtxBuf buf, uw_addr = buf, uw_length = of_nat (length bytes),
                uw_lkey = ucast (desc_val (vd_ud_mempool_lkey d)), uw_ah = ah,
                uw_remote_qpn = ud_qp_num peer_addr, uw_remote_qkey = ud_qkey peer_addr, uw_payload = bytes\<rparr> n)) d)"

subsection \<open>Peers\<close>

definition create_peer ::
    "'n verbs_env \<Rightarrow> domain_address \<Rightarrow> (transfer_id \<times> outbound_op) list \<Rightarrow> slot list \<Rightarrow> 'n verbs_domain
       \<Rightarrow> verbs_peer result \<times> 'n verbs_domain" where
  "create_peer env peer_addr pending_submits pending_group_write_ops d =
     (case ud_from_bytes (address_bytes peer_addr) of
        None \<Rightarrow> (Inl (Custom ''Invalid peer address''), d)
      | Some ud_addr \<Rightarrow>
          res_then (on_nic (rc_queue_pair_new env (vd_msg_srq d) (vd_gid d) (vd_lid d) (of_nat MAX_OPS) 123) d)
            (\<lambda>msg_rc d.
               res_then (on_nic (rc_queue_pair_new env (vd_rma_srq d) (vd_gid d) (vd_lid d) (of_nat MAX_OPS) 456) d)
                 (\<lambda>rma_rc d.
                    case on_nic (ibv_create_ah env
                           \<lparr>ah_is_global = \<not> vd_is_infiniband d, ah_dlid = ud_lid ud_addr, ah_dgid = Some (ud_gid ud_addr),
                            ah_hop_limit = 64, ah_sgid_index = vd_gid_index d, ah_port_num = vd_port_num d\<rparr>) d of
                      (None, d) \<Rightarrow> (Inl (verbs_err (last_os_error env (vd_nic d)) ''ibv_create_ah''), d)
                    | (Some ah, d) \<Rightarrow>
                        (Inr \<lparr>peer_ud_addr = ud_addr, peer_ah = ah, peer_msg_rc = msg_rc, peer_rma_rc = rma_rc,
                              peer_st = Connecting pending_submits pending_group_write_ops\<rparr>, d))))"

definition handshake_info :: "'n verbs_domain \<Rightarrow> verbs_peer \<Rightarrow> peer_handshake_info" where
  "handshake_info d peer =
     \<lparr>hs_ud_addr = udq_addr (vd_ud d), hs_lid = vd_lid d, hs_gid = vd_gid d,
      hs_msg_qp_num = rc_qp_num (rcq_addr (peer_msg_rc peer)), hs_msg_psn = rc_psn (rcq_addr (peer_msg_rc peer)),
      hs_rma_qp_num = rc_qp_num (rcq_addr (peer_rma_rc peer)), hs_rma_psn = rc_psn (rcq_addr (peer_rma_rc peer))\<rparr>"

definition connect_peer :: "'n verbs_env \<Rightarrow> verbs_peer \<Rightarrow> ptr \<Rightarrow> 'n verbs_domain \<Rightarrow> unit result \<times> 'n verbs_domain" where
  "connect_peer env peer ud_buf d = ud_send env (peer_ud_addr peer) (peer_ah peer) ud_buf (handshake_info d peer) d"

text \<open>
  What every caller does with an address that has no peer: create it, enter it in the map, and
  send the handshake from a fresh buffer. On success the result is the peer's write queue pair.
\<close>

definition open_peer ::
    "'n verbs_env \<Rightarrow> domain_address \<Rightarrow> (transfer_id \<times> outbound_op) list \<Rightarrow> slot list \<Rightarrow> 'n verbs_domain
       \<Rightarrow> ptr result \<times> 'n verbs_domain" where
  "open_peer env a pending_submits pending_group_write_ops d =
     res_then (create_peer env a pending_submits pending_group_write_ops d)
       (\<lambda>peer d.
          let d = d\<lparr>vd_peers := (vd_peers d)(a \<mapsto> peer)\<rparr>
          in case mp_alloc (vd_ud_mempool d) of
               None \<Rightarrow> (Inl (Custom ''Failed to allocate UD message buffer''), d)
             | Some (buf, pool) \<Rightarrow>
                 res_then (connect_peer env peer buf (d\<lparr>vd_ud_mempool := pool\<rparr>))
                   (\<lambda>_ d. (Inr (rcq_qp (peer_rma_rc peer)), d)))"

section \<open>Posting writes\<close>

text \<open>Following the chain from a pointer: \<open>k\<close> steps, or the number of steps to another pointer.\<close>

fun chain_nth :: "nat \<Rightarrow> wr_chain_buffer \<Rightarrow> nat option \<Rightarrow> nat option option" where
  "chain_nth 0 buf p = Some p"
| "chain_nth (Suc k) buf None = None"
| "chain_nth (Suc k) buf (Some i) = do { slot \<leftarrow> index buf i; wr \<leftarrow> slot; chain_nth k buf (wr_next wr) }"

fun count_until :: "nat \<Rightarrow> wr_chain_buffer \<Rightarrow> nat option \<Rightarrow> nat option \<Rightarrow> nat option" where
  "count_until 0 buf cur bad = (if cur = bad then Some 0 else None)"
| "count_until (Suc k) buf cur bad =
     (if cur = bad then Some 0
      else case cur of
             None \<Rightarrow> None
           | Some i \<Rightarrow> do { slot \<leftarrow> index buf i; wr \<leftarrow> slot; c \<leftarrow> count_until k buf (wr_next wr) bad; Some (c + 1) })"

text \<open>One round of the posting loop; the flag says whether the loop goes on.\<close>

definition verbs_write_step :: "'n verbs_env \<Rightarrow> verbs_iter write_ctx \<Rightarrow> 'n \<Rightarrow> (bool \<times> verbs_iter write_ctx \<times> 'n) option" where
  "verbs_write_step env ctx n = do {
     (rma_qp, start, len) \<leftarrow> verbs_peek (ctx_iter ctx);
     if len = 0 then Some (False, ctx, n)
     else do {
       let buf = verbs_buf (ctx_iter ctx);
       ws \<leftarrow> read_chain (Suc WR_CHAIN_LEN) buf start;
       case ibv_post_send env rma_qp ws n of
         (PostOk, n) \<Rightarrow> do {
           it \<leftarrow> verbs_advance len (ctx_iter ctx);
           Some (True, ctx\<lparr>ctx_iter := it, ctx_posted := ctx_posted ctx + len\<rparr>, n) }
       | (PostNomem k, n) \<Rightarrow> do {
           bad_wr \<leftarrow> chain_nth k buf start;
           cnt \<leftarrow> count_until (Suc WR_CHAIN_LEN) buf start bad_wr;
           it \<leftarrow> verbs_advance cnt (ctx_iter ctx);
           Some (False, ctx\<lparr>ctx_iter := it, ctx_posted := ctx_posted ctx + cnt\<rparr>, n) }
       | (PostErr _, n) \<Rightarrow> None } }"

partial_function (option) verbs_write_loop ::
    "'n verbs_env \<Rightarrow> verbs_iter write_ctx \<Rightarrow> 'n \<Rightarrow> (verbs_iter write_ctx \<times> 'n) option" where
  "verbs_write_loop env ctx n = do {
     (go_on, ctx, n) \<leftarrow> verbs_write_step env ctx n;
     if go_on then verbs_write_loop env ctx n else Some (ctx, n) }"

definition verbs_progress_write_op_context ::
    "'n verbs_env \<Rightarrow> verbs_iter write_ctx \<Rightarrow> 'n \<Rightarrow> (verbs_iter write_ctx \<times> 'n) option" where
  "verbs_progress_write_op_context env ctx n = (if ctx_bad ctx then Some (ctx, n) else verbs_write_loop env ctx n)"

definition verbs_set_writes :: "'n verbs_domain \<Rightarrow> verbs_iter ctx_store \<times> 'n \<Rightarrow> 'n verbs_domain" where
  "verbs_set_writes d r = d\<lparr>vd_writes := fst r, vd_nic := snd r\<rparr>"

text \<open>The chain buffer of a new context is uninitialised.\<close>

definition verbs_do_submit_write ::
    "'n verbs_env \<Rightarrow> transfer_id \<Rightarrow> (op_context \<Rightarrow> wr_chain_buffer \<Rightarrow> verbs_iter option) \<Rightarrow> 'n verbs_domain
       \<Rightarrow> 'n verbs_domain option" where
  "verbs_do_submit_write env tid construct d =
     map_option (verbs_set_writes d)
       (cs_submit (verbs_progress_write_op_context env) verbs_total_ops tid
          (\<lambda>slot _. construct (CtxWrite slot) (replicate WR_CHAIN_LEN None)) (vd_writes d) (vd_nic d))"

definition do_submit_outbound_op ::
    "'n verbs_env \<Rightarrow> transfer_id \<Rightarrow> outbound_op \<Rightarrow> ptr \<Rightarrow> ptr \<Rightarrow> 'n verbs_domain \<Rightarrow> 'n verbs_domain option" where
  "do_submit_outbound_op env tid op msg_qp rma_qp d =
     (case op of
        OutSend op \<Rightarrow> Some (d\<lparr>vd_send_ops := vd_send_ops d @ [(tid, msg_qp, op)]\<rparr>)
      | OutWrite op \<Rightarrow>
          verbs_do_submit_write env tid (\<lambda>rawctx buf. case op of
              SingleW op \<Rightarrow> Some (VSingle (verbs_new_single op rma_qp buf rawctx))
            | ImmW op \<Rightarrow> Some (VSingle (verbs_new_imm op rma_qp buf rawctx))
            | PagedW op \<Rightarrow> map_option VPaged (verbs_paged_new op rma_qp buf rawctx)) d)"

definition verbs_do_submit_group_write ::
    "'n verbs_env \<Rightarrow> transfer_id \<Rightarrow> ptr list \<Rightarrow> group_write_op \<Rightarrow> 'n verbs_domain \<Rightarrow> 'n verbs_domain option" where
  "verbs_do_submit_group_write env tid rma_qps op d =
     verbs_do_submit_write env tid (\<lambda>rawctx buf. case op of
         ScatterW op \<Rightarrow> map_option VScatter (verbs_scatter_new op rma_qps buf rawctx)) d"

section \<open>The handshake\<close>

definition hs_modify ::
    "'n verbs_env \<Rightarrow> peer_handshake_info \<Rightarrow> verbs_peer \<Rightarrow> 'n verbs_domain \<Rightarrow> unit result \<times> 'n verbs_domain" where
  "hs_modify env info peer d =
     (let msg = peer_msg_rc peer; rma = peer_rma_rc peer; pkey_index = 0 in
      res_then (on_nic (rc_reset_to_init env msg (vd_port_num d) pkey_index) d) (\<lambda>_ d.
      res_then (on_nic (rc_reset_to_init env rma (vd_port_num d) pkey_index) d) (\<lambda>_ d.
      res_then (on_nic (rc_init_to_rtr env msg (vd_is_infiniband d) (vd_gid_index d) (vd_port_num d) (vd_mtu d)
        (hs_msg_qp_num info) (hs_msg_psn info) (hs_lid info) (hs_gid info)) d) (\<lambda>_ d.
      res_then (on_nic (rc_init_to_rtr env rma (vd_is_infiniband d) (vd_gid_index d) (vd_port_num d) (vd_mtu d)
        (hs_rma_qp_num info) (hs_rma_psn info) (hs_lid info) (hs_gid info)) d) (\<lambda>_ d.
      res_then (on_nic (rc_rtr_to_rts env msg (hs_msg_psn info)) d) (\<lambda>_ d.
      on_nic (rc_rtr_to_rts env rma (hs_rma_psn info)) d))))))"

text \<open>The groups that wait for the queue pair lose it; those that wait for nothing more are connected.\<close>

definition cg_remove :: "ptr \<Rightarrow> connecting_peer_group \<Rightarrow> connecting_peer_group" where
  "cg_remove qp g = g\<lparr>cg_pending_peers := removeAll qp (cg_pending_peers g)\<rparr>"

definition cg_last :: "ptr \<Rightarrow> connecting_peer_group \<Rightarrow> bool" where
  "cg_last qp g \<longleftrightarrow> qp \<in> set (cg_pending_peers g) \<and> removeAll qp (cg_pending_peers g) = []"

definition hs_connected :: "'n verbs_env \<Rightarrow> ptr \<Rightarrow> 'n verbs_domain \<Rightarrow> peer_group_handle list" where
  "hs_connected env qp d =
     filter (\<lambda>h. case map_of (vd_connecting d) h of None \<Rightarrow> False | Some g \<Rightarrow> cg_last qp g)
       (hash_order env (map fst (vd_connecting d)))"

definition hs_group_connected :: "'n verbs_env \<Rightarrow> peer_group_handle \<Rightarrow> 'n verbs_domain \<Rightarrow> 'n verbs_domain option" where
  "hs_group_connected env h d = do {
     g \<leftarrow> map_of (vd_connecting d) h;
     foldM (\<lambda>(tid, op). verbs_do_submit_group_write env tid (cg_rma_qps g) op) (cg_pending_group_ops g)
       (d\<lparr>vd_connecting := filter (\<lambda>e. fst e \<noteq> h) (vd_connecting d),
          vd_peer_groups := (vd_peer_groups d)(h \<mapsto> cg_rma_qps g)\<rparr>) }"

text \<open>A group write that waits for its last peer is submitted and its slot freed.\<close>

definition hs_pending_write :: "'n verbs_env \<Rightarrow> ptr \<Rightarrow> slot \<Rightarrow> 'n verbs_domain \<Rightarrow> 'n verbs_domain option" where
  "hs_pending_write env qp a d = do {
     pg \<leftarrow> vd_pending d a;
     let rest = removeAll qp (pg_pending_peers pg);
     if qp \<in> set (pg_pending_peers pg) \<and> rest = [] then do {
       d \<leftarrow> (case pg_op pg of
               Some op \<Rightarrow> verbs_do_submit_group_write env (pg_transfer_id pg) (pg_rma_qps pg) op d
             | None \<Rightarrow> Some d);
       Some (d\<lparr>vd_pending_pool := free_and_drop a (vd_pending_pool d), vd_pending := (vd_pending d)(a := None)\<rparr>) }
     else Some (d\<lparr>vd_pending := (vd_pending d)(a \<mapsto> pg\<lparr>pg_pending_peers := rest\<rparr>)\<rparr>) }"

definition hs_establish ::
    "'n verbs_env \<Rightarrow> domain_address \<Rightarrow> verbs_peer \<Rightarrow> 'n verbs_domain \<Rightarrow> 'n verbs_domain option" where
  "hs_establish env peer_addr peer d =
     (case peer_st peer of
        Established \<Rightarrow> None
      | Connecting pending_submits pending_group_write_ops \<Rightarrow>
          (let msg_qp = rcq_qp (peer_msg_rc peer); rma_qp = rcq_qp (peer_rma_rc peer);
               d = d\<lparr>vd_peers := (vd_peers d)(peer_addr \<mapsto> peer\<lparr>peer_st := Established\<rparr>)\<rparr>
           in do {
             d \<leftarrow> foldM (\<lambda>(tid, op). do_submit_outbound_op env tid op msg_qp rma_qp) pending_submits d;
             let connected = hs_connected env rma_qp d;
             let d = d\<lparr>vd_connecting := map (map_prod id (cg_remove rma_qp)) (vd_connecting d)\<rparr>;
             d \<leftarrow> foldM (hs_group_connected env) connected d;
             foldM (hs_pending_write env rma_qp) pending_group_write_ops d }))"

definition handle_peer_handshake ::
    "'n verbs_env \<Rightarrow> peer_handshake_info \<Rightarrow> 'n verbs_domain \<Rightarrow> (unit result \<times> 'n verbs_domain) option" where
  "handle_peer_handshake env info d =
     (let peer_addr = ud_into_domain_address (hs_ud_addr info);
          go_on = (\<lambda>peer d.
            case hs_modify env info peer d of
              (Inl e, d) \<Rightarrow> Some (Inl e, d)
            | (Inr _, d) \<Rightarrow> map_option (Pair (Inr ())) (hs_establish env peer_addr peer d))
      in case vd_peers d peer_addr of
           Some peer \<Rightarrow> if peer_st peer = Established then Some (Inr (), d) else go_on peer d
         | None \<Rightarrow>
             (case open_peer env peer_addr [] [] d of
                (Inl e, d) \<Rightarrow> Some (Inl e, d)
              | (Inr _, d) \<Rightarrow> do { peer \<leftarrow> vd_peers d peer_addr; go_on peer d }))"

section \<open>Submitting\<close>

definition peer_error :: "'n verbs_env \<Rightarrow> domain_address \<Rightarrow> fabric_lib_error \<Rightarrow> fabric_lib_error" where
  "peer_error env a e =
     DomainErr (''Failed to create peer: '' @ domain_address_to_string a @ ''. Reason: '' @ error_to_string env e)"

definition submit_outbound_op ::
    "'n verbs_env \<Rightarrow> transfer_id \<Rightarrow> domain_address \<Rightarrow> outbound_op \<Rightarrow> 'n verbs_domain \<Rightarrow> 'n verbs_domain option" where
  "submit_outbound_op env tid dest op d =
     (case vd_peers d dest of
        Some peer \<Rightarrow>
          (case peer_st peer of
             Established \<Rightarrow> do_submit_outbound_op env tid op (rcq_qp (peer_msg_rc peer)) (rcq_qp (peer_rma_rc peer)) d
           | Connecting subs groups \<Rightarrow>
               Some (d\<lparr>vd_peers := (vd_peers d)(dest \<mapsto> peer\<lparr>peer_st := Connecting (subs @ [(tid, op)]) groups\<rparr>)\<rparr>))
      | None \<Rightarrow>
          (case open_peer env dest [(tid, op)] [] d of
             (Inl e, d) \<Rightarrow> Some (verbs_complete (DError tid (peer_error env dest e)) d)
           | (Inr _, d) \<Rightarrow> Some d))"

section \<open>Progress\<close>

fun verbs_recv_loop ::
    "'n verbs_env \<Rightarrow> ptr \<Rightarrow> (transfer_id \<times> recv_op) list \<Rightarrow> 'n \<Rightarrow> ((transfer_id \<times> recv_op) list \<times> 'n) option" where
  "verbs_recv_loop env srq [] n = Some ([], n)"
| "verbs_recv_loop env srq ((tid, op) # q) n =
     (let (ret, n) = ibv_post_srq_recv env srq (verbs_fill_recv_op op (CtxTid (tid_val tid))) n
      in if ret = 0 then verbs_recv_loop env srq q n
         else if ret = ENOMEM then Some ((tid, op) # q, n)
         else None)"

definition verbs_progress_recv_ops :: "'n verbs_env \<Rightarrow> 'n verbs_domain \<Rightarrow> 'n verbs_domain option" where
  "verbs_progress_recv_ops env d =
     map_option (\<lambda>(q, n). d\<lparr>vd_recv_ops := q, vd_nic := n\<rparr>)
       (verbs_recv_loop env (vd_msg_srq d) (vd_recv_ops d) (vd_nic d))"

fun verbs_send_loop ::
    "'n verbs_env \<Rightarrow> (transfer_id \<times> ptr \<times> send_op) list \<Rightarrow> 'n \<Rightarrow> ((transfer_id \<times> ptr \<times> send_op) list \<times> 'n) option" where
  "verbs_send_loop env [] n = Some ([], n)"
| "verbs_send_loop env ((tid, msg_qp, op) # q) n =
     (case ibv_post_send env msg_qp [verbs_fill_send_op op (CtxTid (tid_val tid))] n of
        (PostOk, n) \<Rightarrow> verbs_send_loop env q n
      | (PostNomem _, n) \<Rightarrow> Some ((tid, msg_qp, op) # q, n)
      | (PostErr _, n) \<Rightarrow> None)"

definition verbs_progress_send_ops :: "'n verbs_env \<Rightarrow> 'n verbs_domain \<Rightarrow> 'n verbs_domain option" where
  "verbs_progress_send_ops env d =
     map_option (\<lambda>(q, n). d\<lparr>vd_send_ops := q, vd_nic := n\<rparr>) (verbs_send_loop env (vd_send_ops d) (vd_nic d))"

definition verbs_progress_write_ops :: "'n verbs_env \<Rightarrow> 'n verbs_domain \<Rightarrow> 'n verbs_domain option" where
  "verbs_progress_write_ops env d =
     map_option (verbs_set_writes d)
       (cs_progress (verbs_progress_write_op_context env) (length (cs_queue (vd_writes d))) (vd_writes d) (vd_nic d))"

definition verbs_progress_ops :: "'n verbs_env \<Rightarrow> 'n verbs_domain \<Rightarrow> 'n verbs_domain option" where
  "verbs_progress_ops env d = do {
     d \<leftarrow> verbs_progress_recv_ops env d;
     d \<leftarrow> verbs_progress_send_ops env d;
     verbs_progress_write_ops env d }"

section \<open>Completions\<close>

text \<open>A completion of the datagram queue pair: a handshake of a peer, or a buffer that was sent.\<close>

definition verbs_handle_ud :: "'n verbs_env \<Rightarrow> wc \<Rightarrow> 'n verbs_domain \<Rightarrow> 'n verbs_domain option" where
  "verbs_handle_ud env w d =
     (if wc_status w \<noteq> 0 then None
      else case wc_opcode w of
        WcRecv \<Rightarrow>
          (case wc_wr_id w of
             CtxBuf p \<Rightarrow>
               if unat (wc_byte_len w) < GRH_BYTES then None
               else do {
                 msg \<leftarrow> postcard_from_bytes env (drop GRH_BYTES (take (unat (wc_byte_len w)) (wc_buf w)));
                 (r, d) \<leftarrow> handle_peer_handshake env msg d;
                 case r of
                   Inl _ \<Rightarrow> None
                 | Inr _ \<Rightarrow> (case post_ud_recv env p d of (Inl _, d) \<Rightarrow> None | (Inr _, d) \<Rightarrow> Some d) }
           | _ \<Rightarrow> None)
      | WcSend \<Rightarrow>
          (case wc_wr_id w of
             CtxBuf p \<Rightarrow> Some (d\<lparr>vd_ud_mempool := mp_free p (vd_ud_mempool d)\<rparr>)
           | _ \<Rightarrow> None)
      | _ \<Rightarrow> Some d)"

definition verbs_handle_error ::
    "'n verbs_env \<Rightarrow> wc \<Rightarrow> 'n verbs_domain \<Rightarrow> (domain_completion_entry option \<times> 'n verbs_domain) option" where
  "verbs_handle_error env w d = do {
     (tid, d) \<leftarrow>
       (case wc_opcode w of
          WcRecv \<Rightarrow> map_option (\<lambda>tid. (Some tid, d)) (ctx_tid (wc_wr_id w))
        | WcSend \<Rightarrow> map_option (\<lambda>tid. (Some tid, d)) (ctx_tid (wc_wr_id w))
        | WcRdmaWrite \<Rightarrow> do {
            p \<leftarrow> ctx_as_mut (wc_wr_id w);
            case p of
              None \<Rightarrow> Some (None, d)
            | Some a \<Rightarrow> do {
                (r, s) \<leftarrow> cs_fail a (vd_writes d);
                Some (r, d\<lparr>vd_writes := s\<rparr>) } }
        | _ \<Rightarrow> Some (None, d));
     Some (map_option (\<lambda>tid. DError tid (VerbsCompletionError (ibv_wc_status_str env (wc_status w)))) tid, d) }"

definition verbs_handle_cqe ::
    "'n verbs_env \<Rightarrow> wc \<Rightarrow> 'n verbs_domain \<Rightarrow> imm_count_map
       \<Rightarrow> (domain_completion_entry option \<times> 'n verbs_domain \<times> imm_count_map) option" where
  "verbs_handle_cqe env w d m =
     (if wc_qp_num w = ud_qp_num (udq_addr (vd_ud d)) then map_option (\<lambda>d. (None, d, m)) (verbs_handle_ud env w d)
      else if wc_status w \<noteq> 0 then map_option (\<lambda>(r, d). (r, d, m)) (verbs_handle_error env w d)
      else case wc_opcode w of
        WcRecv \<Rightarrow> map_option (\<lambda>tid. (Some (DRecv tid (unat (wc_byte_len w))), d, m)) (ctx_tid (wc_wr_id w))
      | WcSend \<Rightarrow> map_option (\<lambda>tid. (Some (DSend tid), d, m)) (ctx_tid (wc_wr_id w))
      | WcRdmaWrite \<Rightarrow> do {
          p \<leftarrow> ctx_as_mut (wc_wr_id w);
          case p of
            None \<Rightarrow> Some (None, d, m)
          | Some a \<Rightarrow> do {
              (r, s) \<leftarrow> cs_complete a (vd_writes d);
              Some (map_option DTransfer r, d\<lparr>vd_writes := s\<rparr>, m) } }
      | WcRecvRdmaWithImm \<Rightarrow>
          (case post_imm_recv env d of
             (Inl _, d) \<Rightarrow> None
           | (Inr _, d) \<Rightarrow>
               (let imm = wc_imm w; (st, m) = imm_inc imm m
                in Some (case st of
                     Vacant \<Rightarrow> (Some (DImmData imm), d, m)
                   | NotReached \<Rightarrow> (None, d, m)
                   | Reached \<Rightarrow> (Some (DImmCountReached imm), d, m))))
      | WcOther \<Rightarrow> Some (None, d, m))"

fun verbs_handle_cqes ::
    "'n verbs_env \<Rightarrow> wc list \<Rightarrow> 'n verbs_domain \<Rightarrow> imm_count_map \<Rightarrow> ('n verbs_domain \<times> imm_count_map) option" where
  "verbs_handle_cqes env [] d m = Some (d, m)"
| "verbs_handle_cqes env (w # ws) d m = do {
     (r, d, m) \<leftarrow> verbs_handle_cqe env w d m;
     verbs_handle_cqes env ws (case r of Some c \<Rightarrow> verbs_complete c d | None \<Rightarrow> d) m }"

text \<open>Up to sixteen completions are read at a time, until none is there.\<close>

partial_function (option) verbs_poll_cq ::
    "'n verbs_env \<Rightarrow> 'n verbs_domain \<Rightarrow> imm_count_map \<Rightarrow> ('n verbs_domain \<times> imm_count_map) option" where
  "verbs_poll_cq env d m =
     (case ibv_poll_cq env 16 (vd_nic d) of
        (Polled ws, n) \<Rightarrow>
          (if ws = [] then Some (d\<lparr>vd_nic := n\<rparr>, m)
           else do {
             (d, m) \<leftarrow> verbs_handle_cqes env ws (d\<lparr>vd_nic := n\<rparr>) m;
             verbs_poll_cq env d m })
      | (PollErr _, n) \<Rightarrow> None)"

section \<open>The operations of the trait\<close>

definition verbs_submit_recv :: "transfer_id \<Rightarrow> recv_op \<Rightarrow> 'n verbs_domain \<Rightarrow> 'n verbs_domain" where
  "verbs_submit_recv tid op d = d\<lparr>vd_recv_ops := vd_recv_ops d @ [(tid, op)]\<rparr>"

definition verbs_submit_send ::
    "'n verbs_env \<Rightarrow> transfer_id \<Rightarrow> domain_address \<Rightarrow> send_op \<Rightarrow> 'n verbs_domain \<Rightarrow> 'n verbs_domain option" where
  "verbs_submit_send env tid dest op d = submit_outbound_op env tid dest (OutSend op) d"

definition verbs_submit_write ::
    "'n verbs_env \<Rightarrow> transfer_id \<Rightarrow> domain_address \<Rightarrow> write_op \<Rightarrow> 'n verbs_domain \<Rightarrow> 'n verbs_domain option" where
  "verbs_submit_write env tid dest op d = submit_outbound_op env tid dest (OutWrite op) d"

text \<open>The peers of a group: a known peer counts as connected, an unknown one is opened and waited for.\<close>

fun add_group_peers ::
    "'n verbs_env \<Rightarrow> domain_address list \<Rightarrow> ptr list \<Rightarrow> ptr list \<Rightarrow> 'n verbs_domain
       \<Rightarrow> (ptr list \<times> ptr list) result \<times> 'n verbs_domain" where
  "add_group_peers env [] rma_qps pending d = (Inr (rma_qps, pending), d)"
| "add_group_peers env (a # as) rma_qps pending d =
     (case vd_peers d a of
        Some peer \<Rightarrow> add_group_peers env as (rma_qps @ [rcq_qp (peer_rma_rc peer)]) pending d
      | None \<Rightarrow>
          res_then (open_peer env a [] [] d)
            (\<lambda>qp d. add_group_peers env as (rma_qps @ [qp]) (List.insert qp pending) d))"

definition verbs_add_peer_group ::
    "'n verbs_env \<Rightarrow> peer_group_handle \<Rightarrow> domain_address list \<Rightarrow> 'n verbs_domain \<Rightarrow> unit result \<times> 'n verbs_domain" where
  "verbs_add_peer_group env handle addrs d =
     (if map_of (vd_connecting d) handle \<noteq> None then (Inr (), d)
      else if vd_peer_groups d handle \<noteq> None then (Inr (), d)
      else res_then (add_group_peers env addrs [] [] d)
        (\<lambda>(rma_qps, pending) d.
           (Inr (),
            if pending = [] then d\<lparr>vd_peer_groups := (vd_peer_groups d)(handle \<mapsto> rma_qps)\<rparr>
            else d\<lparr>vd_connecting := (handle, \<lparr>cg_rma_qps = rma_qps, cg_pending_peers = pending,
                                              cg_pending_group_ops = []\<rparr>) # vd_connecting d\<rparr>)))"

text \<open>
  The peers of a group write without a handle. The slot for the pending write is allocated with the
  first unknown peer and handed to every peer that is opened, before it is initialised.
\<close>

fun group_write_peers ::
    "'n verbs_env \<Rightarrow> domain_address option list \<Rightarrow> ptr list \<Rightarrow> ptr list \<Rightarrow> slot option \<Rightarrow> 'n verbs_domain
       \<Rightarrow> (((domain_address \<times> fabric_lib_error) + (ptr list \<times> ptr list \<times> slot option)) \<times> 'n verbs_domain) option" where
  "group_write_peers env [] rma_qps pending ctx d = Some (Inr (rma_qps, pending, ctx), d)"
| "group_write_peers env (None # as) rma_qps pending ctx d = None"
| "group_write_peers env (Some a # as) rma_qps pending ctx d =
     (case vd_peers d a of
        Some peer \<Rightarrow> group_write_peers env as (rma_qps @ [rcq_qp (peer_rma_rc peer)]) pending ctx d
      | None \<Rightarrow>
          (let (slot, d) =
             (case ctx of
                Some slot \<Rightarrow> (slot, d)
              | None \<Rightarrow> (let (slot, pool) = alloc_uninit (vd_pending_pool d) in (slot, d\<lparr>vd_pending_pool := pool\<rparr>)))
           in case open_peer env a [] [slot] d of
                (Inl e, d) \<Rightarrow> Some (Inl (a, e), d)
              | (Inr qp, d) \<Rightarrow> group_write_peers env as (rma_qps @ [qp]) (List.insert qp pending) (Some slot) d))"

definition verbs_submit_group_write ::
    "'n verbs_env \<Rightarrow> transfer_id \<Rightarrow> peer_group_handle option \<Rightarrow> group_write_op \<Rightarrow> 'n verbs_domain \<Rightarrow> 'n verbs_domain option" where
  "verbs_submit_group_write env tid handle op d =
     (case handle of
        Some handle \<Rightarrow>
          (case map_of (vd_connecting d) handle of
             Some g \<Rightarrow>
               Some (d\<lparr>vd_connecting := AList.update handle
                         (g\<lparr>cg_pending_group_ops := cg_pending_group_ops g @ [(tid, op)]\<rparr>) (vd_connecting d)\<rparr>)
           | None \<Rightarrow>
               (case vd_peer_groups d handle of
                  None \<Rightarrow> Some (verbs_complete (DError tid (Custom ''Peer group not found'')) d)
                | Some rma_qps \<Rightarrow> verbs_do_submit_group_write env tid rma_qps op d))
      | None \<Rightarrow> do {
          (r, d) \<leftarrow> group_write_peers env (peer_addr_iter op) [] [] None d;
          case r of
            Inl (a, e) \<Rightarrow> Some (verbs_complete (DError tid (peer_error env a e)) d)
          | Inr (rma_qps, pending, ctx) \<Rightarrow>
              if pending \<noteq> [] then do {
                slot \<leftarrow> ctx;
                Some (d\<lparr>vd_pending := (vd_pending d)(slot \<mapsto>
                  \<lparr>pg_transfer_id = tid, pg_op = Some op, pg_rma_qps = rma_qps, pg_pending_peers = pending\<rparr>)\<rparr>) }
              else verbs_do_submit_group_write env tid rma_qps op d })"

definition verbs_poll_progress ::
    "'n verbs_env \<Rightarrow> 'n verbs_domain \<Rightarrow> imm_count_map \<Rightarrow> ('n verbs_domain \<times> imm_count_map) option" where
  "verbs_poll_progress env d m = do {
     (d, m) \<leftarrow> verbs_poll_cq env d m;
     d \<leftarrow> verbs_progress_ops env d;
     Some (d, m) }"

definition verbs_get_completion :: "'n verbs_domain \<Rightarrow> domain_completion_entry option \<times> 'n verbs_domain" where
  "verbs_get_completion d =
     (case vd_completions d of [] \<Rightarrow> (None, d) | c # cs \<Rightarrow> (Some c, d\<lparr>vd_completions := cs\<rparr>))"

definition verbs_ops :: "'n verbs_env \<Rightarrow> 'n verbs_domain rdma_domain_ops" where
  "verbs_ops env =
     \<lparr>d_link_speed = vd_link_speed, d_addr = vd_addr,
      d_register_mr_local = (\<lambda>r d. (case verbs_register_mr env r False d of (Inl e, d) \<Rightarrow> (Inl e, d) | (Inr _, d) \<Rightarrow> (Inr (), d))),
      d_register_mr_allow_remote = (\<lambda>r d. verbs_register_mr env r True d),
      d_unregister_mr = verbs_unregister_mr env, d_get_mem_desc = verbs_get_mem_desc,
      d_submit_recv = (\<lambda>t op d. Some (verbs_submit_recv t op d)),
      d_submit_send = verbs_submit_send env,
      d_submit_write = verbs_submit_write env, d_add_peer_group = verbs_add_peer_group env,
      d_submit_group_write = verbs_submit_group_write env,
      d_poll_progress = verbs_poll_progress env, d_get_completion = verbs_get_completion\<rparr>"

end
