(* ===== verification/Verbs_Card.thy ===== *)
theory Verbs_Card
  imports Verbs_Domain Domain_Contract
begin

text \<open>
  What the verbs domain relies on in ibverbs, and posting writes under it. A card holds the
  posted operations, the states of the queue pairs and the messages still to arrive; a call posts an
  operation, moves a queue pair one state on or creates one, and touches nothing else.
\<close>

declare split_paired_All [simp del] split_paired_Ex [simp del]

section \<open>The view of a card\<close>

text \<open>
  \<open>cv_out\<close> are the operations on the card, \<open>cv_qps\<close> the states of the queue pairs, \<open>cv_arrivals\<close> the number
  of receives that complete before the completion queue is next found empty. The other fields are the
  handles of the datagram queue pair and of the two shared receive queues.
\<close>

record 'n card_view =
  cv_out :: "'n \<Rightarrow> posted_ops"
  cv_qps :: "'n \<Rightarrow> ptr \<rightharpoonup> qp_state"
  cv_arrivals :: "'n \<Rightarrow> nat"
  cv_ud_qp :: ptr
  cv_ud_num :: u32
  cv_msg_srq :: ptr
  cv_rma_srq :: ptr

definition can_post :: "qp_state option \<Rightarrow> bool" where
  "can_post s \<longleftrightarrow> s = Some QpsRts \<or> s = Some QpsErr"

text \<open>The calls that add operations to the card, and nothing else.\<close>

definition effect :: "'n card_view \<Rightarrow> posted_ops \<Rightarrow> 'n \<Rightarrow> 'n \<Rightarrow> bool" where
  "effect V X n n' \<longleftrightarrow> cv_out V n' = cv_out V n + X \<and> cv_qps V n' = cv_qps V n \<and> cv_arrivals V n' = cv_arrivals V n"

definition kcount :: "op_kind \<Rightarrow> posted_ops \<Rightarrow> nat" where
  "kcount k M = size (filter_mset (\<lambda>x. fst x = k) M)"

definition wr_op :: "send_wr \<Rightarrow> op_kind \<times> op_context" where
  "wr_op w = (if opcode w = IBV_WR_SEND then KSend else KWrite, wr_id w)"

text \<open>
  Posting to a connected queue pair: everything is accepted, or the queue is full from some request
  on. Whether the queues for writes can be full is the parameter \<open>busy\<close>.
\<close>

definition send_ok :: "'n card_view \<Rightarrow> bool \<Rightarrow> ptr \<Rightarrow> send_wr list \<Rightarrow> 'n \<Rightarrow> post_ret \<times> 'n \<Rightarrow> bool" where
  "send_ok V busy qp ws n r \<longleftrightarrow>
     (can_post (cv_qps V n qp) \<longrightarrow>
      (case fst r of
         PostOk \<Rightarrow> effect V (mset (map wr_op ws)) n (snd r)
       | PostNomem k \<Rightarrow> k < length ws \<and> (busy \<or> (\<forall>w \<in> set ws. opcode w = IBV_WR_SEND)) \<and>
           effect V (mset (map wr_op (take k ws))) n (snd r)
       | PostErr _ \<Rightarrow> False))"

text \<open>The queues of datagrams and of receives for immediates take \<open>MAX_OPS\<close> operations.\<close>

definition queue_post_ok :: "'n card_view \<Rightarrow> op_kind \<Rightarrow> op_context \<Rightarrow> 'n \<Rightarrow> int \<times> 'n \<Rightarrow> bool" where
  "queue_post_ok V k x n r \<longleftrightarrow>
     (kcount k (cv_out V n) < MAX_OPS \<longrightarrow> fst r = 0 \<and> effect V {#(k, x)#} n (snd r))"

definition recv_ok :: "'n card_view \<Rightarrow> recv_wr \<Rightarrow> 'n \<Rightarrow> int \<times> 'n \<Rightarrow> bool" where
  "recv_ok V w n r \<longleftrightarrow>
     fst r = 0 \<and> effect V {#(KRecv, rwr_id w)#} n (snd r) \<or> fst r = ENOMEM \<and> effect V {#} n (snd r)"

text \<open>A card has room for the datagram queue pair and two queue pairs for each of \<open>MAX_UD_SENDS\<close> peers.\<close>

definition create_ok :: "'n card_view \<Rightarrow> 'n \<Rightarrow> (ptr \<times> u32) option \<times> 'n \<Rightarrow> bool" where
  "create_ok V n r \<longleftrightarrow>
     (card (dom (cv_qps V n)) < 1 + 2 * MAX_UD_SENDS \<longrightarrow>
      (\<exists>qp num. fst r = Some (qp, num) \<and> cv_qps V n qp = None \<and>
         cv_qps V (snd r) = (cv_qps V n)(qp \<mapsto> QpsReset) \<and> cv_out V (snd r) = cv_out V n \<and>
         cv_arrivals V (snd r) = cv_arrivals V n))"

text \<open>The transitions of a queue pair that succeed.\<close>

fun qp_next :: "qp_state \<Rightarrow> qp_state \<Rightarrow> bool" where
  "qp_next QpsReset QpsInit = True"
| "qp_next QpsInit QpsRtr = True"
| "qp_next QpsRtr QpsRts = True"
| "qp_next _ _ = False"

definition modify_ok :: "'n card_view \<Rightarrow> ptr \<Rightarrow> qp_attr \<Rightarrow> 'n \<Rightarrow> int \<times> 'n \<Rightarrow> bool" where
  "modify_ok V qp attr n r \<longleftrightarrow>
     (\<forall>s s'. cv_qps V n qp = Some s \<longrightarrow> qa_state attr = Some s' \<longrightarrow> qp_next s s' \<longrightarrow>
        fst r = 0 \<and> cv_qps V (snd r) = (cv_qps V n)(qp \<mapsto> s') \<and> cv_out V (snd r) = cv_out V n \<and>
        cv_arrivals V (snd r) = cv_arrivals V n)"

section \<open>Completions\<close>

text \<open>
  The operation a completion takes off the card. A completion of the datagram queue pair is known by
  its number; the opcode says what completed, of a failed operation as of a successful one.
\<close>

definition wc_op :: "'n card_view \<Rightarrow> wc \<Rightarrow> posted_ops" where
  "wc_op V w =
     (if wc_qp_num w = cv_ud_num V then
        (case wc_opcode w of
           WcRecv \<Rightarrow> {#(KUdRecv, wc_wr_id w)#} | WcSend \<Rightarrow> {#(KUdSend, wc_wr_id w)#} | _ \<Rightarrow> {#})
      else
        (case wc_opcode w of
           WcRecv \<Rightarrow> {#(KRecv, wc_wr_id w)#} | WcSend \<Rightarrow> {#(KSend, wc_wr_id w)#}
         | WcRdmaWrite \<Rightarrow> {#(KWrite, wc_wr_id w)#} | WcRecvRdmaWithImm \<Rightarrow> {#(KImm, wc_wr_id w)#}
         | WcOther \<Rightarrow> {#}))"

definition wc_ops :: "'n card_view \<Rightarrow> wc list \<Rightarrow> posted_ops" where
  "wc_ops V ws = sum_list (map (wc_op V) ws)"

definition is_arrival :: "wc \<Rightarrow> bool" where
  "is_arrival w \<longleftrightarrow> wc_opcode w \<noteq> WcSend \<and> wc_opcode w \<noteq> WcRdmaWrite"

text \<open>
  What the datagram queue pair delivers: no errors, nothing but sends and receives, and every message
  is the handshake of a peer of the set \<open>U\<close>, behind a global routing header.
\<close>

definition ud_wc_ok :: "'n verbs_env \<Rightarrow> domain_address set \<Rightarrow> wc \<Rightarrow> bool" where
  "ud_wc_ok env U w \<longleftrightarrow> wc_status w = 0 \<and> wc_opcode w \<noteq> WcRdmaWrite \<and>
     (wc_opcode w = WcRecv \<longrightarrow> GRH_BYTES \<le> unat (wc_byte_len w) \<and>
        (\<exists>info. postcard_from_bytes env (drop GRH_BYTES (take (unat (wc_byte_len w)) (wc_buf w))) = Some info \<and>
           ud_into_domain_address (hs_ud_addr info) \<in> U))"

text \<open>
  A read of the completion queue takes the operations of its entries off the card; it may move a
  connected queue pair into its error state, where it still takes requests.
\<close>

definition qps_kept :: "(ptr \<rightharpoonup> qp_state) \<Rightarrow> (ptr \<rightharpoonup> qp_state) \<Rightarrow> bool" where
  "qps_kept Q Q' \<longleftrightarrow> (\<forall>qp. if can_post (Q qp) then can_post (Q' qp) else Q' qp = Q qp)"

definition poll_ok :: "'n verbs_env \<Rightarrow> 'n card_view \<Rightarrow> domain_address set \<Rightarrow> 'n \<Rightarrow> poll_ret \<times> 'n \<Rightarrow> bool" where
  "poll_ok env V U n r \<longleftrightarrow>
     (case fst r of
        Polled ws \<Rightarrow>
          cv_out V n = cv_out V (snd r) + wc_ops V ws \<and> qps_kept (cv_qps V n) (cv_qps V (snd r)) \<and>
          (ws \<noteq> [] \<longrightarrow> cv_arrivals V (snd r) + length (filter is_arrival ws) \<le> cv_arrivals V n) \<and>
          (\<forall>w \<in> set ws. wc_qp_num w = cv_ud_num V \<longrightarrow> ud_wc_ok env U w)
      | PollErr _ \<Rightarrow> False)"

definition verbs_contract :: "'n verbs_env \<Rightarrow> 'n card_view \<Rightarrow> domain_address set \<Rightarrow> bool \<Rightarrow> bool" where
  "verbs_contract env V U busy \<longleftrightarrow>
     (\<forall>qp ws n. send_ok V busy qp ws n (ibv_post_send env qp ws n)) \<and>
     (\<forall>w n. can_post (cv_qps V n (cv_ud_qp V)) \<longrightarrow>
        queue_post_ok V KUdSend (uw_wr_id w) n (ibv_post_send_ud env (cv_ud_qp V) w n)) \<and>
     (\<forall>w n. queue_post_ok V KUdRecv (rwr_id w) n (ibv_post_recv env (cv_ud_qp V) w n)) \<and>
     (\<forall>w n. queue_post_ok V KImm (rwr_id w) n (ibv_post_srq_recv env (cv_rma_srq V) w n)) \<and>
     (\<forall>w n. recv_ok V w n (ibv_post_srq_recv env (cv_msg_srq V) w n)) \<and>
     (\<forall>srq k n. create_ok V n (ibv_create_qp env (QptRc srq) k n)) \<and>
     (\<forall>qp attr n. modify_ok V qp attr n (ibv_modify_qp env qp attr n)) \<and>
     (\<forall>a n. fst (ibv_create_ah env a n) \<noteq> None \<and> effect V {#} n (snd (ibv_create_ah env a n))) \<and>
     (\<forall>p l a n. effect V {#} n (snd (ibv_reg_mr env p l a n))) \<and>
     (\<forall>o' l p fd a n. effect V {#} n (snd (ibv_reg_dmabuf_mr env o' l p fd a n))) \<and>
     (\<forall>mr n. effect V {#} n (ibv_dereg_mr env mr n)) \<and>
     (\<forall>k n. poll_ok env V U n (ibv_poll_cq env k n)) \<and>
     (\<forall>msg. postcard_to_slice env msg MAX_UD_MSG_BYTES \<noteq> None) \<and>
     (\<forall>hs. mset (hash_order env hs) = mset hs)"

lemma verbs_contractD:
  assumes "verbs_contract env V U busy"
  shows "send_ok V busy qp ws n (ibv_post_send env qp ws n)"
    "queue_post_ok V KUdRecv (rwr_id w) n (ibv_post_recv env (cv_ud_qp V) w n)"
    "queue_post_ok V KImm (rwr_id w) n (ibv_post_srq_recv env (cv_rma_srq V) w n)"
    "recv_ok V w n (ibv_post_srq_recv env (cv_msg_srq V) w n)"
    "create_ok V n (ibv_create_qp env (QptRc srq) k n)"
    "modify_ok V qp attr n (ibv_modify_qp env qp attr n)"
    "poll_ok env V U n (ibv_poll_cq env j n)"
    "can_post (cv_qps V n (cv_ud_qp V)) \<Longrightarrow> queue_post_ok V KUdSend (uw_wr_id uw) n (ibv_post_send_ud env (cv_ud_qp V) uw n)"
  using assms by (simp_all add: verbs_contract_def)

lemma verbs_contract_quiet:
  assumes "verbs_contract env V U busy"
  shows "fst (ibv_create_ah env at n) \<noteq> None" "effect V {#} n (snd (ibv_create_ah env at n))"
    "effect V {#} n (snd (ibv_reg_mr env p l ac n))" "effect V {#} n (snd (ibv_reg_dmabuf_mr env x l p fd ac n))"
    "effect V {#} n (ibv_dereg_mr env mr n)" "postcard_to_slice env msg MAX_UD_MSG_BYTES \<noteq> None"
    "mset (hash_order env hs) = mset hs"
  using assms by (simp_all add: verbs_contract_def)

lemma effect_trans: "effect V X n n1 \<Longrightarrow> effect V Y n1 n2 \<Longrightarrow> effect V (X + Y) n n2"
  by (simp add: effect_def)

lemma effect_refl [simp]: "effect V {#} n n"
  by (simp add: effect_def)

lemma kcount_simps [simp]:
  "kcount k {#} = 0" "kcount k (M + N) = kcount k M + kcount k N"
  "kcount k (add_mset x M) = (if fst x = k then Suc (kcount k M) else kcount k M)"
  by (simp_all add: kcount_def)

section \<open>Counting the requests of a chain\<close>

text \<open>A chain that can be read ends, so no request of it occurs twice, and the count up to the bad one is right.\<close>

lemma read_chain_unique:
  "read_chain k buf p = Some ws \<Longrightarrow> read_chain k' buf p = Some ws' \<Longrightarrow> ws = ws'"
proof (induction k buf p arbitrary: ws k' ws' rule: read_chain.induct)
  case (3 k buf i)
  then show ?case by (cases k') (auto simp: bind_eq_Some_conv)
qed simp_all

lemma chain_nth_read:
  "read_chain k buf p = Some ws \<Longrightarrow> j \<le> length ws \<Longrightarrow>
   \<exists>q k'. chain_nth j buf p = Some q \<and> read_chain k' buf q = Some (drop j ws)"
proof (induction j arbitrary: k p ws)
  case (Suc j)
  then obtain i k' where p: "p = Some i" "k = Suc k'" by (cases p; cases k) auto
  then obtain slot wr ws' where "index buf i = Some slot" "slot = Some wr" "read_chain k' buf (wr_next wr) = Some ws'"
    "ws = wr # ws'" using Suc.prems(1) by (auto simp: bind_eq_Some_conv)
  then show ?case using Suc.IH [of k' "wr_next wr" ws'] Suc.prems(2) p by simp
qed (auto)

lemma read_chain_length: "read_chain k buf p = Some ws \<Longrightarrow> length ws \<le> k"
  by (induction k buf p arbitrary: ws rule: read_chain.induct) (auto simp: bind_eq_Some_conv)

lemma count_until_nth:
  "read_chain k buf p = Some ws \<Longrightarrow> j \<le> length ws \<Longrightarrow> j \<le> f \<Longrightarrow> chain_nth j buf p = Some q \<Longrightarrow>
   count_until f buf p q = Some j"
proof (induction j arbitrary: k p ws f)
  case 0
  then show ?case by (cases f) simp_all
next
  case (Suc j)
  then obtain i k' where p: "p = Some i" "k = Suc k'" by (cases p; cases k) auto
  then obtain slot wr ws' where w: "index buf i = Some slot" "slot = Some wr" "read_chain k' buf (wr_next wr) = Some ws'"
    "ws = wr # ws'" using Suc.prems(1) by (auto simp: bind_eq_Some_conv)
  obtain f' where f: "f = Suc f'" using Suc.prems(3) by (cases f) simp_all
  have IH: "count_until f' buf (wr_next wr) q = Some j"
    using Suc.IH [OF w(3), of f'] Suc.prems p w f by simp
  obtain q' k'' where "chain_nth (Suc j) buf p = Some q'" "read_chain k'' buf q' = Some (drop (Suc j) ws)"
    using chain_nth_read [OF Suc.prems(1,2)] by blast
  then have "read_chain k'' buf q = Some (drop (Suc j) ws)" using Suc.prems(4) by simp
  then have "p \<noteq> q" using read_chain_unique [OF Suc.prems(1), of k'' "drop (Suc j) ws"] Suc.prems(2)
    by (metis Suc_leD diff_less length_drop less_irrefl_nat not_less_eq_eq zero_less_Suc less_le_trans)
  then show ?case using IH p w f by simp
qed

section \<open>The iterator of a context\<close>

definition viok :: "bool \<Rightarrow> ptr set \<Rightarrow> slot \<Rightarrow> verbs_iter \<Rightarrow> bool" where
  "viok busy R a it \<longleftrightarrow> verbs_ok it \<and> (busy \<longrightarrow> (\<exists>p. it = VPaged p)) \<and>
     (\<forall>x \<in> set (verbs_todo it). fst x \<in> R \<and> wr_id (snd x) = CtxWrite a \<and> opcode (snd x) \<noteq> IBV_WR_SEND)"

definition vleft :: "verbs_iter \<Rightarrow> nat" where
  "vleft it = length (verbs_todo it)"

lemma viok_mono: "viok busy R a it \<Longrightarrow> R \<subseteq> R' \<Longrightarrow> viok busy R' a it"
  by (auto simp: viok_def)

lemma verbs_peek_items:
  assumes "verbs_ok it"
  shows "\<exists>qp start. verbs_peek it = Some (qp, start, length (verbs_items it))"
proof (cases it)
  case (VSingle s)
  then show ?thesis using assms vs_items [of s] by (simp add: vs_peek_def)
next
  case (VPaged p)
  then obtain b where "vp_ok b p" using assms by auto
  from vp_items [OF this] VPaged show ?thesis by (auto simp: vp_peek_def)
next
  case (VScatter c)
  then have c: "vc_ok c" "verbs_items it = take 1 (vc_todo c)" using assms vc_items [of c] by simp_all
  then show ?thesis using VScatter
    by (cases "vc_i_dst c < vc_dst_end c") (auto simp: vc_peek_def vc_todo_def vc_ok_def vc_wf_def)
qed

lemma chain_items:
  "verbs_peek it = Some (qp, start, len) \<Longrightarrow> verbs_items it \<noteq> [] \<Longrightarrow>
   \<exists>ws. read_chain (Suc WR_CHAIN_LEN) (verbs_buf it) start = Some ws \<and> verbs_items it = map (\<lambda>w. (qp, strip w)) ws"
  by (cases "read_chain (Suc WR_CHAIN_LEN) (verbs_buf it) start") (simp_all add: verbs_items_def)

lemma verbs_peek_cases:
  assumes ok: "viok busy R a it"
  obtains (empty) qp start where "verbs_peek it = Some (qp, start, 0)" "verbs_todo it = []"
  | (chain) qp start ws where "verbs_peek it = Some (qp, start, length ws)" "ws \<noteq> []" "qp \<in> R"
      "read_chain (Suc WR_CHAIN_LEN) (verbs_buf it) start = Some ws" "length ws \<le> vleft it"
      "map wr_op ws = replicate (length ws) (KWrite, CtxWrite a)" "length (verbs_items it) = length ws"
      "\<forall>w \<in> set ws. opcode w \<noteq> IBV_WR_SEND"
proof -
  have v: "verbs_ok it" using ok by (simp add: viok_def)
  from verbs_peek_items [OF this] obtain qp start where p: "verbs_peek it = Some (qp, start, length (verbs_items it))" by blast
  show thesis
  proof (cases "verbs_items it = []")
    case True
    then have "verbs_todo it = []" using vit.peek_progress [OF v] by blast
    moreover have "verbs_peek it = Some (qp, start, 0)" using p True by simp
    ultimately show thesis by (rule empty [rotated])
  next
    case False
    then obtain ws where ws: "read_chain (Suc WR_CHAIN_LEN) (verbs_buf it) start = Some ws"
      "verbs_items it = map (\<lambda>w. (qp, strip w)) ws"
      using chain_items [of it qp start "length (verbs_items it)"] p by blast
    have sub: "set (verbs_items it) \<subseteq> set (verbs_todo it)" using vit.peek_prefix [OF v] set_take_subset by metis
    have w: "qp \<in> R \<and> wr_id w = CtxWrite a \<and> opcode w \<noteq> IBV_WR_SEND" if "w \<in> set ws" for w
    proof -
      have "(qp, strip w) \<in> set (verbs_todo it)" using sub ws(2) that by auto
      then show ?thesis using ok by (force simp: viok_def strip_def)
    qed
    have "map wr_op ws = map (\<lambda>_. (KWrite, CtxWrite a)) ws" using w by (auto simp: wr_op_def)
    then have m: "map wr_op ws = replicate (length ws) (KWrite, CtxWrite a)" by (simp add: map_replicate_const)
    have ne: "ws \<noteq> []" using False ws(2) by auto
    have "qp \<in> R" using w [of "hd ws"] ne by simp
    moreover have "length ws \<le> vleft it" using vit.peek_length [OF v] ws(2) by (simp add: vleft_def)
    ultimately show thesis using chain [of qp start ws] p ws ne m w by simp
  qed
qed

text \<open>Advancing by what was accepted; by nothing only when a full queue is possible, where the iterator is paged.\<close>

lemma verbs_advance_viok:
  assumes ok: "viok busy R a it" and n: "n \<le> length (verbs_items it)" "n = 0 \<Longrightarrow> busy"
  shows "\<exists>it'. verbs_advance n it = Some it' \<and> viok busy R a it' \<and> vleft it = vleft it' + n"
proof -
  have v: "verbs_ok it" using ok by (simp add: viok_def)
  have "\<exists>it'. verbs_advance n it = Some it' \<and> verbs_ok it' \<and> verbs_todo it' = drop n (verbs_todo it) \<and>
      (busy \<longrightarrow> (\<exists>p. it' = VPaged p))"
  proof (cases "busy")
    case True
    then obtain p b where p: "it = VPaged p" "vp_ok b p" using ok by (auto simp: viok_def)
    have "n \<le> wr_len p" using n(1) vp_items [OF p(2)] p(1) by auto
    from vp_advance_ok [OF p(2) this] show ?thesis using p verbs_todo_paged by fastforce
  next
    case False
    then show ?thesis using vit.advance_ok [OF v _ n(1)] n(2) by fastforce
  qed
  then obtain it' where it': "verbs_advance n it = Some it'" "verbs_ok it'" "verbs_todo it' = drop n (verbs_todo it)"
    "busy \<longrightarrow> (\<exists>p. it' = VPaged p)" by blast
  have "n \<le> length (verbs_todo it)" using n(1) vit.peek_length [OF v] by simp
  moreover have "viok busy R a it'" using ok it' by (auto simp: viok_def dest: in_set_dropD)
  ultimately show ?thesis using it' by (simp add: vleft_def)
qed

section \<open>New iterators\<close>

fun busy_ok :: "bool \<Rightarrow> write_op \<Rightarrow> bool" where
  "busy_ok busy (PagedW op) = True"
| "busy_ok busy _ = (\<not> busy)"

lemma opcode_imm_write [simp]: "fst (opcode_imm imm) \<noteq> IBV_WR_SEND"
  by (simp add: opcode_imm_def split: option.splits)

lemma verbs_write_new_ok:
  assumes "write_op_ok op" "busy_ok busy op" "qp \<in> R"
  shows "\<exists>it. (case op of
              SingleW op \<Rightarrow> Some (VSingle (verbs_new_single op qp (replicate WR_CHAIN_LEN None) (CtxWrite a)))
            | ImmW op \<Rightarrow> Some (VSingle (verbs_new_imm op qp (replicate WR_CHAIN_LEN None) (CtxWrite a)))
            | PagedW op \<Rightarrow> map_option VPaged (verbs_paged_new op qp (replicate WR_CHAIN_LEN None) (CtxWrite a))) = Some it \<and>
           viok busy R a it \<and> vleft it = verbs_total_ops it"
proof (cases op)
  case (PagedW p)
  then have p: "paged_op_ok p" "length (replicate WR_CHAIN_LEN None :: wr_chain_buffer) = 4"
    using assms(1) by (simp_all add: WR_CHAIN_LEN_def)
  from verbs_paged_new_ok [OF p, of qp "CtxWrite a"] obtain b it where
    it: "verbs_paged_new p qp (replicate WR_CHAIN_LEN None) (CtxWrite a) = Some it" "vp_ok b it"
    "vp_todo b it = map (\<lambda>i. (qp, paged_wr_spec p (CtxWrite a) i)) [pw_page_indices_beg p..<pw_page_indices_end p]"
    "vp_total_ops it = pw_page_indices_end p - pw_page_indices_beg p" by blast
  have "viok busy R a (VPaged it)"
    using it(2,3) verbs_todo_paged [OF it(2)] assms(3) by (auto simp: viok_def paged_wr_spec_def)
  moreover have "vleft (VPaged it) = verbs_total_ops (VPaged it)"
    using it(3,4) verbs_todo_paged [OF it(2)] by (simp add: vleft_def)
  ultimately show ?thesis using PagedW it(1) by simp
qed (use assms in \<open>auto simp: viok_def vleft_def verbs_new_single_def verbs_new_imm_def case_prod_beta Let_def WR_CHAIN_LEN_def\<close>)

lemma verbs_scatter_iter_ok:
  assumes op: "scatter_op_ok op (length qps)" "scatter_targets_ok op" and R: "set qps \<subseteq> R" and busy: "\<not> busy"
  shows "\<exists>it. verbs_scatter_new op qps (replicate WR_CHAIN_LEN None) (CtxWrite a) = Some it \<and> viok busy R a (VScatter it) \<and>
           vleft (VScatter it) = verbs_total_ops (VScatter it)"
proof -
  have "0 < length (replicate WR_CHAIN_LEN None :: wr_chain_buffer)" by (simp add: WR_CHAIN_LEN_def)
  from verbs_scatter_new_ok [OF op this, of "CtxWrite a"] obtain it where
    it: "verbs_scatter_new op qps (replicate WR_CHAIN_LEN None) (CtxWrite a) = Some it" "vc_ok it"
    "vc_todo it = map (\<lambda>i. (qps ! i, scatter_wr_spec op (CtxWrite a) i)) [sg_dst_beg op..<sg_dst_end op]"
    "vc_total_ops it = sg_dst_end op - sg_dst_beg op" by blast
  have "qps ! i \<in> R" if "i < sg_dst_end op" for i
    using that op(1) R by (auto simp: scatter_op_ok_def)
  then have "viok busy R a (VScatter it)"
    using it(2,3) busy by (auto simp: viok_def scatter_wr_spec_def Let_def)
  then show ?thesis using it by (simp add: vleft_def)
qed

section \<open>Posting keeps the counters\<close>

definition writes_only :: "posted_ops \<Rightarrow> bool" where
  "writes_only M \<longleftrightarrow> (\<forall>x \<in># M. \<exists>a. x = (KWrite, CtxWrite a))"

lemma writes_only_simps [simp]:
  "writes_only {#}" "writes_only (M + N) \<longleftrightarrow> writes_only M \<and> writes_only N"
  "writes_only (replicate_mset k (KWrite, CtxWrite a))"
  by (auto simp: writes_only_def)

lemma writes_only_posted: "writes_only M \<Longrightarrow> posted_ok M"
  by (auto simp: writes_only_def posted_ok_def)

lemma writes_only_kcount: "writes_only M \<Longrightarrow> k \<noteq> KWrite \<Longrightarrow> kcount k M = 0"
  by (auto simp: writes_only_def kcount_def)

lemma on_card_union: "on_card (M + N) a = on_card M a + on_card N a"
  by (simp add: on_card_def)

lemma on_card_replicate: "on_card (replicate_mset k (KWrite, CtxWrite a)) b = (if b = a then k else 0)"
  by (simp add: on_card_def)

text \<open>Some operations of one context were posted, and its counters say so; \<open>X\<close> are completions still to handle.\<close>

definition vkeeps ::
    "'n card_view \<Rightarrow> bool \<Rightarrow> ptr set \<Rightarrow> posted_ops \<Rightarrow> slot \<Rightarrow> verbs_iter write_ctx \<Rightarrow> 'n \<Rightarrow> verbs_iter write_ctx \<Rightarrow> 'n \<Rightarrow> bool" where
  "vkeeps V busy R X a c n c' n' \<longleftrightarrow>
     ctx_ok (viok busy R) vleft (on_card (cv_out V n' + X) a) a c' \<and> ctx_same c c' \<and>
     (\<exists>k. effect V (replicate_mset k (KWrite, CtxWrite a)) n n')"

lemma replicate_mset_add: "replicate_mset k x + replicate_mset l x = replicate_mset (k + l) x"
  by (induction k) simp_all

lemma vkeeps_trans: "vkeeps V busy R X a c n c' n' \<Longrightarrow> vkeeps V busy R X a c' n' c'' n'' \<Longrightarrow> vkeeps V busy R X a c n c'' n''"
  unfolding vkeeps_def
proof (elim conjE exE, intro conjI)
  fix k l assume "effect V (replicate_mset k (KWrite, CtxWrite a)) n n'" "effect V (replicate_mset l (KWrite, CtxWrite a)) n' n''"
  from effect_trans [OF this] show "\<exists>k. effect V (replicate_mset k (KWrite, CtxWrite a)) n n''"
    unfolding replicate_mset_add by blast
qed (auto intro: ctx_same_trans)

lemma vkeeps_post:
  assumes c: "ctx_ok (viok busy R) vleft (on_card (cv_out V n + X) a) a c"
    and it: "viok busy R a it" "vleft (ctx_iter c) = vleft it + k"
    and n: "effect V (mset (map wr_op ws)) n n'" "map wr_op ws = replicate k (KWrite, CtxWrite a)"
  shows "vkeeps V busy R X a c n (c\<lparr>ctx_iter := it, ctx_posted := ctx_posted c + k\<rparr>) n'"
proof -
  have e: "effect V (replicate_mset k (KWrite, CtxWrite a)) n n'" using n by simp
  then have "on_card (cv_out V n' + X) a = on_card (cv_out V n + X) a + k"
    by (simp add: effect_def on_card_union on_card_replicate)
  then have "ctx_ok (viok busy R) vleft (on_card (cv_out V n' + X) a) a (c\<lparr>ctx_iter := it, ctx_posted := ctx_posted c + k\<rparr>)"
    using c it by (auto simp: ctx_ok_def)
  then show ?thesis using e by (auto simp: vkeeps_def ctx_same_def)
qed

lemma verbs_step_ok:
  assumes con: "verbs_contract env V U busy" and R: "\<And>qp. qp \<in> R \<Longrightarrow> can_post (cv_qps V n qp)"
    and c: "ctx_ok (viok busy R) vleft (on_card (cv_out V n + X) a) a c"
  shows "\<exists>b c' n'. verbs_write_step env c n = Some (b, c', n') \<and> vkeeps V busy R X a c n c' n' \<and>
           (b \<longrightarrow> vleft (ctx_iter c') < vleft (ctx_iter c))"
proof -
  have ok: "viok busy R a (ctx_iter c)" using c by (simp add: ctx_ok_def)
  have refl: "vkeeps V busy R X a c n c n"
    unfolding vkeeps_def using c by (intro conjI exI [of _ 0]) simp_all
  from ok show ?thesis
  proof (cases rule: verbs_peek_cases)
    case (empty qp start)
    then have "verbs_write_step env c n = Some (False, c, n)" by (simp add: verbs_write_step_def)
    then show ?thesis using refl by blast
  next
    case (chain qp start ws)
    obtain r n' where r: "ibv_post_send env qp ws n = (r, n')" by fastforce
    have s: "send_ok V busy qp ws n (r, n')" "can_post (cv_qps V n qp)"
      using verbs_contractD(1) [OF con, of qp ws n] r R chain(3) by simp_all
    show ?thesis
    proof (cases r)
      case PostOk
      obtain it' where it': "verbs_advance (length ws) (ctx_iter c) = Some it'" "viok busy R a it'"
        "vleft (ctx_iter c) = vleft it' + length ws"
        using verbs_advance_viok [OF ok, of "length ws"] chain(2,7) by auto
      have "effect V (mset (map wr_op ws)) n n'" using s PostOk by (simp add: send_ok_def)
      from vkeeps_post [OF c it'(2,3) this chain(6)] show ?thesis
        using r PostOk chain it' by (simp add: verbs_write_step_def ex_bool_eq del: count_until.simps read_chain.simps)
    next
      case (PostNomem k)
      then have k: "k < length ws" "effect V (mset (map wr_op (take k ws))) n n'" "busy"
        using s chain(2,8) by (auto simp: send_ok_def)
      obtain it' where it': "verbs_advance k (ctx_iter c) = Some it'" "viok busy R a it'" "vleft (ctx_iter c) = vleft it' + k"
        using verbs_advance_viok [OF ok, of k] chain(7) k by auto
      obtain q where q: "chain_nth k (verbs_buf (ctx_iter c)) start = Some q"
        using chain_nth_read [OF chain(4), of k] k(1) by auto
      have "length ws \<le> Suc WR_CHAIN_LEN" using read_chain_length [OF chain(4)] .
      then have "count_until (Suc WR_CHAIN_LEN) (verbs_buf (ctx_iter c)) start q = Some k"
        using k(1) by (intro count_until_nth [OF chain(4) _ _ q]) simp_all
      moreover have "map wr_op (take k ws) = replicate k (KWrite, CtxWrite a)"
        using chain(6) k(1) by (metis min.strict_order_iff take_map take_replicate)
      moreover note vkeeps_post [OF c it'(2,3) k(2) this]
      ultimately show ?thesis using r PostNomem chain it' q by (simp add: verbs_write_step_def ex_bool_eq del: count_until.simps read_chain.simps)
    next
      case (PostErr e)
      then show ?thesis using s by (simp add: send_ok_def)
    qed
  qed
qed

lemma verbs_loop_ok:
  assumes con: "verbs_contract env V U busy"
  shows "(\<And>qp. qp \<in> R \<Longrightarrow> can_post (cv_qps V n qp)) \<Longrightarrow> ctx_ok (viok busy R) vleft (on_card (cv_out V n + X) a) a c \<Longrightarrow>
    \<exists>c' n'. verbs_write_loop env c n = Some (c', n') \<and> vkeeps V busy R X a c n c' n'"
proof (induction "vleft (ctx_iter c)" arbitrary: c n rule: less_induct)
  case less
  from verbs_step_ok [OF con less.prems] obtain b c1 n1 where
    s: "verbs_write_step env c n = Some (b, c1, n1)" "vkeeps V busy R X a c n c1 n1"
    "b \<longrightarrow> vleft (ctx_iter c1) < vleft (ctx_iter c)" by blast
  show ?case
  proof (cases b)
    case True
    have "cv_qps V n1 = cv_qps V n" using s(2) by (auto simp: vkeeps_def effect_def)
    then obtain c' n' where "verbs_write_loop env c1 n1 = Some (c', n')" "vkeeps V busy R X a c1 n1 c' n'"
      using less.hyps [of c1 n1] s less.prems(1) True by (auto simp: vkeeps_def)
    then show ?thesis using s True vkeeps_trans [OF s(2)] by (subst verbs_write_loop.simps) auto
  next
    case False
    then show ?thesis using s by (subst verbs_write_loop.simps) auto
  qed
qed

definition vposting :: "'n verbs_env \<Rightarrow> 'n card_view \<Rightarrow> domain_address set \<Rightarrow> bool \<Rightarrow> ptr set \<Rightarrow> 'n \<Rightarrow> 'n \<Rightarrow> bool" where
  "vposting env V U busy R n0 n \<longleftrightarrow> verbs_contract env V U busy \<and> (\<forall>qp \<in> R. can_post (cv_qps V n0 qp)) \<and>
     (\<exists>M. writes_only M \<and> effect V M n0 n)"

interpretation vctx: ctx_client "viok busy R" vleft "verbs_progress_write_op_context env"
    "\<lambda>n. on_card (cv_out V n + X)" "vposting env V U busy R n0"
  for env :: "'n verbs_env" and V U busy R X n0
proof unfold_locales
  fix n a c assume n: "vposting env V U busy R n0 n" and c: "ctx_ok (viok busy R) vleft (on_card (cv_out V n + X) a) a c"
  have con: "verbs_contract env V U busy" using n by (simp add: vposting_def)
  have R: "\<And>qp. qp \<in> R \<Longrightarrow> can_post (cv_qps V n qp)" using n by (auto simp: vposting_def effect_def)
  obtain c' n' where p: "verbs_progress_write_op_context env c n = Some (c', n')" "vkeeps V busy R X a c n c' n'"
  proof (cases "ctx_bad c")
    case True
    moreover have "vkeeps V busy R X a c n c n"
      unfolding vkeeps_def using c by (intro conjI exI [of _ 0]) simp_all
    ultimately show thesis using that [of c n] by (simp add: verbs_progress_write_op_context_def)
  next
    case False
    then show thesis using verbs_loop_ok [OF con R c] that by (auto simp: verbs_progress_write_op_context_def)
  qed
  then obtain k where e: "effect V (replicate_mset k (KWrite, CtxWrite a)) n n'" by (auto simp: vkeeps_def)
  obtain M where "writes_only M" "effect V M n0 n" using n by (auto simp: vposting_def)
  then have "vposting env V U busy R n0 n'"
    using n effect_trans [OF _ e] by (auto simp: vposting_def intro!: exI [of _ "M + replicate_mset k (KWrite, CtxWrite a)"])
  moreover have "\<forall>b. b \<noteq> a \<longrightarrow> on_card (cv_out V n' + X) b = on_card (cv_out V n + X) b"
    using e by (simp add: effect_def on_card_union on_card_replicate)
  ultimately show "\<exists>c' n'. verbs_progress_write_op_context env c n = Some (c', n') \<and> vposting env V U busy R n0 n' \<and>
      ctx_ok (viok busy R) vleft (on_card (cv_out V n' + X) a) a c' \<and>
      (\<forall>b. b \<noteq> a \<longrightarrow> on_card (cv_out V n' + X) b = on_card (cv_out V n + X) b) \<and> ctx_same c c'"
    using p by (auto simp: vkeeps_def)
qed

end
