(* ===== verification/Verbs_Inv.thy ===== *)
theory Verbs_Inv
  imports Verbs_Card
begin

text \<open>
  The invariant of a verbs domain over a card that keeps the contract of theory \<open>Verbs_Card\<close>, and the operations
  that submit work: opening peers, adding groups, sending and writing keep it without a panic.
\<close>

declare split_paired_All [simp del] split_paired_Ex [simp del]

section \<open>The invariant\<close>

text \<open>At most \<open>MAX_UD_SENDS\<close> peers, with addresses that can be decoded.\<close>

definition peers_bound :: "domain_address set \<Rightarrow> bool" where
  "peers_bound U \<longleftrightarrow> finite U \<and> card U \<le> MAX_UD_SENDS \<and> (\<forall>a \<in> U. ud_from_bytes (address_bytes a) \<noteq> None)"

abbreviation msg_qp :: "verbs_peer \<Rightarrow> ptr" where
  "msg_qp p \<equiv> rcq_qp (peer_msg_rc p)"

abbreviation rma_qp :: "verbs_peer \<Rightarrow> ptr" where
  "rma_qp p \<equiv> rcq_qp (peer_rma_rc p)"

type_synonym peer_map = "domain_address \<rightharpoonup> verbs_peer"

text \<open>The queue pairs of the established peers, and the write queue pairs of the others.\<close>

definition ready :: "peer_map \<Rightarrow> ptr set" where
  "ready P = {qp. \<exists>a p. P a = Some p \<and> peer_st p = Established \<and> (qp = msg_qp p \<or> qp = rma_qp p)}"

definition conn_qps :: "peer_map \<Rightarrow> ptr set" where
  "conn_qps P = {rma_qp p |p. (\<exists>a. P a = Some p) \<and> peer_st p \<noteq> Established}"

definition out_op_ok :: "bool \<Rightarrow> outbound_op \<Rightarrow> bool" where
  "out_op_ok busy op \<longleftrightarrow> (case op of OutSend _ \<Rightarrow> True | OutWrite w \<Rightarrow> write_op_ok w \<and> busy_ok busy w)"

definition peer_ok :: "bool \<Rightarrow> (ptr \<rightharpoonup> qp_state) \<Rightarrow> verbs_peer \<Rightarrow> bool" where
  "peer_ok busy Q p \<longleftrightarrow> msg_qp p \<noteq> rma_qp p \<and>
     (case peer_st p of
        Connecting subs gs \<Rightarrow> Q (msg_qp p) = Some QpsReset \<and> Q (rma_qp p) = Some QpsReset \<and>
          (\<forall>x \<in> set subs. out_op_ok busy (snd x)) \<and> distinct gs
      | Established \<Rightarrow> can_post (Q (msg_qp p)) \<and> can_post (Q (rma_qp p)))"

definition peers_ok :: "domain_address set \<Rightarrow> bool \<Rightarrow> (ptr \<rightharpoonup> qp_state) \<Rightarrow> peer_map \<Rightarrow> bool" where
  "peers_ok U busy Q P \<longleftrightarrow> dom P \<subseteq> U \<and> (\<forall>a p. P a = Some p \<longrightarrow> peer_ok busy Q p) \<and>
     (\<forall>a b p q. P a = Some p \<longrightarrow> P b = Some q \<longrightarrow> a \<noteq> b \<longrightarrow> {msg_qp p, rma_qp p} \<inter> {msg_qp q, rma_qp q} = {})"

text \<open>
  Datagram buffers: those on the card are the live slots of the pool, each posted once. Receives are
  at most those posted by \<open>post_init\<close>, sends at most one for each peer.
\<close>

definition ud_bufs :: "posted_ops \<Rightarrow> ptr set" where
  "ud_bufs M = {p. (KUdRecv, CtxBuf p) \<in># M \<or> (KUdSend, CtxBuf p) \<in># M}"

definition ud_ok :: "posted_ops \<Rightarrow> memory_pool \<Rightarrow> nat \<Rightarrow> bool" where
  "ud_ok M pool k \<longleftrightarrow> mp_inv pool (ud_bufs M) \<and> card (mp_slots pool) = NUM_UD_RECVS + MAX_UD_SENDS \<and>
     mp_chunk_size pool = MAX_UD_MSG_BYTES \<and>
     (\<forall>p. count M (KUdRecv, CtxBuf p) + count M (KUdSend, CtxBuf p) \<le> 1) \<and>
     kcount KUdRecv M \<le> NUM_UD_RECVS \<and> kcount KUdSend M \<le> k \<and> kcount KImm M \<le> NUM_IMM_RECVS"

text \<open>
  The part of the invariant about the card, the peers and the writes. \<open>X\<close> are the completions
  that were read and are still to be handled.
\<close>

definition held :: "'n card_view \<Rightarrow> posted_ops \<Rightarrow> 'n verbs_domain \<Rightarrow> posted_ops" where
  "held V X d = cv_out V (vd_nic d) + X"

definition handles_ok :: "'n card_view \<Rightarrow> 'n verbs_domain \<Rightarrow> bool" where
  "handles_ok V d \<longleftrightarrow> udq_qp (vd_ud d) = cv_ud_qp V \<and> ud_qp_num (udq_addr (vd_ud d)) = cv_ud_num V \<and>
     vd_msg_srq d = cv_msg_srq V \<and> vd_rma_srq d = cv_rma_srq V \<and> can_post (cv_qps V (vd_nic d) (cv_ud_qp V))"

definition core :: "domain_address set \<Rightarrow> bool \<Rightarrow> 'n card_view \<Rightarrow> posted_ops \<Rightarrow> 'n verbs_domain \<Rightarrow> bool" where
  "core U busy V X d \<longleftrightarrow> handles_ok V d \<and> posted_ok (held V X d) \<and>
     store_ok (viok busy (ready (vd_peers d))) vleft (on_card (held V X d)) (vd_writes d) \<and>
     (\<forall>x \<in> set (vd_send_ops d). fst (snd x) \<in> ready (vd_peers d)) \<and>
     peers_ok U busy (cv_qps V (vd_nic d)) (vd_peers d) \<and>
     ud_ok (held V X d) (vd_ud_mempool d) (card (dom (vd_peers d))) \<and>
     card (dom (cv_qps V (vd_nic d))) \<le> 1 + 2 * card (dom (vd_peers d))"

text \<open>A group, or a group write, that waits for some of its peers; the others are established.\<close>

definition waiting :: "peer_map \<Rightarrow> ptr list \<Rightarrow> ptr list \<Rightarrow> bool" where
  "waiting P qps pending \<longleftrightarrow> pending \<noteq> [] \<and> set pending \<subseteq> conn_qps P \<and> set qps \<subseteq> ready P \<union> set pending"

definition gwrite_ok :: "bool \<Rightarrow> ptr list \<Rightarrow> group_write_op \<Rightarrow> bool" where
  "gwrite_ok busy qps op \<longleftrightarrow> \<not> busy \<and> group_write_ok (Some (length qps)) op"

definition groups_ok ::
    "bool \<Rightarrow> peer_map \<Rightarrow> (peer_group_handle \<times> connecting_peer_group) list \<Rightarrow> (peer_group_handle \<rightharpoonup> ptr list) \<Rightarrow> bool" where
  "groups_ok busy P C G \<longleftrightarrow> distinct (map fst C) \<and>
     (\<forall>h g. (h, g) \<in> set C \<longrightarrow> waiting P (cg_rma_qps g) (cg_pending_peers g) \<and>
        (\<forall>x \<in> set (cg_pending_group_ops g). gwrite_ok busy (cg_rma_qps g) (snd x))) \<and>
     (\<forall>h qps. G h = Some qps \<longrightarrow> set qps \<subseteq> ready P)"

text \<open>
  A pending group write is initialised, and exactly the peers it waits for have its slot in their lists.
\<close>

definition pg_ops_ok :: "bool \<Rightarrow> (slot \<rightharpoonup> pending_group_write_op) \<Rightarrow> bool" where
  "pg_ops_ok busy H \<longleftrightarrow>
     (\<forall>s pg. H s = Some pg \<longrightarrow> (\<exists>op. pg_op pg = Some op \<and> gwrite_ok busy (pg_rma_qps pg) op))"

definition links_ok :: "peer_map \<Rightarrow> object_pool \<Rightarrow> (slot \<rightharpoonup> pending_group_write_op) \<Rightarrow> bool" where
  "links_ok P pool H \<longleftrightarrow> op_inv pool (dom H) \<and>
     (\<forall>s pg. H s = Some pg \<longrightarrow> waiting P (pg_rma_qps pg) (pg_pending_peers pg)) \<and>
     (\<forall>b p subs gs. P b = Some p \<longrightarrow> peer_st p = Connecting subs gs \<longrightarrow>
        (\<forall>s. s \<in> set gs \<longleftrightarrow> (\<exists>pg. H s = Some pg \<and> rma_qp p \<in> set (pg_pending_peers pg))))"

definition pends_ok :: "bool \<Rightarrow> peer_map \<Rightarrow> object_pool \<Rightarrow> (slot \<rightharpoonup> pending_group_write_op) \<Rightarrow> bool" where
  "pends_ok busy P pool H \<longleftrightarrow> links_ok P pool H \<and> pg_ops_ok busy H"

definition vinv :: "domain_address set \<Rightarrow> bool \<Rightarrow> 'n card_view \<Rightarrow> posted_ops \<Rightarrow> 'n verbs_domain \<Rightarrow> bool" where
  "vinv U busy V X d \<longleftrightarrow> core U busy V X d \<and> groups_ok busy (vd_peers d) (vd_connecting d) (vd_peer_groups d) \<and>
     pends_ok busy (vd_peers d) (vd_pending_pool d) (vd_pending d)"

text \<open>What a step on the writes leaves alone.\<close>

definition vframe :: "'n card_view \<Rightarrow> 'n verbs_domain \<Rightarrow> 'n verbs_domain \<Rightarrow> bool" where
  "vframe V d d' \<longleftrightarrow> vd_peers d' = vd_peers d \<and> vd_connecting d' = vd_connecting d \<and>
     vd_peer_groups d' = vd_peer_groups d \<and> vd_pending_pool d' = vd_pending_pool d \<and> vd_pending d' = vd_pending d \<and>
     cv_arrivals V (vd_nic d') = cv_arrivals V (vd_nic d)"

lemma vframe_refl [simp]: "vframe V d d"
  by (simp add: vframe_def)

lemma vframe_trans: "vframe V d e \<Longrightarrow> vframe V e f \<Longrightarrow> vframe V d f"
  by (simp add: vframe_def)

lemma vframe_inv: "vinv U busy V X d \<Longrightarrow> core U busy V Y d' \<Longrightarrow> vframe V d d' \<Longrightarrow> vinv U busy V Y d'"
  by (simp add: vinv_def vframe_def)

section \<open>Stores and bounds\<close>

lemma store_ok_mono:
  assumes "store_ok iok left out s" "\<And>a it. iok a it \<Longrightarrow> iok' a it"
  shows "store_ok iok' left out s"
  using assms by (fastforce simp: store_ok_def heap_ok_def ctx_ok_def)

lemma store_viok_mono:
  "store_ok (viok busy R) vleft out s \<Longrightarrow> R \<subseteq> R' \<Longrightarrow> store_ok (viok busy R') vleft out s"
  by (rule store_ok_mono [of "viok busy R" vleft out s "viok busy R'"]) (auto intro: viok_mono)

lemma ready_can_post: "core U busy V X d \<Longrightarrow> qp \<in> ready (vd_peers d) \<Longrightarrow> can_post (cv_qps V (vd_nic d) qp)"
  by (fastforce simp: core_def peers_ok_def peer_ok_def ready_def)

text \<open>Posting writes leaves the accounts of the datagrams.\<close>

lemma ud_bufs_writes: "writes_only M \<Longrightarrow> ud_bufs (N + M) = ud_bufs N"
  by (auto simp: ud_bufs_def writes_only_def)

lemma count_writes: "writes_only M \<Longrightarrow> fst x \<noteq> KWrite \<Longrightarrow> count M x = 0"
  by (cases x) (auto simp: writes_only_def count_eq_zero_iff)

lemma ud_ok_writes: "writes_only M \<Longrightarrow> ud_ok (N + M) pool k = ud_ok N pool k"
  by (simp add: ud_ok_def ud_bufs_writes count_writes writes_only_kcount)

text \<open>A change of the contexts and the card that only posts writes.\<close>

lemma core_writes:
  assumes c: "core U busy V X d" and e: "effect V M (vd_nic d) n'" "writes_only M"
    and s: "store_ok (viok busy (ready (vd_peers d))) vleft (on_card (cv_out V n' + X)) s'"
  shows "core U busy V X (d\<lparr>vd_writes := s', vd_nic := n'\<rparr>) \<and> vframe V d (d\<lparr>vd_writes := s', vd_nic := n'\<rparr>)"
proof -
  have held: "held V X (d\<lparr>vd_writes := s', vd_nic := n'\<rparr>) = held V X d + M"
    using e(1) by (simp add: held_def effect_def ac_simps)
  have "posted_ok (held V X d + M)" using c writes_only_posted [OF e(2)] by (simp add: core_def)
  moreover have "store_ok (viok busy (ready (vd_peers d))) vleft (on_card (held V X d + M)) s'"
    using s e(1) by (simp add: held_def effect_def ac_simps)
  ultimately show ?thesis
    using c e ud_ok_writes [OF e(2)] unfolding core_def held
    by (simp add: handles_ok_def effect_def vframe_def)
qed

section \<open>Submitting writes\<close>

lemma vsubmit_ok:
  assumes con: "verbs_contract env V U busy" and c: "core U busy V X d"
    and it: "\<And>a. \<exists>it. construct (CtxWrite a) (replicate WR_CHAIN_LEN None) = Some it \<and>
               viok busy (ready (vd_peers d)) a it \<and> vleft it = verbs_total_ops it"
  shows "\<exists>d'. verbs_do_submit_write env tid construct d = Some d' \<and> core U busy V X d' \<and> vframe V d d'"
proof -
  let ?R = "ready (vd_peers d)"
  have n: "vposting env V U busy ?R (vd_nic d) (vd_nic d)"
    unfolding vposting_def using con ready_can_post [OF c] by (auto intro!: exI [of _ "{#}"])
  have s: "store_ok (viok busy ?R) vleft (on_card (cv_out V (vd_nic d) + X)) (vd_writes d)"
    using c by (simp add: core_def held_def)
  from vctx.submit_ok [OF n s, of "\<lambda>a _. construct (CtxWrite a) (replicate WR_CHAIN_LEN None)" verbs_total_ops tid] it
  obtain s' n' where r: "cs_submit (verbs_progress_write_op_context env) verbs_total_ops tid
      (\<lambda>a _. construct (CtxWrite a) (replicate WR_CHAIN_LEN None)) (vd_writes d) (vd_nic d) = Some (s', n')"
    "vposting env V U busy ?R (vd_nic d) n'" "store_ok (viok busy ?R) vleft (on_card (cv_out V n' + X)) s'" by blast
  obtain M where "writes_only M" "effect V M (vd_nic d) n'" using r(2) by (auto simp: vposting_def)
  from core_writes [OF c this(2,1) r(3)] show ?thesis
    using r(1) by (simp add: verbs_do_submit_write_def verbs_set_writes_def)
qed

lemma outbound_ok:
  assumes con: "verbs_contract env V U busy" and c: "core U busy V X d" and op: "out_op_ok busy op"
    and qp: "mqp \<in> ready (vd_peers d)" "rqp \<in> ready (vd_peers d)"
  shows "\<exists>d'. do_submit_outbound_op env tid op mqp rqp d = Some d' \<and> core U busy V X d' \<and> vframe V d d'"
proof (cases op)
  case (OutSend s)
  then show ?thesis using c qp(1) by (simp add: do_submit_outbound_op_def core_def held_def handles_ok_def vframe_def)
next
  case (OutWrite w)
  then have w: "write_op_ok w" "busy_ok busy w" using op by (simp_all add: out_op_ok_def)
  show ?thesis unfolding do_submit_outbound_op_def OutWrite outbound_op.case
    by (rule vsubmit_ok [OF con c]) (rule verbs_write_new_ok [OF w qp(2)])
qed

lemma group_submit_ok:
  assumes con: "verbs_contract env V U busy" and c: "core U busy V X d" and op: "gwrite_ok busy qps op"
    and qps: "set qps \<subseteq> ready (vd_peers d)"
  shows "\<exists>d'. verbs_do_submit_group_write env tid qps op d = Some d' \<and> core U busy V X d' \<and> vframe V d d'"
proof (cases op)
  case (ScatterW sc)
  then have sc: "scatter_op_ok sc (length qps)" "scatter_targets_ok sc" "\<not> busy" using op by (auto simp: gwrite_ok_def)
  show ?thesis unfolding verbs_do_submit_group_write_def ScatterW group_write_op.case
    by (rule vsubmit_ok [OF con c]) (use verbs_scatter_iter_ok [OF sc(1,2) qps sc(3)] in fastforce)
qed

text \<open>A loop of submissions that keep the core and the frame.\<close>

lemma foldM_core:
  assumes step: "\<And>x e. x \<in> set xs \<Longrightarrow> core U busy V X e \<Longrightarrow> vframe V d e \<Longrightarrow>
      \<exists>e'. f x e = Some e' \<and> core U busy V X e' \<and> vframe V e e'"
    and c: "core U busy V X d"
  shows "\<exists>d'. foldM f xs d = Some d' \<and> core U busy V X d' \<and> vframe V d d'"
proof -
  have "\<exists>e'. foldM f ys e = Some e' \<and> core U busy V X e' \<and> vframe V d e'"
    if "set ys \<subseteq> set xs" "core U busy V X e" "vframe V d e" for ys e
    using that
  proof (induction ys arbitrary: e)
    case (Cons y ys)
    then obtain e1 where "f y e = Some e1" "core U busy V X e1" "vframe V e e1" using step [of y e] by auto
    then show ?case using Cons.IH [of e1] Cons.prems vframe_trans [of V d e e1] by auto
  qed simp
  from this [of xs d] c show ?thesis by simp
qed

section \<open>Datagram buffers\<close>

lemma ud_bufs_add: "ud_bufs (add_mset x M) = ud_bufs M \<union> (case x of (KUdRecv, CtxBuf p) \<Rightarrow> {p} | (KUdSend, CtxBuf p) \<Rightarrow> {p} | _ \<Rightarrow> {})"
  by (auto simp: ud_bufs_def split: prod.splits op_kind.splits op_context.splits)

lemma ud_bufs_card: "finite (ud_bufs M) \<and> card (ud_bufs M) \<le> kcount KUdRecv M + kcount KUdSend M"
proof (induction M)
  case empty
  then show ?case by (simp add: ud_bufs_def)
next
  case (add x M)
  then show ?case
    by (auto simp: ud_bufs_add card_insert_if split: prod.splits op_kind.splits op_context.splits)
qed

lemma ud_take:
  assumes ok: "ud_ok M pool k" and room: "kcount KUdRecv M + kcount KUdSend M < NUM_UD_RECVS + MAX_UD_SENDS"
  obtains p pool' where "mp_alloc pool = Some (p, pool')" "mp_inv pool' (insert p (ud_bufs M))"
    "mp_slots pool' = mp_slots pool" "mp_chunk_size pool' = mp_chunk_size pool"
    "count M (KUdRecv, CtxBuf p) = 0" "count M (KUdSend, CtxBuf p) = 0"
proof -
  have inv: "mp_inv pool (ud_bufs M)" using ok by (simp add: ud_ok_def)
  have "card (ud_bufs M) < card (mp_slots pool)" using ud_bufs_card [of M] room ok by (simp add: ud_ok_def)
  then have "mp_free_list pool \<noteq> []" using inv by (auto simp: mp_inv_def)
  then obtain p pool' where a: "mp_alloc pool = Some (p, pool')" by (auto simp: mp_alloc_def vec_pop_def)
  from mp_alloc_inv [OF inv a] have p: "p \<notin> ud_bufs M" "mp_inv pool' (insert p (ud_bufs M))" by simp_all
  show thesis
    by (rule that [OF a p(2)]) (use a p(1) in \<open>auto simp: mp_alloc_def ud_bufs_def count_eq_zero_iff split: option.splits\<close>)
qed

lemma ud_alloc:
  assumes ok: "ud_ok M pool k" and k: "k < MAX_UD_SENDS"
  shows "\<exists>p pool'. mp_alloc pool = Some (p, pool') \<and> ud_ok (add_mset (KUdSend, CtxBuf p) M) pool' (Suc k)"
proof -
  have "kcount KUdRecv M + kcount KUdSend M < NUM_UD_RECVS + MAX_UD_SENDS" using ok k by (simp add: ud_ok_def)
  from ud_take [OF ok this] show ?thesis using ok by (fastforce simp: ud_ok_def ud_bufs_add)
qed

lemma ud_alloc_recv:
  assumes ok: "ud_ok M pool k" and k: "k \<le> MAX_UD_SENDS" "kcount KUdRecv M < NUM_UD_RECVS"
  shows "\<exists>p pool'. mp_alloc pool = Some (p, pool') \<and> ud_ok (add_mset (KUdRecv, CtxBuf p) M) pool' k"
proof -
  have "kcount KUdRecv M + kcount KUdSend M < NUM_UD_RECVS + MAX_UD_SENDS" using ok k by (simp add: ud_ok_def)
  from ud_take [OF ok this] show ?thesis using ok k(2) by (fastforce simp: ud_ok_def ud_bufs_add)
qed

section \<open>Opening a peer\<close>

lemma rc_new_ok:
  assumes con: "verbs_contract env V U busy" and room: "card (dom (cv_qps V n)) < 1 + 2 * MAX_UD_SENDS"
  shows "\<exists>q n'. rc_queue_pair_new env srq g l k psn n = (Inr q, n') \<and> cv_qps V n (rcq_qp q) = None \<and>
           cv_qps V n' = (cv_qps V n)(rcq_qp q \<mapsto> QpsReset) \<and> cv_out V n' = cv_out V n \<and> cv_arrivals V n' = cv_arrivals V n"
proof -
  obtain r n' where r: "ibv_create_qp env (QptRc srq) k n = (r, n')" by fastforce
  from verbs_contractD(5) [OF con, of n srq k] room r show ?thesis
    by (auto simp: create_ok_def rc_queue_pair_new_def)
qed

lemma on_nic_eq: "f (vd_nic d) = (r, n) \<Longrightarrow> on_nic f d = (r, d\<lparr>vd_nic := n\<rparr>)"
  by (simp add: on_nic_def)

lemma create_peer_ok:
  assumes con: "verbs_contract env V U busy" and a: "ud_from_bytes (address_bytes a) \<noteq> None"
    and room: "card (dom (cv_qps V (vd_nic d))) + 1 < 1 + 2 * MAX_UD_SENDS"
  shows "\<exists>peer n'. create_peer env a subs gs d = (Inr peer, d\<lparr>vd_nic := n'\<rparr>) \<and> peer_st peer = Connecting subs gs \<and>
      msg_qp peer \<noteq> rma_qp peer \<and> cv_qps V (vd_nic d) (msg_qp peer) = None \<and> cv_qps V (vd_nic d) (rma_qp peer) = None \<and>
      cv_qps V n' = (cv_qps V (vd_nic d))(msg_qp peer \<mapsto> QpsReset, rma_qp peer \<mapsto> QpsReset) \<and>
      cv_out V n' = cv_out V (vd_nic d) \<and> cv_arrivals V n' = cv_arrivals V (vd_nic d)"
proof -
  obtain ud where ud: "ud_from_bytes (address_bytes a) = Some ud" using a by blast
  obtain q1 n1 where 1: "rc_queue_pair_new env (vd_msg_srq d) (vd_gid d) (vd_lid d) (of_nat MAX_OPS) 123 (vd_nic d) = (Inr q1, n1)"
    "cv_qps V (vd_nic d) (rcq_qp q1) = None" "cv_qps V n1 = (cv_qps V (vd_nic d))(rcq_qp q1 \<mapsto> QpsReset)"
    "cv_out V n1 = cv_out V (vd_nic d)" "cv_arrivals V n1 = cv_arrivals V (vd_nic d)"
    using rc_new_ok [OF con, of "vd_nic d"] room by fastforce
  have "card (dom (cv_qps V n1)) \<le> Suc (card (dom (cv_qps V (vd_nic d))))"
    using 1(3) by (simp add: card_insert_le_m1 card_insert_if)
  then obtain q2 n2 where 2: "rc_queue_pair_new env (vd_rma_srq d) (vd_gid d) (vd_lid d) (of_nat MAX_OPS) 456 n1 = (Inr q2, n2)"
    "cv_qps V n1 (rcq_qp q2) = None" "cv_qps V n2 = (cv_qps V n1)(rcq_qp q2 \<mapsto> QpsReset)"
    "cv_out V n2 = cv_out V n1" "cv_arrivals V n2 = cv_arrivals V n1"
    using rc_new_ok [OF con, of n1] room by fastforce
  define at where "at = \<lparr>ah_is_global = \<not> vd_is_infiniband d, ah_dlid = ud_lid ud, ah_dgid = Some (ud_gid ud),
    ah_hop_limit = 64, ah_sgid_index = vd_gid_index d, ah_port_num = vd_port_num d\<rparr>"
  obtain ah n3 where 3: "ibv_create_ah env at n2 = (Some ah, n3)" "effect V {#} n2 n3"
    using verbs_contract_quiet(1,2) [OF con, where at = at and n = n2] by (cases "ibv_create_ah env at n2") auto
  have "create_peer env a subs gs d = (Inr \<lparr>peer_ud_addr = ud, peer_ah = ah, peer_msg_rc = q1, peer_rma_rc = q2,
      peer_st = Connecting subs gs\<rparr>, d\<lparr>vd_nic := n3\<rparr>)"
    using ud 1(1) 2(1) 3(1) by (simp add: create_peer_def res_then_def on_nic_def at_def)
  then show ?thesis using 1 2 3(2) by (auto simp: effect_def split: if_splits)
qed

text \<open>The peer map with a new, connecting peer on fresh queue pairs.\<close>

lemma ready_new: "P a = None \<Longrightarrow> peer_st p \<noteq> Established \<Longrightarrow> ready (P(a \<mapsto> p)) = ready P"
proof -
  assume "P a = None" "peer_st p \<noteq> Established"
  then have "(P(a \<mapsto> p)) b = Some q \<and> peer_st q = Established \<longleftrightarrow> P b = Some q \<and> peer_st q = Established" for b q by auto
  then show ?thesis by (simp only: ready_def flip: conj_assoc)
qed

lemma peer_ok_qps: "peer_ok busy Q p \<Longrightarrow> Q (msg_qp p) \<noteq> None \<and> Q (rma_qp p) \<noteq> None"
  by (cases "peer_st p") (auto simp: peer_ok_def can_post_def)

lemma peers_okD:
  assumes "peers_ok U busy Q P"
  shows "dom P \<subseteq> U" "P a = Some p \<Longrightarrow> peer_ok busy Q p"
    "P a = Some p \<Longrightarrow> P b = Some q \<Longrightarrow> a \<noteq> b \<Longrightarrow> {msg_qp p, rma_qp p} \<inter> {msg_qp q, rma_qp q} = {}"
  using assms unfolding peers_ok_def by blast+

lemma peers_okI:
  assumes "dom P \<subseteq> U" "\<And>a p. P a = Some p \<Longrightarrow> peer_ok busy Q p"
    "\<And>a b p q. P a = Some p \<Longrightarrow> P b = Some q \<Longrightarrow> a \<noteq> b \<Longrightarrow> {msg_qp p, rma_qp p} \<inter> {msg_qp q, rma_qp q} = {}"
  shows "peers_ok U busy Q P"
  using assms unfolding peers_ok_def by blast

lemma peers_ok_new:
  assumes ok: "peers_ok U busy Q P" and a: "a \<in> U" "P a = None" and p: "peer_st p = Connecting subs gs" "distinct gs"
    "\<forall>x \<in> set subs. out_op_ok busy (snd x)" "msg_qp p \<noteq> rma_qp p" "Q (msg_qp p) = None" "Q (rma_qp p) = None"
  shows "peers_ok U busy (Q(msg_qp p \<mapsto> QpsReset, rma_qp p \<mapsto> QpsReset)) (P(a \<mapsto> p))"
proof -
  have old: "Q (msg_qp q) \<noteq> None" "Q (rma_qp q) \<noteq> None" if "P b = Some q" for b q
    using peer_ok_qps [of busy Q q] ok that by (simp_all add: peers_ok_def)
  have ne: "msg_qp q \<noteq> msg_qp p" "msg_qp q \<noteq> rma_qp p" "rma_qp q \<noteq> msg_qp p" "rma_qp q \<noteq> rma_qp p" if "P b = Some q" for b q
    using old [OF that] p(5,6) by metis+
  have 1: "peer_ok busy (Q(msg_qp p \<mapsto> QpsReset, rma_qp p \<mapsto> QpsReset)) q" if "P b = Some q" for b q
    using peers_okD(2) [OF ok that] ne [OF that] by (auto simp: peer_ok_def split: peer_state.splits)
  have 2: "peer_ok busy (Q(msg_qp p \<mapsto> QpsReset, rma_qp p \<mapsto> QpsReset)) p"
    using p by (simp add: peer_ok_def)
  have 3: "{msg_qp x, rma_qp x} \<inter> {msg_qp y, rma_qp y} = {}"
    if xy: "(P(a \<mapsto> p)) b = Some x" "(P(a \<mapsto> p)) c = Some y" "b \<noteq> c" for b c x y
  proof (cases "b = a \<or> c = a")
    case True
    then show ?thesis using xy ne [of b x] ne [of c y] by (auto simp: fun_upd_apply split: if_splits)
  next
    case False
    then show ?thesis using peers_okD(3) [OF ok _ _ xy(3), of x y] xy by simp
  qed
  show ?thesis by (rule peers_okI) (use peers_okD(1) [OF ok] a(1) 1 2 3 in \<open>auto split: if_splits\<close>)
qed

lemma ud_send_ok:
  assumes con: "verbs_contract env V U busy" and h: "handles_ok V d"
    and m: "mp_chunk_size (vd_ud_mempool d) = MAX_UD_MSG_BYTES" "kcount KUdSend (cv_out V (vd_nic d)) < MAX_OPS"
  shows "\<exists>n'. ud_send env addr ah buf msg d = (Inr (), d\<lparr>vd_nic := n'\<rparr>) \<and> effect V {#(KUdSend, CtxBuf buf)#} (vd_nic d) n'"
proof -
  obtain bytes where b: "postcard_to_slice env msg MAX_UD_MSG_BYTES = Some bytes"
    using verbs_contract_quiet(6) [OF con] by blast
  define w where "w = \<lparr>uw_wr_id = CtxBuf buf, uw_addr = buf, uw_length = of_nat (length bytes),
    uw_lkey = ucast (desc_val (vd_ud_mempool_lkey d)), uw_ah = ah, uw_remote_qpn = ud_qp_num addr,
    uw_remote_qkey = ud_qkey addr, uw_payload = bytes\<rparr>"
  obtain r n' where r: "ibv_post_send_ud env (cv_ud_qp V) w (vd_nic d) = (r, n')" by fastforce
  have "queue_post_ok V KUdSend (uw_wr_id w) (vd_nic d) (r, n')"
    using verbs_contractD(8) [OF con, of "vd_nic d" w] h r by (simp add: handles_ok_def)
  then have "r = 0" "effect V {#(KUdSend, CtxBuf buf)#} (vd_nic d) n'" using m(2) by (simp_all add: queue_post_ok_def w_def)
  then show ?thesis using b m(1) h r
    by (intro exI [of _ n']) (simp add: ud_send_def on_nic_def code_result_def handles_ok_def w_def)
qed

lemma peers_room:
  assumes "peers_bound U" "dom P \<subseteq> U" "a \<in> U" "P a = None"
  shows "card (dom P) < MAX_UD_SENDS \<and> finite (dom P)"
proof -
  have "dom P \<subset> U" using assms by auto
  then show ?thesis using assms(1) psubset_card_mono [of U "dom P"] finite_subset [of "dom P" U] by (auto simp: peers_bound_def)
qed

text \<open>What opening a peer changes besides the core: the map of the peers.\<close>

definition new_peer ::
    "'n card_view \<Rightarrow> domain_address \<Rightarrow> (transfer_id \<times> outbound_op) list \<Rightarrow> slot list \<Rightarrow> ptr \<Rightarrow> 'n verbs_domain \<Rightarrow> 'n verbs_domain \<Rightarrow> bool" where
  "new_peer V a subs gs qp d d' \<longleftrightarrow>
     (\<exists>p. vd_peers d' = (vd_peers d)(a \<mapsto> p) \<and> peer_st p = Connecting subs gs \<and> rma_qp p = qp) \<and>
     qp \<notin> ready (vd_peers d) \<union> conn_qps (vd_peers d) \<and>
     vd_connecting d' = vd_connecting d \<and> vd_peer_groups d' = vd_peer_groups d \<and>
     vd_pending_pool d' = vd_pending_pool d \<and> vd_pending d' = vd_pending d \<and>
     cv_arrivals V (vd_nic d') = cv_arrivals V (vd_nic d)"

lemma peer_qps_known:
  assumes "peers_ok U busy Q P" "qp \<in> ready P \<union> conn_qps P"
  shows "Q qp \<noteq> None"
proof -
  from assms(2) obtain b q where q: "P b = Some q" "qp = msg_qp q \<or> qp = rma_qp q"
    by (auto simp: ready_def conn_qps_def)
  then show ?thesis using peer_ok_qps [OF peers_okD(2) [OF assms(1) q(1)]] by auto
qed

lemma open_peer_ok:
  assumes con: "verbs_contract env V U busy" and bound: "peers_bound U" and c: "core U busy V X d"
    and a: "a \<in> U" "vd_peers d a = None" and subs: "\<forall>x \<in> set subs. out_op_ok busy (snd x)" and gs: "distinct gs"
  shows "\<exists>qp d'. open_peer env a subs gs d = (Inr qp, d') \<and> core U busy V X d' \<and> new_peer V a subs gs qp d d'"
proof -
  let ?P = "vd_peers d" and ?Q = "cv_qps V (vd_nic d)" and ?M = "held V X d"
  have P: "peers_ok U busy ?Q ?P" and h: "handles_ok V d" and ud: "ud_ok ?M (vd_ud_mempool d) (card (dom ?P))"
    and cQ: "card (dom ?Q) \<le> 1 + 2 * card (dom ?P)" using c by (simp_all add: core_def)
  have room: "card (dom ?P) < MAX_UD_SENDS" "finite (dom ?P)"
    using peers_room [OF bound peers_okD(1) [OF P] a] by simp_all
  have dec: "ud_from_bytes (address_bytes a) \<noteq> None" using bound a(1) by (simp add: peers_bound_def)
  have "card (dom ?Q) + 1 < 1 + 2 * MAX_UD_SENDS" using cQ room(1) by simp
  from create_peer_ok [OF con dec this, of subs gs] obtain p n1 where
    cr: "create_peer env a subs gs d = (Inr p, d\<lparr>vd_nic := n1\<rparr>)" "peer_st p = Connecting subs gs"
    and p: "msg_qp p \<noteq> rma_qp p" "?Q (msg_qp p) = None" "?Q (rma_qp p) = None"
    and n1: "cv_qps V n1 = ?Q(msg_qp p \<mapsto> QpsReset, rma_qp p \<mapsto> QpsReset)" "cv_out V n1 = cv_out V (vd_nic d)"
      "cv_arrivals V n1 = cv_arrivals V (vd_nic d)" by blast
  from ud_alloc [OF ud room(1)] obtain buf pool where
    al: "mp_alloc (vd_ud_mempool d) = Some (buf, pool)" "ud_ok (add_mset (KUdSend, CtxBuf buf) ?M) pool (Suc (card (dom ?P)))" by blast
  define d2 where "d2 = d\<lparr>vd_nic := n1, vd_peers := ?P(a \<mapsto> p), vd_ud_mempool := pool\<rparr>"
  have "?Q (cv_ud_qp V) \<noteq> None" using h by (auto simp: handles_ok_def can_post_def)
  then have h2: "handles_ok V d2" using h n1(1) p by (auto simp: handles_ok_def d2_def)
  have "kcount KUdSend (cv_out V (vd_nic d2)) < MAX_OPS"
    using ud room(1) n1(2) by (simp add: ud_ok_def held_def d2_def MAX_OPS_def MAX_UD_SENDS_def)
  moreover have "mp_chunk_size (vd_ud_mempool d2) = MAX_UD_MSG_BYTES" using al(2) by (simp add: ud_ok_def d2_def)
  moreover have n1': "vd_nic d2 = n1" by (simp add: d2_def)
  ultimately obtain n2 where s: "connect_peer env p buf d2 = (Inr (), d2\<lparr>vd_nic := n2\<rparr>)" "effect V {#(KUdSend, CtxBuf buf)#} n1 n2"
    using ud_send_ok [OF con h2, of "peer_ud_addr p" "peer_ah p" buf "handshake_info d2 p"]
    by (metis connect_peer_def)
  let ?d = "d2\<lparr>vd_nic := n2\<rparr>"
  have op: "open_peer env a subs gs d = (Inr (rma_qp p), ?d)"
    using cr(1) al(1) s(1) by (simp add: open_peer_def res_then_def d2_def)
  have held: "held V X ?d = add_mset (KUdSend, CtxBuf buf) ?M" using s(2) n1(2) by (simp add: held_def effect_def)
  have Q: "cv_qps V n2 = ?Q(msg_qp p \<mapsto> QpsReset, rma_qp p \<mapsto> QpsReset)" using s(2) n1(1) by (simp add: effect_def)
  have R: "ready (?P(a \<mapsto> p)) = ready ?P" using ready_new [of ?P a p] a(2) cr(2) by simp
  have "card (dom (cv_qps V n2)) \<le> Suc (Suc (card (dom ?Q)))" unfolding Q by (simp add: card_insert_if)
  moreover have "card (dom (?P(a \<mapsto> p))) = Suc (card (dom ?P))" using room(2) a(2) by (simp add: card_insert_if domIff)
  moreover have "peers_ok U busy (cv_qps V n2) (?P(a \<mapsto> p))"
    unfolding Q by (rule peers_ok_new [OF P a cr(2) gs subs p])
  moreover have "handles_ok V ?d" using h2 s(2) by (simp add: handles_ok_def effect_def d2_def)
  ultimately have "core U busy V X ?d"
    using c cQ R al(2) unfolding core_def held by (simp add: d2_def)
  moreover have "new_peer V a subs gs (rma_qp p) d ?d"
    using cr(2) n1(3) s(2) peer_qps_known [OF P, of "rma_qp p"] p(3) by (auto simp: new_peer_def d2_def effect_def)
  ultimately show ?thesis using op by blast
qed

lemma open_peer_invalid:
  "ud_from_bytes (address_bytes a) = None \<Longrightarrow> open_peer env a subs gs d = (Inl (Custom ''Invalid peer address''), d)"
  by (simp add: open_peer_def create_peer_def res_then_def)

section \<open>Groups and pending writes under a new peer\<close>

lemma conn_new: "P a = None \<Longrightarrow> peer_st p \<noteq> Established \<Longrightarrow> conn_qps (P(a \<mapsto> p)) = insert (rma_qp p) (conn_qps P)"
  unfolding conn_qps_def by (auto split: if_splits) (metis option.distinct(1))

lemma waiting_mono:
  "waiting P qps pending \<Longrightarrow> ready P \<subseteq> ready P' \<Longrightarrow> conn_qps P \<subseteq> conn_qps P' \<Longrightarrow> waiting P' qps pending"
  unfolding waiting_def by blast

lemma groups_ok_mono:
  "groups_ok busy P C G \<Longrightarrow> ready P \<subseteq> ready P' \<Longrightarrow> conn_qps P \<subseteq> conn_qps P' \<Longrightarrow> groups_ok busy P' C G"
  unfolding groups_ok_def using waiting_mono by (metis (no_types, lifting) subset_trans)

lemma links_okD:
  assumes "links_ok P pool H"
  shows "op_inv pool (dom H)" "H s = Some pg \<Longrightarrow> waiting P (pg_rma_qps pg) (pg_pending_peers pg)"
    "P b = Some p \<Longrightarrow> peer_st p = Connecting subs gs \<Longrightarrow>
     s \<in> set gs \<longleftrightarrow> (\<exists>pg. H s = Some pg \<and> rma_qp p \<in> set (pg_pending_peers pg))"
  using assms by (auto simp: links_ok_def)

lemma conn_member: "P b = Some q \<Longrightarrow> peer_st q \<noteq> Established \<Longrightarrow> rma_qp q \<in> conn_qps P"
  by (auto simp: conn_qps_def)

lemma conn_memberD: "qp \<in> conn_qps P \<Longrightarrow> \<exists>b q. P b = Some q \<and> peer_st q \<noteq> Established \<and> qp = rma_qp q"
  by (auto simp: conn_qps_def)

lemma conn_same:
  assumes "P a = Some p" "peer_st p \<noteq> Established" "peer_st p' \<noteq> Established" "rma_qp p' = rma_qp p"
  shows "conn_qps (P(a \<mapsto> p')) = conn_qps P"
proof (intro equalityI subsetI)
  fix qp assume "qp \<in> conn_qps (P(a \<mapsto> p'))"
  then obtain b q where q: "(P(a \<mapsto> p')) b = Some q" "peer_st q \<noteq> Established" "qp = rma_qp q"
    using conn_memberD by blast
  show "qp \<in> conn_qps P"
  proof (cases "b = a")
    case True
    then show ?thesis using conn_member [of P a p, OF assms(1,2)] assms(4) q by simp
  next
    case False
    then have "P b = Some q" using q(1) by simp
    from conn_member [of P b q, OF this q(2)] q(3) show ?thesis by simp
  qed
next
  fix qp assume "qp \<in> conn_qps P"
  then obtain b q where q: "P b = Some q" "peer_st q \<noteq> Established" "qp = rma_qp q"
    using conn_memberD by blast
  show "qp \<in> conn_qps (P(a \<mapsto> p'))"
  proof (cases "b = a")
    case True
    then show ?thesis using conn_member [of "P(a \<mapsto> p')" a p', OF _ assms(3)] assms(1,4) q by simp
  next
    case False
    then have "(P(a \<mapsto> p')) b = Some q" using q(1) by simp
    from conn_member [of "P(a \<mapsto> p')" b q, OF this q(2)] q(3) show ?thesis by simp
  qed
qed

text \<open>A new peer that no pending write waits for.\<close>

lemma links_new:
  assumes ok: "links_ok P pool H" and a: "P a = None" and p: "peer_st p = Connecting subs []" "rma_qp p \<notin> conn_qps P"
  shows "links_ok (P(a \<mapsto> p)) pool H"
proof -
  have w: "waiting (P(a \<mapsto> p)) (pg_rma_qps pg) (pg_pending_peers pg)" if "H s = Some pg" for s pg
    using waiting_mono [OF links_okD(2) [OF ok that]] ready_new [of P a p, OF a] conn_new [of P a p, OF a] p(1) by auto
  have "rma_qp p \<notin> set (pg_pending_peers pg)" if "H s = Some pg" for s pg
    using links_okD(2) [OF ok that] p(2) by (auto simp: waiting_def)
  then show ?thesis
    unfolding links_ok_def using links_okD(1) [OF ok] w links_okD(3) [OF ok] p(1) by (auto split: if_splits)
qed

text \<open>A new peer that the write of a slot waits for: the slot gets the queue pair as well.\<close>

lemma links_new_slot:
  assumes ok: "links_ok P pool H" and a: "P a = None" and p: "peer_st p = Connecting subs [s0]" "rma_qp p \<notin> conn_qps P"
    and pool: "op_inv pool' (insert s0 (dom H))"
    and pend: "set (pg_pending_peers pg) = insert (rma_qp p) (case H s0 of None \<Rightarrow> {} | Some pg0 \<Rightarrow> set (pg_pending_peers pg0))"
    and qps: "set (pg_rma_qps pg) \<subseteq> ready P \<union> set (pg_pending_peers pg)"
  shows "links_ok (P(a \<mapsto> p)) pool' (H(s0 \<mapsto> pg))"
proof -
  have R: "ready (P(a \<mapsto> p)) = ready P" and C: "conn_qps (P(a \<mapsto> p)) = insert (rma_qp p) (conn_qps P)"
    using ready_new [of P a p, OF a] conn_new [of P a p, OF a] p(1) by simp_all
  have old: "set (pg_pending_peers pg') \<subseteq> conn_qps P" if "H s = Some pg'" for s pg'
    using links_okD(2) [OF ok that] by (simp add: waiting_def)
  have "waiting (P(a \<mapsto> p)) (pg_rma_qps pg) (pg_pending_peers pg)"
    using pend qps old [of s0] unfolding waiting_def R C by (auto split: option.splits)
  then have w: "waiting (P(a \<mapsto> p)) (pg_rma_qps pg') (pg_pending_peers pg')" if "(H(s0 \<mapsto> pg)) s = Some pg'" for s pg'
    using that waiting_mono [OF links_okD(2) [OF ok, of s pg'], of "P(a \<mapsto> p)"] R C by (auto split: if_splits)
  have l: "s \<in> set gs \<longleftrightarrow> (\<exists>pg'. (H(s0 \<mapsto> pg)) s = Some pg' \<and> rma_qp q \<in> set (pg_pending_peers pg'))"
    if q: "(P(a \<mapsto> p)) b = Some q" "peer_st q = Connecting subs' gs" for b q subs' gs s
  proof (cases "b = a")
    case True
    then have "q = p" "gs = [s0]" using q p(1) by simp_all
    then show ?thesis using pend old [of s] p(2) by auto
  next
    case False
    then have b: "P b = Some q" using q(1) by simp
    then have ne: "rma_qp q \<noteq> rma_qp p" using conn_member [of P b q, OF b] q(2) p(2) by auto
    show ?thesis using links_okD(3) [OF ok b q(2), of s] pend ne by (cases "s = s0") (auto split: option.splits)
  qed
  have "op_inv pool' (dom (H(s0 \<mapsto> pg)))" using pool by simp
  then show ?thesis unfolding links_ok_def using w l by blast
qed

lemma new_peer_inv:
  assumes inv: "vinv U busy V X d" and c: "core U busy V X d'" and n: "new_peer V a subs [] qp d d'" and a: "vd_peers d a = None"
  shows "vinv U busy V X d'"
proof -
  obtain p where p: "vd_peers d' = (vd_peers d)(a \<mapsto> p)" "peer_st p = Connecting subs []" "rma_qp p = qp"
    "qp \<notin> conn_qps (vd_peers d)" using n by (auto simp: new_peer_def)
  have "groups_ok busy (vd_peers d') (vd_connecting d) (vd_peer_groups d)"
    unfolding p(1) by (rule groups_ok_mono) (use inv p ready_new [of "vd_peers d" a p, OF a] conn_new [of "vd_peers d" a p, OF a] in \<open>auto simp: vinv_def\<close>)
  moreover have "links_ok (vd_peers d') (vd_pending_pool d) (vd_pending d)"
    unfolding p(1) by (rule links_new [of "vd_peers d" _ _ a p subs, OF _ a p(2)]) (use inv p in \<open>auto simp: vinv_def pends_ok_def\<close>)
  ultimately show ?thesis using inv c n by (simp add: vinv_def pends_ok_def new_peer_def)
qed

section \<open>Submitting to one peer\<close>

lemma peer_update_core:
  assumes c: "core U busy V X d" and a: "vd_peers d a = Some p" "peer_st p = Connecting subs gs"
    and p': "p' = p\<lparr>peer_st := Connecting subs' gs\<rparr>" "\<forall>x \<in> set subs'. out_op_ok busy (snd x)"
  shows "core U busy V X (d\<lparr>vd_peers := (vd_peers d)(a \<mapsto> p')\<rparr>) \<and>
    ready ((vd_peers d)(a \<mapsto> p')) = ready (vd_peers d) \<and> conn_qps ((vd_peers d)(a \<mapsto> p')) = conn_qps (vd_peers d)"
proof -
  let ?P = "vd_peers d"
  have P: "peers_ok U busy (cv_qps V (vd_nic d)) ?P" using c by (simp add: core_def)
  have R: "ready (?P(a \<mapsto> p')) = ready ?P"
  proof -
    have "(?P(a \<mapsto> p')) b = Some q \<and> peer_st q = Established \<longleftrightarrow> ?P b = Some q \<and> peer_st q = Established" for b q
      using a p' by auto
    then show ?thesis by (simp only: ready_def flip: conj_assoc)
  qed
  have C: "conn_qps (?P(a \<mapsto> p')) = conn_qps ?P"
    by (rule conn_same [of ?P a p p', OF a(1)]) (use a(2) p'(1) in simp_all)
  have "peers_ok U busy (cv_qps V (vd_nic d)) (?P(a \<mapsto> p'))"
  proof (rule peers_okI)
    show "dom (?P(a \<mapsto> p')) \<subseteq> U" using peers_okD(1) [OF P] a by auto
    show "peer_ok busy (cv_qps V (vd_nic d)) q" if "(?P(a \<mapsto> p')) b = Some q" for b q
      using that peers_okD(2) [OF P, of b q] peers_okD(2) [OF P a(1)] a(2) p' by (auto simp: peer_ok_def split: if_splits)
    show "{msg_qp x, rma_qp x} \<inter> {msg_qp y, rma_qp y} = {}"
      if "(?P(a \<mapsto> p')) b = Some x" "(?P(a \<mapsto> p')) e = Some y" "b \<noteq> e" for b e x y
      using that peers_okD(3) [OF P, of b x e y] peers_okD(3) [OF P, of b p e y] peers_okD(3) [OF P, of b x e p] a(1) p'(1)
      by (auto split: if_splits)
  qed
  moreover have "dom (?P(a \<mapsto> p')) = dom ?P" using a(1) by auto
  ultimately show ?thesis using c R C by (simp add: core_def held_def handles_ok_def)
qed

lemma links_same:
  assumes ok: "links_ok P pool H" and p: "P a = Some p" "peer_st p = Connecting subs gs" "peer_st p' = Connecting subs' gs"
    "rma_qp p' = rma_qp p" and R: "ready (P(a \<mapsto> p')) = ready P" "conn_qps (P(a \<mapsto> p')) = conn_qps P"
  shows "links_ok (P(a \<mapsto> p')) pool H"
  unfolding links_ok_def
proof (intro conjI allI impI)
  show "op_inv pool (dom H)" by (rule links_okD(1) [OF ok])
  show "waiting (P(a \<mapsto> p')) (pg_rma_qps pg) (pg_pending_peers pg)" if "H s = Some pg" for s pg
    using links_okD(2) [OF ok that] R by (simp add: waiting_def)
  show "s \<in> set gs' \<longleftrightarrow> (\<exists>pg. H s = Some pg \<and> rma_qp q \<in> set (pg_pending_peers pg))"
    if "(P(a \<mapsto> p')) b = Some q" "peer_st q = Connecting ss gs'" for b q ss gs' s
    using that links_okD(3) [OF ok, of b q ss gs' s] links_okD(3) [OF ok p(1,2), of s] p(3,4) by (cases "b = a") auto
qed

text \<open>A step that keeps the invariant and the messages still to arrive.\<close>

definition vgood :: "domain_address set \<Rightarrow> bool \<Rightarrow> 'n card_view \<Rightarrow> posted_ops \<Rightarrow> 'n verbs_domain \<Rightarrow> 'n verbs_domain \<Rightarrow> bool" where
  "vgood U busy V X d d' \<longleftrightarrow> vinv U busy V X d' \<and> cv_arrivals V (vd_nic d') = cv_arrivals V (vd_nic d)"

lemma vgood_frame: "vinv U busy V X d \<Longrightarrow> core U busy V X d' \<Longrightarrow> vframe V d d' \<Longrightarrow> vgood U busy V X d d'"
  using vframe_inv [of U busy V X d X d'] by (simp add: vgood_def vframe_def)

lemma vgood_trans: "vgood U busy V X d e \<Longrightarrow> vgood U busy V X e f \<Longrightarrow> vgood U busy V X d f"
  by (simp add: vgood_def)

lemma vgood_refl: "vinv U busy V X d \<Longrightarrow> vgood U busy V X d d"
  by (simp add: vgood_def)

lemma vgood_complete [simp]: "vgood U busy V X d (verbs_complete c e) = vgood U busy V X d e"
  by (simp add: vgood_def vinv_def core_def held_def handles_ok_def verbs_complete_def)

lemma new_peer_good:
  "vinv U busy V X d \<Longrightarrow> core U busy V X d' \<Longrightarrow> new_peer V a subs [] qp d d' \<Longrightarrow> vd_peers d a = None \<Longrightarrow> vgood U busy V X d d'"
  using new_peer_inv [of U busy V X d d' a subs qp] by (simp add: vgood_def new_peer_def)

lemma vinv_core: "vinv U busy V X d \<Longrightarrow> core U busy V X d"
  by (simp add: vinv_def)

lemma ready_member: "P a = Some p \<Longrightarrow> peer_st p = Established \<Longrightarrow> msg_qp p \<in> ready P \<and> rma_qp p \<in> ready P"
  by (auto simp: ready_def)

lemma submit_outbound_ok:
  assumes con: "verbs_contract env V U busy" and bound: "peers_bound U" and inv: "vinv U busy V X d"
    and op: "out_op_ok busy op" and a: "a \<in> U \<or> ud_from_bytes (address_bytes a) = None"
  shows "\<exists>d'. submit_outbound_op env tid a op d = Some d' \<and> vgood U busy V X d d'"
proof (cases "vd_peers d a")
  case None
  show ?thesis
  proof (cases "ud_from_bytes (address_bytes a) = None")
    case True
    then show ?thesis using None open_peer_invalid [of a env "[(tid, op)]" "[]" d] vgood_refl [OF inv]
      by (simp add: submit_outbound_op_def)
  next
    case False
    from a have "a \<in> U"
    proof
      assume "ud_from_bytes (address_bytes a) = None"
      with False show ?thesis by contradiction
    qed
    from open_peer_ok [OF con bound vinv_core [OF inv] this None, of "[(tid, op)]" "[]"] op
    obtain qp d' where "open_peer env a [(tid, op)] [] d = (Inr qp, d')" "core U busy V X d'" "new_peer V a [(tid, op)] [] qp d d'"
      by auto
    then show ?thesis using None new_peer_good [OF inv] by (simp add: submit_outbound_op_def)
  qed
next
  case (Some p)
  show ?thesis
  proof (cases "peer_st p")
    case (Connecting subs gs)
    let ?p = "p\<lparr>peer_st := Connecting (subs @ [(tid, op)]) gs\<rparr>" and ?P = "vd_peers d"
    have "peer_ok busy (cv_qps V (vd_nic d)) p"
      using vinv_core [OF inv] peers_okD(2) [of U busy _ ?P a p] Some by (simp add: core_def)
    then have subs: "\<forall>x \<in> set (subs @ [(tid, op)]). out_op_ok busy (snd x)" using Connecting op by (simp add: peer_ok_def)
    from peer_update_core [OF vinv_core [OF inv] Some Connecting refl subs] have
      u: "core U busy V X (d\<lparr>vd_peers := ?P(a \<mapsto> ?p)\<rparr>)" "ready (?P(a \<mapsto> ?p)) = ready ?P" "conn_qps (?P(a \<mapsto> ?p)) = conn_qps ?P" by blast+
    have "links_ok (?P(a \<mapsto> ?p)) (vd_pending_pool d) (vd_pending d)"
      by (rule links_same [of ?P _ _ a p subs gs ?p, OF _ Some Connecting]) (use inv u in \<open>auto simp: vinv_def pends_ok_def\<close>)
    moreover have "groups_ok busy (?P(a \<mapsto> ?p)) (vd_connecting d) (vd_peer_groups d)"
      by (rule groups_ok_mono [of busy ?P]) (use inv u in \<open>auto simp: vinv_def\<close>)
    ultimately show ?thesis
      using Some Connecting inv u(1) by (simp add: submit_outbound_op_def vgood_def vinv_def pends_ok_def)
  next
    case Established
    from outbound_ok [OF con vinv_core [OF inv] op] ready_member [of "vd_peers d" a p, OF Some Established]
    obtain d' where "do_submit_outbound_op env tid op (msg_qp p) (rma_qp p) d = Some d'" "core U busy V X d'" "vframe V d d'" by blast
    then show ?thesis using Some Established vgood_frame [OF inv] by (simp add: submit_outbound_op_def)
  qed
qed

section \<open>Peer groups\<close>

text \<open>
  The queue pairs collected so far: those of established peers, and those of the peers opened on the
  way. Addresses still to come have no peer, an established one, or one opened on the way.
\<close>

definition collected :: "peer_map \<Rightarrow> ptr list \<Rightarrow> ptr list \<Rightarrow> domain_address set \<Rightarrow> bool" where
  "collected P qps pending A \<longleftrightarrow> set qps \<subseteq> ready P \<union> set pending \<and> set pending \<subseteq> conn_qps P \<and>
     (\<forall>a \<in> A. \<forall>p. P a = Some p \<longrightarrow> peer_st p = Established \<or> rma_qp p \<in> set pending)"

lemma collected_known:
  assumes "collected P qps pending (set (a # as))" "P a = Some p"
  shows "collected P (qps @ [rma_qp p]) pending (set as)"
  using assms ready_member [of P a p] by (auto simp: collected_def)

lemma collected_new:
  assumes c: "collected P qps pending (set (a # as))" and a: "P a = None" "peer_st p = Connecting subs gs"
  shows "collected (P(a \<mapsto> p)) (qps @ [rma_qp p]) (List.insert (rma_qp p) pending) (set as)"
proof -
  have "ready (P(a \<mapsto> p)) = ready P" "conn_qps (P(a \<mapsto> p)) = insert (rma_qp p) (conn_qps P)"
    using ready_new [of P a p] conn_new [of P a p] a by simp_all
  then show ?thesis using c by (auto simp: collected_def)
qed

lemma add_group_peers_ok:
  assumes con: "verbs_contract env V U busy" and bound: "peers_bound U"
  shows "vinv U busy V X d \<Longrightarrow> set as \<subseteq> U \<Longrightarrow> collected (vd_peers d) qps pending (set as) \<Longrightarrow>
    \<exists>qps' pending' d'. add_group_peers env as qps pending d = (Inr (qps', pending'), d') \<and> vgood U busy V X d d' \<and>
      collected (vd_peers d') qps' pending' {} \<and> vd_connecting d' = vd_connecting d \<and> vd_peer_groups d' = vd_peer_groups d"
proof (induction as arbitrary: d qps pending)
  case Nil
  then show ?case by (auto simp: vgood_refl)
next
  case (Cons a as)
  show ?case
  proof (cases "vd_peers d a")
    case None
    have "a \<in> U" using Cons.prems(2) by simp
    from open_peer_ok [OF con bound vinv_core [OF Cons.prems(1)] this None, of "[]" "[]"]
    obtain qp d1 where o: "open_peer env a [] [] d = (Inr qp, d1)" "core U busy V X d1" "new_peer V a [] [] qp d d1" by auto
    have g: "vgood U busy V X d d1" using new_peer_good [OF Cons.prems(1) o(2,3) None] .
    obtain p where p: "vd_peers d1 = (vd_peers d)(a \<mapsto> p)" "peer_st p = Connecting [] []" "rma_qp p = qp"
      using o(3) by (auto simp: new_peer_def)
    have "collected (vd_peers d1) (qps @ [qp]) (List.insert qp pending) (set as)"
      using collected_new [OF Cons.prems(3), of p] None p by simp
    from Cons.IH [OF _ _ this] g Cons.prems(2) obtain qps' pending' d' where
      "add_group_peers env as (qps @ [qp]) (List.insert qp pending) d1 = (Inr (qps', pending'), d')" "vgood U busy V X d1 d'"
      "collected (vd_peers d') qps' pending' {}" "vd_connecting d' = vd_connecting d1" "vd_peer_groups d' = vd_peer_groups d1"
      by (auto simp: vgood_def)
    then show ?thesis using None o vgood_trans [OF g] by (auto simp: res_then_def new_peer_def)
  next
    case (Some p)
    from Cons.IH [OF Cons.prems(1) _ collected_known [OF Cons.prems(3) Some]] Cons.prems(2) Some show ?thesis by simp
  qed
qed

lemma add_peer_group_ok:
  assumes con: "verbs_contract env V U busy" and bound: "peers_bound U" and inv: "vinv U busy V X d"
    and as: "set as \<subseteq> U" "\<forall>a \<in> set as. \<forall>p. vd_peers d a = Some p \<longrightarrow> peer_st p = Established"
  shows "vgood U busy V X d (snd (verbs_add_peer_group env h as d))"
proof (cases "map_of (vd_connecting d) h = None \<and> vd_peer_groups d h = None")
  case True
  have "collected (vd_peers d) [] [] (set as)" using as(2) by (auto simp: collected_def)
  from add_group_peers_ok [OF con bound inv as(1) this] obtain qps pending d' where
    r: "add_group_peers env as [] [] d = (Inr (qps, pending), d')" "vgood U busy V X d d'" "collected (vd_peers d') qps pending {}"
    "vd_connecting d' = vd_connecting d" "vd_peer_groups d' = vd_peer_groups d" by blast
  have inv': "vinv U busy V X d'" using r(2) by (simp add: vgood_def)
  have g: "groups_ok busy (vd_peers d') (vd_connecting d') (vd_peer_groups d')" using inv' by (simp add: vinv_def)
  have "h \<notin> fst ` set (vd_connecting d')" using True r(4) by (simp add: map_of_eq_None_iff)
  then have "groups_ok busy (vd_peers d') ((h, \<lparr>cg_rma_qps = qps, cg_pending_peers = pending, cg_pending_group_ops = []\<rparr>) # vd_connecting d') (vd_peer_groups d')"
    if "pending \<noteq> []" using g r(3) that by (auto simp: groups_ok_def waiting_def collected_def)
  moreover have "groups_ok busy (vd_peers d') (vd_connecting d') ((vd_peer_groups d')(h \<mapsto> qps))" if "pending = []"
    using g r(3) that by (auto simp: groups_ok_def collected_def)
  ultimately show ?thesis using True r(1,2) inv'
    by (auto simp: verbs_add_peer_group_def res_then_def vgood_def vinv_def core_def held_def handles_ok_def)
next
  case False
  then show ?thesis using vgood_refl [OF inv] by (auto simp: verbs_add_peer_group_def)
qed

section \<open>Group writes\<close>

text \<open>
  Between the allocation of a slot for a pending write and its initialisation the slot is live in the
  pool and known to the peers opened so far, but empty; with the entry to come all is in order.
\<close>

definition mid :: "domain_address set \<Rightarrow> bool \<Rightarrow> 'n card_view \<Rightarrow> posted_ops \<Rightarrow> 'n verbs_domain \<Rightarrow> ptr list \<Rightarrow> ptr list \<Rightarrow> slot option \<Rightarrow> bool" where
  "mid U busy V X d qps pending ctx \<longleftrightarrow> core U busy V X d \<and>
     groups_ok busy (vd_peers d) (vd_connecting d) (vd_peer_groups d) \<and> pg_ops_ok busy (vd_pending d) \<and>
     (case ctx of
        None \<Rightarrow> pending = [] \<and> links_ok (vd_peers d) (vd_pending_pool d) (vd_pending d)
      | Some s \<Rightarrow> vd_pending d s = None \<and>
          (\<forall>pg. pg_rma_qps pg = qps \<longrightarrow> pg_pending_peers pg = pending \<longrightarrow>
             links_ok (vd_peers d) (vd_pending_pool d) ((vd_pending d)(s \<mapsto> pg))))"

lemma links_qps:
  assumes ok: "links_ok P pool (H(s \<mapsto> pg))" and pg': "pg_pending_peers pg' = pg_pending_peers pg"
    "set (pg_rma_qps pg') \<subseteq> ready P \<union> set (pg_pending_peers pg)"
  shows "links_ok P pool (H(s \<mapsto> pg'))"
  unfolding links_ok_def
proof (intro conjI allI impI)
  show "op_inv pool (dom (H(s \<mapsto> pg')))" using links_okD(1) [OF ok] by simp
  show "waiting P (pg_rma_qps q) (pg_pending_peers q)" if "(H(s \<mapsto> pg')) t = Some q" for t q
  proof (cases "t = s")
    case True
    then have "q = pg'" using that by simp
    moreover have "waiting P (pg_rma_qps pg) (pg_pending_peers pg)" by (rule links_okD(2) [OF ok, of s]) simp
    ultimately show ?thesis using pg' unfolding waiting_def by metis
  next
    case False
    then show ?thesis using that by (intro links_okD(2) [OF ok, of t]) simp
  qed
  show "t \<in> set gs \<longleftrightarrow> (\<exists>q. (H(s \<mapsto> pg')) t = Some q \<and> rma_qp p \<in> set (pg_pending_peers q))"
    if "P b = Some p" "peer_st p = Connecting subs gs" for b p subs gs t
    using links_okD(3) [OF ok that, of t] pg'(1) by (cases "t = s") simp_all
qed

lemma mid_known:
  assumes m: "mid U busy V X d qps pending ctx" and c: "collected (vd_peers d) (qps @ [qp]) pending A"
  shows "mid U busy V X d (qps @ [qp]) pending ctx"
proof (cases ctx)
  case None
  then show ?thesis using m by (simp add: mid_def)
next
  case (Some s)
  define pg0 where "pg0 = \<lparr>pg_transfer_id = undefined, pg_op = undefined, pg_rma_qps = qps, pg_pending_peers = pending\<rparr>"
  have l: "links_ok (vd_peers d) (vd_pending_pool d) ((vd_pending d)(s \<mapsto> pg0))"
    using m Some by (simp add: mid_def pg0_def)
  have "links_ok (vd_peers d) (vd_pending_pool d) ((vd_pending d)(s \<mapsto> pg))"
    if "pg_rma_qps pg = qps @ [qp]" "pg_pending_peers pg = pending" for pg
    by (rule links_qps [OF l]) (use c that in \<open>auto simp: pg0_def collected_def\<close>)
  then show ?thesis using m Some by (simp add: mid_def)
qed

text \<open>The slot of a new peer: the one already allocated, or a fresh one.\<close>

definition slot_for :: "slot option \<Rightarrow> 'n verbs_domain \<Rightarrow> slot \<times> 'n verbs_domain" where
  "slot_for ctx d =
     (case ctx of
        Some slot \<Rightarrow> (slot, d)
      | None \<Rightarrow> (let (slot, pool) = alloc_uninit (vd_pending_pool d) in (slot, d\<lparr>vd_pending_pool := pool\<rparr>)))"

lemma slot_for_ok:
  assumes m: "mid U busy V X d qps pending ctx" and s: "slot_for ctx d = (s, d1)"
  shows "core U busy V X d1 \<and> (\<exists>pool. d1 = d\<lparr>vd_pending_pool := pool\<rparr> \<and> op_inv pool (insert s (dom (vd_pending d)))) \<and>
    vd_pending d s = None"
proof (cases ctx)
  case None
  obtain pool where al: "alloc_uninit (vd_pending_pool d) = (s, pool)" "d1 = d\<lparr>vd_pending_pool := pool\<rparr>"
    using s None by (auto simp: slot_for_def split: prod.splits)
  have "op_inv (vd_pending_pool d) (dom (vd_pending d))" using m None links_okD(1) by (auto simp: mid_def)
  from opool.alloc_fresh [OF this, of s pool] al have "s \<notin> dom (vd_pending d)" "op_inv pool (insert s (dom (vd_pending d)))" by simp_all
  then show ?thesis using m al(2) by (auto simp: mid_def core_def held_def handles_ok_def)
next
  case (Some t)
  then have "t = s" "d1 = d" using s by (simp_all add: slot_for_def)
  moreover have "op_inv (vd_pending_pool d) (dom ((vd_pending d)(t \<mapsto> \<lparr>pg_transfer_id = undefined, pg_op = undefined, pg_rma_qps = qps, pg_pending_peers = pending\<rparr>)))"
    by (rule links_okD(1) [of "vd_peers d"]) (use m Some in \<open>simp add: mid_def\<close>)
  ultimately show ?thesis using m Some by (auto simp: mid_def intro!: exI [of _ "vd_pending_pool d"])
qed

lemma mid_new:
  assumes m: "mid U busy V X d qps pending ctx" and s: "slot_for ctx d = (s, d1)" and a: "vd_peers d a = None"
    and o: "core U busy V X d2" "new_peer V a [] [s] qp d1 d2" and c: "collected (vd_peers d) qps pending A"
  shows "mid U busy V X d2 (qps @ [qp]) (List.insert qp pending) (Some s)"
proof -
  let ?P = "vd_peers d" and ?H = "vd_pending d"
  obtain pool where d1: "d1 = d\<lparr>vd_pending_pool := pool\<rparr>" "op_inv pool (insert s (dom ?H))" "?H s = None"
    using slot_for_ok [OF m s] by blast
  obtain p where p: "vd_peers d2 = ?P(a \<mapsto> p)" "peer_st p = Connecting [] [s]" "rma_qp p = qp" "qp \<notin> conn_qps ?P"
    using o(2) d1(1) by (auto simp: new_peer_def)
  have same: "vd_pending d2 = ?H" "vd_pending_pool d2 = pool" "vd_connecting d2 = vd_connecting d" "vd_peer_groups d2 = vd_peer_groups d"
    using o(2) d1(1) by (simp_all add: new_peer_def)
  have g: "groups_ok busy (vd_peers d2) (vd_connecting d) (vd_peer_groups d)"
    unfolding p(1) by (rule groups_ok_mono [of busy ?P])
      (use m p ready_new [of ?P a p, OF a] conn_new [of ?P a p, OF a] in \<open>auto simp: mid_def\<close>)
  have l: "links_ok (?P(a \<mapsto> p)) pool (?H(s \<mapsto> pg))"
    if pg: "pg_rma_qps pg = qps @ [qp]" "pg_pending_peers pg = List.insert qp pending" for pg
  proof (cases ctx)
    case None
    then have lk: "links_ok ?P (vd_pending_pool d) ?H" "pending = []" using m by (simp_all add: mid_def)
    show ?thesis
      by (rule links_new_slot [of ?P _ ?H a p "[]" s, OF lk(1) a p(2)])
        (use pg lk(2) p(3,4) d1(2,3) c in \<open>auto simp: collected_def\<close>)
  next
    case (Some t)
    then have t: "t = s" "d1 = d" using s by (simp_all add: slot_for_def)
    have pool: "pool = vd_pending_pool d" using arg_cong [OF d1(1), of vd_pending_pool] t(2) by simp
    define pg0 where "pg0 = \<lparr>pg_transfer_id = undefined, pg_op = undefined, pg_rma_qps = qps, pg_pending_peers = pending\<rparr>"
    have lk: "links_ok ?P pool (?H(s \<mapsto> pg0))" using m Some t(1) pool by (simp add: mid_def pg0_def)
    have "links_ok (?P(a \<mapsto> p)) pool ((?H(s \<mapsto> pg0))(s \<mapsto> pg))"
      by (rule links_new_slot [of ?P _ "?H(s \<mapsto> pg0)" a p "[]" s, OF lk a p(2)])
        (use pg p(3,4) d1(2) c in \<open>auto simp: collected_def pg0_def\<close>)
    then show ?thesis by simp
  qed
  show ?thesis using o(1) m g l d1(3) same p(1) by (simp add: mid_def)
qed

lemma group_write_peers_ok:
  assumes con: "verbs_contract env V U busy" and bound: "peers_bound U"
  shows "mid U busy V X d qps pending ctx \<Longrightarrow> set as \<subseteq> U \<Longrightarrow> collected (vd_peers d) qps pending (set as) \<Longrightarrow>
    \<exists>qps' pending' ctx' d'. group_write_peers env (map Some as) qps pending ctx d = Some (Inr (qps', pending', ctx'), d') \<and>
      mid U busy V X d' qps' pending' ctx' \<and> collected (vd_peers d') qps' pending' {} \<and> length qps' = length qps + length as \<and>
      (pending' = [] \<longrightarrow> ctx' = ctx) \<and> cv_arrivals V (vd_nic d') = cv_arrivals V (vd_nic d)"
proof (induction as arbitrary: d qps pending ctx)
  case Nil
  then show ?case by simp
next
  case (Cons a as)
  show ?case
  proof (cases "vd_peers d a")
    case None
    obtain s d1 where s: "slot_for ctx d = (s, d1)" by fastforce
    have d1: "core U busy V X d1" "vd_peers d1 = vd_peers d" "vd_nic d1 = vd_nic d" using slot_for_ok [OF Cons.prems(1) s] by auto
    have "a \<in> U" "vd_peers d1 a = None" using Cons.prems(2) None d1(2) by simp_all
    from open_peer_ok [OF con bound d1(1) this, of "[]" "[s]"] obtain qp d2 where
      o: "open_peer env a [] [s] d1 = (Inr qp, d2)" "core U busy V X d2" "new_peer V a [] [s] qp d1 d2" by auto
    have m: "mid U busy V X d2 (qps @ [qp]) (List.insert qp pending) (Some s)"
      by (rule mid_new [OF Cons.prems(1) s None o(2,3) Cons.prems(3)])
    obtain p where p: "vd_peers d2 = (vd_peers d)(a \<mapsto> p)" "peer_st p = Connecting [] [s]" "rma_qp p = qp"
      using o(3) d1(2) by (auto simp: new_peer_def)
    have "collected (vd_peers d2) (qps @ [qp]) (List.insert qp pending) (set as)"
      using collected_new [OF Cons.prems(3), of p] None p by simp
    from Cons.IH [OF m _ this] Cons.prems(2) obtain qps' pending' ctx' d' where
      r: "group_write_peers env (map Some as) (qps @ [qp]) (List.insert qp pending) (Some s) d2 = Some (Inr (qps', pending', ctx'), d')"
      "mid U busy V X d' qps' pending' ctx'" "collected (vd_peers d') qps' pending' {}" "length qps' = length qps + length (a # as)"
      "pending' = [] \<longrightarrow> ctx' = Some s" "cv_arrivals V (vd_nic d') = cv_arrivals V (vd_nic d2)" by auto
    have "pending' \<noteq> []"
    proof
      assume "pending' = []"
      then have "ctx' = Some s" using r(5) by blast
      then have "links_ok (vd_peers d') (vd_pending_pool d') ((vd_pending d')(s \<mapsto> \<lparr>pg_transfer_id = undefined, pg_op = undefined, pg_rma_qps = qps', pg_pending_peers = pending'\<rparr>))"
        using r(2) by (simp add: mid_def)
      from links_okD(2) [OF this, of s] \<open>pending' = []\<close> show False by (simp add: waiting_def)
    qed
    moreover have "group_write_peers env (map Some (a # as)) qps pending ctx d = Some (Inr (qps', pending', ctx'), d')"
      using None s o(1) r(1) by (simp add: slot_for_def)
    ultimately show ?thesis using r(2,3,4,6) o(3) d1(3) by (auto simp: new_peer_def)
  next
    case (Some p)
    note c = collected_known [OF Cons.prems(3) Some]
    from Cons.IH [OF mid_known [OF Cons.prems(1) c] _ c] Cons.prems(2) Some show ?thesis by auto
  qed
qed

lemma submit_group_peers_ok:
  assumes con: "verbs_contract env V U busy" and bound: "peers_bound U" and inv: "vinv U busy V X d" and busy: "\<not> busy"
    and op: "group_write_ok None op" and as: "peer_addr_iter op = map Some as" "set as \<subseteq> U"
      "\<forall>a \<in> set as. \<forall>p. vd_peers d a = Some p \<longrightarrow> peer_st p = Established"
  shows "\<exists>d'. verbs_submit_group_write env tid None op d = Some d' \<and> vgood U busy V X d d'"
proof -
  have m: "mid U busy V X d [] [] None" using inv by (simp add: mid_def vinv_def pends_ok_def)
  have "collected (vd_peers d) [] [] (set as)" using as(3) by (auto simp: collected_def)
  from group_write_peers_ok [OF con bound m as(2) this] obtain qps pending ctx d' where
    r: "group_write_peers env (peer_addr_iter op) [] [] None d = Some (Inr (qps, pending, ctx), d')" "mid U busy V X d' qps pending ctx"
    "collected (vd_peers d') qps pending {}" "length qps = length as" "pending = [] \<longrightarrow> ctx = None"
    "cv_arrivals V (vd_nic d') = cv_arrivals V (vd_nic d)" unfolding as(1) by auto
  have gw: "gwrite_ok busy qps op"
  proof (cases op)
    case (ScatterW sc)
    then have "length (map Some as) = length (sg_dsts sc)" using as(1) by (metis length_map peer_addr_iter.simps)
    then show ?thesis using op busy r(4) ScatterW by (simp add: gwrite_ok_def)
  qed
  show ?thesis
  proof (cases "pending = []")
    case True
    then have inv': "vinv U busy V X d'" and q: "set qps \<subseteq> ready (vd_peers d')"
      using r(2,3,5) by (auto simp: mid_def vinv_def pends_ok_def collected_def)
    from group_submit_ok [OF con vinv_core [OF inv'] gw q] obtain d'' where
      "verbs_do_submit_group_write env tid qps op d' = Some d''" "core U busy V X d''" "vframe V d' d''" by blast
    then show ?thesis using r(1,6) True vgood_frame [OF inv', of d'']
      by (auto simp: verbs_submit_group_write_def vgood_def)
  next
    case False
    then obtain s where s: "ctx = Some s" using r(2) by (cases ctx) (auto simp: mid_def)
    let ?pg = "\<lparr>pg_transfer_id = tid, pg_op = Some op, pg_rma_qps = qps, pg_pending_peers = pending\<rparr>"
    have "links_ok (vd_peers d') (vd_pending_pool d') ((vd_pending d')(s \<mapsto> ?pg))" using r(2) s by (simp add: mid_def)
    moreover have "pg_ops_ok busy ((vd_pending d')(s \<mapsto> ?pg))"
      using r(2) gw by (auto simp: mid_def pg_ops_ok_def)
    ultimately have "vinv U busy V X (d'\<lparr>vd_pending := (vd_pending d')(s \<mapsto> ?pg)\<rparr>)"
      using r(2) by (simp add: mid_def vinv_def pends_ok_def core_def held_def handles_ok_def)
    then show ?thesis using r(1,6) False s by (simp add: verbs_submit_group_write_def vgood_def)
  qed
qed

lemma submit_group_handle_ok:
  assumes con: "verbs_contract env V U busy" and inv: "vinv U busy V X d"
    and conn: "\<And>g. map_of (vd_connecting d) h = Some g \<Longrightarrow> gwrite_ok busy (cg_rma_qps g) op"
    and est: "\<And>qps. map_of (vd_connecting d) h = None \<Longrightarrow> vd_peer_groups d h = Some qps \<Longrightarrow> gwrite_ok busy qps op"
  shows "\<exists>d'. verbs_submit_group_write env tid (Some h) op d = Some d' \<and> vgood U busy V X d d'"
proof (cases "map_of (vd_connecting d) h")
  case (Some g)
  let ?g = "g\<lparr>cg_pending_group_ops := cg_pending_group_ops g @ [(tid, op)]\<rparr>"
  let ?C = "AList.update h ?g (vd_connecting d)"
  have G: "groups_ok busy (vd_peers d) (vd_connecting d) (vd_peer_groups d)" using inv by (simp add: vinv_def)
  have hg: "(h, g) \<in> set (vd_connecting d)" using Some by (rule map_of_SomeD)
  have d': "distinct (map fst ?C)" using G by (simp add: groups_ok_def distinct_update)
  have entry: "(k, x) \<in> set (vd_connecting d) \<or> k = h \<and> x = ?g" if "(k, x) \<in> set ?C" for k x
    using that d' Some G by (metis (no_types, lifting) map_of_eq_Some_iff map_upd_Some_unfold update_conv' groups_ok_def)
  have "groups_ok busy (vd_peers d) ?C (vd_peer_groups d)"
    unfolding groups_ok_def
  proof (intro conjI allI impI)
    fix k x assume "(k, x) \<in> set ?C"
    from entry [OF this] show "waiting (vd_peers d) (cg_rma_qps x) (cg_pending_peers x)"
      "\<forall>y \<in> set (cg_pending_group_ops x). gwrite_ok busy (cg_rma_qps x) (snd y)"
      using G hg conn [OF Some] by (fastforce simp: groups_ok_def)+
  qed (use d' G in \<open>auto simp: groups_ok_def\<close>)
  then show ?thesis using inv Some
    by (simp add: verbs_submit_group_write_def vgood_def vinv_def core_def held_def handles_ok_def)
next
  case None
  show ?thesis
  proof (cases "vd_peer_groups d h")
    case [simp]: None
    then show ?thesis using \<open>map_of (vd_connecting d) h = None\<close> vgood_refl [OF inv] by (simp add: verbs_submit_group_write_def)
  next
    case (Some qps)
    have "set qps \<subseteq> ready (vd_peers d)" using inv Some by (simp add: vinv_def groups_ok_def)
    from group_submit_ok [OF con vinv_core [OF inv] est [OF None Some] this] show ?thesis
      using Some None vgood_frame [OF inv] by (auto simp: verbs_submit_group_write_def)
  qed
qed

end
