(* ===== verification/Verbs_Connect.thy ===== *)
theory Verbs_Connect
  imports Verbs_Inv
begin

text \<open>
  A handshake keeps the invariant of a verbs domain: both queue pairs of the peer are connected, what was
  waiting for the peer is submitted, and the groups and group writes that waited for it as their last
  peer are released.
\<close>

declare split_paired_All [simp del] split_paired_Ex [simp del]

section \<open>Connecting the queue pairs\<close>

lemma modify_step:
  assumes "verbs_contract env V U busy" "cv_qps V n qp = Some s" "qa_state attr = Some s'" "qp_next s s'"
  shows "\<exists>n'. ibv_modify_qp env qp attr n = (0, n') \<and> cv_qps V n' = (cv_qps V n)(qp \<mapsto> s') \<and> cv_out V n' = cv_out V n \<and>
           cv_arrivals V n' = cv_arrivals V n"
  using verbs_contractD(6) [OF assms(1), of qp attr n] assms(2-4)
  by (cases "ibv_modify_qp env qp attr n") (auto simp: modify_ok_def)

definition quiet_qps :: "'n card_view \<Rightarrow> 'n \<Rightarrow> 'n \<Rightarrow> bool" where
  "quiet_qps V n n' \<longleftrightarrow> cv_out V n' = cv_out V n \<and> cv_arrivals V n' = cv_arrivals V n"

lemma rc_steps:
  assumes con: "verbs_contract env V U busy"
  shows "cv_qps V n (rcq_qp q) = Some QpsReset \<Longrightarrow>
      \<exists>n'. rc_reset_to_init env q port pk n = (Inr (), n') \<and> cv_qps V n' = (cv_qps V n)(rcq_qp q \<mapsto> QpsInit) \<and> quiet_qps V n n'"
    "cv_qps V n (rcq_qp q) = Some QpsInit \<Longrightarrow>
      \<exists>n'. rc_init_to_rtr env q ib gi port mtu num psn lid g n = (Inr (), n') \<and>
           cv_qps V n' = (cv_qps V n)(rcq_qp q \<mapsto> QpsRtr) \<and> quiet_qps V n n'"
    "cv_qps V n (rcq_qp q) = Some QpsRtr \<Longrightarrow>
      \<exists>n'. rc_rtr_to_rts env q psn n = (Inr (), n') \<and> cv_qps V n' = (cv_qps V n)(rcq_qp q \<mapsto> QpsRts) \<and> quiet_qps V n n'"
proof -
  assume "cv_qps V n (rcq_qp q) = Some QpsReset"
  from modify_step [OF con this, of "rc_init_attr port pk" QpsInit]
  show "\<exists>n'. rc_reset_to_init env q port pk n = (Inr (), n') \<and> cv_qps V n' = (cv_qps V n)(rcq_qp q \<mapsto> QpsInit) \<and> quiet_qps V n n'"
    by (auto simp: rc_reset_to_init_def rc_init_attr_def code_result_def quiet_qps_def)
next
  assume "cv_qps V n (rcq_qp q) = Some QpsInit"
  from modify_step [OF con this, of "rc_rtr_attr ib gi port mtu num psn lid g" QpsRtr]
  show "\<exists>n'. rc_init_to_rtr env q ib gi port mtu num psn lid g n = (Inr (), n') \<and>
           cv_qps V n' = (cv_qps V n)(rcq_qp q \<mapsto> QpsRtr) \<and> quiet_qps V n n'"
    by (auto simp: rc_init_to_rtr_def rc_rtr_attr_def code_result_def quiet_qps_def)
next
  assume "cv_qps V n (rcq_qp q) = Some QpsRtr"
  from modify_step [OF con this, of "rc_rts_attr psn" QpsRts]
  show "\<exists>n'. rc_rtr_to_rts env q psn n = (Inr (), n') \<and> cv_qps V n' = (cv_qps V n)(rcq_qp q \<mapsto> QpsRts) \<and> quiet_qps V n n'"
    by (auto simp: rc_rtr_to_rts_def rc_rts_attr_def code_result_def quiet_qps_def)
qed

lemma hs_modify_ok:
  assumes con: "verbs_contract env V U busy" and ne: "msg_qp p \<noteq> rma_qp p"
    and q: "cv_qps V (vd_nic d) (msg_qp p) = Some QpsReset" "cv_qps V (vd_nic d) (rma_qp p) = Some QpsReset"
  shows "\<exists>n'. hs_modify env info p d = (Inr (), d\<lparr>vd_nic := n'\<rparr>) \<and> quiet_qps V (vd_nic d) n' \<and>
           cv_qps V n' = (cv_qps V (vd_nic d))(msg_qp p \<mapsto> QpsRts, rma_qp p \<mapsto> QpsRts)"
proof -
  let ?m = "peer_msg_rc p" and ?r = "peer_rma_rc p" and ?n = "vd_nic d"
  obtain n1 where 1: "rc_reset_to_init env ?m (vd_port_num d) 0 ?n = (Inr (), n1)"
    "cv_qps V n1 = (cv_qps V ?n)(msg_qp p \<mapsto> QpsInit)" "quiet_qps V ?n n1" using rc_steps(1) [OF con q(1)] by blast
  obtain n2 where 2: "rc_reset_to_init env ?r (vd_port_num d) 0 n1 = (Inr (), n2)"
    "cv_qps V n2 = (cv_qps V n1)(rma_qp p \<mapsto> QpsInit)" "quiet_qps V n1 n2"
    using rc_steps(1) [OF con, of n1 ?r] 1(2) ne q(2) by fastforce
  obtain n3 where 3: "rc_init_to_rtr env ?m (vd_is_infiniband d) (vd_gid_index d) (vd_port_num d) (vd_mtu d)
      (hs_msg_qp_num info) (hs_msg_psn info) (hs_lid info) (hs_gid info) n2 = (Inr (), n3)"
    "cv_qps V n3 = (cv_qps V n2)(msg_qp p \<mapsto> QpsRtr)" "quiet_qps V n2 n3"
    using rc_steps(2) [OF con, of n2 ?m] 1(2) 2(2) ne by fastforce
  obtain n4 where 4: "rc_init_to_rtr env ?r (vd_is_infiniband d) (vd_gid_index d) (vd_port_num d) (vd_mtu d)
      (hs_rma_qp_num info) (hs_rma_psn info) (hs_lid info) (hs_gid info) n3 = (Inr (), n4)"
    "cv_qps V n4 = (cv_qps V n3)(rma_qp p \<mapsto> QpsRtr)" "quiet_qps V n3 n4"
    using rc_steps(2) [OF con, of n3 ?r] 2(2) 3(2) ne by fastforce
  obtain n5 where 5: "rc_rtr_to_rts env ?m (hs_msg_psn info) n4 = (Inr (), n5)"
    "cv_qps V n5 = (cv_qps V n4)(msg_qp p \<mapsto> QpsRts)" "quiet_qps V n4 n5"
    using rc_steps(3) [OF con, of n4 ?m] 3(2) 4(2) ne by fastforce
  obtain n6 where 6: "rc_rtr_to_rts env ?r (hs_rma_psn info) n5 = (Inr (), n6)"
    "cv_qps V n6 = (cv_qps V n5)(rma_qp p \<mapsto> QpsRts)" "quiet_qps V n5 n6"
    using rc_steps(3) [OF con, of n5 ?r] 4(2) 5(2) ne by fastforce
  have "cv_qps V n6 = (cv_qps V ?n)(msg_qp p \<mapsto> QpsRts, rma_qp p \<mapsto> QpsRts)"
    unfolding 6(2) 5(2) 4(2) 3(2) 2(2) 1(2) using ne by (auto simp: fun_eq_iff)
  moreover have "quiet_qps V ?n n6" using 1(3) 2(3) 3(3) 4(3) 5(3) 6(3) by (simp add: quiet_qps_def)
  moreover have "hs_modify env info p d = (Inr (), d\<lparr>vd_nic := n6\<rparr>)"
    using 1(1) 2(1) 3(1) 4(1) 5(1) 6(1) by (simp add: hs_modify_def res_then_def on_nic_def)
  ultimately show ?thesis by blast
qed

section \<open>Establishing a peer\<close>

lemma ready_established:
  assumes "P a = Some p" "peer_st p \<noteq> Established" "p' = p\<lparr>peer_st := Established\<rparr>"
  shows "ready (P(a \<mapsto> p')) = ready P \<union> {msg_qp p, rma_qp p}"
proof -
  have "(P(a \<mapsto> p')) b = Some q \<and> peer_st q = Established \<longleftrightarrow> P b = Some q \<and> peer_st q = Established \<or> b = a \<and> q = p'" for b q
    using assms by auto
  then have "ready (P(a \<mapsto> p')) = {qp. \<exists>b q. (P b = Some q \<and> peer_st q = Established \<or> b = a \<and> q = p') \<and> (qp = msg_qp q \<or> qp = rma_qp q)}"
    by (simp only: ready_def flip: conj_assoc)
  then show ?thesis using assms(3) by (auto simp: ready_def conj_disj_distribR ex_disj_distrib simp del: fun_upd_apply)
qed

lemma conn_established:
  assumes ok: "peers_ok U busy Q P" and p: "P a = Some p" "peer_st p \<noteq> Established" "p' = p\<lparr>peer_st := Established\<rparr>"
  shows "conn_qps (P(a \<mapsto> p')) = conn_qps P - {rma_qp p}"
proof (intro equalityI subsetI)
  fix qp assume "qp \<in> conn_qps (P(a \<mapsto> p'))"
  then obtain b q where q: "(P(a \<mapsto> p')) b = Some q" "peer_st q \<noteq> Established" "qp = rma_qp q" using conn_memberD by blast
  then have "b \<noteq> a" using p(3) by auto
  then have b: "P b = Some q" using q(1) by simp
  have "rma_qp q \<noteq> rma_qp p" using peers_okD(3) [OF ok b p(1) \<open>b \<noteq> a\<close>] by auto
  then show "qp \<in> conn_qps P - {rma_qp p}" using conn_member [of P b q, OF b q(2)] q(3) by simp
next
  fix qp assume "qp \<in> conn_qps P - {rma_qp p}"
  then obtain b q where q: "P b = Some q" "peer_st q \<noteq> Established" "qp = rma_qp q" "qp \<noteq> rma_qp p" using conn_memberD by blast
  then have "b \<noteq> a" using p(1) by auto
  then have "(P(a \<mapsto> p')) b = Some q" using q(1) by simp
  from conn_member [of "P(a \<mapsto> p')" b q, OF this q(2)] q(3) show "qp \<in> conn_qps (P(a \<mapsto> p'))" by simp
qed

lemma peers_ok_established:
  assumes ok: "peers_ok U busy Q P" and p: "P a = Some p" "p' = p\<lparr>peer_st := Established\<rparr>"
  shows "peers_ok U busy (Q(msg_qp p \<mapsto> QpsRts, rma_qp p \<mapsto> QpsRts)) (P(a \<mapsto> p'))"
proof (rule peers_okI)
  show "dom (P(a \<mapsto> p')) \<subseteq> U" using peers_okD(1) [OF ok] p(1) by auto
next
  fix b q assume b: "(P(a \<mapsto> p')) b = Some q"
  show "peer_ok busy (Q(msg_qp p \<mapsto> QpsRts, rma_qp p \<mapsto> QpsRts)) q"
  proof (cases "b = a")
    case True
    then have "q = p'" using b by simp
    then show ?thesis using peers_okD(2) [OF ok p(1)] p(2) by (simp add: peer_ok_def can_post_def)
  next
    case False
    then have b: "P b = Some q" using b by simp
    have "msg_qp q \<noteq> msg_qp p" "msg_qp q \<noteq> rma_qp p" "rma_qp q \<noteq> msg_qp p" "rma_qp q \<noteq> rma_qp p"
      using peers_okD(3) [OF ok b p(1) False] by auto
    then show ?thesis using peers_okD(2) [OF ok b] by (auto simp: peer_ok_def split: peer_state.splits)
  qed
next
  fix b c x y assume xy: "(P(a \<mapsto> p')) b = Some x" "(P(a \<mapsto> p')) c = Some y" "b \<noteq> c"
  obtain x' y' where "P b = Some x'" "msg_qp x = msg_qp x'" "rma_qp x = rma_qp x'"
    "P c = Some y'" "msg_qp y = msg_qp y'" "rma_qp y = rma_qp y'"
  proof -
    have 1: "\<exists>x'. P b = Some x' \<and> msg_qp x = msg_qp x' \<and> rma_qp x = rma_qp x'" using xy(1) p by (cases "b = a") auto
    have 2: "\<exists>y'. P c = Some y' \<and> msg_qp y = msg_qp y' \<and> rma_qp y = rma_qp y'" using xy(2) p by (cases "c = a") auto
    from 1 2 that show thesis by blast
  qed
  then show "{msg_qp x, rma_qp x} \<inter> {msg_qp y, rma_qp y} = {}" using peers_okD(3) [OF ok _ _ xy(3)] by metis
qed

lemma core_established:
  assumes c: "core U busy V X d" and p: "vd_peers d a = Some p" "peer_st p \<noteq> Established" "p' = p\<lparr>peer_st := Established\<rparr>"
    and n: "quiet_qps V (vd_nic d) n'" "cv_qps V n' = (cv_qps V (vd_nic d))(msg_qp p \<mapsto> QpsRts, rma_qp p \<mapsto> QpsRts)"
  shows "core U busy V X (d\<lparr>vd_nic := n', vd_peers := (vd_peers d)(a \<mapsto> p')\<rparr>)"
proof -
  let ?P = "vd_peers d" and ?Q = "cv_qps V (vd_nic d)"
  have P: "peers_ok U busy ?Q ?P" using c by (simp add: core_def)
  have R: "ready ?P \<subseteq> ready (?P(a \<mapsto> p'))" using ready_established [of ?P a p p', OF p] by blast
  have q: "?Q (msg_qp p) \<noteq> None" "?Q (rma_qp p) \<noteq> None" using peer_ok_qps [OF peers_okD(2) [OF P p(1)]] by simp_all
  then have dQ: "dom (cv_qps V n') = dom ?Q" unfolding n(2) by auto
  have dP: "dom (?P(a \<mapsto> p')) = dom ?P" using p(1) by auto
  have h: "handles_ok V (d\<lparr>vd_nic := n', vd_peers := ?P(a \<mapsto> p')\<rparr>)"
    using c n(2) by (auto simp: core_def handles_ok_def can_post_def)
  have held: "held V X (d\<lparr>vd_nic := n', vd_peers := ?P(a \<mapsto> p')\<rparr>) = held V X d" using n(1) by (simp add: held_def quiet_qps_def)
  have "peers_ok U busy (cv_qps V n') (?P(a \<mapsto> p'))" unfolding n(2) by (rule peers_ok_established [OF P p(1,3)])
  then show ?thesis using c h dQ dP R store_viok_mono [OF _ R, of busy] unfolding core_def held by auto
qed

subsection \<open>Connected groups\<close>

text \<open>Groups of the list \<open>hs\<close> are connected and still to be moved, the others wait.\<close>

definition moving ::
    "bool \<Rightarrow> peer_map \<Rightarrow> peer_group_handle list \<Rightarrow> (peer_group_handle \<times> connecting_peer_group) list \<Rightarrow> (peer_group_handle \<rightharpoonup> ptr list) \<Rightarrow> bool" where
  "moving busy P hs C G \<longleftrightarrow> distinct (map fst C) \<and> distinct hs \<and> set hs \<subseteq> fst ` set C \<and>
     (\<forall>h g. (h, g) \<in> set C \<longrightarrow>
        (if h \<in> set hs then set (cg_rma_qps g) \<subseteq> ready P else waiting P (cg_rma_qps g) (cg_pending_peers g)) \<and>
        (\<forall>x \<in> set (cg_pending_group_ops g). gwrite_ok busy (cg_rma_qps g) (snd x))) \<and>
     (\<forall>h qps. G h = Some qps \<longrightarrow> set qps \<subseteq> ready P)"

text \<open>What the moves leave alone.\<close>

definition gframe :: "'n card_view \<Rightarrow> 'n verbs_domain \<Rightarrow> 'n verbs_domain \<Rightarrow> bool" where
  "gframe V d d' \<longleftrightarrow> vd_peers d' = vd_peers d \<and> vd_pending_pool d' = vd_pending_pool d \<and> vd_pending d' = vd_pending d \<and>
     cv_arrivals V (vd_nic d') = cv_arrivals V (vd_nic d)"

lemma movingD:
  assumes "moving busy P hs C G"
  shows "distinct (map fst C)" "distinct hs" "set hs \<subseteq> fst ` set C"
    "(h, g) \<in> set C \<Longrightarrow> h \<in> set hs \<Longrightarrow> set (cg_rma_qps g) \<subseteq> ready P"
    "(h, g) \<in> set C \<Longrightarrow> h \<notin> set hs \<Longrightarrow> waiting P (cg_rma_qps g) (cg_pending_peers g)"
    "(h, g) \<in> set C \<Longrightarrow> x \<in> set (cg_pending_group_ops g) \<Longrightarrow> gwrite_ok busy (cg_rma_qps g) (snd x)"
    "G h = Some qps \<Longrightarrow> set qps \<subseteq> ready P"
  using assms unfolding moving_def by metis+

lemma moving_step:
  assumes m: "moving busy P (h # hs) C G" and g: "map_of C h = Some g"
  shows "moving busy P hs (filter (\<lambda>e. fst e \<noteq> h) C) (G(h \<mapsto> cg_rma_qps g))"
proof -
  have hg: "(h, g) \<in> set C" using g by (rule map_of_SomeD)
  have h: "h \<notin> set hs" "distinct hs" using movingD(2) [OF m] by simp_all
  have q: "set (cg_rma_qps g) \<subseteq> ready P" by (rule movingD(4) [OF m hg]) simp
  show ?thesis
    unfolding moving_def
  proof (intro conjI allI impI ballI)
    show "distinct (map fst (filter (\<lambda>e. fst e \<noteq> h) C))" using movingD(1) [OF m] by (rule distinct_map_filter)
    show "set hs \<subseteq> fst ` set (filter (\<lambda>e. fst e \<noteq> h) C)" using movingD(3) [OF m] h(1) by force
  next
    fix k x assume "(k, x) \<in> set (filter (\<lambda>e. fst e \<noteq> h) C)"
    then have x: "(k, x) \<in> set C" "k \<noteq> h" by simp_all
    show "if k \<in> set hs then set (cg_rma_qps x) \<subseteq> ready P else waiting P (cg_rma_qps x) (cg_pending_peers x)"
      using movingD(4,5) [OF m x(1)] x(2) by simp
    show "gwrite_ok busy (cg_rma_qps x) (snd y)" if "y \<in> set (cg_pending_group_ops x)" for y by (rule movingD(6) [OF m x(1) that])
  next
    fix k qps assume "(G(h \<mapsto> cg_rma_qps g)) k = Some qps"
    then show "set qps \<subseteq> ready P" using q movingD(7) [OF m, of k qps] by (auto split: if_splits)
  qed (rule h(2))
qed

lemma move_groups_ok:
  assumes con: "verbs_contract env V U busy"
  shows "core U busy V X d \<Longrightarrow> moving busy (vd_peers d) hs (vd_connecting d) (vd_peer_groups d) \<Longrightarrow>
    \<exists>d'. foldM (hs_group_connected env) hs d = Some d' \<and> core U busy V X d' \<and> gframe V d d' \<and>
      groups_ok busy (vd_peers d') (vd_connecting d') (vd_peer_groups d')"
proof (induction hs arbitrary: d)
  case Nil
  then show ?case by (simp add: moving_def groups_ok_def gframe_def)
next
  case (Cons h hs)
  note mD = movingD [OF Cons.prems(2)]
  have "map_of (vd_connecting d) h \<noteq> None" using mD(3) by (simp add: map_of_eq_None_iff)
  then obtain g where g: "map_of (vd_connecting d) h = Some g" by blast
  define d1 where "d1 = d\<lparr>vd_connecting := filter (\<lambda>e. fst e \<noteq> h) (vd_connecting d),
    vd_peer_groups := (vd_peer_groups d)(h \<mapsto> cg_rma_qps g)\<rparr>"
  have m1: "moving busy (vd_peers d1) hs (vd_connecting d1) (vd_peer_groups d1)"
    using moving_step [OF Cons.prems(2) g] by (simp add: d1_def)
  have c1: "core U busy V X d1" using Cons.prems(1) by (simp add: core_def held_def handles_ok_def d1_def)
  have hg: "(h, g) \<in> set (vd_connecting d)" using g by (rule map_of_SomeD)
  have gw: "gwrite_ok busy (cg_rma_qps g) (snd x)" if "x \<in> set (cg_pending_group_ops g)" for x
    by (rule mD(6) [OF hg that])
  have q: "set (cg_rma_qps g) \<subseteq> ready (vd_peers d1)" using mD(4) [OF hg] by (simp add: d1_def)
  have "\<exists>e'. (\<lambda>(tid, op). verbs_do_submit_group_write env tid (cg_rma_qps g) op) x e = Some e' \<and> core U busy V X e' \<and> vframe V e e'"
    if "x \<in> set (cg_pending_group_ops g)" "core U busy V X e" "vframe V d1 e" for x e
    using group_submit_ok [OF con that(2) gw [OF that(1)], of "fst x"] q that(3) by (simp add: vframe_def case_prod_beta)
  from foldM_core [of "cg_pending_group_ops g" U busy V X d1
      "\<lambda>(tid, op). verbs_do_submit_group_write env tid (cg_rma_qps g) op", OF this c1] obtain d2 where
    d2: "foldM (\<lambda>(tid, op). verbs_do_submit_group_write env tid (cg_rma_qps g) op) (cg_pending_group_ops g) d1 = Some d2"
    "core U busy V X d2" "vframe V d1 d2" by blast
  have "moving busy (vd_peers d2) hs (vd_connecting d2) (vd_peer_groups d2)" using m1 d2(3) by (simp add: vframe_def)
  from Cons.IH [OF d2(2) this] obtain d' where "foldM (hs_group_connected env) hs d2 = Some d'" "core U busy V X d'" "gframe V d2 d'"
    "groups_ok busy (vd_peers d') (vd_connecting d') (vd_peer_groups d')" by blast
  moreover have "hs_group_connected env h d = Some d2" using g d2(1) by (simp add: hs_group_connected_def d1_def)
  moreover have "gframe V d d2" using d2(3) by (simp add: vframe_def gframe_def d1_def)
  ultimately show ?case by (simp add: gframe_def)
qed

lemma moving_start:
  assumes con: "verbs_contract env V U busy" and G: "groups_ok busy P (vd_connecting d) (vd_peer_groups d)"
    and P': "ready P \<subseteq> ready P'" "qp \<in> ready P'" "conn_qps P - {qp} \<subseteq> conn_qps P'"
  shows "moving busy P' (hs_connected env qp d) (map (map_prod id (cg_remove qp)) (vd_connecting d)) (vd_peer_groups d)"
proof -
  let ?C = "vd_connecting d"
  have keys: "map fst (map (map_prod id (cg_remove qp)) ?C) = map fst ?C" by simp
  have dis: "distinct (map fst ?C)" using G by (simp add: groups_ok_def)
  have perm: "mset (hash_order env (map fst ?C)) = mset (map fst ?C)" by (rule verbs_contract_quiet(7) [OF con])
  have hs: "distinct (hs_connected env qp d)" "set (hs_connected env qp d) \<subseteq> fst ` set ?C"
    using perm dis mset_eq_setD [OF perm] mset_eq_imp_distinct_iff [OF perm] by (auto simp: hs_connected_def)
  have mem: "h \<in> set (hs_connected env qp d) \<longleftrightarrow> cg_last qp g" if "(h, g) \<in> set ?C" for h g
  proof -
    have "map_of ?C h = Some g" using that dis by simp
    moreover have "h \<in> set (hash_order env (map fst ?C))" using mset_eq_setD [OF perm] that by force
    ultimately show ?thesis by (simp add: hs_connected_def)
  qed
  have each: "(if h \<in> set (hs_connected env qp d) then set (cg_rma_qps g) \<subseteq> ready P'
      else waiting P' (cg_rma_qps g) (cg_pending_peers (cg_remove qp g)))" if hg: "(h, g) \<in> set ?C" for h g
  proof -
    have w: "waiting P (cg_rma_qps g) (cg_pending_peers g)" using G hg by (auto simp: groups_ok_def)
    note wD = this [unfolded waiting_def]
    let ?rest = "removeAll qp (cg_pending_peers g)"
    have 1: "set (cg_rma_qps g) \<subseteq> ready P' \<union> set ?rest" using wD P'(1,2) by auto
    have 2: "set ?rest \<subseteq> conn_qps P'" using wD P'(3) by auto
    have 3: "?rest = [] \<Longrightarrow> qp \<in> set (cg_pending_peers g)" using wD by (metis removeAll_id)
    show ?thesis
    proof (cases "?rest = []")
      case True
      then have "h \<in> set (hs_connected env qp d)" using mem [OF hg] 3 by (simp add: cg_last_def)
      moreover have "set (cg_rma_qps g) \<subseteq> ready P'" using 1 unfolding True by simp
      ultimately show ?thesis by simp
    next
      case False
      then have "h \<notin> set (hs_connected env qp d)" using mem [OF hg] by (simp add: cg_last_def)
      moreover have "waiting P' (cg_rma_qps g) ?rest" unfolding waiting_def by (intro conjI False 1 2)
      ultimately show ?thesis by (simp add: cg_remove_def)
    qed
  qed
  show ?thesis
    unfolding moving_def keys
  proof (intro conjI allI impI)
    show "set (hs_connected env qp d) \<subseteq> fst ` set (map (map_prod id (cg_remove qp)) ?C)" using hs(2) by (force simp: image_iff)
    fix h x assume "(h, x) \<in> set (map (map_prod id (cg_remove qp)) ?C)"
    then obtain g where g: "(h, g) \<in> set ?C" "x = cg_remove qp g" by auto
    show "if h \<in> set (hs_connected env qp d) then set (cg_rma_qps x) \<subseteq> ready P' else waiting P' (cg_rma_qps x) (cg_pending_peers x)"
      using each [OF g(1)] unfolding g(2) by (auto simp: cg_remove_def split: if_splits)
    show "\<forall>y \<in> set (cg_pending_group_ops x). gwrite_ok busy (cg_rma_qps x) (snd y)"
      using G g by (auto simp: groups_ok_def cg_remove_def)
  next
    fix h qps assume "vd_peer_groups d h = Some qps"
    then have "set qps \<subseteq> ready P" using G by (simp add: groups_ok_def)
    then show "set qps \<subseteq> ready P'" using P'(1) by (rule order_trans)
  qed (rule dis hs(1))+
qed

subsection \<open>Pending group writes\<close>

text \<open>The writes in \<open>gs\<close> still count \<open>q\<close> as pending although its peer is established; the others wait.\<close>

definition lacking :: "peer_map \<Rightarrow> ptr \<Rightarrow> pending_group_write_op \<Rightarrow> bool" where
  "lacking P q pg \<longleftrightarrow> q \<in> set (pg_pending_peers pg) \<and> set (removeAll q (pg_pending_peers pg)) \<subseteq> conn_qps P \<and>
     set (pg_rma_qps pg) \<subseteq> ready P \<union> set (removeAll q (pg_pending_peers pg))"

definition draining :: "peer_map \<Rightarrow> ptr \<Rightarrow> slot list \<Rightarrow> object_pool \<Rightarrow> (slot \<rightharpoonup> pending_group_write_op) \<Rightarrow> bool" where
  "draining P q gs pool H \<longleftrightarrow> op_inv pool (dom H) \<and> distinct gs \<and> set gs \<subseteq> dom H \<and>
     (\<forall>s pg. H s = Some pg \<longrightarrow> (if s \<in> set gs then lacking P q pg else waiting P (pg_rma_qps pg) (pg_pending_peers pg))) \<and>
     (\<forall>b p subs gs. P b = Some p \<longrightarrow> peer_st p = Connecting subs gs \<longrightarrow>
        (\<forall>s. s \<in> set gs \<longleftrightarrow> (\<exists>pg. H s = Some pg \<and> rma_qp p \<in> set (pg_pending_peers pg))))"

lemma drainingD:
  assumes "draining P q gs pool H"
  shows "op_inv pool (dom H)" "distinct gs" "set gs \<subseteq> dom H"
    "H s = Some pg \<Longrightarrow> s \<in> set gs \<Longrightarrow> lacking P q pg"
    "H s = Some pg \<Longrightarrow> s \<notin> set gs \<Longrightarrow> waiting P (pg_rma_qps pg) (pg_pending_peers pg)"
    "P b = Some p \<Longrightarrow> peer_st p = Connecting subs hs \<Longrightarrow> s \<in> set hs \<longleftrightarrow> (\<exists>pg. H s = Some pg \<and> rma_qp p \<in> set (pg_pending_peers pg))"
  using assms unfolding draining_def by metis+

lemma draining_step:
  assumes dr: "draining P q (s # gs) pool H" and s: "H s = Some pg" and q: "q \<notin> conn_qps P"
    and rest: "rest = removeAll q (pg_pending_peers pg)"
  shows "rest = [] \<Longrightarrow> draining P q gs (free_and_drop s pool) (H(s := None))"
    "rest \<noteq> [] \<Longrightarrow> draining P q gs pool (H(s \<mapsto> pg\<lparr>pg_pending_peers := rest\<rparr>))"
proof -
  note D = drainingD [OF dr]
  have lk: "lacking P q pg" by (rule D(4) [OF s]) simp
  have gs: "distinct gs" "s \<notin> set gs" using D(2) by simp_all
  have not_q: "rma_qp p \<noteq> q" if "P b = Some p" "peer_st p = Connecting subs hs" for b p subs hs
    using conn_member [of P b p, OF that(1)] that(2) q by auto
  show "draining P q gs (free_and_drop s pool) (H(s := None))" if e: "rest = []"
    unfolding draining_def
  proof (intro conjI allI impI)
    have "s \<in> dom H" using s by blast
    moreover have "dom (H(s := None)) = dom H - {s}" by auto
    ultimately show "op_inv (free_and_drop s pool) (dom (H(s := None)))" using op_free_inv [OF D(1)] by simp
    show "set gs \<subseteq> dom (H(s := None))" using D(3) gs(2) by auto
    fix t x assume t: "(H(s := None)) t = Some x"
    then have "t \<noteq> s" "H t = Some x" by (simp_all split: if_splits)
    then show "if t \<in> set gs then lacking P q x else waiting P (pg_rma_qps x) (pg_pending_peers x)" using D(4,5) [of t x] by simp
  next
    fix b p subs hs t assume b: "P b = Some p" "peer_st p = Connecting subs hs"
    have "s \<notin> set hs" using D(6) [OF b, of s] s e rest not_q [OF b]
      by (metis empty_iff list.set(1) option.inject set_removeAll insert_Diff_single insert_iff)
    then show "t \<in> set hs \<longleftrightarrow> (\<exists>x. (H(s := None)) t = Some x \<and> rma_qp p \<in> set (pg_pending_peers x))"
      using D(6) [OF b, of t] by (cases "t = s") simp_all
  qed (rule gs(1))
  show "draining P q gs pool (H(s \<mapsto> pg\<lparr>pg_pending_peers := rest\<rparr>))" if ne: "rest \<noteq> []"
    unfolding draining_def
  proof (intro conjI allI impI)
    let ?H = "H(s \<mapsto> pg\<lparr>pg_pending_peers := rest\<rparr>)"
    have dom: "dom ?H = dom H" using s by auto
    show "op_inv pool (dom ?H)" using D(1) unfolding dom .
    show "set gs \<subseteq> dom ?H" using D(3) unfolding dom by simp
    have w: "waiting P (pg_rma_qps pg) rest" using lk ne rest by (simp add: lacking_def waiting_def)
    fix t x assume t: "?H t = Some x"
    show "if t \<in> set gs then lacking P q x else waiting P (pg_rma_qps x) (pg_pending_peers x)"
      using t D(4,5) [of t x] gs(2) w by (cases "t = s") auto
  next
    fix b p subs hs t assume b: "P b = Some p" "peer_st p = Connecting subs hs"
    show "t \<in> set hs \<longleftrightarrow> (\<exists>x. (H(s \<mapsto> pg\<lparr>pg_pending_peers := rest\<rparr>)) t = Some x \<and> rma_qp p \<in> set (pg_pending_peers x))"
      using D(6) [OF b, of t] s not_q [OF b] rest by (cases "t = s") simp_all
  qed (rule gs(1))
qed

lemma drain_ok:
  assumes con: "verbs_contract env V U busy"
  shows "core U busy V X d \<Longrightarrow> draining (vd_peers d) q gs (vd_pending_pool d) (vd_pending d) \<Longrightarrow>
    pg_ops_ok busy (vd_pending d) \<Longrightarrow> q \<in> ready (vd_peers d) \<Longrightarrow> q \<notin> conn_qps (vd_peers d) \<Longrightarrow>
    \<exists>d'. foldM (hs_pending_write env q) gs d = Some d' \<and> core U busy V X d' \<and>
      vd_peers d' = vd_peers d \<and> vd_connecting d' = vd_connecting d \<and> vd_peer_groups d' = vd_peer_groups d \<and>
      cv_arrivals V (vd_nic d') = cv_arrivals V (vd_nic d) \<and> pends_ok busy (vd_peers d') (vd_pending_pool d') (vd_pending d')"
proof (induction gs arbitrary: d)
  case Nil
  then show ?case by (simp add: draining_def pends_ok_def links_ok_def)
next
  case (Cons s gs)
  note D = drainingD [OF Cons.prems(2)]
  obtain pg where s: "vd_pending d s = Some pg" using D(3) by auto
  have lk: "lacking (vd_peers d) q pg" by (rule D(4) [OF s]) simp
  obtain op where op: "pg_op pg = Some op" "gwrite_ok busy (pg_rma_qps pg) op" using Cons.prems(3) s by (auto simp: pg_ops_ok_def)
  define rest where "rest = removeAll q (pg_pending_peers pg)"
  note step = draining_step [OF Cons.prems(2) s Cons.prems(5) rest_def]
  have qin: "q \<in> set (pg_pending_peers pg)" using lk by (simp add: lacking_def)
  have "\<exists>e. hs_pending_write env q s d = Some e \<and> core U busy V X e \<and> vd_peers e = vd_peers d \<and>
     vd_connecting e = vd_connecting d \<and> vd_peer_groups e = vd_peer_groups d \<and>
     cv_arrivals V (vd_nic e) = cv_arrivals V (vd_nic d) \<and>
     draining (vd_peers d) q gs (vd_pending_pool e) (vd_pending e) \<and> pg_ops_ok busy (vd_pending e)"
  proof (cases "rest = []")
    case True
    have "set (pg_rma_qps pg) \<subseteq> ready (vd_peers d)" using lk True unfolding rest_def lacking_def by simp
    from group_submit_ok [OF con Cons.prems(1) op(2) this, of "pg_transfer_id pg"] obtain e where
      e: "verbs_do_submit_group_write env (pg_transfer_id pg) (pg_rma_qps pg) op d = Some e" "core U busy V X e" "vframe V d e" by blast
    define f where "f = e\<lparr>vd_pending_pool := free_and_drop s (vd_pending_pool e), vd_pending := (vd_pending e)(s := None)\<rparr>"
    have "hs_pending_write env q s d = Some f" using s qin True op(1) e(1) by (simp add: hs_pending_write_def rest_def f_def)
    moreover have "core U busy V X f" using e(2) by (simp add: core_def held_def handles_ok_def f_def)
    moreover have "pg_ops_ok busy (vd_pending f)" using Cons.prems(3) e(3) by (simp add: pg_ops_ok_def vframe_def f_def)
    ultimately show ?thesis using step(1) [OF True] e(3) by (intro exI [of _ f]) (simp add: vframe_def f_def)
  next
    case False
    define f where "f = d\<lparr>vd_pending := (vd_pending d)(s \<mapsto> pg\<lparr>pg_pending_peers := rest\<rparr>)\<rparr>"
    have "hs_pending_write env q s d = Some f" using s False by (simp add: hs_pending_write_def rest_def f_def)
    moreover have "core U busy V X f" using Cons.prems(1) by (simp add: core_def held_def handles_ok_def f_def)
    moreover have "pg_ops_ok busy (vd_pending f)" using Cons.prems(3) op by (simp add: pg_ops_ok_def f_def)
    ultimately show ?thesis using step(2) [OF False] by (intro exI [of _ f]) (simp add: f_def)
  qed
  then obtain e where e: "hs_pending_write env q s d = Some e" "core U busy V X e" "vd_peers e = vd_peers d"
    "vd_connecting e = vd_connecting d" "vd_peer_groups e = vd_peer_groups d" "cv_arrivals V (vd_nic e) = cv_arrivals V (vd_nic d)"
    "draining (vd_peers d) q gs (vd_pending_pool e) (vd_pending e)" "pg_ops_ok busy (vd_pending e)" by blast
  from Cons.IH [of e] e Cons.prems(4,5) show ?case by simp
qed

lemma draining_start:
  assumes L: "links_ok P pool H" and P: "peers_ok U busy Q P" and p: "P a = Some p" "peer_st p = Connecting subs gs"
    and p': "p' = p\<lparr>peer_st := Established\<rparr>"
  shows "draining (P(a \<mapsto> p')) (rma_qp p) gs pool H"
proof -
  let ?P = "P(a \<mapsto> p')" and ?q = "rma_qp p"
  note D = links_okD [OF L]
  have ne: "peer_st p \<noteq> Established" using p(2) by simp
  have R: "ready P \<subseteq> ready ?P" "?q \<in> ready ?P" using ready_established [of P a p p', OF p(1) ne p'] by auto
  have C: "conn_qps ?P = conn_qps P - {?q}" by (rule conn_established [of U busy Q P a p p', OF P p(1) ne p'])
  show ?thesis
    unfolding draining_def
  proof (intro conjI allI impI)
    show "op_inv pool (dom H)" by (rule D(1))
    show "distinct gs" using peers_okD(2) [OF P p(1)] p(2) by (simp add: peer_ok_def)
    show "set gs \<subseteq> dom H" using D(3) [of a p, OF p] by blast
    fix s pg assume s: "H s = Some pg"
    note w = D(2) [OF s, unfolded waiting_def]
    show "if s \<in> set gs then lacking ?P ?q pg else waiting ?P (pg_rma_qps pg) (pg_pending_peers pg)"
    proof (cases "s \<in> set gs")
      case True
      then have "?q \<in> set (pg_pending_peers pg)" using D(3) [of a p, OF p, of s] s by simp
      moreover have "set (removeAll ?q (pg_pending_peers pg)) \<subseteq> conn_qps ?P" using w unfolding C by auto
      moreover have "set (pg_rma_qps pg) \<subseteq> ready ?P \<union> set (removeAll ?q (pg_pending_peers pg))" using w R by auto
      ultimately show ?thesis using True by (simp add: lacking_def)
    next
      case False
      then have q: "?q \<notin> set (pg_pending_peers pg)" using D(3) [of a p, OF p, of s] s by simp
      have "set (pg_pending_peers pg) \<subseteq> conn_qps ?P" using w q unfolding C by blast
      moreover have "set (pg_rma_qps pg) \<subseteq> ready ?P \<union> set (pg_pending_peers pg)" using w R(1) by blast
      ultimately show ?thesis using w False by (simp add: waiting_def)
    qed
  next
    fix b x subs' hs s assume x: "?P b = Some x" "peer_st x = Connecting subs' hs"
    then have "b \<noteq> a" using p' by auto
    then have "P b = Some x" using x(1) by simp
    from D(3) [of b x, OF this x(2)] show "s \<in> set hs \<longleftrightarrow> (\<exists>pg. H s = Some pg \<and> rma_qp x \<in> set (pg_pending_peers pg))" .
  qed
qed

lemma hs_establish_ok:
  assumes con: "verbs_contract env V U busy" and inv: "vinv U busy V X d"
    and p: "vd_peers d a = Some p" "peer_st p = Connecting subs gs"
    and n: "quiet_qps V (vd_nic d) n'" "cv_qps V n' = (cv_qps V (vd_nic d))(msg_qp p \<mapsto> QpsRts, rma_qp p \<mapsto> QpsRts)"
  shows "\<exists>d'. hs_establish env a p (d\<lparr>vd_nic := n'\<rparr>) = Some d' \<and> vgood U busy V X d d'"
proof -
  define p' where p': "p' = p\<lparr>peer_st := Established\<rparr>"
  let ?P = "vd_peers d" and ?q = "rma_qp p"
  define d1 where "d1 = d\<lparr>vd_nic := n', vd_peers := ?P(a \<mapsto> p')\<rparr>"
  have ne: "peer_st p \<noteq> Established" using p(2) by simp
  have P: "peers_ok U busy (cv_qps V (vd_nic d)) ?P" using vinv_core [OF inv] by (simp add: core_def)
  note R = ready_established [of ?P a p p', OF p(1) ne p']
  note C = conn_established [of U busy "cv_qps V (vd_nic d)" ?P a p p', OF P p(1) ne p']
  have c1: "core U busy V X d1" unfolding d1_def by (rule core_established [OF vinv_core [OF inv] p(1) ne p' n])
  have subs: "out_op_ok busy (snd x)" if "x \<in> set subs" for x
    using peers_okD(2) [OF P p(1)] p(2) that by (simp add: peer_ok_def)
  have "\<exists>e'. (\<lambda>(tid, op). do_submit_outbound_op env tid op (msg_qp p) ?q) x e = Some e' \<and> core U busy V X e' \<and> vframe V e e'"
    if "x \<in> set subs" "core U busy V X e" "vframe V d1 e" for x e
    using outbound_ok [OF con that(2) subs [OF that(1)], of "msg_qp p" ?q "fst x"] that(3) R
    by (simp add: vframe_def case_prod_beta d1_def)
  from foldM_core [of subs U busy V X d1 "\<lambda>(tid, op). do_submit_outbound_op env tid op (msg_qp p) ?q", OF this c1]
  obtain d2 where d2: "foldM (\<lambda>(tid, op). do_submit_outbound_op env tid op (msg_qp p) ?q) subs d1 = Some d2"
    "core U busy V X d2" "vframe V d1 d2" by blast
  have f2: "vd_peers d2 = ?P(a \<mapsto> p')" "vd_connecting d2 = vd_connecting d" "vd_peer_groups d2 = vd_peer_groups d"
    "vd_pending_pool d2 = vd_pending_pool d" "vd_pending d2 = vd_pending d" "cv_arrivals V (vd_nic d2) = cv_arrivals V (vd_nic d)"
    using d2(3) n(1) by (simp_all add: vframe_def d1_def quiet_qps_def)
  define d3 where "d3 = d2\<lparr>vd_connecting := map (map_prod id (cg_remove ?q)) (vd_connecting d2)\<rparr>"
  have c3: "core U busy V X d3" using d2(2) by (simp add: core_def held_def handles_ok_def d3_def)
  have "groups_ok busy ?P (vd_connecting d2) (vd_peer_groups d2)" using inv f2 by (simp add: vinv_def)
  from moving_start [OF con this, of "?P(a \<mapsto> p')" ?q] R C
  have "moving busy (vd_peers d3) (hs_connected env ?q d2) (vd_connecting d3) (vd_peer_groups d3)" by (simp add: d3_def f2(1) subset_insertI2 del: fun_upd_apply)
  from move_groups_ok [OF con c3 this] obtain d4 where
    d4: "foldM (hs_group_connected env) (hs_connected env ?q d2) d3 = Some d4" "core U busy V X d4" "gframe V d3 d4"
    "groups_ok busy (vd_peers d4) (vd_connecting d4) (vd_peer_groups d4)" by blast
  have f4: "vd_peers d4 = ?P(a \<mapsto> p')" "vd_pending_pool d4 = vd_pending_pool d" "vd_pending d4 = vd_pending d"
    "cv_arrivals V (vd_nic d4) = cv_arrivals V (vd_nic d)" using d4(3) f2 by (simp_all add: gframe_def d3_def)
  have "links_ok ?P (vd_pending_pool d) (vd_pending d)" "pg_ops_ok busy (vd_pending d)" using inv by (simp_all add: vinv_def pends_ok_def)
  with draining_start [OF _ P p p'] have "draining (vd_peers d4) ?q gs (vd_pending_pool d4) (vd_pending d4)" "pg_ops_ok busy (vd_pending d4)"
    unfolding f4 by simp_all
  from drain_ok [OF con d4(2) this] R C obtain d5 where "foldM (hs_pending_write env ?q) gs d4 = Some d5" "core U busy V X d5"
    "vd_peers d5 = vd_peers d4" "vd_connecting d5 = vd_connecting d4" "vd_peer_groups d5 = vd_peer_groups d4"
    "cv_arrivals V (vd_nic d5) = cv_arrivals V (vd_nic d4)" "pends_ok busy (vd_peers d5) (vd_pending_pool d5) (vd_pending d5)"
    unfolding f4 by auto
  moreover have "hs_establish env a p (d\<lparr>vd_nic := n'\<rparr>) = foldM (hs_pending_write env ?q) gs d4"
    using d2(1) d4(1) p(2) by (simp add: hs_establish_def d1_def d3_def p' Let_def)
  ultimately show ?thesis using d4(4) f4(4) by (simp add: vgood_def vinv_def)
qed

lemma connecting_ok:
  assumes con: "verbs_contract env V U busy" and inv: "vinv U busy V X d"
    and p: "vd_peers d a = Some p" "peer_st p \<noteq> Established"
  shows "\<exists>d1 d'. hs_modify env info p d = (Inr (), d1) \<and> hs_establish env a p d1 = Some d' \<and> vgood U busy V X d d'"
proof -
  obtain subs gs where st: "peer_st p = Connecting subs gs" using p(2) by (cases "peer_st p") simp_all
  have "peer_ok busy (cv_qps V (vd_nic d)) p"
    using vinv_core [OF inv] peers_okD(2) [of U busy _ "vd_peers d" a p] p(1) by (simp add: core_def)
  then have "msg_qp p \<noteq> rma_qp p" "cv_qps V (vd_nic d) (msg_qp p) = Some QpsReset" "cv_qps V (vd_nic d) (rma_qp p) = Some QpsReset"
    using st by (simp_all add: peer_ok_def)
  from hs_modify_ok [OF con this, of info] obtain n' where n': "hs_modify env info p d = (Inr (), d\<lparr>vd_nic := n'\<rparr>)"
    "quiet_qps V (vd_nic d) n'" "cv_qps V n' = (cv_qps V (vd_nic d))(msg_qp p \<mapsto> QpsRts, rma_qp p \<mapsto> QpsRts)" by blast
  from hs_establish_ok [OF con inv p(1) st n'(2,3)] n'(1) show ?thesis by blast
qed

lemma handle_peer_handshake_ok:
  assumes con: "verbs_contract env V U busy" and bound: "peers_bound U" and inv: "vinv U busy V X d"
    and a: "ud_into_domain_address (hs_ud_addr info) \<in> U"
  shows "\<exists>d'. handle_peer_handshake env info d = Some (Inr (), d') \<and> vgood U busy V X d d'"
proof -
  let ?a = "ud_into_domain_address (hs_ud_addr info)"
  show ?thesis
  proof (cases "vd_peers d ?a")
    case None
    from open_peer_ok [OF con bound vinv_core [OF inv] a None, of "[]" "[]"]
    obtain qp d1 where d1: "open_peer env ?a [] [] d = (Inr qp, d1)" "core U busy V X d1" "new_peer V ?a [] [] qp d d1" by auto
    have g: "vgood U busy V X d d1" by (rule new_peer_good [OF inv d1(2,3) None])
    then have inv1: "vinv U busy V X d1" by (simp add: vgood_def)
    obtain p where p: "vd_peers d1 ?a = Some p" "peer_st p = Connecting [] []" using d1(3) by (auto simp: new_peer_def)
    from connecting_ok [OF con inv1 p(1), of info] p(2) obtain d2 d' where
      "hs_modify env info p d1 = (Inr (), d2)" "hs_establish env ?a p d2 = Some d'" "vgood U busy V X d1 d'" by auto
    then show ?thesis using None d1(1) p(1) vgood_trans [OF g] by (simp add: handle_peer_handshake_def)
  next
    case (Some p)
    show ?thesis
    proof (cases "peer_st p = Established")
      case True
      then show ?thesis using Some vgood_refl [OF inv] by (simp add: handle_peer_handshake_def)
    next
      case False
      from connecting_ok [OF con inv Some False, of info] obtain d2 d' where
        "hs_modify env info p d = (Inr (), d2)" "hs_establish env ?a p d2 = Some d'" "vgood U busy V X d d'" by auto
      then show ?thesis using Some False by (simp add: handle_peer_handshake_def)
    qed
  qed
qed

end
