(* ===== verification/Verbs_Safety.thy ===== *)
theory Verbs_Safety
  imports Verbs_Connect
begin

text \<open>
  Completions and progress of a verbs domain keep its invariant and every poll returns, so that no
  sequence of permitted calls panics or touches freed or uninitialised memory.
\<close>

declare split_paired_All [simp del] split_paired_Ex [simp del]

section \<open>Operations that leave the card\<close>

text \<open>
  A completion that was read is still counted until it is handled: its operation goes back on the
  card, or the accounts of its kind are settled.
\<close>

lemma held_add: "held V (add_mset x X) d = add_mset x (held V X d)"
  by (simp add: held_def)

lemma core_posted:
  assumes c: "core U busy V (add_mset x X) d" and e: "effect V {#x#} (vd_nic d) n'"
  shows "core U busy V X (d\<lparr>vd_nic := n'\<rparr>)"
proof -
  have "held V X (d\<lparr>vd_nic := n'\<rparr>) = held V (add_mset x X) d" using e by (simp add: held_def effect_def)
  then show ?thesis using c e by (simp add: core_def handles_ok_def effect_def)
qed

lemma ud_ok_other:
  assumes "fst x \<noteq> KUdSend" "fst x \<noteq> KUdRecv" "ud_ok (add_mset x M) pool k"
  shows "ud_ok M pool k"
proof -
  have "ud_bufs (add_mset x M) = ud_bufs M" using assms(1,2) by (auto simp: ud_bufs_def)
  moreover have "count (add_mset x M) (KUdRecv, CtxBuf p) = count M (KUdRecv, CtxBuf p)"
    "count (add_mset x M) (KUdSend, CtxBuf p) = count M (KUdSend, CtxBuf p)" for p using assms(1,2) by auto
  ultimately show ?thesis using assms(3) by (simp add: ud_ok_def split: if_splits)
qed

lemma core_settled:
  assumes c: "core U busy V (add_mset (k, x) X) d" and k: "k = KSend \<or> k = KRecv \<or> k = KImm"
  shows "core U busy V X d"
proof -
  have "ud_ok (held V X d) (vd_ud_mempool d) (card (dom (vd_peers d)))"
    by (rule ud_ok_other [of "(k, x)"]) (use c k in \<open>auto simp: core_def held_add\<close>)
  moreover have "on_card (add_mset (k, x) (held V X d)) = on_card (held V X d)" using k by auto
  ultimately show ?thesis using c by (simp add: core_def held_add)
qed

lemma core_write_done:
  assumes c: "core U busy V (add_mset (KWrite, CtxWrite a) X) d"
    and s: "store_ok (viok busy (ready (vd_peers d))) vleft (on_card (held V X d)) s"
  shows "core U busy V X (d\<lparr>vd_writes := s\<rparr>)"
proof -
  have "ud_ok (held V X d) (vd_ud_mempool d) (card (dom (vd_peers d)))"
    by (rule ud_ok_other [of "(KWrite, CtxWrite a)"]) (use c in \<open>auto simp: core_def held_add\<close>)
  moreover have "held V X (d\<lparr>vd_writes := s\<rparr>) = held V X d" by (simp add: held_def)
  ultimately show ?thesis using c s by (simp add: core_def held_add handles_ok_def)
qed

lemma ud_ok_sent:
  assumes ok: "ud_ok (add_mset (KUdSend, CtxBuf p) M) pool k"
  shows "ud_ok M (mp_free p pool) k"
proof -
  let ?M = "add_mset (KUdSend, CtxBuf p) M"
  have one: "\<forall>q. count ?M (KUdRecv, CtxBuf q) + count ?M (KUdSend, CtxBuf q) \<le> 1" using ok unfolding ud_ok_def by (elim conjE)
  have "count ?M (KUdRecv, CtxBuf p) + count ?M (KUdSend, CtxBuf p) \<le> 1" by (rule spec [OF one])
  then have "p \<notin> ud_bufs M" by (auto simp: ud_bufs_def simp flip: count_greater_zero_iff)
  moreover have "ud_bufs ?M = insert p (ud_bufs M)" by (auto simp: ud_bufs_def)
  ultimately have b: "ud_bufs M = ud_bufs ?M - {p}" "p \<in> ud_bufs ?M" by auto
  have "mp_inv (mp_free p pool) (ud_bufs M)" unfolding b(1) using ok b(2) mp_free_inv by (simp add: ud_ok_def)
  moreover have "count M (KUdRecv, CtxBuf q) + count M (KUdSend, CtxBuf q) \<le> 1" for q
  proof -
    have "count M (KUdRecv, CtxBuf q) + count M (KUdSend, CtxBuf q) \<le> count ?M (KUdRecv, CtxBuf q) + count ?M (KUdSend, CtxBuf q)" by simp
    also have "\<dots> \<le> 1" by (rule spec [OF one])
    finally show ?thesis .
  qed
  moreover have "mp_slots (mp_free p pool) = mp_slots pool" "mp_chunk_size (mp_free p pool) = mp_chunk_size pool"
    by (simp_all add: mp_free_def)
  ultimately show ?thesis using ok by (simp add: ud_ok_def)
qed

lemma core_ud_sent:
  assumes "core U busy V (add_mset (KUdSend, CtxBuf p) X) d"
  shows "core U busy V X (d\<lparr>vd_ud_mempool := mp_free p (vd_ud_mempool d)\<rparr>)"
proof -
  have "held V X (d\<lparr>vd_ud_mempool := mp_free p (vd_ud_mempool d)\<rparr>) = held V X d" by (simp add: held_def)
  then show ?thesis using assms ud_ok_sent [of p] by (simp add: core_def held_add handles_ok_def)
qed

text \<open>A buffer or an immediate receive that completed has room on its queue.\<close>

lemma core_room:
  assumes "core U busy V (add_mset x X) d" "x = (KUdRecv, CtxBuf p) \<or> x = (KImm, CtxNull)"
  shows "kcount (fst x) (cv_out V (vd_nic d)) < MAX_OPS"
proof -
  have "ud_ok (held V (add_mset x X) d) (vd_ud_mempool d) (card (dom (vd_peers d)))" using assms(1) by (simp add: core_def)
  then show ?thesis using assms(2) by (auto simp: ud_ok_def held_def NUM_UD_RECVS_def NUM_IMM_RECVS_def MAX_OPS_def)
qed

lemma post_ud_recv_ok:
  assumes con: "verbs_contract env V U busy" and c: "core U busy V (add_mset (KUdRecv, CtxBuf p) X) d"
  shows "\<exists>n'. post_ud_recv env p d = (Inr (), d\<lparr>vd_nic := n'\<rparr>) \<and> core U busy V X (d\<lparr>vd_nic := n'\<rparr>) \<and>
           cv_arrivals V n' = cv_arrivals V (vd_nic d) \<and> effect V {#(KUdRecv, CtxBuf p)#} (vd_nic d) n'"
proof -
  define w where "w = \<lparr>rwr_id = CtxBuf p, rwr_num_sge = 1, rwr_addr = p, rwr_length = of_nat (mp_chunk_size (vd_ud_mempool d)),
    rwr_lkey = ucast (desc_val (vd_ud_mempool_lkey d))\<rparr>"
  obtain r n' where r: "ibv_post_recv env (cv_ud_qp V) w (vd_nic d) = (r, n')" by fastforce
  have "r = 0 \<and> effect V {#(KUdRecv, CtxBuf p)#} (vd_nic d) n'"
    using verbs_contractD(2) [OF con, of w "vd_nic d"] core_room [OF c] r by (simp add: queue_post_ok_def w_def)
  then show ?thesis using r c core_posted [OF c, of n']
    by (intro exI [of _ n']) (simp add: post_ud_recv_def on_nic_def code_result_def core_def handles_ok_def w_def effect_def)
qed

lemma post_imm_recv_ok:
  assumes con: "verbs_contract env V U busy" and c: "core U busy V (add_mset (KImm, CtxNull) X) d"
  shows "\<exists>n'. post_imm_recv env d = (Inr (), d\<lparr>vd_nic := n'\<rparr>) \<and> core U busy V X (d\<lparr>vd_nic := n'\<rparr>) \<and>
           cv_arrivals V n' = cv_arrivals V (vd_nic d) \<and> effect V {#(KImm, CtxNull)#} (vd_nic d) n'"
proof -
  define w where "w = \<lparr>rwr_id = CtxNull, rwr_num_sge = 0, rwr_addr = 0, rwr_length = 0, rwr_lkey = 0\<rparr>"
  obtain r n' where r: "ibv_post_srq_recv env (cv_rma_srq V) w (vd_nic d) = (r, n')" by fastforce
  have "r = 0 \<and> effect V {#(KImm, CtxNull)#} (vd_nic d) n'"
    using verbs_contractD(3) [OF con, of w "vd_nic d"] core_room [OF c] r by (simp add: queue_post_ok_def w_def)
  then show ?thesis using r c core_posted [OF c, of n']
    by (intro exI [of _ n']) (simp add: post_imm_recv_def on_nic_def code_result_def core_def handles_ok_def w_def effect_def)
qed

section \<open>Handling completions\<close>

text \<open>A completion that is no arrival is handled without a call on the card.\<close>

definition handled :: "domain_address set \<Rightarrow> bool \<Rightarrow> 'n card_view \<Rightarrow> posted_ops \<Rightarrow> bool \<Rightarrow> 'n verbs_domain \<Rightarrow> 'n verbs_domain \<Rightarrow> bool" where
  "handled U busy V X arrival d d' \<longleftrightarrow> vgood U busy V X d d' \<and> (\<not> arrival \<longrightarrow> vd_nic d' = vd_nic d)"

lemma handledI:
  assumes "vinv U busy V Y d" "core U busy V X d'" "vframe V d d'" "\<not> arrival \<Longrightarrow> vd_nic d' = vd_nic d"
  shows "handled U busy V X arrival d d'"
  using vframe_inv [OF assms(1-3)] assms(3,4) by (simp add: handled_def vgood_def vframe_def)

lemma handle_ud_ok:
  assumes con: "verbs_contract env V U busy" and bound: "peers_bound U"
    and inv: "vinv U busy V (wc_op V w + X) d" and w: "wc_qp_num w = cv_ud_num V" "ud_wc_ok env U w"
  shows "\<exists>d'. verbs_handle_ud env w d = Some d' \<and> handled U busy V X (is_arrival w) d d'"
proof -
  note c = vinv_core [OF inv]
  have posted: "posted_ok (wc_op V w)" using c by (simp add: core_def held_def)
  have st: "wc_status w = 0" using w(2) by (simp add: ud_wc_ok_def)
  consider (recv) "wc_opcode w = WcRecv" | (send) "wc_opcode w = WcSend"
    | (other) "wc_op V w = {#}" "verbs_handle_ud env w d = Some d"
    using w st by (cases "wc_opcode w") (auto simp: wc_op_def verbs_handle_ud_def)
  then show ?thesis
  proof cases
    case recv
    then obtain p where p: "wc_wr_id w = CtxBuf p" "wc_op V w = {#(KUdRecv, CtxBuf p)#}"
      using posted w(1) posted_kind_okE(6) [of "wc_wr_id w"] by (auto simp: wc_op_def)
    have inv': "vinv U busy V (add_mset (KUdRecv, CtxBuf p) X) d" using inv p(2) by simp
    obtain info where info: "GRH_BYTES \<le> unat (wc_byte_len w)"
      "postcard_from_bytes env (drop GRH_BYTES (take (unat (wc_byte_len w)) (wc_buf w))) = Some info"
      "ud_into_domain_address (hs_ud_addr info) \<in> U" using w(2) recv by (auto simp: ud_wc_ok_def)
    from handle_peer_handshake_ok [OF con bound inv' info(3)] obtain d1 where
      d1: "handle_peer_handshake env info d = Some (Inr (), d1)" "vgood U busy V (add_mset (KUdRecv, CtxBuf p) X) d d1" by blast
    then have inv1: "vinv U busy V (add_mset (KUdRecv, CtxBuf p) X) d1" by (simp add: vgood_def)
    from post_ud_recv_ok [OF con vinv_core [OF inv1]] obtain n' where n': "post_ud_recv env p d1 = (Inr (), d1\<lparr>vd_nic := n'\<rparr>)"
      "core U busy V X (d1\<lparr>vd_nic := n'\<rparr>)" "cv_arrivals V n' = cv_arrivals V (vd_nic d1)" by blast
    have "vinv U busy V X (d1\<lparr>vd_nic := n'\<rparr>)" using vframe_inv [OF inv1 n'(2)] n'(3) by (simp add: vframe_def)
    then show ?thesis using recv p(1) st info(1,2) d1 n'(1,3)
      by (simp add: verbs_handle_ud_def handled_def vgood_def is_arrival_def)
  next
    case send
    then obtain p where p: "wc_wr_id w = CtxBuf p" "wc_op V w = {#(KUdSend, CtxBuf p)#}"
      using posted w(1) posted_kind_okE(5) [of "wc_wr_id w"] by (auto simp: wc_op_def)
    let ?d = "d\<lparr>vd_ud_mempool := mp_free p (vd_ud_mempool d)\<rparr>"
    have "core U busy V X ?d" by (rule core_ud_sent) (use c p(2) in simp)
    then have "handled U busy V X (is_arrival w) d ?d" by (rule handledI [OF inv]) (simp_all add: vframe_def)
    then show ?thesis using send p(1) st by (simp add: verbs_handle_ud_def)
  next
    case other
    then show ?thesis using handledI [OF inv, of X d] c by simp
  qed
qed

text \<open>A write completion, successful or not, finds its context alive.\<close>

lemma write_wc:
  assumes c: "core U busy V (wc_op V w + X) d" and w: "wc_qp_num w \<noteq> cv_ud_num V" "wc_opcode w = WcRdmaWrite"
  obtains a where "wc_wr_id w = CtxWrite a" "core U busy V (add_mset (KWrite, CtxWrite a) X) d"
    "store_ok (viok busy (ready (vd_peers d))) vleft (on_card (add_mset (KWrite, CtxWrite a) (held V X d))) (vd_writes d)"
proof -
  have op: "wc_op V w = {#(KWrite, wc_wr_id w)#}" using w by (simp add: wc_op_def)
  have "posted_ok (wc_op V w)" using c by (simp add: core_def held_def)
  then obtain a where a: "wc_wr_id w = CtxWrite a" using op posted_kind_okE(1) [of "wc_wr_id w"] by auto
  have c': "core U busy V (add_mset (KWrite, CtxWrite a) X) d" using c op a by simp
  show thesis by (rule that [OF a c']) (use c' in \<open>simp add: core_def held_add\<close>)
qed

lemma verbs_handle_error_ok:
  assumes inv: "vinv U busy V (wc_op V w + X) d" and w: "wc_qp_num w \<noteq> cv_ud_num V"
  shows "\<exists>r d'. verbs_handle_error env w d = Some (r, d') \<and> handled U busy V X (is_arrival w) d d'"
proof -
  note c = vinv_core [OF inv]
  have posted: "posted_ok (wc_op V w)" using c by (simp add: core_def held_def)
  show ?thesis
  proof (cases "wc_opcode w = WcRdmaWrite")
    case True
    obtain a where a: "wc_wr_id w = CtxWrite a" "core U busy V (add_mset (KWrite, CtxWrite a) X) d"
      "store_ok (viok busy (ready (vd_peers d))) vleft (on_card (add_mset (KWrite, CtxWrite a) (held V X d))) (vd_writes d)"
      by (rule write_wc [OF c w True])
    from cs_fail_ok [OF a(3), of a] obtain r s where s: "cs_fail a (vd_writes d) = Some (r, s)"
      "store_ok (viok busy (ready (vd_peers d))) vleft (on_card (held V X d)) s" unfolding out_dec_on_card by auto
    have "handled U busy V X (is_arrival w) d (d\<lparr>vd_writes := s\<rparr>)"
      by (rule handledI [OF inv core_write_done [OF a(2) s(2)]]) (simp_all add: vframe_def)
    then show ?thesis using True a(1) s(1) by (simp add: verbs_handle_error_def)
  next
    case False
    have "core U busy V X d"
      using c w False core_settled [of U busy V _ "wc_wr_id w" X d]
      by (cases "wc_opcode w") (auto simp: wc_op_def)
    then have "handled U busy V X (is_arrival w) d d" by (rule handledI [OF inv]) simp_all
    moreover have "\<exists>r. verbs_handle_error env w d = Some (r, d)"
      using False posted w posted_kind_okE(2,3) [of "wc_wr_id w"]
      by (cases "wc_opcode w") (auto simp: wc_op_def verbs_handle_error_def)
    ultimately show ?thesis by blast
  qed
qed

lemma verbs_handle_cqe_ok:
  assumes con: "verbs_contract env V U busy" and bound: "peers_bound U"
    and inv: "vinv U busy V (wc_op V w + X) d" and w: "wc_qp_num w = cv_ud_num V \<Longrightarrow> ud_wc_ok env U w"
  shows "\<exists>r d' m'. verbs_handle_cqe env w d m = Some (r, d', m') \<and> handled U busy V X (is_arrival w) d d'"
proof -
  note c = vinv_core [OF inv]
  have num: "ud_qp_num (udq_addr (vd_ud d)) = cv_ud_num V" using c by (simp add: core_def handles_ok_def)
  have posted: "posted_ok (wc_op V w)" using c by (simp add: core_def held_def)
  consider (ud) "wc_qp_num w = cv_ud_num V" | (err) "wc_qp_num w \<noteq> cv_ud_num V" "wc_status w \<noteq> 0"
    | (rdma) "wc_qp_num w \<noteq> cv_ud_num V" "wc_status w = 0" "wc_opcode w = WcRdmaWrite"
    | (imm) "wc_qp_num w \<noteq> cv_ud_num V" "wc_status w = 0" "wc_opcode w = WcRecvRdmaWithImm"
    | (message) "wc_qp_num w \<noteq> cv_ud_num V" "wc_status w = 0" "wc_opcode w = WcSend \<or> wc_opcode w = WcRecv \<or> wc_opcode w = WcOther"
    by (cases "wc_opcode w") auto
  then show ?thesis
  proof cases
    case ud
    from handle_ud_ok [OF con bound inv ud w [OF ud]] show ?thesis using ud num by (auto simp: verbs_handle_cqe_def)
  next
    case err
    from verbs_handle_error_ok [OF inv err(1), of env] show ?thesis using err num by (auto simp: verbs_handle_cqe_def)
  next
    case rdma
    obtain a where a: "wc_wr_id w = CtxWrite a" "core U busy V (add_mset (KWrite, CtxWrite a) X) d"
      "store_ok (viok busy (ready (vd_peers d))) vleft (on_card (add_mset (KWrite, CtxWrite a) (held V X d))) (vd_writes d)"
      by (rule write_wc [OF c rdma(1,3)])
    from cs_complete_ok [OF a(3), of a] obtain r s where s: "cs_complete a (vd_writes d) = Some (r, s)"
      "store_ok (viok busy (ready (vd_peers d))) vleft (on_card (held V X d)) s" unfolding out_dec_on_card by auto
    have "handled U busy V X (is_arrival w) d (d\<lparr>vd_writes := s\<rparr>)"
      by (rule handledI [OF inv core_write_done [OF a(2) s(2)]]) (simp_all add: vframe_def)
    then show ?thesis using rdma a(1) s(1) num by (simp add: verbs_handle_cqe_def)
  next
    case imm
    then have op: "wc_op V w = {#(KImm, CtxNull)#}" using posted posted_kind_okE(4) [of "wc_wr_id w"] by (simp add: wc_op_def)
    from post_imm_recv_ok [OF con, of X d] c op obtain n' where n': "post_imm_recv env d = (Inr (), d\<lparr>vd_nic := n'\<rparr>)"
      "core U busy V X (d\<lparr>vd_nic := n'\<rparr>)" "cv_arrivals V n' = cv_arrivals V (vd_nic d)" by auto
    have "handled U busy V X (is_arrival w) d (d\<lparr>vd_nic := n'\<rparr>)"
      by (rule handledI [OF inv n'(2)]) (use imm n'(3) in \<open>simp_all add: vframe_def is_arrival_def\<close>)
    then show ?thesis using imm n'(1) num
      by (cases "imm_inc (wc_imm w) m") (simp add: verbs_handle_cqe_def Let_def split: imm_count_status.split)
  next
    case message
    have "core U busy V X d"
      using c message core_settled [of U busy V _ "wc_wr_id w" X d] by (auto simp: wc_op_def)
    then have "handled U busy V X (is_arrival w) d d" by (rule handledI [OF inv]) simp_all
    moreover have "\<exists>r. verbs_handle_cqe env w d m = Some (r, d, m)"
      using message posted num posted_kind_okE(2,3) [of "wc_wr_id w"] by (auto simp: wc_op_def verbs_handle_cqe_def)
    ultimately show ?thesis by blast
  qed
qed

lemma handled_complete [simp]: "handled U busy V X b d (verbs_complete c e) = handled U busy V X b d e"
  by (simp add: handled_def) (simp add: verbs_complete_def)

lemma verbs_handle_cqes_ok:
  assumes con: "verbs_contract env V U busy" and bound: "peers_bound U"
  shows "vinv U busy V (wc_ops V ws) d \<Longrightarrow> \<forall>w \<in> set ws. wc_qp_num w = cv_ud_num V \<longrightarrow> ud_wc_ok env U w \<Longrightarrow>
    \<exists>d' m'. verbs_handle_cqes env ws d m = Some (d', m') \<and> handled U busy V {#} (filter is_arrival ws \<noteq> []) d d'"
proof (induction ws arbitrary: d m)
  case Nil
  then show ?case by (simp add: wc_ops_def handled_def vgood_def)
next
  case (Cons w ws)
  have "vinv U busy V (wc_op V w + wc_ops V ws) d" using Cons.prems(1) by (simp add: wc_ops_def)
  from verbs_handle_cqe_ok [OF con bound this, of m] Cons.prems(2) obtain r d1 m1 where
    1: "verbs_handle_cqe env w d m = Some (r, d1, m1)" "handled U busy V (wc_ops V ws) (is_arrival w) d d1" by auto
  define d2 where "d2 = (case r of Some c \<Rightarrow> verbs_complete c d1 | None \<Rightarrow> d1)"
  have 2: "handled U busy V (wc_ops V ws) (is_arrival w) d d2" using 1(2) by (simp add: d2_def split: option.split)
  then have "vinv U busy V (wc_ops V ws) d2" by (simp add: handled_def vgood_def)
  from Cons.IH [OF this, of m1] Cons.prems(2) obtain d' m' where
    "verbs_handle_cqes env ws d2 m1 = Some (d', m')" "handled U busy V {#} (filter is_arrival ws \<noteq> []) d2 d'" by auto
  then show ?case using 1(1) 2 by (auto simp: handled_def vgood_def d2_def)
qed

section \<open>Polling\<close>

lemma qps_keptD:
  assumes "qps_kept Q Q'"
  shows "can_post (Q qp) \<Longrightarrow> can_post (Q' qp)" "Q qp = Some QpsReset \<Longrightarrow> Q' qp = Some QpsReset" "dom Q' = dom Q"
proof -
  have all: "if can_post (Q x) then can_post (Q' x) else Q' x = Q x" for x using assms by (simp add: qps_kept_def)
  show "can_post (Q qp) \<Longrightarrow> can_post (Q' qp)" using all [of qp] by simp
  show "Q qp = Some QpsReset \<Longrightarrow> Q' qp = Some QpsReset" using all [of qp] by (simp add: can_post_def)
  have "Q' x = None \<longleftrightarrow> Q x = None" for x using all [of x] by (auto simp: can_post_def split: if_splits)
  then show "dom Q' = dom Q" by (simp add: dom_def)
qed

lemma peers_ok_kept:
  assumes "peers_ok U busy Q P" "qps_kept Q Q'"
  shows "peers_ok U busy Q' P"
proof (rule peers_okI)
  show "dom P \<subseteq> U" by (rule peers_okD(1) [OF assms(1)])
  show "peer_ok busy Q' p" if "P a = Some p" for a p
    using peers_okD(2) [OF assms(1) that] qps_keptD(1,2) [OF assms(2)] by (simp add: peer_ok_def split: peer_state.splits)
  show "{msg_qp p, rma_qp p} \<inter> {msg_qp q, rma_qp q} = {}" if "P a = Some p" "P b = Some q" "a \<noteq> b" for a b p q
    by (rule peers_okD(3) [OF assms(1) that])
qed

lemma core_polled:
  assumes c: "core U busy V {#} d" and n: "cv_out V (vd_nic d) = cv_out V n + Y" "qps_kept (cv_qps V (vd_nic d)) (cv_qps V n)"
  shows "core U busy V Y (d\<lparr>vd_nic := n\<rparr>)"
proof -
  have "held V Y (d\<lparr>vd_nic := n\<rparr>) = held V {#} d" using n(1) by (simp add: held_def)
  moreover have "peers_ok U busy (cv_qps V n) (vd_peers d)" by (rule peers_ok_kept [OF _ n(2)]) (use c in \<open>simp add: core_def\<close>)
  ultimately show ?thesis using c qps_keptD(1,3) [OF n(2)] by (simp add: core_def handles_ok_def)
qed

lemma wc_op_size:
  assumes "\<not> is_arrival w" "wc_qp_num w = cv_ud_num V \<Longrightarrow> ud_wc_ok env U w"
  shows "wc_op V w \<noteq> {#}"
  using assms by (cases "wc_opcode w") (auto simp: wc_op_def is_arrival_def ud_wc_ok_def)

text \<open>
  A poll returns: a read with an arrival lowers the number of arrivals, which handling does not raise;
  any other read takes operations off the card, and handling posts none.
\<close>

lemma verbs_poll_cq_ok:
  assumes con: "verbs_contract env V U busy" and bound: "peers_bound U"
  shows "vinv U busy V {#} d \<Longrightarrow> \<exists>d' m'. verbs_poll_cq env d m = Some (d', m') \<and> vinv U busy V {#} d'"
proof (induction "(cv_arrivals V (vd_nic d), size (cv_out V (vd_nic d)))" arbitrary: d m
    rule: wf_induct_rule [OF wf_lex_prod [OF wf_less_than wf_less_than]])
  case 1
  obtain r n where r: "ibv_poll_cq env 16 (vd_nic d) = (r, n)" by fastforce
  note poll = verbs_contractD(7) [OF con, of "vd_nic d" 16, unfolded r poll_ok_def]
  show ?case
  proof (cases r)
    case (Polled ws)
    then have ws: "cv_out V (vd_nic d) = cv_out V n + wc_ops V ws" "qps_kept (cv_qps V (vd_nic d)) (cv_qps V n)"
      "ws \<noteq> [] \<Longrightarrow> cv_arrivals V n + length (filter is_arrival ws) \<le> cv_arrivals V (vd_nic d)"
      "\<forall>w \<in> set ws. wc_qp_num w = cv_ud_num V \<longrightarrow> ud_wc_ok env U w" using poll by simp_all
    have inv: "vinv U busy V (wc_ops V ws) (d\<lparr>vd_nic := n\<rparr>)"
      using "1.prems" core_polled [OF vinv_core [OF "1.prems"] ws(1,2)] by (simp add: vinv_def)
    show ?thesis
    proof (cases "ws = []")
      case True
      then show ?thesis using r Polled inv by (subst verbs_poll_cq.simps) (simp add: wc_ops_def)
    next
      case False
      from verbs_handle_cqes_ok [OF con bound inv ws(4), of m] obtain d1 m1 where
        1: "verbs_handle_cqes env ws (d\<lparr>vd_nic := n\<rparr>) m = Some (d1, m1)" "vinv U busy V {#} d1"
        "cv_arrivals V (vd_nic d1) = cv_arrivals V n" "filter is_arrival ws = [] \<longrightarrow> vd_nic d1 = n"
        by (auto simp: handled_def vgood_def)
      have "wc_ops V ws \<noteq> {#}" if "filter is_arrival ws = []"
      proof -
        have "hd ws \<in> set ws" using False by simp
        moreover then have "\<not> is_arrival (hd ws)" using that by (auto simp: filter_empty_conv)
        ultimately have "wc_op V (hd ws) \<noteq> {#}" using wc_op_size [of "hd ws" V env U] ws(4) by blast
        then show ?thesis using False by (cases ws) (simp_all add: wc_ops_def)
      qed
      then have "((cv_arrivals V (vd_nic d1), size (cv_out V (vd_nic d1))), (cv_arrivals V (vd_nic d), size (cv_out V (vd_nic d))))
          \<in> less_than <*lex*> less_than"
        using ws(1) ws(3) [OF False] 1(3,4) by (cases "filter is_arrival ws") (auto simp: nonempty_has_size)
      from "1.hyps" [OF this 1(2), of m1] show ?thesis using r Polled False 1(1) by (subst verbs_poll_cq.simps) simp
    qed
  next
    case (PollErr x)
    then show ?thesis using poll by simp
  qed
qed

section \<open>Progress\<close>

lemma core_message:
  assumes c: "core U busy V X d" and e: "effect V {#x#} (vd_nic d) n'" and x: "x = (KSend, CtxTid t) \<or> x = (KRecv, CtxTid t)"
  shows "core U busy V X (d\<lparr>vd_nic := n'\<rparr>)"
proof -
  have held: "held V X (d\<lparr>vd_nic := n'\<rparr>) = add_mset x (held V X d)" using e by (simp add: held_def effect_def)
  have "ud_bufs (add_mset x M) = ud_bufs M" for M using x by (auto simp: ud_bufs_def)
  then have "ud_ok (add_mset x M) pool k = ud_ok M pool k" for M pool k using x by (auto simp: ud_ok_def)
  moreover have "on_card (add_mset x M) = on_card M" "posted_kind_ok x" for M using x by auto
  ultimately show ?thesis using c e unfolding core_def held by (simp add: handles_ok_def effect_def)
qed

lemma verbs_recv_loop_ok:
  assumes con: "verbs_contract env V U busy"
  shows "core U busy V X d \<Longrightarrow> \<exists>q' n'. verbs_recv_loop env (vd_msg_srq d) q (vd_nic d) = Some (q', n') \<and>
     core U busy V X (d\<lparr>vd_nic := n'\<rparr>) \<and> cv_arrivals V n' = cv_arrivals V (vd_nic d)"
proof (induction q arbitrary: d)
  case (Cons x q)
  obtain tid op where x: "x = (tid, op)" by (cases x)
  define w where "w = verbs_fill_recv_op op (CtxTid (tid_val tid))"
  obtain r n where r: "ibv_post_srq_recv env (vd_msg_srq d) w (vd_nic d) = (r, n)" by fastforce
  have "vd_msg_srq d = cv_msg_srq V" using Cons.prems by (simp add: core_def handles_ok_def)
  then have "recv_ok V w (vd_nic d) (r, n)" using verbs_contractD(4) [OF con, of w "vd_nic d"] r by simp
  then consider "r = 0" "effect V {#(KRecv, CtxTid (tid_val tid))#} (vd_nic d) n" | "r = ENOMEM" "effect V {#} (vd_nic d) n"
    by (auto simp: recv_ok_def w_def verbs_fill_recv_op_def)
  then show ?case
  proof cases
    case 1
    have "core U busy V X (d\<lparr>vd_nic := n\<rparr>)" by (rule core_message [OF Cons.prems 1(2)]) simp
    from Cons.IH [OF this] show ?thesis using x r 1 by (simp add: w_def effect_def)
  next
    case 2
    then have "core U busy V X (d\<lparr>vd_nic := n\<rparr>)" using Cons.prems by (simp add: core_def held_def handles_ok_def effect_def)
    then show ?thesis using x r 2 by (simp add: w_def effect_def ENOMEM_def)
  qed
qed simp

lemma verbs_send_loop_ok:
  assumes con: "verbs_contract env V U busy"
  shows "core U busy V X d \<Longrightarrow> \<forall>x \<in> set q. fst (snd x) \<in> ready (vd_peers d) \<Longrightarrow>
     \<exists>q' n'. verbs_send_loop env q (vd_nic d) = Some (q', n') \<and> set q' \<subseteq> set q \<and>
       core U busy V X (d\<lparr>vd_nic := n'\<rparr>) \<and> cv_arrivals V n' = cv_arrivals V (vd_nic d)"
proof (induction q arbitrary: d)
  case (Cons x q)
  obtain tid qp op where x: "x = (tid, qp, op)" by (cases x)
  define w where "w = verbs_fill_send_op op (CtxTid (tid_val tid))"
  obtain r n where r: "ibv_post_send env qp [w] (vd_nic d) = (r, n)" by fastforce
  have "can_post (cv_qps V (vd_nic d) qp)" using ready_can_post [OF Cons.prems(1)] Cons.prems(2) x by simp
  then have s: "case r of PostOk \<Rightarrow> effect V {#(KSend, CtxTid (tid_val tid))#} (vd_nic d) n
      | PostNomem k \<Rightarrow> effect V {#} (vd_nic d) n | PostErr _ \<Rightarrow> False"
    using verbs_contractD(1) [OF con, of qp "[w]" "vd_nic d"] r
    by (auto simp: send_ok_def wr_op_def w_def verbs_fill_send_op_def split: post_ret.splits)
  show ?case
  proof (cases r)
    case PostOk
    with s have e: "effect V {#(KSend, CtxTid (tid_val tid))#} (vd_nic d) n" by simp
    have "core U busy V X (d\<lparr>vd_nic := n\<rparr>)" by (rule core_message [OF Cons.prems(1) e]) simp
    from Cons.IH [OF this] Cons.prems(2) obtain q' n' where "verbs_send_loop env q n = Some (q', n')" "set q' \<subseteq> set q"
      "core U busy V X (d\<lparr>vd_nic := n'\<rparr>)" "cv_arrivals V n' = cv_arrivals V n" by auto
    then show ?thesis using x r PostOk e by (auto simp: w_def effect_def)
  next
    case (PostNomem k)
    with s have e: "effect V {#} (vd_nic d) n" by simp
    then have "core U busy V X (d\<lparr>vd_nic := n\<rparr>)" using Cons.prems(1) by (simp add: core_def held_def handles_ok_def effect_def)
    then show ?thesis using x r PostNomem e by (simp add: w_def effect_def)
  next
    case (PostErr e)
    then show ?thesis using s by simp
  qed
qed simp

lemma progress_writes_ok:
  assumes con: "verbs_contract env V U busy" and c: "core U busy V X d"
  shows "\<exists>d'. verbs_progress_write_ops env d = Some d' \<and> core U busy V X d' \<and> vframe V d d'"
proof -
  let ?R = "ready (vd_peers d)" and ?k = "length (cs_queue (vd_writes d))"
  have n: "vposting env V U busy ?R (vd_nic d) (vd_nic d)"
    unfolding vposting_def using con ready_can_post [OF c] by (auto intro!: exI [of _ "{#}"])
  have s: "store_ok (viok busy ?R) vleft (on_card (cv_out V (vd_nic d) + X)) (vd_writes d)"
    using c by (simp add: core_def held_def)
  from vctx.progress_ok [OF n s, of ?k] obtain s' n' where
    r: "cs_progress (verbs_progress_write_op_context env) ?k (vd_writes d) (vd_nic d) = Some (s', n')"
    "vposting env V U busy ?R (vd_nic d) n'" "store_ok (viok busy ?R) vleft (on_card (cv_out V n' + X)) s'" by blast
  obtain M where "writes_only M" "effect V M (vd_nic d) n'" using r(2) by (auto simp: vposting_def)
  from core_writes [OF c this(2,1) r(3)] show ?thesis
    using r(1) by (simp add: verbs_progress_write_ops_def verbs_set_writes_def)
qed

lemma verbs_progress_ops_ok:
  assumes con: "verbs_contract env V U busy" and inv: "vinv U busy V X d"
  shows "\<exists>d'. verbs_progress_ops env d = Some d' \<and> vinv U busy V X d'"
proof -
  note c = vinv_core [OF inv]
  from verbs_recv_loop_ok [OF con c, of "vd_recv_ops d"] obtain q1 n1 where
    1: "verbs_recv_loop env (vd_msg_srq d) (vd_recv_ops d) (vd_nic d) = Some (q1, n1)" "core U busy V X (d\<lparr>vd_nic := n1\<rparr>)"
    "cv_arrivals V n1 = cv_arrivals V (vd_nic d)" by blast
  define d1 where "d1 = d\<lparr>vd_recv_ops := q1, vd_nic := n1\<rparr>"
  have c1: "core U busy V X d1" using 1(2) by (simp add: core_def held_def handles_ok_def d1_def)
  then have "\<forall>x \<in> set (vd_send_ops d1). fst (snd x) \<in> ready (vd_peers d1)" by (simp add: core_def)
  from verbs_send_loop_ok [OF con c1 this] obtain q2 n2 where
    2: "verbs_send_loop env (vd_send_ops d1) (vd_nic d1) = Some (q2, n2)" "set q2 \<subseteq> set (vd_send_ops d1)"
    "core U busy V X (d1\<lparr>vd_nic := n2\<rparr>)" "cv_arrivals V n2 = cv_arrivals V (vd_nic d1)" by blast
  define d2 where "d2 = d1\<lparr>vd_send_ops := q2, vd_nic := n2\<rparr>"
  have c2: "core U busy V X d2" using 2(2,3) by (auto simp: core_def held_def handles_ok_def d2_def)
  from progress_writes_ok [OF con c2] obtain d' where d': "verbs_progress_write_ops env d2 = Some d'" "core U busy V X d'" "vframe V d2 d'"
    by blast
  have "vframe V d d2" using 1(3) 2(4) by (simp add: vframe_def d1_def d2_def)
  then have "vinv U busy V X d'" using vframe_inv [OF inv d'(2)] vframe_trans d'(3) by blast
  then show ?thesis using 1(1) 2(1) d'(1)
    by (simp add: verbs_progress_ops_def verbs_progress_recv_ops_def verbs_progress_send_ops_def flip: d1_def d2_def)
qed

section \<open>The contract of a domain\<close>

text \<open>
  The calls that do not panic. Single and scattered writes are left to cards whose send queues never
  fill up; addresses are those of reachable peers, and the peers of a group are unknown or established.
\<close>

definition group_peers_ok :: "domain_address set \<Rightarrow> peer_map \<Rightarrow> domain_address list \<Rightarrow> bool" where
  "group_peers_ok U P as \<longleftrightarrow> set as \<subseteq> U \<and> (\<forall>a \<in> set as. case P a of None \<Rightarrow> True | Some p \<Rightarrow> peer_st p = Established)"

fun verbs_call_ok :: "domain_address set \<Rightarrow> bool \<Rightarrow> 'n verbs_domain \<Rightarrow> domain_call \<Rightarrow> bool" where
  "verbs_call_ok U busy d (CallSend tid a op) \<longleftrightarrow> a \<in> U \<or> ud_from_bytes (address_bytes a) = None"
| "verbs_call_ok U busy d (CallWrite tid a op) \<longleftrightarrow> write_op_ok op \<and> busy_ok busy op \<and> (a \<in> U \<or> ud_from_bytes (address_bytes a) = None)"
| "verbs_call_ok U busy d (CallAddGroup h as) \<longleftrightarrow> group_peers_ok U (vd_peers d) as"
| "verbs_call_ok U busy d (CallGroupWrite tid None op) \<longleftrightarrow> \<not> busy \<and> group_write_ok None op \<and> None \<notin> set (peer_addr_iter op) \<and>
     group_peers_ok U (vd_peers d) (map the (peer_addr_iter op))"
| "verbs_call_ok U busy d (CallGroupWrite tid (Some h) op) \<longleftrightarrow>
     (case map_of (vd_connecting d) h of
        Some g \<Rightarrow> gwrite_ok busy (cg_rma_qps g) op
      | None \<Rightarrow> (case vd_peer_groups d h of None \<Rightarrow> True | Some qps \<Rightarrow> gwrite_ok busy qps op))"
| "verbs_call_ok U busy d c \<longleftrightarrow> True"

lemma core_quiet: "core U busy V X d \<Longrightarrow> effect V {#} (vd_nic d) n \<Longrightarrow> core U busy V X (d\<lparr>vd_nic := n\<rparr>)"
  by (simp add: core_def held_def handles_ok_def effect_def)

lemma register_ok:
  assumes con: "verbs_contract env V U busy"
  shows "\<exists>n m. snd (verbs_register_mr env r b d) = d\<lparr>vd_nic := n, vd_mr_map := m\<rparr> \<and> effect V {#} (vd_nic d) n"
proof (cases "vd_mr_map d (region_ptr r)")
  case None
  let ?acc = "\<lparr>mrac_remote_read = b, mrac_remote_write = b\<rparr>"
  obtain mr n fname where mr: "verbs_register_mr env r b d =
      (case mr of None \<Rightarrow> (Inl (verbs_err (last_os_error env n) fname), d\<lparr>vd_nic := n\<rparr>)
        | Some mr \<Rightarrow> (Inr (MemoryRegionRemoteKey (ucast (vmr_rkey mr))),
            d\<lparr>vd_nic := n, vd_mr_map := (vd_mr_map d)(region_ptr r \<mapsto> mr)\<rparr>))" "effect V {#} (vd_nic d) n"
  proof (cases "\<exists>x fd. region_mapping r = DeviceMapping x (Some fd)")
    case True
    then obtain x fd where m: "region_mapping r = DeviceMapping x (Some fd)" by blast
    show thesis
      by (rule that [where mr = "fst (ibv_reg_dmabuf_mr env 0 (region_len r) (region_ptr r) fd ?acc (vd_nic d))" and
            n = "snd (ibv_reg_dmabuf_mr env 0 (region_len r) (region_ptr r) fd ?acc (vd_nic d))" and fname = "''ibv_reg_dmabuf_mr''"])
        (use None m verbs_contract_quiet(4) [OF con] in \<open>simp_all add: verbs_register_mr_def on_nic_def case_prod_beta Let_def split: option.split\<close>)
  next
    case False
    then have m: "region_mapping r = HostMapping \<or> (\<exists>x. region_mapping r = DeviceMapping x None)"
      by (cases "region_mapping r") (auto simp: not_Some_eq)
    show thesis
      by (rule that [where mr = "fst (ibv_reg_mr env (region_ptr r) (region_len r) ?acc (vd_nic d))" and
            n = "snd (ibv_reg_mr env (region_ptr r) (region_len r) ?acc (vd_nic d))" and fname = "''ibv_reg_mr''"])
        (use None m verbs_contract_quiet(3) [OF con] in \<open>auto simp: verbs_register_mr_def on_nic_def case_prod_beta Let_def split: option.split\<close>)
  qed
  have "snd (verbs_register_mr env r b d) = d\<lparr>vd_nic := n, vd_mr_map := case mr of None \<Rightarrow> vd_mr_map d | Some mr \<Rightarrow> (vd_mr_map d)(region_ptr r \<mapsto> mr)\<rparr>"
    using mr(1) by (cases mr) simp_all
  then show ?thesis using mr(2) by blast
next
  case (Some mr)
  then show ?thesis
    by (intro exI [of _ "vd_nic d"] exI [of _ "vd_mr_map d"]) (simp add: verbs_register_mr_def)
qed

lemma verbs_step_good:
  assumes con: "verbs_contract env V U busy" and bound: "peers_bound U" and inv: "vinv U busy V {#} d" and c: "verbs_call_ok U busy d c"
  shows "\<exists>d' m'. domain_step (verbs_ops env) c (d, m) = Some (d', m') \<and> vinv U busy V {#} d'"
proof (cases c)
  case (CallRecv tid op)
  then show ?thesis using inv by (simp add: verbs_ops_def verbs_submit_recv_def vinv_def core_def held_def handles_ok_def)
next
  case (CallSend tid a op)
  then show ?thesis using submit_outbound_ok [OF con bound inv, of "OutSend op" a tid] c
    by (auto simp: verbs_ops_def verbs_submit_send_def out_op_ok_def vgood_def)
next
  case (CallWrite tid a op)
  then show ?thesis using submit_outbound_ok [OF con bound inv, of "OutWrite op" a tid] c
    by (auto simp: verbs_ops_def verbs_submit_write_def out_op_ok_def vgood_def)
next
  case (CallAddGroup h as)
  then have "set as \<subseteq> U" "\<forall>a \<in> set as. \<forall>p. vd_peers d a = Some p \<longrightarrow> peer_st p = Established"
    using c by (auto simp: group_peers_ok_def split: option.splits)
  from add_peer_group_ok [OF con bound inv this, of h] show ?thesis using CallAddGroup by (simp add: verbs_ops_def vgood_def)
next
  case (CallGroupWrite tid h op)
  show ?thesis
  proof (cases h)
    case None
    let ?as = "map the (peer_addr_iter op)"
    have ok: "\<not> busy" "group_write_ok None op" "None \<notin> set (peer_addr_iter op)" "group_peers_ok U (vd_peers d) ?as"
      using c CallGroupWrite None by simp_all
    have "map (\<lambda>x. Some (the x)) (peer_addr_iter op) = peer_addr_iter op" by (rule map_idI) (use ok(3) option.collapse in metis)
    then have 1: "peer_addr_iter op = map Some ?as" by (simp add: comp_def)
    have 2: "set ?as \<subseteq> U" "\<forall>a \<in> set ?as. \<forall>p. vd_peers d a = Some p \<longrightarrow> peer_st p = Established"
      using ok(4) by (auto simp: group_peers_ok_def split: option.splits)
    from submit_group_peers_ok [OF con bound inv ok(1,2) 1 2, of tid] show ?thesis
      using CallGroupWrite None by (auto simp: verbs_ops_def vgood_def)
  next
    case (Some h)
    have "\<exists>d'. verbs_submit_group_write env tid (Some h) op d = Some d' \<and> vgood U busy V {#} d d'"
      by (rule submit_group_handle_ok [OF con inv]) (use c CallGroupWrite Some in simp_all)
    then show ?thesis using CallGroupWrite Some by (auto simp: verbs_ops_def vgood_def)
  qed
next
  case (CallRegister r b)
  from register_ok [OF con, of r b d] obtain n mm where
    r: "snd (verbs_register_mr env r b d) = d\<lparr>vd_nic := n, vd_mr_map := mm\<rparr>" "effect V {#} (vd_nic d) n" by blast
  have "vinv U busy V {#} (snd (verbs_register_mr env r b d))"
    unfolding r(1) using inv core_quiet [OF vinv_core [OF inv] r(2)] by (simp add: vinv_def core_def held_def handles_ok_def)
  then show ?thesis using CallRegister
    by (cases b) (auto simp: verbs_ops_def case_prod_beta split: sum.splits)
next
  case (CallUnregister p)
  have "core U busy V {#} (d\<lparr>vd_nic := ibv_dereg_mr env mr (vd_nic d)\<rparr>)" for mr
    by (rule core_quiet [OF vinv_core [OF inv] verbs_contract_quiet(5) [OF con]])
  then show ?thesis using CallUnregister inv
    by (simp add: verbs_ops_def verbs_unregister_mr_def vinv_def core_def held_def handles_ok_def split: option.splits)
next
  case CallPoll
  from verbs_poll_cq_ok [OF con bound inv, of m] obtain d1 m1 where 1: "verbs_poll_cq env d m = Some (d1, m1)" "vinv U busy V {#} d1" by blast
  from verbs_progress_ops_ok [OF con 1(2)] show ?thesis using 1(1) CallPoll by (auto simp: verbs_ops_def verbs_poll_progress_def)
next
  case CallCompletion
  then show ?thesis using inv
    by (simp add: verbs_ops_def verbs_get_completion_def vinv_def core_def held_def handles_ok_def split: list.splits)
qed

interpretation verbs: rdma_domain "verbs_ops env"
    "\<lambda>d. verbs_contract env V U busy \<and> peers_bound U \<and> vinv U busy V {#} d" "verbs_call_ok U busy"
  for env :: "'n verbs_env" and V U busy
proof unfold_locales
  show "\<exists>d' m'. domain_step (verbs_ops env) c (d, m) = Some (d', m') \<and> verbs_contract env V U busy \<and> peers_bound U \<and> vinv U busy V {#} d'"
    if "verbs_contract env V U busy \<and> peers_bound U \<and> vinv U busy V {#} d" "verbs_call_ok U busy d c" for d c m
    using verbs_step_good [of env V U busy d c m] that by blast
qed simp

section \<open>A freshly opened domain\<close>

text \<open>Nothing is on the card, and its only queue pair is the one for datagrams, ready to send.\<close>

definition card_fresh :: "'n card_view \<Rightarrow> ud_queue_pair \<Rightarrow> ptr \<Rightarrow> ptr \<Rightarrow> 'n \<Rightarrow> bool" where
  "card_fresh V ud msg_srq rma_srq n \<longleftrightarrow> cv_out V n = {#} \<and> cv_qps V n = [udq_qp ud \<mapsto> QpsRts] \<and>
     cv_ud_qp V = udq_qp ud \<and> cv_ud_num V = ud_qp_num (udq_addr ud) \<and> cv_msg_srq V = msg_srq \<and> cv_rma_srq V = rma_srq"

lemma verbs_opened_inv:
  assumes "verbs_opened port gi lid g mtu ib speed msg_srq rma_srq ud base n = Some d" "card_fresh V ud msg_srq rma_srq n"
  shows "held V {#} d = {#}" "vinv U busy V {#} d"
proof -
  obtain p where p: "with_chunk_size MAX_OPS = Some p" by (simp add: with_chunk_size_def MAX_OPS_def)
  let ?p = "memory_pool_new base MAX_UD_MSG_BYTES (NUM_UD_RECVS + MAX_UD_SENDS)"
  have pool: "mp_inv ?p {}" by (rule mp_inv_new) (simp_all add: MAX_UD_MSG_BYTES_def NUM_UD_RECVS_def MAX_UD_SENDS_def)
  moreover have "length (mp_free_list ?p) = NUM_UD_RECVS + MAX_UD_SENDS" by (simp add: memory_pool_new_def)
  ultimately have card: "card (mp_slots ?p) = NUM_UD_RECVS + MAX_UD_SENDS" "mp_chunk_size ?p = MAX_UD_MSG_BYTES"
    using distinct_card [of "mp_free_list ?p"] by (simp_all add: mp_inv_def) (simp add: memory_pool_new_def)
  obtain d0 where d0: "verbs_opened port gi lid g mtu ib speed msg_srq rma_srq ud base n = Some d0" "vd_ud_mempool d0 = ?p"
    using p by (simp add: verbs_opened_def)
  then have d: "vd_ud_mempool d = ?p" using assms(1) by simp
  show held: "held V {#} d = {#}" using assms p by (auto simp: verbs_opened_def card_fresh_def held_def)
  have "core U busy V {#} d"
    unfolding core_def held d using assms p card pool op_inv_new [OF p]
    by (auto simp: verbs_opened_def card_fresh_def handles_ok_def store_ok_def heap_ok_def pools_ok_def
        queue_ok_def peers_ok_def ud_ok_def ud_bufs_def can_post_def)
  then show "vinv U busy V {#} d"
    using assms op_inv_new [OF p] p
    by (auto simp: verbs_opened_def vinv_def groups_ok_def pends_ok_def links_ok_def pg_ops_ok_def)
qed

text \<open>\<open>post_init\<close> posts the receives it has room for.\<close>

lemma core_ud_recv:
  assumes c: "core U busy V X d" and bound: "peers_bound U" and k: "kcount KUdRecv (held V X d) < NUM_UD_RECVS"
  shows "\<exists>p pool. mp_alloc (vd_ud_mempool d) = Some (p, pool) \<and>
           core U busy V (add_mset (KUdRecv, CtxBuf p) X) (d\<lparr>vd_ud_mempool := pool\<rparr>)"
proof -
  let ?M = "held V X d" and ?k = "card (dom (vd_peers d))"
  have ok: "ud_ok ?M (vd_ud_mempool d) ?k" and P: "peers_ok U busy (cv_qps V (vd_nic d)) (vd_peers d)"
    using c by (simp_all add: core_def)
  from peers_okD(1) [OF P] have "?k \<le> MAX_UD_SENDS" using bound card_mono [of U "dom (vd_peers d)"] by (auto simp: peers_bound_def)
  from ud_alloc_recv [OF ok this k] obtain p pool where
    p: "mp_alloc (vd_ud_mempool d) = Some (p, pool)" "ud_ok (add_mset (KUdRecv, CtxBuf p) ?M) pool ?k" by blast
  have "held V (add_mset (KUdRecv, CtxBuf p) X) (d\<lparr>vd_ud_mempool := pool\<rparr>) = add_mset (KUdRecv, CtxBuf p) ?M" by (simp add: held_def)
  then have "core U busy V (add_mset (KUdRecv, CtxBuf p) X) (d\<lparr>vd_ud_mempool := pool\<rparr>)"
    using c p(2) by (simp add: core_def handles_ok_def)
  then show ?thesis using p(1) by blast
qed

lemma post_ud_recvs_ok:
  assumes con: "verbs_contract env V U busy" and bound: "peers_bound U"
  shows "core U busy V {#} d \<Longrightarrow> kcount KUdRecv (held V {#} d) + k \<le> NUM_UD_RECVS \<Longrightarrow>
    \<exists>d'. post_ud_recvs env k d = Some (Inr (), d') \<and> core U busy V {#} d' \<and> vframe V d d' \<and>
      kcount KImm (held V {#} d') = kcount KImm (held V {#} d)"
proof (induction k arbitrary: d)
  case (Suc k)
  have "kcount KUdRecv (held V {#} d) < NUM_UD_RECVS" using Suc.prems(2) by simp
  from core_ud_recv [OF Suc.prems(1) bound this] obtain p pool where
    p: "mp_alloc (vd_ud_mempool d) = Some (p, pool)" "core U busy V {#(KUdRecv, CtxBuf p)#} (d\<lparr>vd_ud_mempool := pool\<rparr>)" by blast
  define d1 where "d1 = d\<lparr>vd_ud_mempool := pool\<rparr>"
  from p(2) have "core U busy V {#(KUdRecv, CtxBuf p)#} d1" by (simp add: d1_def)
  from post_ud_recv_ok [OF con this] obtain n where n: "post_ud_recv env p d1 = (Inr (), d1\<lparr>vd_nic := n\<rparr>)"
    "core U busy V {#} (d1\<lparr>vd_nic := n\<rparr>)" "cv_arrivals V n = cv_arrivals V (vd_nic d1)"
    "effect V {#(KUdRecv, CtxBuf p)#} (vd_nic d1) n" by blast
  let ?d = "d1\<lparr>vd_nic := n\<rparr>"
  have h: "held V {#} ?d = add_mset (KUdRecv, CtxBuf p) (held V {#} d)" using n(4) by (simp add: held_def effect_def d1_def)
  from Suc.IH [OF n(2)] Suc.prems(2) obtain d' where "post_ud_recvs env k ?d = Some (Inr (), d')" "core U busy V {#} d'"
    "vframe V ?d d'" "kcount KImm (held V {#} d') = kcount KImm (held V {#} d)" unfolding h by auto
  then show ?case using p(1) n(1,3) by (auto simp: vframe_def d1_def)
qed simp

lemma post_imm_recvs_ok:
  assumes con: "verbs_contract env V U busy"
  shows "core U busy V {#} d \<Longrightarrow> kcount KImm (held V {#} d) + k \<le> NUM_IMM_RECVS \<Longrightarrow>
    \<exists>d'. post_imm_recvs env k d = (Inr (), d') \<and> core U busy V {#} d' \<and> vframe V d d'"
proof (induction k arbitrary: d)
  case (Suc k)
  let ?M = "held V {#} d" and ?x = "(KImm, CtxNull)"
  have "ud_ok ?M pool j \<Longrightarrow> ud_ok (add_mset ?x ?M) pool j" for pool j
    using Suc.prems(2) by (simp add: ud_ok_def ud_bufs_add)
  then have "core U busy V {#?x#} d" using Suc.prems(1) by (simp add: core_def held_add)
  from post_imm_recv_ok [OF con this] obtain n where n: "post_imm_recv env d = (Inr (), d\<lparr>vd_nic := n\<rparr>)"
    "core U busy V {#} (d\<lparr>vd_nic := n\<rparr>)" "cv_arrivals V n = cv_arrivals V (vd_nic d)" "effect V {#?x#} (vd_nic d) n" by blast
  have h: "held V {#} (d\<lparr>vd_nic := n\<rparr>) = add_mset ?x ?M" using n(4) by (simp add: held_def effect_def)
  from Suc.IH [OF n(2)] Suc.prems(2) obtain d' where "post_imm_recvs env k (d\<lparr>vd_nic := n\<rparr>) = (Inr (), d')" "core U busy V {#} d'"
    "vframe V (d\<lparr>vd_nic := n\<rparr>) d'" unfolding h by auto
  then show ?case using n(1,3) by (auto simp: vframe_def res_then_def)
qed simp

definition pool_region :: "memory_pool \<Rightarrow> memory_region" where
  "pool_region pool = \<lparr>region_ptr = buffer_ptr pool, region_len = buffer_len pool, region_mapping = HostMapping\<rparr>"

lemma post_init_ok:
  assumes con: "verbs_contract env V U busy" and bound: "peers_bound U"
    and d: "verbs_opened port gi lid g mtu ib speed msg_srq rma_srq ud base n = Some d" "card_fresh V ud msg_srq rma_srq n"
  shows "\<exists>r d'. post_init env d = Some (r, d') \<and> (r = Inr () \<longrightarrow> vinv U busy V {#} d') \<and>
           (\<forall>x. fst (verbs_register_mr env (pool_region (vd_ud_mempool d)) True d) = Inr x \<longrightarrow> r = Inr ())"
proof -
  let ?region = "pool_region (vd_ud_mempool d)"
  obtain r d1 where r: "verbs_register_mr env ?region True d = (r, d1)" by fastforce
  from register_ok [OF con, of ?region True d] r obtain n1 mm where d1: "d1 = d\<lparr>vd_nic := n1, vd_mr_map := mm\<rparr>" "effect V {#} (vd_nic d) n1"
    by auto
  note inv = verbs_opened_inv [OF d]
  have desc: "\<exists>k. verbs_get_mem_desc (buffer_ptr (vd_ud_mempool d)) d1 = Inr k" if "r = Inr x" for x
    using r that by (auto simp: verbs_register_mr_def verbs_get_mem_desc_def pool_region_def on_nic_def Let_def case_prod_beta split: option.splits)
  consider (err) e e' where "post_init env d = Some (Inl e, d1)" "r = Inl e'"
    | (posted) lkey where "post_init env d = (do {
        (r, d) \<leftarrow> post_ud_recvs env NUM_UD_RECVS (d1\<lparr>vd_ud_mempool_lkey := lkey\<rparr>);
        case r of Inl e \<Rightarrow> Some (Inl e, d) | Inr _ \<Rightarrow> Some (post_imm_recvs env NUM_IMM_RECVS d) })"
    using r desc by (cases r) (auto simp: post_init_def Let_def pool_region_def)
  then show ?thesis
  proof cases
    case err
    then show ?thesis using r by simp
  next
    case posted
    define d2 where "d2 = d1\<lparr>vd_ud_mempool_lkey := lkey\<rparr>"
    have h2: "held V {#} d2 = {#}" and f2: "vframe V d d2" using inv(1) d1 by (simp_all add: d2_def held_def effect_def vframe_def)
    have "core U busy V {#} d2" using vinv_core [OF inv(2)] d1 by (simp add: d2_def core_def held_def handles_ok_def effect_def)
    from post_ud_recvs_ok [OF con bound this, of NUM_UD_RECVS] h2 obtain d3 where
      3: "post_ud_recvs env NUM_UD_RECVS d2 = Some (Inr (), d3)" "core U busy V {#} d3" "vframe V d2 d3" "kcount KImm (held V {#} d3) = 0" by auto
    from post_imm_recvs_ok [OF con 3(2), of NUM_IMM_RECVS] 3(4) obtain d4 where
      4: "post_imm_recvs env NUM_IMM_RECVS d3 = (Inr (), d4)" "core U busy V {#} d4" "vframe V d3 d4" by auto
    have "vframe V d d4" using vframe_trans f2 3(3) 4(3) by blast
    then have "vinv U busy V {#} d4" by (rule vframe_inv [OF inv(2) 4(2)])
    then show ?thesis using posted 3(1) 4(1) by (simp add: d2_def)
  qed
qed

end
