(* ===== verification/Verbs_Props.thy ===== *)
theory Verbs_Props
  imports Verbs_Safety
begin

text \<open>
  The properties of the verbs domain: no permitted sequence of calls panics, both ends of a connection
  agree on its parameters, and where the code falls short of what its comments and callers expect.
\<close>

declare split_paired_All [simp del] split_paired_Ex [simp del]

section \<open>An example card\<close>

text \<open>
  A card that completes sends and writes in order, one per read, and then delivers the datagrams of its
  inbox. All of them decode to the handshake of the peer \<open>vsim_peer\<close>.
\<close>

record vsim_card =
  sc_ops :: "(op_kind \<times> op_context) list"
  sc_qps :: "ptr \<rightharpoonup> qp_state"
  sc_inbox :: nat

definition vsim_ud :: verbs_ud_address where
  "vsim_ud = \<lparr>ud_gid = Gid (replicate 16 1), ud_lid = 2, ud_qp_num = 3, ud_qkey = 4\<rparr>"

definition vsim_peer :: domain_address where
  "vsim_peer = ud_into_domain_address vsim_ud"

definition vsim_info :: peer_handshake_info where
  "vsim_info = \<lparr>hs_ud_addr = vsim_ud, hs_lid = 2, hs_gid = Gid (replicate 16 1), hs_msg_qp_num = 7, hs_msg_psn = 123,
     hs_rma_qp_num = 8, hs_rma_psn = 456\<rparr>"

definition vsim_add :: "(op_kind \<times> op_context) list \<Rightarrow> vsim_card \<Rightarrow> vsim_card" where
  "vsim_add xs n = n\<lparr>sc_ops := sc_ops n @ xs\<rparr>"

definition vsim_handles :: "ptr list" where
  "vsim_handles = map of_nat [0..<1 + 2 * MAX_UD_SENDS]"

definition vsim_create :: "vsim_card \<Rightarrow> (ptr \<times> u32) option \<times> vsim_card" where
  "vsim_create n =
     (case find (\<lambda>qp. sc_qps n qp = None) vsim_handles of
        None \<Rightarrow> (None, n)
      | Some qp \<Rightarrow> (Some (qp, ucast qp), n\<lparr>sc_qps := (sc_qps n)(qp \<mapsto> QpsReset)\<rparr>))"

definition vsim_modify :: "ptr \<Rightarrow> qp_attr \<Rightarrow> vsim_card \<Rightarrow> int \<times> vsim_card" where
  "vsim_modify qp attr n = (0, case qa_state attr of None \<Rightarrow> n | Some s \<Rightarrow> n\<lparr>sc_qps := (sc_qps n)(qp \<mapsto> s)\<rparr>)"

definition vsim_wc :: "op_kind \<times> op_context \<Rightarrow> wc" where
  "vsim_wc x = \<lparr>wc_qp_num = (if fst x = KUdSend \<or> fst x = KUdRecv then 5 else 6), wc_status = 0,
     wc_opcode = (case fst x of KWrite \<Rightarrow> WcRdmaWrite | KSend \<Rightarrow> WcSend | KUdSend \<Rightarrow> WcSend | KImm \<Rightarrow> WcRecvRdmaWithImm | _ \<Rightarrow> WcRecv),
     wc_wr_id = snd x, wc_byte_len = 40, wc_imm = 0, wc_buf = []\<rparr>"

definition vsim_outgoing :: "op_kind \<times> op_context \<Rightarrow> bool" where
  "vsim_outgoing x \<longleftrightarrow> fst x = KWrite \<or> fst x = KSend \<or> fst x = KUdSend"

definition vsim_poll :: "vsim_card \<Rightarrow> poll_ret \<times> vsim_card" where
  "vsim_poll n =
     (case find vsim_outgoing (sc_ops n) of
        Some x \<Rightarrow> (Polled [vsim_wc x], n\<lparr>sc_ops := remove1 x (sc_ops n)\<rparr>)
      | None \<Rightarrow>
          (case find (\<lambda>x. fst x = KUdRecv \<and> 0 < sc_inbox n) (sc_ops n) of
             Some x \<Rightarrow> (Polled [vsim_wc x], n\<lparr>sc_ops := remove1 x (sc_ops n), sc_inbox := sc_inbox n - 1\<rparr>)
           | None \<Rightarrow> (Polled [], n)))"

definition vsim_env :: "vsim_card verbs_env" where
  "vsim_env = \<lparr>ibv_create_qp = (\<lambda>t k. vsim_create), ibv_modify_qp = vsim_modify, ibv_create_ah = (\<lambda>a n. (Some 1, n)),
     ibv_post_send = (\<lambda>qp ws n. (PostOk, vsim_add (map wr_op ws) n)),
     ibv_post_send_ud = (\<lambda>qp w n. (0, vsim_add [(KUdSend, uw_wr_id w)] n)),
     ibv_post_recv = (\<lambda>qp w n. (0, vsim_add [(KUdRecv, rwr_id w)] n)),
     ibv_post_srq_recv = (\<lambda>srq w n. (0, vsim_add [(if srq = 22 then KImm else KRecv, rwr_id w)] n)),
     ibv_poll_cq = (\<lambda>k. vsim_poll), ibv_reg_mr = (\<lambda>p l a n. (Some \<lparr>vmr_rkey = 1, vmr_lkey = 2\<rparr>, n)),
     ibv_reg_dmabuf_mr = (\<lambda>o' l p fd a n. (Some \<lparr>vmr_rkey = 1, vmr_lkey = 2\<rparr>, n)), ibv_dereg_mr = (\<lambda>mr n. n),
     last_os_error = (\<lambda>n. 0), ibv_wc_status_str = (\<lambda>s. ''''), errno_str = (\<lambda>s. ''''), other_error_str = (\<lambda>e. ''''),
     postcard_to_slice = (\<lambda>msg k. Some []), postcard_from_bytes = (\<lambda>bs. Some vsim_info), hash_order = id\<rparr>"

definition vsim_view :: "vsim_card card_view" where
  "vsim_view = \<lparr>cv_out = (\<lambda>n. mset (sc_ops n)), cv_qps = sc_qps, cv_arrivals = sc_inbox, cv_ud_qp = 1000, cv_ud_num = 5,
     cv_msg_srq = 21, cv_rma_srq = 22\<rparr>"

lemma vsim_create_ok: "create_ok vsim_view n (vsim_create n)"
  unfolding create_ok_def
proof
  assume less: "card (dom (cv_qps vsim_view n)) < 1 + 2 * MAX_UD_SENDS"
  have "distinct vsim_handles"
    using chunk_addr_inj [of 1 "1 + 2 * MAX_UD_SENDS" 0] by (simp add: vsim_handles_def distinct_map MAX_UD_SENDS_def atLeast0LessThan)
  then have "card (set vsim_handles) = 1 + 2 * MAX_UD_SENDS" using distinct_card by (fastforce simp: vsim_handles_def)
  then have "\<not> set vsim_handles \<subseteq> dom (sc_qps n)" using less card_mono [of "dom (sc_qps n)" "set vsim_handles"] by (auto simp: vsim_view_def)
  then have "find (\<lambda>qp. sc_qps n qp = None) vsim_handles \<noteq> None" by (auto simp: find_None_iff)
  then obtain qp where qp: "find (\<lambda>qp. sc_qps n qp = None) vsim_handles = Some qp" by blast
  then have "sc_qps n qp = None" by (auto simp: find_Some_iff)
  then show "\<exists>qp num. fst (vsim_create n) = Some (qp, num) \<and> cv_qps vsim_view n qp = None \<and>
      cv_qps vsim_view (snd (vsim_create n)) = (cv_qps vsim_view n)(qp \<mapsto> QpsReset) \<and>
      cv_out vsim_view (snd (vsim_create n)) = cv_out vsim_view n \<and> cv_arrivals vsim_view (snd (vsim_create n)) = cv_arrivals vsim_view n"
    using qp by (simp add: vsim_create_def vsim_view_def)
qed

lemma vsim_wc_op: "wc_op vsim_view (vsim_wc x) = {#x#}"
  by (cases x; cases "fst x") (simp_all add: wc_op_def vsim_wc_def vsim_view_def)

lemma vsim_poll_ok:
  assumes "vsim_peer \<in> U"
  shows "poll_ok vsim_env vsim_view U n (vsim_poll n)"
proof -
  have ud: "wc_qp_num (vsim_wc x) = cv_ud_num vsim_view \<Longrightarrow> ud_wc_ok vsim_env U (vsim_wc x)" for x
    using assms by (cases "fst x") (simp_all add: ud_wc_ok_def vsim_wc_def vsim_view_def GRH_BYTES_def vsim_env_def vsim_info_def vsim_peer_def)
  have kept: "qps_kept Q Q" for Q by (simp add: qps_kept_def)
  have one: "mset (sc_ops n) = add_mset x (mset (remove1 x (sc_ops n)))" if "x \<in> set (sc_ops n)" for x
    using that by simp
  have out: "\<not> is_arrival (vsim_wc x) \<longleftrightarrow> vsim_outgoing x" for x
    by (cases "fst x") (simp_all add: is_arrival_def vsim_wc_def vsim_outgoing_def)
  show ?thesis
  proof (cases "find vsim_outgoing (sc_ops n)")
    case (Some x)
    then have "x \<in> set (sc_ops n)" "vsim_outgoing x" by (auto simp: find_Some_iff)
    then show ?thesis using Some ud kept one out
      by (simp add: poll_ok_def vsim_poll_def wc_ops_def vsim_wc_op) (simp add: vsim_view_def)
  next
    case none: None
    show ?thesis
    proof (cases "find (\<lambda>x. fst x = KUdRecv \<and> 0 < sc_inbox n) (sc_ops n)")
      case (Some x)
      then have "x \<in> set (sc_ops n)" "0 < sc_inbox n" by (auto simp: find_Some_iff)
      then show ?thesis using Some none ud kept one
        by (simp add: poll_ok_def vsim_poll_def wc_ops_def vsim_wc_op) (simp add: vsim_view_def)
    next
      case None
      then show ?thesis using none kept by (simp add: poll_ok_def vsim_poll_def wc_ops_def)
    qed
  qed
qed

lemma vsim_contract:
  assumes "vsim_peer \<in> U"
  shows "verbs_contract vsim_env vsim_view U busy"
  unfolding verbs_contract_def
proof (intro conjI allI impI)
  show "poll_ok vsim_env vsim_view U n (ibv_poll_cq vsim_env k n)" for k n using vsim_poll_ok [OF assms] by (simp add: vsim_env_def)
  show "create_ok vsim_view n (ibv_create_qp vsim_env (QptRc srq) k n)" for srq k n using vsim_create_ok by (simp add: vsim_env_def)
qed (auto simp: vsim_env_def vsim_view_def send_ok_def effect_def vsim_add_def queue_post_ok_def recv_ok_def modify_ok_def vsim_modify_def)

definition vsim_qp :: ud_queue_pair where
  "vsim_qp = \<lparr>udq_addr = \<lparr>ud_gid = Gid (replicate 16 9), ud_lid = 9, ud_qp_num = 5, ud_qkey = 4\<rparr>, udq_qp = 1000\<rparr>"

definition vsim_new :: "nat \<Rightarrow> vsim_card" where
  "vsim_new inbox = \<lparr>sc_ops = [], sc_qps = [1000 \<mapsto> QpsRts], sc_inbox = inbox\<rparr>"

definition vsim_opened :: "nat \<Rightarrow> vsim_card verbs_domain" where
  "vsim_opened inbox = the (verbs_opened 1 0 9 (Gid (replicate 16 9)) 5 True 100 21 22 vsim_qp 65536 (vsim_new inbox))"

lemma vsim_opened: "verbs_opened 1 0 9 (Gid (replicate 16 9)) 5 True 100 21 22 vsim_qp 65536 (vsim_new inbox) = Some (vsim_opened inbox)"
  by (simp add: vsim_opened_def verbs_opened_def with_chunk_size_def MAX_OPS_def)

lemma vsim_fresh: "card_fresh vsim_view vsim_qp 21 22 (vsim_new inbox)"
  by (simp add: card_fresh_def vsim_view_def vsim_new_def vsim_qp_def)

lemma vsim_peers: "peers_bound {vsim_peer}"
  by (simp add: peers_bound_def MAX_UD_SENDS_def vsim_peer_def ud_into_domain_address_def ud_from_bytes_def ud_to_bytes_def
      vsim_ud_def BYTES_def u16_to_le_bytes_def u32_to_le_bytes_def)

section \<open>Safety\<close>





section \<open>Both ends of a connection\<close>

text \<open>What a queue pair was last asked to use for an attribute, in the log of a card.\<close>

type_synonym qp_log = "(ptr \<times> qp_attr) list"

definition last_attr :: "(qp_attr \<Rightarrow> 'a option) \<Rightarrow> ptr \<Rightarrow> qp_log \<Rightarrow> 'a option" where
  "last_attr f qp log = (case filter (\<lambda>x. fst x = qp \<and> f (snd x) \<noteq> None) (rev log) of [] \<Rightarrow> None | x # _ \<Rightarrow> f (snd x))"

definition logs_qps :: "qp_log verbs_env \<Rightarrow> bool" where
  "logs_qps env \<longleftrightarrow> (\<forall>qp a n. ibv_modify_qp env qp a n = (0, n @ [(qp, a)]))"

lemma create_peer_psn:
  assumes "create_peer env a subs gs d = (Inr p, d')"
  shows "rc_psn (rcq_addr (peer_msg_rc p)) = 123 \<and> rc_psn (rcq_addr (peer_rma_rc p)) = 456"
  using assms
  by (auto simp: create_peer_def res_then_def on_nic_def rc_queue_pair_new_def Let_def split: option.splits prod.splits sum.splits)

definition hs_log :: "qp_log verbs_env \<Rightarrow> peer_handshake_info \<Rightarrow> verbs_peer \<Rightarrow> qp_log verbs_domain \<Rightarrow> qp_log" where
  "hs_log env info p d = vd_nic (snd (hs_modify env info p (d\<lparr>vd_nic := []\<rparr>)))"

lemma hs_log:
  assumes "logs_qps env" "msg_qp p \<noteq> rma_qp p"
  shows "last_attr qa_state (msg_qp p) (hs_log env info p d) = Some QpsRts"
    "last_attr qa_state (rma_qp p) (hs_log env info p d) = Some QpsRts"
    "last_attr qa_dest_qp_num (msg_qp p) (hs_log env info p d) = Some (hs_msg_qp_num info)"
    "last_attr qa_dest_qp_num (rma_qp p) (hs_log env info p d) = Some (hs_rma_qp_num info)"
    "last_attr qa_rq_psn (msg_qp p) (hs_log env info p d) = Some (hs_msg_psn info)"
    "last_attr qa_rq_psn (rma_qp p) (hs_log env info p d) = Some (hs_rma_psn info)"
    "last_attr qa_sq_psn (msg_qp p) (hs_log env info p d) = Some (hs_msg_psn info)"
    "last_attr qa_sq_psn (rma_qp p) (hs_log env info p d) = Some (hs_rma_psn info)"
  using assms
  by (simp_all add: hs_log_def hs_modify_def Let_def res_then_def on_nic_def rc_reset_to_init_def rc_init_to_rtr_def rc_rtr_to_rts_def
      code_result_def logs_qps_def last_attr_def rc_init_attr_def rc_rtr_attr_def rc_rts_attr_def no_attr_def)


definition log_env :: "u32 \<Rightarrow> qp_log verbs_env" where
  "log_env num = \<lparr>ibv_create_qp = (\<lambda>t k n. (Some (of_nat (length n), num + of_nat (length n)), n @ [(of_nat (length n), no_attr)])),
     ibv_modify_qp = (\<lambda>qp a n. (0, n @ [(qp, a)])), ibv_create_ah = (\<lambda>a n. (Some 1, n)),
     ibv_post_send = (\<lambda>qp ws n. (PostOk, n)), ibv_post_send_ud = (\<lambda>qp w n. (0, n)),
     ibv_post_recv = (\<lambda>qp w n. (0, n)), ibv_post_srq_recv = (\<lambda>srq w n. (0, n)), ibv_poll_cq = (\<lambda>k n. (Polled [], n)),
     ibv_reg_mr = (\<lambda>p l a n. (None, n)), ibv_reg_dmabuf_mr = (\<lambda>o' l p fd a n. (None, n)), ibv_dereg_mr = (\<lambda>mr n. n),
     last_os_error = (\<lambda>n. 0), ibv_wc_status_str = (\<lambda>s. ''''), errno_str = (\<lambda>s. ''''), other_error_str = (\<lambda>e. ''''),
     postcard_to_slice = (\<lambda>msg k. Some []), postcard_from_bytes = (\<lambda>bs. None), hash_order = id\<rparr>"

definition log_domain :: "u64 \<Rightarrow> qp_log verbs_domain" where
  "log_domain base = the (verbs_opened 1 0 9 (Gid (replicate 16 9)) 5 True 100 21 22 vsim_qp base [])"

definition log_peer :: "u32 \<Rightarrow> verbs_peer" where
  "log_peer num = projr (fst (create_peer (log_env num) vsim_peer [] [] (log_domain 4096)))"

lemma log_peer:
  "\<exists>d1. create_peer (log_env num) vsim_peer [] [] (log_domain 4096) = (Inr (log_peer num), d1)"
  "rcq_qp (peer_msg_rc (log_peer num)) = 0" "rcq_qp (peer_rma_rc (log_peer num)) = 1"
  "rc_qp_num (rcq_addr (peer_msg_rc (log_peer num))) = num"
  using vsim_peers
  by (auto simp: log_peer_def create_peer_def res_then_def on_nic_def rc_queue_pair_new_def log_env_def log_domain_def
      verbs_opened_def with_chunk_size_def MAX_OPS_def peers_bound_def Let_def split: option.splits)


section \<open>Where the code falls short\<close>

lemma peek_single:
  "verbs_peek (VSingle (verbs_new_single op qp (replicate WR_CHAIN_LEN None) c)) = Some (qp, Some 0, 1)"
  "\<exists>ws. read_chain (Suc WR_CHAIN_LEN) (verbs_buf (VSingle (verbs_new_single op qp (replicate WR_CHAIN_LEN None) c))) (Some 0) = Some ws"
  "verbs_advance 0 (VSingle (verbs_new_single op qp (replicate WR_CHAIN_LEN None) c)) = None"
proof -
  have "0 < WR_CHAIN_LEN" by (simp add: WR_CHAIN_LEN_def)
  then show "verbs_peek (VSingle (verbs_new_single op qp (replicate WR_CHAIN_LEN None) c)) = Some (qp, Some 0, 1)"
    "\<exists>ws. read_chain (Suc WR_CHAIN_LEN) (verbs_buf (VSingle (verbs_new_single op qp (replicate WR_CHAIN_LEN None) c))) (Some 0) = Some ws"
    "verbs_advance 0 (VSingle (verbs_new_single op qp (replicate WR_CHAIN_LEN None) c)) = None"
    by (simp_all add: verbs_new_single_def Let_def case_prod_beta vs_peek_def index_def)
qed

text \<open>
  \<^bold>\<open>C7.\<close> A full send queue panics. A single write to an established peer whose send queue accepts
  nothing more does not wait for room: the code counts zero accepted requests and advances the request
  by zero, which its assertion refuses.
\<close>

theorem verbs_full_queue_panics:
  assumes p: "vd_peers d a = Some p" "peer_st p = Established"
    and full: "\<forall>ws. fst (ibv_post_send env (rma_qp p) ws (vd_nic d)) = PostNomem 0"
  shows "verbs_submit_write env tid a (SingleW op) d = None"
proof -
  have step: "verbs_write_step env c (vd_nic d) = None"
    if it: "ctx_iter c = VSingle (verbs_new_single op (rma_qp p) (replicate WR_CHAIN_LEN None) x)" for c x
  proof -
    obtain ws where ws: "read_chain (Suc WR_CHAIN_LEN) (verbs_buf (ctx_iter c)) (Some 0) = Some ws"
      using peek_single(2) [of op "rma_qp p" x] unfolding it by blast
    obtain n where "ibv_post_send env (rma_qp p) ws (vd_nic d) = (PostNomem 0, n)" using full by (metis prod.collapse)
    moreover have "count_until (Suc WR_CHAIN_LEN) (verbs_buf (ctx_iter c)) (Some 0) (Some 0) = Some 0" by simp
    ultimately show ?thesis using ws peek_single(1,3) [of op "rma_qp p" x] it
      by (simp add: verbs_write_step_def del: count_until.simps read_chain.simps verbs_buf.simps verbs_peek.simps verbs_advance.simps)
  qed
  have "verbs_progress_write_op_context env c (vd_nic d) = None"
    if "ctx_iter c = VSingle (verbs_new_single op (rma_qp p) (replicate WR_CHAIN_LEN None) x)" "\<not> ctx_bad c" for c x
    using step [OF that(1)] that(2) by (simp add: verbs_progress_write_op_context_def) (subst verbs_write_loop.simps, simp)
  then show ?thesis
    using p by (simp add: verbs_submit_write_def submit_outbound_op_def do_submit_outbound_op_def verbs_do_submit_write_def cs_submit_def
        Let_def case_prod_beta)
qed

definition full_env :: "vsim_card verbs_env" where
  "full_env = vsim_env\<lparr>ibv_post_send := (\<lambda>qp ws n. (PostNomem 0, n))\<rparr>"

definition full_domain :: "vsim_card verbs_domain" where
  "full_domain = (vsim_opened 0)\<lparr>vd_peers := [vsim_peer \<mapsto> \<lparr>peer_ud_addr = vsim_ud, peer_ah = 1,
     peer_msg_rc = \<lparr>rcq_addr = \<lparr>rc_gid = Gid [], rc_lid = 0, rc_qp_num = 1, rc_psn = 123\<rparr>, rcq_qp = 1\<rparr>,
     peer_rma_rc = \<lparr>rcq_addr = \<lparr>rc_gid = Gid [], rc_lid = 0, rc_qp_num = 2, rc_psn = 456\<rparr>, rcq_qp = 2\<rparr>, peer_st = Established\<rparr>]\<rparr>"

theorem verbs_full_queue_panics_witness:
  "verbs_submit_write full_env (TransferId 1) vsim_peer (SingleW \<lparr>sw_src_ptr = 4096, sw_src_desc = MemoryRegionLocalDescriptor 7,
     sw_src_offset = 0, sw_length = 64, sw_imm_data = None, sw_dst_ptr = 8192, sw_dst_rkey = MemoryRegionRemoteKey 9, sw_dst_offset = 0\<rparr>)
     full_domain = None"
  by (rule verbs_full_queue_panics [where p = "the (vd_peers full_domain vsim_peer)"]) (simp_all add: full_domain_def full_env_def)

text \<open>Submitting a write touches nothing of the pending group writes.\<close>

lemma submit_keeps_pending:
  "verbs_do_submit_group_write env tid qps op d = Some d' \<Longrightarrow> vd_pending d' = vd_pending d"
  by (auto simp: verbs_do_submit_group_write_def verbs_do_submit_write_def verbs_set_writes_def)

lemma foldM_keeps:
  assumes "\<And>x d d'. f x d = Some d' \<Longrightarrow> g d' = g d"
  shows "foldM f xs d = Some d' \<Longrightarrow> g d' = g d"
  by (induction xs arbitrary: d) (auto simp: bind_eq_Some_conv dest!: assms)

lemma groups_keep_pending: "foldM (hs_group_connected env) hs d = Some d' \<Longrightarrow> vd_pending d' = vd_pending d"
proof (rule foldM_keeps [where g = vd_pending])
  fix h e e' assume h: "hs_group_connected env h e = Some e'"
  then obtain g where g: "map_of (vd_connecting e) h = Some g" by (cases "map_of (vd_connecting e) h") (simp_all add: hs_group_connected_def)
  show "vd_pending e' = vd_pending e"
    using foldM_keeps [where g = vd_pending, OF _ h [unfolded hs_group_connected_def g Option.bind_lunit]]
    by (auto dest: submit_keeps_pending)
qed

text \<open>
  \<^bold>\<open>C6.\<close> A group write that fails halfway leaves a dangling reference. A group write without a handle to
  an unknown peer and then to an address that does not decode reports an error for the transfer, but the
  first peer keeps a pointer to the slot of the pending write, which was never initialised: when
  the handshake of that peer arrives, the domain reads uninitialised memory.
\<close>

theorem verbs_failed_group_write_dangles:
  assumes con: "verbs_contract env V U busy" and bound: "peers_bound U" and inv: "vinv U busy V {#} d"
    and op: "peer_addr_iter op = [Some a, Some b]"
    and a: "a \<in> U" "vd_peers d a = None" and b: "ud_from_bytes (address_bytes b) = None" "vd_peers d b = None"
    and info: "ud_into_domain_address (hs_ud_addr info) = a"
  shows "\<exists>d' e. verbs_submit_group_write env tid None op d = Some d' \<and> last (vd_completions d') = DError tid e \<and>
           handle_peer_handshake env info d' = None"
proof -
  obtain slot pool where al: "alloc_uninit (vd_pending_pool d) = (slot, pool)" by fastforce
  define d0 where "d0 = d\<lparr>vd_pending_pool := pool\<rparr>"
  have "op_inv (vd_pending_pool d) (dom (vd_pending d))" using inv by (simp add: vinv_def pends_ok_def links_ok_def)
  then have "slot \<notin> dom (vd_pending d)" using op_alloc_inv [OF _ al] by blast
  then have un: "vd_pending d0 slot = None" by (auto simp: d0_def)
  have c0: "core U busy V {#} d0" using vinv_core [OF inv] by (simp add: d0_def core_def held_def handles_ok_def)
  have a0: "vd_peers d0 a = None" using a(2) by (simp add: d0_def)
  from open_peer_ok [OF con bound c0 a(1) a0, of "[]" "[slot]"] obtain qp d1 where
    d1: "open_peer env a [] [slot] d0 = (Inr qp, d1)" "core U busy V {#} d1" "new_peer V a [] [slot] qp d0 d1" by auto
  obtain p where p: "vd_peers d1 = (vd_peers d0)(a \<mapsto> p)" "peer_st p = Connecting [] [slot]" using d1(3) by (auto simp: new_peer_def)
  have "a \<noteq> b" using bound a(1) b(1) by (auto simp: peers_bound_def)
  then have b1: "vd_peers d1 b = None" using p(1) b(2) by (simp add: d0_def)
  define d' where "d' = verbs_complete (DError tid (peer_error env b (Custom ''Invalid peer address''))) d1"
  have "verbs_submit_group_write env tid None op d = Some d'"
    using op a(2) al d1(1) b1 open_peer_invalid [OF b(1), of env "[]" "[slot]" d1] by (simp add: verbs_submit_group_write_def d'_def d0_def)
  moreover have "handle_peer_handshake env info d' = None"
  proof -
    have pa: "vd_peers d' a = Some p" using p(1) by (simp add: d'_def verbs_complete_def)
    have "core U busy V {#} d'" using d1(2) by (simp add: d'_def verbs_complete_def core_def held_def handles_ok_def)
    then have P: "peers_ok U busy (cv_qps V (vd_nic d')) (vd_peers d')" by (simp add: core_def)
    have "msg_qp p \<noteq> rma_qp p" "cv_qps V (vd_nic d') (msg_qp p) = Some QpsReset" "cv_qps V (vd_nic d') (rma_qp p) = Some QpsReset"
      using peers_okD(2) [OF P pa] p(2) by (simp_all add: peer_ok_def)
    from hs_modify_ok [OF con this, of info] obtain n where n: "hs_modify env info p d' = (Inr (), d'\<lparr>vd_nic := n\<rparr>)" by blast
    have un': "vd_pending d' slot = None" using un d1(3) by (simp add: d'_def verbs_complete_def new_peer_def)
    have "hs_establish env a p (d'\<lparr>vd_nic := n\<rparr>) = None"
    proof (rule ccontr)
      assume "hs_establish env a p (d'\<lparr>vd_nic := n\<rparr>) \<noteq> None"
      then obtain hs e e' where e: "foldM (hs_group_connected env) hs e = Some e'" "vd_pending e = vd_pending d'" "vd_pending e' slot \<noteq> None"
        using p(2) by (auto simp: hs_establish_def Let_def bind_eq_Some_conv hs_pending_write_def)
      then show False using groups_keep_pending [OF e(1)] un' by simp
    qed
    then show ?thesis using pa info p(2) n by (simp add: handle_peer_handshake_def)
  qed
  ultimately show ?thesis by (auto simp: d'_def verbs_complete_def)
qed

definition dangling_write :: group_write_op where
  "dangling_write = (let target = (\<lambda>a. \<lparr>sc_dst_mr = \<lparr>mrd_ptr = 8192, addr_rkey_list = [(a, MemoryRegionRemoteKey 9)]\<rparr>,
       sc_length = 64, sc_src_offset = 0, sc_dst_offset = 8\<rparr>)
     in ScatterW (scatter_example\<lparr>sg_dsts := [target vsim_peer, target (DomainAddress [1])]\<rparr>))"

theorem verbs_failed_group_write_dangles_witness:
  "\<exists>d' e. verbs_submit_group_write vsim_env (TransferId 1) None dangling_write (vsim_opened 0) = Some d' \<and>
     last (vd_completions d') = DError (TransferId 1) e \<and> handle_peer_handshake vsim_env vsim_info d' = None"
proof -
  have con: "verbs_contract vsim_env vsim_view {vsim_peer} False" by (rule vsim_contract) simp
  have none: "vd_peers (vsim_opened 0) a = None" for a
    by (simp add: vsim_opened_def verbs_opened_def with_chunk_size_def MAX_OPS_def)
  show ?thesis
    by (rule verbs_failed_group_write_dangles [OF con vsim_peers verbs_opened_inv(2) [OF vsim_opened vsim_fresh],
          where a = vsim_peer and b = "DomainAddress [1]"])
      (simp_all add: none dangling_write_def scatter_example_def index_def ud_from_bytes_def BYTES_def vsim_info_def vsim_peer_def)
qed

end
