(* ===== verification/A2A_Worker.thy ===== *)
theory A2A_Worker
  imports Fabric_Types
begin

text \<open>
  The host side of the all-to-all exchange (\<^verbatim>\<open>p2p-all-to-all/src/a2a_worker.rs\<close>): from the table of how many
  tokens each group routes to each expert, a rank works out where its tokens go, where those it receives lie
  and where their results are sent back to. Sizes of type \<^verbatim>\<open>usize\<close> are natural numbers, values of type \<^verbatim>\<open>u32\<close>
  and \<^verbatim>\<open>u64\<close> are words; an index out of range, a failed assertion or an underflow is \<open>None\<close>.
\<close>

section \<open>State\<close>

record a2a_rank_handle =
  rh_address :: domain_address
  rh_num_routed_desc :: memory_region_descriptor
  rh_recv_buffer_desc :: memory_region_descriptor

record a2a_worker =
  aw_max_num_tokens :: usize
  aw_max_recv_tokens :: usize
  aw_max_private_tokens :: usize
  aw_hidden_dim :: usize
  aw_hidden_dim_scale :: usize
  aw_in_elemsize :: usize
  aw_out_elemsize :: usize
  aw_scale_elemsize :: usize
  aw_num_experts :: usize
  aw_num_experts_per_token :: usize
  aw_expert_padding :: usize
  aw_rank :: usize
  aw_dp_rank :: usize
  aw_dp_group :: usize
  aw_dp_size :: usize
  aw_node_size :: usize
  aw_world_size :: usize
  aw_nets_per_gpu :: usize
  aw_rank_handles :: "a2a_rank_handle list"
  aw_dispatch_imm :: u32
  aw_combine_imm :: u32
  aw_route_imm :: u32
  aw_dispatch_barrier_imm :: u32
  aw_combine_barrier_imm :: u32
  aw_num_routed_mr :: memory_region_handle
  aw_send_buffer_mr :: memory_region_handle
  aw_recv_buffer_mr :: memory_region_handle
  aw_route_write_op :: transfer_request
  aw_dispatch_barrier_write_op :: transfer_request
  aw_combine_barrier_write_op :: transfer_request

text \<open>The counts of all groups, one row of experts for each, in memory the peers write to.\<close>

type_synonym num_routed = "u32 list"

definition extract_addrs :: "memory_region_descriptor \<Rightarrow> domain_address list" where
  "extract_addrs mr = map fst (addr_rkey_list mr)"

section \<open>Construction\<close>

text \<open>The peers a rank tells its counts: those of its own place in every other group.\<close>

definition route_peer :: "nat \<Rightarrow> nat \<Rightarrow> nat \<Rightarrow> nat \<Rightarrow> nat \<Rightarrow> bool" where
  "route_peer rank dp_rank dp_group dp_size peer_rank \<longleftrightarrow> peer_rank div dp_size \<noteq> dp_group \<and> peer_rank mod dp_size = dp_rank"

definition route_targets ::
    "nat \<Rightarrow> nat \<Rightarrow> nat \<Rightarrow> nat \<Rightarrow> nat \<Rightarrow> nat \<Rightarrow> a2a_rank_handle list \<Rightarrow> scatter_target list option" where
  "route_targets rank dp_rank dp_group dp_size world_size num_experts rank_handles =
     foldM (\<lambda>i dsts.
         let peer_rank = (rank + i) mod world_size in
         if \<not> route_peer rank dp_rank dp_group dp_size peer_rank then Some dsts
         else do {
           h \<leftarrow> index rank_handles peer_rank;
           let len = of_nat (num_experts * 4);
           let offset = of_nat dp_group * len;
           Some (dsts @ [\<lparr>sc_dst_mr = rh_num_routed_desc h, sc_length = len, sc_src_offset = offset, sc_dst_offset = offset\<rparr>]) })
       [1..<world_size] []"

definition barrier_targets :: "nat \<Rightarrow> nat \<Rightarrow> a2a_rank_handle list \<Rightarrow> memory_region_descriptor list option" where
  "barrier_targets rank world_size rank_handles =
     foldM (\<lambda>i dsts.
         let peer_rank = (rank + i) mod world_size in
         if peer_rank = rank then Some dsts
         else do { h \<leftarrow> index rank_handles peer_rank; Some (dsts @ [rh_recv_buffer_desc h]) })
       [1..<world_size] []"

text \<open>
  \<open>add_peer_group\<close> is the call on the transfer engine, with the addresses of the targets. The flags and
  vectors shared with the device, whose allocation may fail first, are not part of the value built here.
\<close>

definition worker_new ::
    "(domain_address list list \<Rightarrow> peer_group_handle result) \<Rightarrow> a2a_worker \<Rightarrow> u32 \<Rightarrow> a2a_worker result option" where
  "worker_new add_peer_group args imm_base =
     (let rank = aw_rank args; dp_size = aw_dp_size args; world_size = aw_world_size args in
      if dp_size = 0 \<or> world_size = 0 then None
      else do {
        let dp_rank = rank mod dp_size;
        let dp_group = rank div dp_size;
        dsts \<leftarrow> route_targets rank dp_rank dp_group dp_size world_size (aw_num_experts args) (aw_rank_handles args);
        case add_peer_group (map (\<lambda>dst. extract_addrs (sc_dst_mr dst)) dsts) of
          Inl e \<Rightarrow> Some (Inl e)
        | Inr dst_handle \<Rightarrow> do {
            dst_mrs \<leftarrow> barrier_targets rank world_size (aw_rank_handles args);
            Some (Inr (args\<lparr>aw_dp_rank := dp_rank, aw_dp_group := dp_group, aw_route_imm := imm_base,
              aw_dispatch_imm := imm_base + 1, aw_combine_imm := imm_base + 2, aw_dispatch_barrier_imm := imm_base + 3,
              aw_combine_barrier_imm := imm_base + 4,
              aw_route_write_op := ScatterReq \<lparr>sct_src_mr = aw_num_routed_mr args, sct_dst_handle = Some dst_handle,
                sct_dsts = dsts, sct_imm_data = Some imm_base, sct_domain = AllDomainsShardPeers\<rparr>,
              aw_dispatch_barrier_write_op := BarrierReq \<lparr>bt_imm_data = imm_base + 3, bt_dst_mrs = dst_mrs, bt_domain = Pinned 0\<rparr>,
              aw_combine_barrier_write_op := BarrierReq \<lparr>bt_imm_data = imm_base + 4, bt_dst_mrs = dst_mrs, bt_domain = Pinned 0\<rparr>\<rparr>)) } })"

section \<open>Sizes\<close>

definition get_num_routed :: "a2a_worker \<Rightarrow> num_routed \<Rightarrow> nat \<Rightarrow> nat \<Rightarrow> u32 option" where
  "get_num_routed w buf dp_group expert =
     (if dp_group < aw_world_size w div aw_dp_size w \<and> expert < aw_num_experts w
      then index buf (dp_group * aw_num_experts w + expert) else None)"

definition get_dispatch_token_dim :: "a2a_worker \<Rightarrow> nat" where
  "get_dispatch_token_dim w =
     (let token_dim = div_ceil (aw_hidden_dim w * aw_in_elemsize w) 16 * 16;
          scale_dim = div_ceil (aw_hidden_dim_scale w * aw_scale_elemsize w) 16 * 16
      in token_dim + scale_dim + 16)"

definition get_combine_token_dim :: "a2a_worker \<Rightarrow> nat" where
  "get_combine_token_dim w = div_ceil (aw_hidden_dim w * aw_out_elemsize w) 16 * 16"

abbreviation experts_per_rank :: "a2a_worker \<Rightarrow> nat" where
  "experts_per_rank w \<equiv> div_ceil (aw_num_experts w) (aw_world_size w)"

section \<open>Dispatch into the private buffers\<close>

definition rank_tokens :: "a2a_worker \<Rightarrow> num_routed \<Rightarrow> nat \<Rightarrow> nat option" where
  "rank_tokens w buf peer_rank =
     (let first_expert = peer_rank * experts_per_rank w;
          last_expert = min ((peer_rank + 1) * experts_per_rank w) (aw_num_experts w)
      in foldM (\<lambda>expert n. do { num_routed \<leftarrow> get_num_routed w buf (aw_dp_group w) expert; Some (n + unat num_routed) })
           [first_expert..<last_expert] 0)"

definition initial_offsets :: "a2a_worker \<Rightarrow> num_routed \<Rightarrow> (nat list \<times> nat list) option" where
  "initial_offsets w buf = do {
     (tokens_per_rank, rank_offset, _) \<leftarrow> foldM (\<lambda>peer_rank (tokens_per_rank, rank_offset, offset). do {
         tokens_on_rank \<leftarrow> rank_tokens w buf peer_rank;
         Some (tokens_per_rank[peer_rank := tokens_on_rank], rank_offset[peer_rank := offset], offset + tokens_on_rank) })
       [0..<aw_world_size w] (replicate (aw_world_size w) 0, replicate (aw_world_size w) 0, 0);
     Some (tokens_per_rank, rank_offset) }"

definition initial_target :: "a2a_worker \<Rightarrow> nat list \<Rightarrow> nat list \<Rightarrow> nat \<Rightarrow> scatter_target option" where
  "initial_target w tokens_per_rank rank_offset peer_rank = do {
     tokens \<leftarrow> index tokens_per_rank peer_rank;
     h \<leftarrow> index (aw_rank_handles w) peer_rank;
     offset \<leftarrow> index rank_offset peer_rank;
     let token_dim = get_dispatch_token_dim w;
     let num_tokens = min tokens (aw_max_private_tokens w);
     Some \<lparr>sc_dst_mr = rh_recv_buffer_desc h, sc_length = of_nat (token_dim * num_tokens),
       sc_src_offset = of_nat (token_dim * offset),
       sc_dst_offset = of_nat (token_dim * (aw_dp_group w * aw_max_private_tokens w))\<rparr> }"

text \<open>The ranks of the other nodes, node by node from the next one on.\<close>

definition remote_ranks :: "a2a_worker \<Rightarrow> nat list" where
  "remote_ranks w =
     concat (map (\<lambda>peer_node. map (\<lambda>i. ((aw_rank w div aw_node_size w + peer_node) * aw_node_size w + i) mod aw_world_size w)
         [0..<aw_node_size w]) [1..<aw_world_size w div aw_node_size w])"

definition dispatch_initial_routes :: "a2a_worker \<Rightarrow> num_routed \<Rightarrow> scatter_target list option" where
  "dispatch_initial_routes w buf =
     (if aw_world_size w = 0 \<or> aw_node_size w = 0 then None
      else do {
        (tokens_per_rank, rank_offset) \<leftarrow> initial_offsets w buf;
        foldM (\<lambda>peer_rank dsts. do { t \<leftarrow> initial_target w tokens_per_rank rank_offset peer_rank; Some (dsts @ [t]) })
          (remote_ranks w) [] })"

section \<open>Routing information\<close>

text \<open>The counts a rank collects over all groups.\<close>

record route_counts =
  rc_tokens_from_group :: "u32 list"
  rc_src_group_offset :: "u32 list"
  rc_dst_group_offset :: "u32 list"
  rc_tokens_per_expert :: "u32 list"
  rc_num_recv_tokens :: nat
  rc_num_recv_tx :: u32
  rc_source_expert_offset :: "u32 list"
  rc_tokens_to_rank :: "u32 list"
  rc_dispatch_src_offset :: "u32 list"
  rc_rank_offset :: u32

abbreviation num_dp_groups :: "a2a_worker \<Rightarrow> nat" where
  "num_dp_groups w \<equiv> aw_world_size w div aw_dp_size w"

abbreviation first_local_expert :: "a2a_worker \<Rightarrow> nat" where
  "first_local_expert w \<equiv> aw_rank w * experts_per_rank w"

abbreviation last_local_expert :: "a2a_worker \<Rightarrow> nat" where
  "last_local_expert w \<equiv> min (first_local_expert w + experts_per_rank w) (aw_num_experts w)"

abbreviation rank_node :: "a2a_worker \<Rightarrow> nat" where
  "rank_node w \<equiv> aw_rank w div aw_node_size w"

abbreviation groups_per_node :: "a2a_worker \<Rightarrow> nat" where
  "groups_per_node w \<equiv> aw_node_size w div aw_dp_size w"

definition rc_init :: "a2a_worker \<Rightarrow> route_counts" where
  "rc_init w =
     \<lparr>rc_tokens_from_group = replicate (num_dp_groups w) 0, rc_src_group_offset = replicate (num_dp_groups w) 0,
      rc_dst_group_offset = replicate (num_dp_groups w) 0, rc_tokens_per_expert = replicate (experts_per_rank w) 0,
      rc_num_recv_tokens = 0, rc_num_recv_tx = 0, rc_source_expert_offset = replicate (aw_num_experts w) 0,
      rc_tokens_to_rank = replicate (aw_world_size w) 0, rc_dispatch_src_offset = replicate (aw_world_size w) 0,
      rc_rank_offset = 0\<rparr>"

text \<open>The own tokens for the experts of a rank.\<close>

definition count_expert :: "a2a_worker \<Rightarrow> num_routed \<Rightarrow> nat \<Rightarrow> nat \<Rightarrow> route_counts \<Rightarrow> route_counts option" where
  "count_expert w buf rank expert rc = do {
     n \<leftarrow> get_num_routed w buf (aw_dp_group w) expert;
     old \<leftarrow> index (rc_tokens_to_rank rc) rank;
     Some (rc\<lparr>rc_source_expert_offset := (rc_source_expert_offset rc)[expert := rc_rank_offset rc],
              rc_tokens_to_rank := (rc_tokens_to_rank rc)[rank := old + n],
              rc_rank_offset := rc_rank_offset rc + n\<rparr>) }"

definition count_rank :: "a2a_worker \<Rightarrow> num_routed \<Rightarrow> nat \<Rightarrow> route_counts \<Rightarrow> route_counts option" where
  "count_rank w buf rank rc =
     (let first_expert = rank * experts_per_rank w;
          last_expert = min (first_expert + experts_per_rank w) (aw_num_experts w)
      in foldM (count_expert w buf rank) [first_expert..<last_expert]
           (rc\<lparr>rc_dispatch_src_offset := (rc_dispatch_src_offset rc)[rank := rc_rank_offset rc]\<rparr>))"

text \<open>The tokens of a group for the experts before the local ones, and for the local ones.\<close>

definition group_offset :: "a2a_worker \<Rightarrow> num_routed \<Rightarrow> nat \<Rightarrow> u32 option" where
  "group_offset w buf g =
     foldM (\<lambda>expert offset. do { n \<leftarrow> get_num_routed w buf g expert; Some (offset + n) }) [0..<first_local_expert w] 0"

definition count_local :: "a2a_worker \<Rightarrow> num_routed \<Rightarrow> nat \<Rightarrow> u32 list \<Rightarrow> (nat \<times> u32 list) option" where
  "count_local w buf g tokens_per_expert =
     foldM (\<lambda>expert (num_tokens, tokens_per_expert). do {
         n \<leftarrow> get_num_routed w buf g expert;
         tokens_per_expert \<leftarrow> update_at (expert - first_local_expert w) (\<lambda>x. Some (x + n)) tokens_per_expert;
         Some (num_tokens + unat n, tokens_per_expert) })
       [first_local_expert w..<last_local_expert w] (0, tokens_per_expert)"

text \<open>Writes expected from a group on another node: one for the private part, one per network card for the rest.\<close>

definition group_recv_tx :: "a2a_worker \<Rightarrow> nat \<Rightarrow> nat \<Rightarrow> u32" where
  "group_recv_tx w g num_tokens =
     (if g \<noteq> aw_dp_group w \<and> g div groups_per_node w \<noteq> rank_node w
      then 1 + (if num_tokens > aw_max_private_tokens w then of_nat (aw_nets_per_gpu w) else 0)
      else 0)"

definition count_group :: "a2a_worker \<Rightarrow> num_routed \<Rightarrow> nat \<Rightarrow> route_counts \<Rightarrow> route_counts option" where
  "count_group w buf g rc = do {
     rc \<leftarrow> foldM (\<lambda>i. count_rank w buf (g * aw_dp_size w + i)) [0..<aw_dp_size w] rc;
     offset \<leftarrow> group_offset w buf g;
     (num_tokens, tokens_per_expert) \<leftarrow> count_local w buf g (rc_tokens_per_expert rc);
     old \<leftarrow> index (rc_tokens_from_group rc) g;
     Some (rc\<lparr>rc_dst_group_offset := (rc_dst_group_offset rc)[g := offset],
              rc_tokens_per_expert := tokens_per_expert,
              rc_tokens_from_group := (rc_tokens_from_group rc)[g := old + of_nat num_tokens],
              rc_src_group_offset := (rc_src_group_offset rc)[g := of_nat (rc_num_recv_tokens rc)],
              rc_num_recv_tokens := rc_num_recv_tokens rc + num_tokens,
              rc_num_recv_tx := rc_num_recv_tx rc + group_recv_tx w g num_tokens\<rparr>) }"

definition count_groups :: "a2a_worker \<Rightarrow> num_routed \<Rightarrow> route_counts option" where
  "count_groups w buf = foldM (count_group w buf) [0..<num_dp_groups w] (rc_init w)"

text \<open>The start of each expert when their tokens are padded to a multiple of \<open>expert_padding\<close>.\<close>

definition pad_offsets :: "nat \<Rightarrow> u32 list \<Rightarrow> u32 list" where
  "pad_offsets expert_padding counts =
     fst (fold (\<lambda>count (padded_offset, base_expert_offset).
         (padded_offset @ [base_expert_offset],
          base_expert_offset + of_nat (div_ceil (unat count) expert_padding * expert_padding)))
       counts ([], 0))"

section \<open>The tables of received tokens\<close>

record route_state =
  rs_last :: nat
  rs_src_dispatch_count :: "u32 list"
  rs_src_combine_count :: "u32 list"
  rs_expert_count :: "nat list"
  rs_source_expert_offset :: "u32 list"
  rs_source_dispatch_offset :: "u32 list"
  rs_combine_send_offset :: "u32 list"
  rs_source_rank :: "u32 list"
  rs_padded_index :: "u32 list"

definition rs_init :: "a2a_worker \<Rightarrow> route_counts \<Rightarrow> route_state" where
  "rs_init w rc =
     \<lparr>rs_last = 0, rs_src_dispatch_count = replicate (num_dp_groups w) 0, rs_src_combine_count = replicate (num_dp_groups w) 0,
      rs_expert_count = replicate (last_local_expert w - first_local_expert w) 0,
      rs_source_expert_offset = rc_source_expert_offset rc,
      rs_source_dispatch_offset = replicate (rc_num_recv_tokens rc) 0, rs_combine_send_offset = replicate (rc_num_recv_tokens rc) 0,
      rs_source_rank = replicate (rc_num_recv_tokens rc) 0, rs_padded_index = replicate (rc_num_recv_tokens rc) 0\<rparr>"

text \<open>Writing the entry of the current token; out of range is a panic.\<close>

definition set_at :: "nat \<Rightarrow> 'a \<Rightarrow> 'a list \<Rightarrow> 'a list option" where
  "set_at i x = update_at i (\<lambda>_. Some x)"

definition base_offset :: "a2a_worker \<Rightarrow> nat" where
  "base_offset w = aw_max_private_tokens w * num_dp_groups w"

text \<open>
  Where the token is read from: a token of the own rank in the send buffer, another one in the private
  buffer of its group, or with the high bit set in the send buffer of a rank of the same node, or
  behind the private buffers.
\<close>

definition route_dispatch :: "a2a_worker \<Rightarrow> u32 \<Rightarrow> u32 \<Rightarrow> nat \<Rightarrow> nat \<Rightarrow> route_state \<Rightarrow> route_state option" where
  "route_dispatch w src_offset dst_offset peer_group expert rs =
     (let peer_rank = peer_group * aw_dp_size w + aw_dp_rank w; last = rs_last rs in
      if peer_rank = aw_rank w then do {
        local_offset \<leftarrow> index (rs_source_expert_offset rs) expert;
        offsets \<leftarrow> set_at last local_offset (rs_source_dispatch_offset rs);
        sends \<leftarrow> set_at last local_offset (rs_combine_send_offset rs);
        Some (rs\<lparr>rs_source_expert_offset := (rs_source_expert_offset rs)[expert := local_offset + 1],
                 rs_source_dispatch_offset := offsets, rs_combine_send_offset := sends\<rparr>) }
      else do {
        index_on_rank \<leftarrow> index (rs_src_dispatch_count rs) peer_group;
        let offset =
          (if unat index_on_rank < aw_max_private_tokens w then of_nat (aw_max_private_tokens w * peer_group) + index_on_rank
           else if peer_rank div aw_node_size w = rank_node w then or (dst_offset + index_on_rank) (push_bit 31 1)
           else src_offset + index_on_rank + (of_nat (base_offset w) - of_nat (aw_max_private_tokens w)));
        offsets \<leftarrow> set_at last offset (rs_source_dispatch_offset rs);
        Some (rs\<lparr>rs_src_dispatch_count := (rs_src_dispatch_count rs)[peer_group := index_on_rank + 1],
                 rs_source_dispatch_offset := offsets\<rparr>) })"

text \<open>Where its result is sent from.\<close>

definition route_combine :: "a2a_worker \<Rightarrow> u32 \<Rightarrow> u32 \<Rightarrow> nat \<Rightarrow> route_state \<Rightarrow> route_state option" where
  "route_combine w src_offset dst_offset peer_group rs =
     (let peer_rank = peer_group * aw_dp_size w + aw_dp_rank w in
      if peer_rank \<noteq> aw_rank w \<or> aw_dp_size w > 1 then do {
        combine_index \<leftarrow> index (rs_src_combine_count rs) peer_group;
        sends \<leftarrow> set_at (rs_last rs) (if peer_rank div aw_node_size w = rank_node w then dst_offset + combine_index
                                      else src_offset + combine_index) (rs_combine_send_offset rs);
        Some (rs\<lparr>rs_src_combine_count := (rs_src_combine_count rs)[peer_group := combine_index + 1],
                 rs_combine_send_offset := sends\<rparr>) }
      else Some rs)"

definition route_token ::
    "a2a_worker \<Rightarrow> u32 list \<Rightarrow> u32 \<Rightarrow> u32 \<Rightarrow> nat \<Rightarrow> nat \<Rightarrow> route_state \<Rightarrow> route_state option" where
  "route_token w padded_offset src_offset dst_offset peer_group expert rs = do {
     rs \<leftarrow> route_dispatch w src_offset dst_offset peer_group expert rs;
     rs \<leftarrow> route_combine w src_offset dst_offset peer_group rs;
     let local_expert = expert - first_local_expert w;
     ranks \<leftarrow> set_at (rs_last rs) (of_nat (peer_group * aw_dp_size w + aw_dp_rank w)) (rs_source_rank rs);
     padded \<leftarrow> index padded_offset local_expert;
     count \<leftarrow> index (rs_expert_count rs) local_expert;
     indices \<leftarrow> set_at (rs_last rs) (padded + of_nat count) (rs_padded_index rs);
     Some (rs\<lparr>rs_source_rank := ranks, rs_padded_index := indices,
              rs_expert_count := (rs_expert_count rs)[local_expert := count + 1], rs_last := rs_last rs + 1\<rparr>) }"

definition route_group ::
    "a2a_worker \<Rightarrow> num_routed \<Rightarrow> route_counts \<Rightarrow> u32 list \<Rightarrow> nat \<Rightarrow> nat \<times> route_state \<Rightarrow> (nat \<times> route_state) option" where
  "route_group w buf rc padded_offset peer_group =
     (\<lambda>(total, rs). foldM (\<lambda>expert (total, rs). do {
         routed \<leftarrow> get_num_routed w buf peer_group expert;
         src_offset \<leftarrow> index (rc_src_group_offset rc) peer_group;
         dst_offset \<leftarrow> index (rc_dst_group_offset rc) peer_group;
         rs \<leftarrow> foldM (\<lambda>_. route_token w padded_offset src_offset dst_offset peer_group expert) [0..<unat routed] rs;
         Some (total + unat routed, rs) })
       [first_local_expert w..<last_local_expert w] (total, rs))"

text \<open>Groups of other nodes first, then those of the same node, then the own group.\<close>

definition remote_groups :: "a2a_worker \<Rightarrow> nat list" where
  "remote_groups w =
     (let num_nodes = aw_world_size w div aw_node_size w in
      concat (map (\<lambda>i. map (\<lambda>j. (rank_node w + i) mod num_nodes * groups_per_node w + j) [0..<groups_per_node w]) [1..<num_nodes]))"

definition local_groups :: "a2a_worker \<Rightarrow> nat list" where
  "local_groups w =
     map (\<lambda>i. rank_node w * groups_per_node w + (aw_dp_group w + i) mod groups_per_node w) [1..<groups_per_node w]"

definition route_groups ::
    "a2a_worker \<Rightarrow> num_routed \<Rightarrow> route_counts \<Rightarrow> u32 list \<Rightarrow> (nat \<times> route_state) option" where
  "route_groups w buf rc padded_offset = do {
     (num_recv_efa_tokens, rs) \<leftarrow> foldM (route_group w buf rc padded_offset) (remote_groups w) (0, rs_init w rc);
     (_, rs) \<leftarrow> foldM (route_group w buf rc padded_offset) (local_groups w) (0, rs);
     (_, rs) \<leftarrow> route_group w buf rc padded_offset (aw_dp_group w) (0, rs);
     Some (num_recv_efa_tokens, rs) }"

section \<open>The transfers\<close>

definition step_by :: "nat \<Rightarrow> nat \<Rightarrow> nat \<Rightarrow> nat list" where
  "step_by first stop k = map (\<lambda>i. first + i * k) [0..<div_ceil (stop - first) k]"

text \<open>The tokens of the groups before the own one for the experts of a rank.\<close>

definition overflow_offset :: "a2a_worker \<Rightarrow> num_routed \<Rightarrow> nat \<Rightarrow> u64 option" where
  "overflow_offset w buf peer_rank =
     (let first_expert = peer_rank * experts_per_rank w;
          last_expert = min ((peer_rank + 1) * experts_per_rank w) (aw_num_experts w)
      in foldM (\<lambda>(src_group, expert) offset. do { n \<leftarrow> get_num_routed w buf src_group expert; Some (offset + ucast n) })
           (List.product [0..<aw_dp_group w] [first_expert..<last_expert]) 0)"

definition dispatch_range ::
    "a2a_worker \<Rightarrow> num_routed \<Rightarrow> route_counts \<Rightarrow> nat \<Rightarrow> scatter_target list \<Rightarrow> scatter_target list option" where
  "dispatch_range w buf rc peer_rank dsts = do {
     h \<leftarrow> index (aw_rank_handles w) peer_rank;
     tokens \<leftarrow> index (rc_tokens_to_rank rc) peer_rank;
     let num_tokens = unat tokens;
     if num_tokens \<le> aw_max_private_tokens w then Some dsts
     else do {
       dst_offset \<leftarrow> overflow_offset w buf peer_rank;
       start \<leftarrow> index (rc_dispatch_src_offset rc) peer_rank;
       let token_dim = get_dispatch_token_dim w;
       let src_offset = of_nat (aw_max_private_tokens w) + ucast start;
       Some (dsts @ [\<lparr>sc_dst_mr = rh_recv_buffer_desc h,
         sc_length = of_nat (token_dim * (num_tokens - aw_max_private_tokens w)),
         sc_src_offset = src_offset * of_nat token_dim,
         sc_dst_offset = (of_nat (base_offset w) + dst_offset) * of_nat token_dim\<rparr>]) } }"

definition dispatch_ranks :: "a2a_worker \<Rightarrow> nat list" where
  "dispatch_ranks w =
     concat (map (\<lambda>peer_node. map (\<lambda>i. ((rank_node w + peer_node) * aw_node_size w + i) mod aw_world_size w)
         (step_by (aw_dp_rank w) (aw_node_size w) (aw_dp_size w))) [1..<aw_world_size w div aw_node_size w])"

definition combine_range :: "a2a_worker \<Rightarrow> route_counts \<Rightarrow> nat \<times> nat \<Rightarrow> scatter_target list \<Rightarrow> scatter_target list option" where
  "combine_range w rc = (\<lambda>(peer_group, i) dsts. do {
     let token_dim = get_combine_token_dim w;
     let peer_rank = peer_group * aw_dp_size w + i;
     tokens \<leftarrow> index (rc_tokens_from_group rc) peer_group;
     src \<leftarrow> index (rc_src_group_offset rc) peer_group;
     dst \<leftarrow> index (rc_dst_group_offset rc) peer_group;
     h \<leftarrow> index (aw_rank_handles w) peer_rank;
     Some (dsts @ [\<lparr>sc_dst_mr = rh_recv_buffer_desc h, sc_length = of_nat (token_dim * unat tokens),
       sc_src_offset = ucast src * of_nat token_dim, sc_dst_offset = ucast dst * of_nat token_dim\<rparr>]) })"

definition combine_peers :: "a2a_worker \<Rightarrow> (nat \<times> nat) list" where
  "combine_peers w =
     concat (map (\<lambda>peer_node. List.product
         (map (\<lambda>i. ((rank_node w + peer_node) * groups_per_node w + i) mod num_dp_groups w) [0..<groups_per_node w])
         [0..<aw_dp_size w]) [1..<aw_world_size w div aw_node_size w])"

text \<open>What is left for the device, and the transfers.\<close>

record route_tables =
  rt_tokens_per_expert :: "u32 list"
  rt_padded_index :: "u32 list"
  rt_source_rank :: "u32 list"
  rt_source_dispatch_offset :: "u32 list"
  rt_combine_send_offset :: "u32 list"
  rt_num_recv_tokens :: "u32 list"

record routing_info =
  ri_num_recv_tx :: u32
  ri_dispatch_ranges :: "scatter_target list"
  ri_combine_ranges :: "scatter_target list"

definition process_routing_info :: "a2a_worker \<Rightarrow> num_routed \<Rightarrow> (routing_info \<times> route_tables) option" where
  "process_routing_info w buf =
     (if aw_world_size w = 0 \<or> aw_dp_size w = 0 \<or> aw_node_size w = 0 \<or> groups_per_node w = 0 \<or> aw_expert_padding w = 0 \<or>
         last_local_expert w < first_local_expert w then None
      else do {
        rc \<leftarrow> count_groups w buf;
        let padded_offset = pad_offsets (aw_expert_padding w) (rc_tokens_per_expert rc);
        (num_recv_efa_tokens, rs) \<leftarrow> route_groups w buf rc padded_offset;
        if aw_max_recv_tokens w < rc_num_recv_tokens rc then None
        else do {
          dispatch_ranges \<leftarrow> foldM (dispatch_range w buf rc) (dispatch_ranks w) [];
          combine_ranges \<leftarrow> foldM (combine_range w rc) (combine_peers w) [];
          Some (\<lparr>ri_num_recv_tx = rc_num_recv_tx rc, ri_dispatch_ranges = dispatch_ranges, ri_combine_ranges = combine_ranges\<rparr>,
            \<lparr>rt_tokens_per_expert = rc_tokens_per_expert rc, rt_padded_index = rs_padded_index rs,
             rt_source_rank = rs_source_rank rs, rt_source_dispatch_offset = rs_source_dispatch_offset rs,
             rt_combine_send_offset = rs_combine_send_offset rs,
             rt_num_recv_tokens = [of_nat (rc_num_recv_tokens rc), of_nat num_recv_efa_tokens]\<rparr>) } })"

section \<open>A step of the worker\<close>

text \<open>
  What a step does towards the engine, the device and the counters, in order. \<open>running\<close> is what the
  stop flag answers after each of the three waits for the device; a step ends early when it is false.
\<close>

datatype a2a_flag = DispatchRouteDone | DispatchSendDone | DispatchRecvDone | CombineSendDone | CombineRecvDone
  | TxReady | CombineRecvFlag | NumRecvTokensFlag

datatype a2a_event =
    WaitFlag a2a_flag
  | SetFlag a2a_flag bool
  | SubmitAtomic transfer_request
  | WaitImm u32 u32
  | WaitTx nat

definition a2a_barrier :: "a2a_worker \<Rightarrow> transfer_request \<Rightarrow> u32 \<Rightarrow> nat \<Rightarrow> a2a_event list" where
  "a2a_barrier w request imm num_tx =
     [SubmitAtomic request, WaitImm imm (of_nat (aw_world_size w - 1)), WaitTx num_tx, SetFlag TxReady True]"

definition scatter_request :: "a2a_worker \<Rightarrow> scatter_target list \<Rightarrow> u32 \<Rightarrow> group_transfer_routing \<Rightarrow> transfer_request" where
  "scatter_request w dsts imm domain =
     ScatterReq \<lparr>sct_src_mr = aw_send_buffer_mr w, sct_dst_handle = None, sct_dsts = dsts, sct_imm_data = Some imm, sct_domain = domain\<rparr>"

definition a2a_step :: "a2a_worker \<Rightarrow> num_routed \<Rightarrow> num_routed \<Rightarrow> bool \<times> bool \<times> bool \<Rightarrow> a2a_event list option" where
  "a2a_step w own buf running =
     (let (running1, running2, running3) = running; start = [WaitFlag DispatchRouteDone] in
      if \<not> running1 then Some start
      else let sent = start @ [SubmitAtomic (aw_route_write_op w), WaitFlag DispatchSendDone, SetFlag TxReady False] in
      if \<not> running2 then Some sent
      else if aw_world_size w < aw_node_size w \<or> aw_world_size w = 0 \<or> num_dp_groups w = 0 then None
      else do {
        private \<leftarrow> dispatch_initial_routes w own;
        (route, _) \<leftarrow> process_routing_info w buf;
        let num_dispatch_tx = 1 + (if private = [] then 0 else 1) + (if ri_dispatch_ranges route = [] then 0 else 1);
        let num_combine_tx = 1 + (if aw_world_size w > aw_node_size w then 1 else 0);
        let dispatch =
          (if private = [] then [] else [SubmitAtomic (scatter_request w private (aw_dispatch_imm w) AllDomainsShardPeers)]) @
          [WaitImm (aw_route_imm w) (of_nat (num_dp_groups w) - 1), SetFlag NumRecvTokensFlag True] @
          (if ri_dispatch_ranges route = [] then []
           else [SubmitAtomic (scatter_request w (ri_dispatch_ranges route) (aw_dispatch_imm w) AllDomainsShardBytes)]) @
          [WaitImm (aw_dispatch_imm w) (ri_num_recv_tx route), WaitFlag DispatchRecvDone] @
          a2a_barrier w (aw_dispatch_barrier_write_op w) (aw_dispatch_barrier_imm w) num_dispatch_tx @ [WaitFlag CombineSendDone];
        if \<not> running3 then Some (sent @ dispatch)
        else Some (sent @ dispatch @
          (if ri_combine_ranges route = [] then []
           else [SubmitAtomic (scatter_request w (ri_combine_ranges route) (aw_combine_imm w) AllDomainsShardBytes)]) @
          [WaitImm (aw_combine_imm w) (of_nat (aw_world_size w - aw_node_size w) * of_nat (aw_nets_per_gpu w)),
           SetFlag CombineRecvFlag True, WaitFlag CombineRecvDone] @
          a2a_barrier w (aw_combine_barrier_write_op w) (aw_combine_barrier_imm w) num_combine_tx) })"

text \<open>\<^verbatim>\<open>stop\<close> clears the run flag and then raises every flag of the device that a step may be waiting for.\<close>

definition a2a_stop :: "a2a_event list" where
  "a2a_stop = map (\<lambda>f. SetFlag f True) [DispatchRouteDone, DispatchSendDone, DispatchRecvDone, CombineSendDone, CombineRecvDone]"

text \<open>The loop of the worker thread: for each round, what the stop flag answers before it and the inputs of its step.\<close>

fun main_loop :: "a2a_worker \<Rightarrow> (bool \<times> num_routed \<times> num_routed \<times> bool \<times> bool \<times> bool) list \<Rightarrow> a2a_event list option" where
  "main_loop w [] = Some []"
| "main_loop w ((is_running, own, buf, running) # rounds) =
     (if \<not> is_running then Some []
      else do { events \<leftarrow> a2a_step w own buf running; rest \<leftarrow> main_loop w rounds; Some (events @ rest) })"

end
