(* ===== verification/A2A_Routing.thy ===== *)
theory A2A_Routing
  imports A2A_Worker
begin

text \<open>
  The routing tables in closed form. With \<open>R g e\<close> the number of tokens group \<open>g\<close> routes to expert \<open>e\<close>, every
  vector that the loops of \<^verbatim>\<open>process_routing_info\<close> fill is a sum over \<open>R\<close>; the token tables list the tokens by group,
  in the order the groups are visited, then by expert, then by position.
\<close>

section \<open>Vectors and loops\<close>

definition vec :: "nat \<Rightarrow> (nat \<Rightarrow> 'a) \<Rightarrow> 'a list" where
  "vec n f = map f [0..<n]"

lemma vec_length [simp]: "length (vec n f) = n"
  by (simp add: vec_def)

lemma vec_nth [simp]: "i < n \<Longrightarrow> vec n f ! i = f i"
  by (simp add: vec_def)

lemma vec_update [simp]: "(vec n f)[i := v] = vec n (f(i := v))"
  by (rule nth_equalityI) (simp_all add: nth_list_update)

lemma vec_index [simp]: "index (vec n f) i = (if i < n then Some (f i) else None)"
  by (simp add: index_def)

lemma vec_cong: "(\<And>i. i < n \<Longrightarrow> f i = g i) \<Longrightarrow> vec n f = vec n g"
  by (simp add: vec_def)

lemma replicate_vec: "replicate n x = vec n (\<lambda>_. x)"
  by (simp add: vec_def map_replicate_const)

lemma vec_update_at [simp]: "i < n \<Longrightarrow> update_at i g (vec n f) = map_option (\<lambda>y. vec n (f(i := y))) (g (f i))"
  by (cases "g (f i)") (simp_all add: update_at_def)

text \<open>A loop whose states are known in closed form.\<close>

lemma foldM_upt:
  assumes "\<And>i. a \<le> i \<Longrightarrow> i < b \<Longrightarrow> f i (S i) = Some (S (Suc i))" "a \<le> b"
  shows "foldM f [a..<b] (S a) = Some (S b)"
  using assms
proof (induction "b - a" arbitrary: a)
  case (Suc k)
  then have less: "a < b" by simp
  have "foldM f [Suc a..<b] (S (Suc a)) = Some (S b)" by (rule Suc.hyps(1)) (use Suc.hyps(2) Suc.prems(1) less in auto)
  then show ?case using Suc.prems(1) [of a] less by (simp add: upt_conv_Cons)
qed simp

section \<open>The counts\<close>

definition R :: "a2a_worker \<Rightarrow> num_routed \<Rightarrow> nat \<Rightarrow> nat \<Rightarrow> nat" where
  "R w buf g e = unat (buf ! (g * aw_num_experts w + e))"

text \<open>A group routes \<open>before e\<close> tokens to experts below \<open>e\<close>, and \<open>to_rank r\<close> to those of a rank.\<close>

definition before :: "a2a_worker \<Rightarrow> num_routed \<Rightarrow> nat \<Rightarrow> nat \<Rightarrow> nat" where
  "before w buf g e = (\<Sum>x<e. R w buf g x)"

definition first_expert :: "a2a_worker \<Rightarrow> nat \<Rightarrow> nat" where
  "first_expert w r = min (r * experts_per_rank w) (aw_num_experts w)"

definition to_rank :: "a2a_worker \<Rightarrow> num_routed \<Rightarrow> nat \<Rightarrow> nat \<Rightarrow> nat" where
  "to_rank w buf g r = (\<Sum>e = first_expert w r..<first_expert w (Suc r). R w buf g e)"

definition from_groups :: "a2a_worker \<Rightarrow> num_routed \<Rightarrow> nat \<Rightarrow> nat \<Rightarrow> nat" where
  "from_groups w buf g r = (\<Sum>x<g. to_rank w buf x r)"

text \<open>
  A worker in order: groups fill the nodes and nodes the world, the own rank has experts, there is a handle for
  every rank and a row of counts for every group.
\<close>

definition a2a_wf :: "a2a_worker \<Rightarrow> num_routed \<Rightarrow> bool" where
  "a2a_wf w buf \<longleftrightarrow> 0 < aw_dp_size w \<and> 0 < aw_node_size w \<and> aw_dp_size w dvd aw_node_size w \<and> aw_node_size w dvd aw_world_size w \<and>
     aw_rank w < aw_world_size w \<and> aw_dp_rank w = aw_rank w mod aw_dp_size w \<and> aw_dp_group w = aw_rank w div aw_dp_size w \<and>
     0 < aw_expert_padding w \<and> aw_rank w * experts_per_rank w \<le> aw_num_experts w \<and>
     length (aw_rank_handles w) = aw_world_size w \<and> num_dp_groups w * aw_num_experts w \<le> length buf"

lemma a2a_wfD:
  assumes "a2a_wf w buf"
  shows "0 < aw_dp_size w" "0 < aw_node_size w" "0 < aw_world_size w" "0 < num_dp_groups w" "0 < groups_per_node w"
    "num_dp_groups w * aw_dp_size w = aw_world_size w" "groups_per_node w * aw_dp_size w = aw_node_size w"
    "aw_world_size w div aw_node_size w * groups_per_node w = num_dp_groups w" "aw_dp_group w < num_dp_groups w"
    "aw_rank w = aw_dp_group w * aw_dp_size w + aw_dp_rank w" "first_expert w (aw_rank w) = first_local_expert w"
    "first_expert w (Suc (aw_rank w)) = last_local_expert w"
proof -
  note wf = assms [unfolded a2a_wf_def]
  show 1: "0 < aw_dp_size w" "0 < aw_node_size w" "0 < aw_world_size w" using wf by auto
  have dvd: "aw_dp_size w dvd aw_world_size w" using wf dvd_trans by blast
  show 2: "num_dp_groups w * aw_dp_size w = aw_world_size w" "groups_per_node w * aw_dp_size w = aw_node_size w"
    using dvd wf by simp_all
  then show "0 < num_dp_groups w" "0 < groups_per_node w" using 1 by (metis mult_eq_0_iff gr0I less_not_refl)+
  show "aw_world_size w div aw_node_size w * groups_per_node w = num_dp_groups w"
    using wf 1 2 by (metis div_mult_swap dvd_div_mult_self)
  show "aw_dp_group w < num_dp_groups w" using wf 1 2(1) by (metis less_mult_imp_div_less)
  show "aw_rank w = aw_dp_group w * aw_dp_size w + aw_dp_rank w" using wf by simp
  show "first_expert w (aw_rank w) = first_local_expert w" "first_expert w (Suc (aw_rank w)) = last_local_expert w"
    using wf by (simp_all add: first_expert_def add.commute)
qed

lemma get_num_routed_R:
  assumes "a2a_wf w buf" "g < num_dp_groups w" "e < aw_num_experts w"
  shows "\<exists>n. get_num_routed w buf g e = Some n \<and> unat n = R w buf g e"
proof -
  have "g * aw_num_experts w + e < num_dp_groups w * aw_num_experts w"
    using mult_le_mono1 [of "Suc g" "num_dp_groups w" "aw_num_experts w"] assms(2,3) by simp
  then have "g * aw_num_experts w + e < length buf" using assms(1) by (simp add: a2a_wf_def)
  then show ?thesis using assms(2,3) by (simp add: get_num_routed_def R_def)
qed

lemma first_expert_le: "first_expert w r \<le> aw_num_experts w"
  by (simp add: first_expert_def)

lemma first_expert_mono: "r \<le> r' \<Longrightarrow> first_expert w r \<le> first_expert w r'"
  unfolding first_expert_def by (intro min.mono mult_le_mono1) simp_all

lemma before_rank: "before w buf g (first_expert w (Suc r)) = before w buf g (first_expert w r) + to_rank w buf g r"
  unfolding before_def to_rank_def lessThan_atLeast0 using first_expert_mono [of r "Suc r" w]
  by (simp add: sum.atLeastLessThan_concat)

lemma before_Suc [simp]: "before w buf g (Suc e) = before w buf g e + R w buf g e"
  by (simp add: before_def)

lemma from_groups_Suc [simp]: "from_groups w buf (Suc g) r = from_groups w buf g r + to_rank w buf g r"
  by (simp add: from_groups_def)

lemma word_R: "unat n = R w buf g e \<Longrightarrow> n = of_nat (R w buf g e)"
  by (metis of_nat_unat ucast_id)

section \<open>The loop over the groups\<close>

text \<open>
  The sending side after the experts below \<open>x\<close>, up to those of rank \<open>r\<close>, with the offsets of the first \<open>k\<close> ranks set.
\<close>

definition sender :: "a2a_worker \<Rightarrow> num_routed \<Rightarrow> nat \<Rightarrow> nat \<Rightarrow> nat \<Rightarrow> route_counts \<Rightarrow> route_counts" where
  "sender w buf r k x rc = (let B = before w buf (aw_dp_group w) in
     rc\<lparr>rc_source_expert_offset := vec (aw_num_experts w) (\<lambda>e. if e < x then of_nat (B e) else 0),
       rc_tokens_to_rank := vec (aw_world_size w) (\<lambda>i. if i < r then of_nat (to_rank w buf (aw_dp_group w) i)
         else if i = r then of_nat (B x - B (first_expert w r)) else 0),
       rc_dispatch_src_offset := vec (aw_world_size w) (\<lambda>i. if i < k then of_nat (B (first_expert w i)) else 0),
       rc_rank_offset := of_nat (B x)\<rparr>)"

lemma before_mono: "x \<le> y \<Longrightarrow> before w buf g x \<le> before w buf g y"
  unfolding before_def by (rule sum_mono2) auto

lemma sender_expert:
  assumes wf: "a2a_wf w buf" and r: "r < aw_world_size w" and x: "first_expert w r \<le> x" "x < first_expert w (Suc r)"
  shows "count_expert w buf r x (sender w buf r k x rc) = Some (sender w buf r k (Suc x) rc)"
proof -
  let ?B = "before w buf (aw_dp_group w)"
  have E: "x < aw_num_experts w" using x(2) first_expert_le less_le_trans by blast
  obtain n where n: "get_num_routed w buf (aw_dp_group w) x = Some n" "n = of_nat (R w buf (aw_dp_group w) x)"
    using get_num_routed_R [OF wf a2a_wfD(9) [OF wf] E] word_R by blast
  have le: "?B (first_expert w r) \<le> ?B x" by (rule before_mono [OF x(1)])
  then have eq: "?B x + R w buf (aw_dp_group w) x - ?B (first_expert w r) = ?B x - ?B (first_expert w r) + R w buf (aw_dp_group w) x" by simp
  let ?rc = "sender w buf r k x rc"
  have old: "index (rc_tokens_to_rank ?rc) r = Some (of_nat (?B x - ?B (first_expert w r)))" using r by (simp add: sender_def Let_def)
  have "?rc\<lparr>rc_source_expert_offset := (rc_source_expert_offset ?rc)[x := rc_rank_offset ?rc],
      rc_tokens_to_rank := (rc_tokens_to_rank ?rc)[r := of_nat (?B x - ?B (first_expert w r)) + n],
      rc_rank_offset := rc_rank_offset ?rc + n\<rparr> = sender w buf r k (Suc x) rc"
    by (rule route_counts.equality) (auto simp: sender_def Let_def n(2) eq intro!: vec_cong)
  then show ?thesis unfolding count_expert_def n(1) old by simp
qed

lemma expert_range:
  "[r * experts_per_rank w..<min (r * experts_per_rank w + experts_per_rank w) (aw_num_experts w)] = [first_expert w r..<first_expert w (Suc r)]"
  "[r * experts_per_rank w..<min ((r + 1) * experts_per_rank w) (aw_num_experts w)] = [first_expert w r..<first_expert w (Suc r)]"
  by (cases "r * experts_per_rank w \<le> aw_num_experts w"; simp add: first_expert_def add.commute)+

lemma sender_rank:
  assumes wf: "a2a_wf w buf" and r: "r < aw_world_size w"
  shows "count_rank w buf r (sender w buf r r (first_expert w r) rc) = Some (sender w buf (Suc r) (Suc r) (first_expert w (Suc r)) rc)"
proof -
  let ?B = "before w buf (aw_dp_group w)" and ?f = "first_expert w"
  let ?start = "sender w buf r r (?f r) rc"
  have start: "?start\<lparr>rc_dispatch_src_offset := (rc_dispatch_src_offset ?start)[r := rc_rank_offset ?start]\<rparr> = sender w buf r (Suc r) (?f r) rc"
    by (rule route_counts.equality) (auto simp: sender_def Let_def less_Suc_eq intro!: vec_cong)
  have "foldM (count_expert w buf r) [?f r..<?f (Suc r)] (sender w buf r (Suc r) (?f r) rc) = Some (sender w buf r (Suc r) (?f (Suc r)) rc)"
    by (rule foldM_upt [where S = "\<lambda>x. sender w buf r (Suc r) x rc"]) (simp_all add: sender_expert [OF wf r] first_expert_mono)
  moreover have "sender w buf r (Suc r) (?f (Suc r)) rc = sender w buf (Suc r) (Suc r) (?f (Suc r)) rc"
    by (rule route_counts.equality) (auto simp: sender_def Let_def less_Suc_eq before_rank intro!: vec_cong)
  ultimately show ?thesis unfolding count_rank_def Let_def expert_range start by simp
qed

text \<open>The receiving side after \<open>g\<close> groups.\<close>

definition receiver :: "a2a_worker \<Rightarrow> num_routed \<Rightarrow> nat \<Rightarrow> route_counts \<Rightarrow> route_counts" where
  "receiver w buf g rc =
     rc\<lparr>rc_tokens_from_group := vec (num_dp_groups w) (\<lambda>i. if i < g then of_nat (to_rank w buf i (aw_rank w)) else 0),
       rc_src_group_offset := vec (num_dp_groups w) (\<lambda>i. if i < g then of_nat (from_groups w buf i (aw_rank w)) else 0),
       rc_dst_group_offset := vec (num_dp_groups w) (\<lambda>i. if i < g then of_nat (before w buf i (first_local_expert w)) else 0),
       rc_tokens_per_expert := vec (experts_per_rank w) (\<lambda>l. if first_local_expert w + l < last_local_expert w
         then of_nat (\<Sum>i<g. R w buf i (first_local_expert w + l)) else 0),
       rc_num_recv_tokens := from_groups w buf g (aw_rank w),
       rc_num_recv_tx := (\<Sum>i<g. group_recv_tx w i (to_rank w buf i (aw_rank w)))\<rparr>"

lemma group_offset_eq:
  assumes wf: "a2a_wf w buf" and g: "g < num_dp_groups w"
  shows "group_offset w buf g = Some (of_nat (before w buf g (first_local_expert w)))"
proof -
  have "first_local_expert w \<le> aw_num_experts w" using wf by (simp add: a2a_wf_def)
  then have "foldM (\<lambda>expert offset. do { n \<leftarrow> get_num_routed w buf g expert; Some (offset + n) }) [0..<first_local_expert w]
      (of_nat (before w buf g 0)) = Some (of_nat (before w buf g (first_local_expert w)) :: u32)"
  proof (intro foldM_upt [where S = "\<lambda>e. of_nat (before w buf g e)"])
    fix e assume "e < first_local_expert w"
    then have "e < aw_num_experts w" using \<open>first_local_expert w \<le> _\<close> by simp
    from get_num_routed_R [OF wf g this] word_R
    show "do { n \<leftarrow> get_num_routed w buf g e; Some (of_nat (before w buf g e) + n) } = Some (of_nat (before w buf g (Suc e)) :: u32)"
      by auto
  qed simp
  then show ?thesis by (simp add: group_offset_def before_def)
qed

lemma count_local_eq:
  assumes wf: "a2a_wf w buf" and g: "g < num_dp_groups w"
  shows "count_local w buf g (vec (experts_per_rank w) f) = Some (to_rank w buf g (aw_rank w),
    vec (experts_per_rank w) (\<lambda>l. if first_local_expert w + l < last_local_expert w then f l + of_nat (R w buf g (first_local_expert w + l)) else f l))"
proof -
  let ?f = "first_local_expert w" and ?l = "last_local_expert w" and ?n = "experts_per_rank w"
  define S where "S = (\<lambda>e. (\<Sum>x = ?f..<e. R w buf g x, vec ?n (\<lambda>l. if ?f + l < e then f l + of_nat (R w buf g (?f + l)) else f l)))"
  have fl: "?f \<le> ?l" using wf by (simp add: a2a_wf_def)
  have "foldM (\<lambda>expert (num_tokens, tokens_per_expert). do {
         n \<leftarrow> get_num_routed w buf g expert;
         tokens_per_expert \<leftarrow> update_at (expert - ?f) (\<lambda>x. Some (x + n)) tokens_per_expert;
         Some (num_tokens + unat n, tokens_per_expert) }) [?f..<?l] (S ?f) = Some (S ?l)"
  proof (rule foldM_upt [OF _ fl])
    fix e assume e: "?f \<le> e" "e < ?l"
    then have E: "e < aw_num_experts w" "e - ?f < ?n" by (simp_all add: less_diff_conv2)
    obtain n where n: "get_num_routed w buf g e = Some n" "unat n = R w buf g e" using get_num_routed_R [OF wf g E(1)] by blast
    have v: "vec ?n ((\<lambda>l. if ?f + l < e then f l + of_nat (R w buf g (?f + l)) else f l)(e - ?f := f (e - ?f) + n)) =
        vec ?n (\<lambda>l. if ?f + l < Suc e then f l + of_nat (R w buf g (?f + l)) else f l)"
      using e(1) word_R [OF n(2)] by (intro vec_cong) auto
    have "(\<Sum>x = ?f..<Suc e. R w buf g x) = (\<Sum>x = ?f..<e. R w buf g x) + unat n" using e(1) n(2) by simp
    then show "(case S e of (num_tokens, tokens_per_expert) \<Rightarrow> do {
         n \<leftarrow> get_num_routed w buf g e;
         tokens_per_expert \<leftarrow> update_at (e - ?f) (\<lambda>x. Some (x + n)) tokens_per_expert;
         Some (num_tokens + unat n, tokens_per_expert) }) = Some (S (Suc e))"
      using e(1) E(2) n(1) v by (simp add: S_def)
  qed
  moreover have "S ?f = (0, vec ?n f)" by (simp add: S_def)
  ultimately show ?thesis using a2a_wfD(11,12) [OF wf] by (simp add: count_local_def S_def to_rank_def)
qed

definition rc_at :: "a2a_worker \<Rightarrow> num_routed \<Rightarrow> nat \<Rightarrow> route_counts" where
  "rc_at w buf g = receiver w buf g
     (sender w buf (g * aw_dp_size w) (g * aw_dp_size w) (first_expert w (g * aw_dp_size w)) (rc_init w))"

lemma count_group_eq:
  assumes wf: "a2a_wf w buf" and g: "g < num_dp_groups w"
  shows "count_group w buf g (rc_at w buf g) = Some (rc_at w buf (Suc g))"
proof -
  let ?dp = "aw_dp_size w" and ?me = "aw_rank w" and ?G = "num_dp_groups w"
  define S where "S = (\<lambda>i. receiver w buf g (sender w buf (g * ?dp + i) (g * ?dp + i) (first_expert w (g * ?dp + i)) (rc_init w)))"
  have comm: "receiver w buf g (sender w buf r k x rc) = sender w buf r k x (receiver w buf g rc)" for r k x rc
    by (simp add: receiver_def sender_def Let_def)
  have W: "g * ?dp + i < aw_world_size w" if "i < ?dp" for i
    using mult_le_mono1 [of "Suc g" ?G ?dp] g that a2a_wfD(6) [OF wf] by simp
  have ranks: "foldM (\<lambda>i. count_rank w buf (g * ?dp + i)) [0..<?dp] (S 0) = Some (S ?dp)"
    by (rule foldM_upt) (simp_all add: S_def comm sender_rank [OF wf W])
  have old: "rc_tokens_per_expert (S ?dp) = vec (experts_per_rank w) (\<lambda>l. if first_local_expert w + l < last_local_expert w
      then of_nat (\<Sum>i<g. R w buf i (first_local_expert w + l)) else 0)"
    "rc_tokens_from_group (S ?dp) = vec ?G (\<lambda>i. if i < g then of_nat (to_rank w buf i ?me) else 0)"
    "rc_src_group_offset (S ?dp) = vec ?G (\<lambda>i. if i < g then of_nat (from_groups w buf i ?me) else 0)"
    "rc_dst_group_offset (S ?dp) = vec ?G (\<lambda>i. if i < g then of_nat (before w buf i (first_local_expert w)) else 0)"
    "rc_num_recv_tokens (S ?dp) = from_groups w buf g ?me" "rc_num_recv_tx (S ?dp) = (\<Sum>i<g. group_recv_tx w i (to_rank w buf i ?me))"
    by (simp_all add: S_def receiver_def)
  have dp: "S ?dp = receiver w buf g (sender w buf (Suc g * ?dp) (Suc g * ?dp) (first_expert w (Suc g * ?dp)) (rc_init w))"
    by (simp add: S_def add.commute)
  have "rc_at w buf g = S 0" by (simp add: rc_at_def S_def)
  moreover have "count_group w buf g (S 0) = Some (rc_at w buf (Suc g))"
    unfolding count_group_def ranks Option.bind_lunit group_offset_eq [OF wf g] old(1) count_local_eq [OF wf g] old(2)
    using g by (simp add: old) (rule route_counts.equality; auto simp: rc_at_def dp receiver_def less_Suc_eq intro!: vec_cong)
  ultimately show ?thesis by simp
qed

lemma rc_at_0: "rc_at w buf 0 = rc_init w"
  by (rule route_counts.equality)
    (auto simp: rc_at_def receiver_def sender_def Let_def rc_init_def replicate_vec first_expert_def before_def from_groups_def intro!: vec_cong)

lemma count_groups_eq: "a2a_wf w buf \<Longrightarrow> count_groups w buf = Some (rc_at w buf (num_dp_groups w))"
  using foldM_upt [of 0 "num_dp_groups w" "count_group w buf" "rc_at w buf"] count_group_eq
  by (simp add: count_groups_def rc_at_0)

text \<open>The vectors after the loop.\<close>

lemma rc_final:
  assumes wf: "a2a_wf w buf"
  defines "rc \<equiv> rc_at w buf (num_dp_groups w)"
  shows "rc_tokens_from_group rc = vec (num_dp_groups w) (\<lambda>g. of_nat (to_rank w buf g (aw_rank w)))"
    "rc_src_group_offset rc = vec (num_dp_groups w) (\<lambda>g. of_nat (from_groups w buf g (aw_rank w)))"
    "rc_dst_group_offset rc = vec (num_dp_groups w) (\<lambda>g. of_nat (before w buf g (first_local_expert w)))"
    "rc_num_recv_tokens rc = from_groups w buf (num_dp_groups w) (aw_rank w)"
    "rc_num_recv_tx rc = (\<Sum>g<num_dp_groups w. group_recv_tx w g (to_rank w buf g (aw_rank w)))"
    "rc_source_expert_offset rc = vec (aw_num_experts w) (\<lambda>e. of_nat (before w buf (aw_dp_group w) e))"
    "rc_tokens_to_rank rc = vec (aw_world_size w) (\<lambda>r. of_nat (to_rank w buf (aw_dp_group w) r))"
    "rc_dispatch_src_offset rc = vec (aw_world_size w) (\<lambda>r. of_nat (before w buf (aw_dp_group w) (first_expert w r)))"
proof -
  have W: "num_dp_groups w * aw_dp_size w = aw_world_size w" by (rule a2a_wfD(6) [OF wf])
  have "aw_num_experts w \<le> aw_world_size w * experts_per_rank w"
    using div_ceil_ge [of "aw_world_size w" "aw_num_experts w"] a2a_wfD(3) [OF wf] by simp
  then have "first_expert w (aw_world_size w) = aw_num_experts w" by (simp add: first_expert_def)
  then show "rc_source_expert_offset rc = vec (aw_num_experts w) (\<lambda>e. of_nat (before w buf (aw_dp_group w) e))"
    by (auto simp: rc_def rc_at_def receiver_def sender_def Let_def W intro!: vec_cong)
qed (auto simp: rc_def rc_at_def receiver_def sender_def Let_def a2a_wfD(6) [OF wf] intro!: vec_cong)

section \<open>The order of the groups\<close>

lemma cycle:
  assumes "x < n" "y < n" "x \<noteq> y"
  shows "\<exists>i. 1 \<le> i \<and> i < n \<and> (y + i) mod n = (x :: nat)"
proof (cases "y < x")
  case True
  then show ?thesis using assms by (intro exI [of _ "x - y"]) auto
next
  case False
  then have "y + (x + n - y) = x + n" using assms by simp
  then show ?thesis using assms False by (intro exI [of _ "x + n - y"]) auto
qed

definition group_order :: "a2a_worker \<Rightarrow> nat list" where
  "group_order w = remote_groups w @ local_groups w @ [aw_dp_group w]"

lemma dp_group_node:
  assumes "a2a_wf w buf"
  shows "aw_dp_group w div groups_per_node w = rank_node w"
proof -
  have "aw_dp_group w = aw_rank w div aw_dp_size w" using assms by (simp add: a2a_wf_def)
  then have "aw_dp_group w div groups_per_node w = aw_rank w div (aw_dp_size w * groups_per_node w)" by (simp only: div_mult2_eq)
  also have "aw_dp_size w * groups_per_node w = aw_node_size w" using a2a_wfD(7) [OF assms] by (simp only: mult.commute)
  finally show ?thesis .
qed

lemma group_order_all:
  assumes wf: "a2a_wf w buf"
  shows "set (group_order w) = {..<num_dp_groups w}" "distinct (group_order w)"
proof -
  let ?n = "groups_per_node w" and ?N = "aw_world_size w div aw_node_size w" and ?G = "num_dp_groups w"
  have G: "?N * ?n = ?G" and pos: "0 < ?n" "0 < ?N" "?G > 0" using a2a_wfD [OF wf] by (auto intro: gr0I)
  have rn: "rank_node w < ?N" using wf a2a_wfD(2) [OF wf] by (metis a2a_wf_def dvd_div_mult_self less_mult_imp_div_less)
  have "length (remote_groups w) = (?N - 1) * ?n" "length (local_groups w) = ?n - 1"
    by (simp_all add: remote_groups_def local_groups_def Let_def length_concat comp_def sum_list_triv)
  then have "length (group_order w) = (?N - 1) * ?n + (?n - 1) + 1" by (simp add: group_order_def)
  also have "\<dots> = ?N * ?n" using pos(1,2) by (cases ?N; cases ?n) simp_all
  finally have len: "length (group_order w) = ?G" unfolding G .
  have sub: "{..<?G} \<subseteq> set (group_order w)"
  proof
    fix g assume "g \<in> {..<?G}"
    then have "g < ?N * ?n" unfolding G by simp
    then have node: "g div ?n < ?N" by (rule less_mult_imp_div_less)
    have div: "g = g div ?n * ?n + g mod ?n" by (rule div_mult_mod_eq [symmetric])
    consider "g = aw_dp_group w" | "g \<noteq> aw_dp_group w" "g div ?n = rank_node w" | "g div ?n \<noteq> rank_node w" by blast
    then show "g \<in> set (group_order w)"
    proof cases
      case 2
      have "aw_dp_group w = rank_node w * ?n + aw_dp_group w mod ?n" using dp_group_node [OF wf] by (metis div_mult_mod_eq)
      then have "g mod ?n \<noteq> aw_dp_group w mod ?n" using 2 div by metis
      from cycle [OF mod_less_divisor [OF pos(1)] mod_less_divisor [OF pos(1)] this]
      obtain i where "1 \<le> i" "i < ?n" "(aw_dp_group w mod ?n + i) mod ?n = g mod ?n" by blast
      then have "g = rank_node w * ?n + (aw_dp_group w + i) mod ?n" "i \<in> {1..<?n}"
        using div 2(2) mod_add_left_eq [of "aw_dp_group w" ?n i] by (metis, simp)
      then show ?thesis by (auto simp: group_order_def local_groups_def)
    next
      case 3
      from cycle [OF node rn this] obtain i where i: "1 \<le> i" "i < ?N" "(rank_node w + i) mod ?N = g div ?n" by blast
      then have "g = (rank_node w + i) mod ?N * ?n + g mod ?n" using div by metis
      then have "g \<in> (\<lambda>j. (rank_node w + i) mod ?N * ?n + j) ` {0..<?n}" using pos(1) by (intro image_eqI [of _ _ "g mod ?n"]) simp_all
      then have "g \<in> set (remote_groups w)" unfolding remote_groups_def Let_def set_concat set_map set_upt image_image
        using i(1,2) by (intro UN_I [of i]) simp_all
      then show ?thesis by (simp add: group_order_def)
    qed (simp add: group_order_def)
  qed
  have "card {..<?G} = ?G" by simp
  then have "?G \<le> card (set (group_order w))" using card_mono [OF _ sub] by simp
  then have "card (set (group_order w)) = ?G" using card_length [of "group_order w"] len by simp
  then show "set (group_order w) = {..<?G}" "distinct (group_order w)"
    using card_subset_eq [OF _ sub] len by (simp_all add: card_distinct)
qed

section \<open>The loop over the tokens\<close>

text \<open>
  The received tokens, each by its group and expert. The entries of a token depend on how many tokens of its group
  (\<open>kth\<close>), of its group and expert (\<open>jth\<close>) and of its expert came before it.
\<close>

type_synonym token = "nat \<times> nat"

definition kth :: "token list \<Rightarrow> nat \<Rightarrow> nat" where
  "kth ts g = length (filter (\<lambda>t. fst t = g) ts)"

definition jth :: "token list \<Rightarrow> token \<Rightarrow> nat" where
  "jth ts t = length (filter (\<lambda>u. u = t) ts)"

definition nth_of :: "token list \<Rightarrow> nat \<Rightarrow> nat" where
  "nth_of ts e = length (filter (\<lambda>t. snd t = e) ts)"

definition peer_of :: "a2a_worker \<Rightarrow> nat \<Rightarrow> nat" where
  "peer_of w g = g * aw_dp_size w + aw_dp_rank w"

definition dispatch_entry :: "a2a_worker \<Rightarrow> num_routed \<Rightarrow> token list \<Rightarrow> token \<Rightarrow> u32" where
  "dispatch_entry w buf ts t =
     (let g = fst t; k = kth ts g in
      if peer_of w g = aw_rank w then of_nat (before w buf (aw_dp_group w) (snd t) + jth ts t)
      else if unat (of_nat k :: u32) < aw_max_private_tokens w then of_nat (aw_max_private_tokens w * g + k)
      else if peer_of w g div aw_node_size w = rank_node w then or (of_nat (before w buf g (first_local_expert w) + k)) (push_bit 31 1)
      else of_nat (from_groups w buf g (aw_rank w) + k) + (of_nat (base_offset w) - of_nat (aw_max_private_tokens w)))"

definition combine_entry :: "a2a_worker \<Rightarrow> num_routed \<Rightarrow> token list \<Rightarrow> token \<Rightarrow> u32" where
  "combine_entry w buf ts t =
     (let g = fst t; k = kth ts g in
      if peer_of w g \<noteq> aw_rank w \<or> aw_dp_size w > 1
      then (if peer_of w g div aw_node_size w = rank_node w then of_nat (before w buf g (first_local_expert w) + k)
            else of_nat (from_groups w buf g (aw_rank w) + k))
      else of_nat (before w buf (aw_dp_group w) (snd t) + jth ts t))"

definition padded_entry :: "a2a_worker \<Rightarrow> u32 list \<Rightarrow> token list \<Rightarrow> token \<Rightarrow> u32" where
  "padded_entry w po ts t = po ! (snd t - first_local_expert w) + of_nat (nth_of ts (snd t))"

definition table :: "nat \<Rightarrow> token list \<Rightarrow> (token list \<Rightarrow> token \<Rightarrow> u32) \<Rightarrow> u32 list" where
  "table n ts entry = vec n (\<lambda>i. if i < length ts then entry (take i ts) (ts ! i) else 0)"

lemma table_snoc:
  assumes "length ts < n"
  shows "set_at (length ts) (entry ts t) (table n ts entry) = Some (table n (ts @ [t]) entry)"
  using assms by (auto simp: set_at_def table_def nth_append less_Suc_eq intro!: vec_cong)

definition rs_at :: "a2a_worker \<Rightarrow> num_routed \<Rightarrow> u32 list \<Rightarrow> nat \<Rightarrow> token list \<Rightarrow> route_state" where
  "rs_at w buf po n ts =
     \<lparr>rs_last = length ts,
      rs_src_dispatch_count = vec (num_dp_groups w) (\<lambda>g. if peer_of w g = aw_rank w then 0 else of_nat (kth ts g)),
      rs_src_combine_count = vec (num_dp_groups w) (\<lambda>g. if peer_of w g \<noteq> aw_rank w \<or> aw_dp_size w > 1 then of_nat (kth ts g) else 0),
      rs_expert_count = vec (last_local_expert w - first_local_expert w) (\<lambda>l. nth_of ts (first_local_expert w + l)),
      rs_source_expert_offset = vec (aw_num_experts w) (\<lambda>e. of_nat (before w buf (aw_dp_group w) e + jth ts (aw_dp_group w, e))),
      rs_source_dispatch_offset = table n ts (dispatch_entry w buf),
      rs_combine_send_offset = table n ts (combine_entry w buf),
      rs_source_rank = table n ts (\<lambda>_ t. of_nat (peer_of w (fst t))),
      rs_padded_index = table n ts (padded_entry w po)\<rparr>"

lemma set_at_eq: "set_at i x xs = (if i < length xs then Some (xs[i := x]) else None)"
  by (simp add: set_at_def update_at_def index_def)

lemma table_length [simp]: "length (table n ts f) = n"
  by (simp add: table_def)

lemma table_update: "length ts < n \<Longrightarrow> (table n ts f)[length ts := f ts t] = table n (ts @ [t]) f"
  using table_snoc [of ts n f t] by (simp add: set_at_eq)

lemma counts_snoc [simp]:
  "kth (ts @ [t]) g = (if fst t = g then Suc (kth ts g) else kth ts g)"
  "jth (ts @ [t]) u = (if t = u then Suc (jth ts u) else jth ts u)"
  "nth_of (ts @ [t]) e = (if snd t = e then Suc (nth_of ts e) else nth_of ts e)"
  by (auto simp: kth_def jth_def nth_of_def)

lemma peer_own:
  assumes "a2a_wf w buf"
  shows "peer_of w g = aw_rank w \<longleftrightarrow> g = aw_dp_group w"
  unfolding peer_of_def by (subst a2a_wfD(10) [OF assms]) (use a2a_wfD(1) [OF assms] in simp)

definition token_ok :: "a2a_worker \<Rightarrow> token \<Rightarrow> bool" where
  "token_ok w t \<longleftrightarrow> fst t < num_dp_groups w \<and> first_local_expert w \<le> snd t \<and> snd t < last_local_expert w"

lemma route_dispatch_eq:
  assumes wf: "a2a_wf w buf" and t: "token_ok w (g, e)" and n: "length ts < n" and rs_def: "rs = rs_at w buf po n ts"
  shows "route_dispatch w (of_nat (from_groups w buf g (aw_rank w))) (of_nat (before w buf g (first_local_expert w))) g e rs =
    Some (rs\<lparr>rs_source_expert_offset := rs_source_expert_offset (rs_at w buf po n (ts @ [(g, e)])),
             rs_src_dispatch_count := rs_src_dispatch_count (rs_at w buf po n (ts @ [(g, e)])),
             rs_source_dispatch_offset := table n (ts @ [(g, e)]) (dispatch_entry w buf),
             rs_combine_send_offset := (if g = aw_dp_group w
               then (table n ts (combine_entry w buf))[length ts := of_nat (before w buf (aw_dp_group w) e + jth ts (g, e))]
               else table n ts (combine_entry w buf))\<rparr>)"
proof (cases "g = aw_dp_group w")
  case True
  have e: "e < aw_num_experts w" using t by (simp add: token_ok_def)
  have own: "g * aw_dp_size w + aw_dp_rank w = aw_rank w" using peer_own [OF wf, of g] True by (simp add: peer_of_def)
  have d: "of_nat (before w buf (aw_dp_group w) e + jth ts (g, e)) = dispatch_entry w buf ts (g, e)"
    using peer_own [OF wf, of g] True by (simp add: dispatch_entry_def Let_def)
  have "(table n ts (dispatch_entry w buf))[length ts := of_nat (before w buf (aw_dp_group w) e + jth ts (g, e))] =
      table n (ts @ [(g, e)]) (dispatch_entry w buf)" unfolding d by (rule table_update [OF n])
  then show ?thesis
    unfolding route_dispatch_def Let_def own using e n True
    by (simp add: rs_def rs_at_def set_at_eq) (auto simp: peer_own [OF wf] intro!: vec_cong)
next
  case False
  have g: "g < num_dp_groups w" using t by (simp add: token_ok_def)
  have other: "g * aw_dp_size w + aw_dp_rank w \<noteq> aw_rank w" "peer_of w g \<noteq> aw_rank w" using peer_own [OF wf, of g] False by (simp_all add: peer_of_def)
  let ?k = "of_nat (kth ts g) :: u32"
  have d: "(if unat ?k < aw_max_private_tokens w then of_nat (aw_max_private_tokens w * g) + ?k
      else if (g * aw_dp_size w + aw_dp_rank w) div aw_node_size w = rank_node w
        then or (of_nat (before w buf g (first_local_expert w)) + ?k) (push_bit 31 1)
      else of_nat (from_groups w buf g (aw_rank w)) + ?k + (of_nat (base_offset w) - of_nat (aw_max_private_tokens w))) =
      dispatch_entry w buf ts (g, e)"
    using other by (simp add: dispatch_entry_def Let_def peer_of_def)
  have cnt: "index (rs_src_dispatch_count rs) g = Some ?k" using g other(2) by (simp add: rs_def rs_at_def)
  show ?thesis
    unfolding route_dispatch_def Let_def if_not_P [OF other(1)] cnt Option.bind_lunit d
    using n False other(2) table_update [OF n, of "dispatch_entry w buf" "(g, e)"]
    by (simp add: rs_def rs_at_def set_at_eq) (auto intro!: vec_cong)
qed

lemma route_combine_eq:
  assumes wf: "a2a_wf w buf" and t: "token_ok w (g, e)" and n: "length ts < n"
    and c: "rs_src_combine_count rs = rs_src_combine_count (rs_at w buf po n ts)" "rs_last rs = length ts"
      "rs_combine_send_offset rs = (if g = aw_dp_group w
         then (table n ts (combine_entry w buf))[length ts := of_nat (before w buf (aw_dp_group w) e + jth ts (g, e))]
         else table n ts (combine_entry w buf))"
  shows "route_combine w (of_nat (from_groups w buf g (aw_rank w))) (of_nat (before w buf g (first_local_expert w))) g rs =
    Some (rs\<lparr>rs_src_combine_count := rs_src_combine_count (rs_at w buf po n (ts @ [(g, e)])),
             rs_combine_send_offset := table n (ts @ [(g, e)]) (combine_entry w buf)\<rparr>)"
proof (cases "peer_of w g \<noteq> aw_rank w \<or> aw_dp_size w > 1")
  case True
  have g: "g < num_dp_groups w" using t by (simp add: token_ok_def)
  let ?k = "of_nat (kth ts g) :: u32"
  have d: "(if (g * aw_dp_size w + aw_dp_rank w) div aw_node_size w = rank_node w then of_nat (before w buf g (first_local_expert w)) + ?k
      else of_nat (from_groups w buf g (aw_rank w)) + ?k) = combine_entry w buf ts (g, e)"
    using True by (simp add: combine_entry_def Let_def peer_of_def)
  have cnt: "index (rs_src_combine_count rs) g = Some ?k" using g True c(1) by (simp add: rs_at_def)
  have tab: "set_at (length ts) (combine_entry w buf ts (g, e)) (rs_combine_send_offset rs) = Some (table n (ts @ [(g, e)]) (combine_entry w buf))"
    using n table_update [OF n, of "combine_entry w buf" "(g, e)"] by (cases "g = aw_dp_group w") (simp_all add: c(3) set_at_eq)
  show ?thesis
    unfolding route_combine_def Let_def c(2) if_P [OF True [unfolded peer_of_def]] cnt Option.bind_lunit d tab
    using c(1) True by simp (rule route_state.equality; auto simp: rs_at_def intro!: vec_cong)
next
  case False
  then have own: "g = aw_dp_group w" using peer_own [OF wf] by simp
  have "of_nat (before w buf (aw_dp_group w) e + jth ts (g, e)) = combine_entry w buf ts (g, e)"
    using False by (simp add: combine_entry_def Let_def)
  then have "rs_combine_send_offset rs = table n (ts @ [(g, e)]) (combine_entry w buf)"
    using table_update [OF n, of "combine_entry w buf" "(g, e)"] own by (simp add: c(3))
  moreover have "rs_src_combine_count rs = rs_src_combine_count (rs_at w buf po n (ts @ [(g, e)]))"
    using False by (auto simp: c(1) rs_at_def intro!: vec_cong)
  ultimately show ?thesis using False by (simp add: route_combine_def Let_def peer_of_def)
qed

lemma route_token_eq:
  assumes wf: "a2a_wf w buf" and t: "token_ok w (g, e)" and n: "length ts < n" and po: "length po = experts_per_rank w"
  shows "route_token w po (of_nat (from_groups w buf g (aw_rank w))) (of_nat (before w buf g (first_local_expert w))) g e (rs_at w buf po n ts) =
    Some (rs_at w buf po n (ts @ [(g, e)]))"
proof -
  let ?l = "e - first_local_expert w"
  have l: "?l < last_local_expert w - first_local_expert w" "?l < experts_per_rank w"
    using t by (simp_all add: token_ok_def less_diff_conv2)
  have fl: "first_local_expert w + ?l = e" using t by (simp add: token_ok_def)
  have pad: "po ! ?l + of_nat (nth_of ts e) = padded_entry w po ts (g, e)" by (simp add: padded_entry_def)
  have cnt: "vec (last_local_expert w - first_local_expert w) ((\<lambda>l. nth_of ts (first_local_expert w + l))(?l := Suc (nth_of ts e))) =
      vec (last_local_expert w - first_local_expert w) (\<lambda>l. nth_of (ts @ [(g, e)]) (first_local_expert w + l))"
    using fl by (intro vec_cong) auto
  let ?rs = "rs_at w buf po n (ts @ [(g, e)])"
  define rs1 where "rs1 = (rs_at w buf po n ts)\<lparr>rs_source_expert_offset := rs_source_expert_offset ?rs,
      rs_src_dispatch_count := rs_src_dispatch_count ?rs, rs_source_dispatch_offset := table n (ts @ [(g, e)]) (dispatch_entry w buf),
      rs_combine_send_offset := (if g = aw_dp_group w
        then (table n ts (combine_entry w buf))[length ts := of_nat (before w buf (aw_dp_group w) e + jth ts (g, e))]
        else table n ts (combine_entry w buf))\<rparr>"
  have 1: "route_dispatch w (of_nat (from_groups w buf g (aw_rank w))) (of_nat (before w buf g (first_local_expert w))) g e (rs_at w buf po n ts) = Some rs1"
    unfolding rs1_def by (rule route_dispatch_eq [OF wf t n refl])
  have 2: "route_combine w (of_nat (from_groups w buf g (aw_rank w))) (of_nat (before w buf g (first_local_expert w))) g rs1 =
      Some (rs1\<lparr>rs_src_combine_count := rs_src_combine_count ?rs, rs_combine_send_offset := table n (ts @ [(g, e)]) (combine_entry w buf)\<rparr>)"
    by (rule route_combine_eq [OF wf t n]) (simp_all add: rs1_def rs_at_def)
  show ?thesis
    unfolding route_token_def 1 2 Option.bind_lunit
    using n l fl po pad cnt table_update [OF n, of "\<lambda>_ t. of_nat (peer_of w (fst t))" "(g, e)"] table_update [OF n, of "padded_entry w po" "(g, e)"]
    by (simp add: rs1_def rs_at_def set_at_eq peer_of_def)
qed

definition tokens_of :: "a2a_worker \<Rightarrow> num_routed \<Rightarrow> nat \<Rightarrow> token list" where
  "tokens_of w buf g = concat (map (\<lambda>e. replicate (R w buf g e) (g, e)) [first_local_expert w..<last_local_expert w])"

definition all_tokens :: "a2a_worker \<Rightarrow> num_routed \<Rightarrow> token list" where
  "all_tokens w buf = concat (map (tokens_of w buf) (group_order w))"

lemma tokens_of_length:
  assumes "a2a_wf w buf"
  shows "length (tokens_of w buf g) = to_rank w buf g (aw_rank w)"
  unfolding tokens_of_def to_rank_def a2a_wfD(11,12) [OF assms]
  by (simp add: length_concat comp_def interv_sum_list_conv_sum_set_nat)

lemma tokens_ok: "g < num_dp_groups w \<Longrightarrow> t \<in> set (tokens_of w buf g) \<Longrightarrow> token_ok w t \<and> fst t = g"
  by (auto simp: tokens_of_def token_ok_def)

lemma all_tokens_length:
  assumes wf: "a2a_wf w buf"
  shows "length (all_tokens w buf) = from_groups w buf (num_dp_groups w) (aw_rank w)"
proof -
  have "length (all_tokens w buf) = sum_list (map (\<lambda>g. to_rank w buf g (aw_rank w)) (group_order w))"
    by (simp add: all_tokens_def length_concat comp_def tokens_of_length [OF wf])
  also have "\<dots> = (\<Sum>g \<in> set (group_order w). to_rank w buf g (aw_rank w))" by (rule sum_list_distinct_conv_sum_set [OF group_order_all(2) [OF wf]])
  finally show ?thesis by (simp add: group_order_all(1) [OF wf] from_groups_def)
qed

lemma route_repeat:
  assumes wf: "a2a_wf w buf" and t: "token_ok w (g, e)" and po: "length po = experts_per_rank w" and n: "length ts + k \<le> n"
  shows "foldM (\<lambda>_. route_token w po (of_nat (from_groups w buf g (aw_rank w))) (of_nat (before w buf g (first_local_expert w))) g e) [0..<k]
    (rs_at w buf po n ts) = Some (rs_at w buf po n (ts @ replicate k (g, e)))"
proof -
  have "foldM (\<lambda>_. route_token w po (of_nat (from_groups w buf g (aw_rank w))) (of_nat (before w buf g (first_local_expert w))) g e) [0..<k]
    (rs_at w buf po n (ts @ replicate 0 (g, e))) = Some (rs_at w buf po n (ts @ replicate k (g, e)))"
  proof (rule foldM_upt [where S = "\<lambda>i. rs_at w buf po n (ts @ replicate i (g, e))"])
    fix i assume "i < k"
    then have "length (ts @ replicate i (g, e)) < n" using n by simp
    from route_token_eq [OF wf t this po] show "route_token w po (of_nat (from_groups w buf g (aw_rank w)))
        (of_nat (before w buf g (first_local_expert w))) g e (rs_at w buf po n (ts @ replicate i (g, e))) =
        Some (rs_at w buf po n (ts @ replicate (Suc i) (g, e)))"
      by (simp flip: replicate_append_same)
  qed simp
  then show ?thesis by simp
qed

lemma route_group_eq:
  assumes wf: "a2a_wf w buf" and g: "g < num_dp_groups w" and po: "length po = experts_per_rank w"
    and n: "length ts + to_rank w buf g (aw_rank w) \<le> n" and rc: "rc = rc_at w buf (num_dp_groups w)"
  shows "route_group w buf rc po g (tot, rs_at w buf po n ts) =
    Some (tot + to_rank w buf g (aw_rank w), rs_at w buf po n (ts @ tokens_of w buf g))"
proof -
  let ?f = "first_local_expert w" and ?l = "last_local_expert w"
  define T where "T = (\<lambda>e. concat (map (\<lambda>e. replicate (R w buf g e) (g, e)) [?f..<e]))"
  define S where "S = (\<lambda>e. (tot + (\<Sum>x = ?f..<e. R w buf g x), rs_at w buf po n (ts @ T e)))"
  have fl: "?f \<le> ?l" using wf by (simp add: a2a_wf_def)
  have T: "length (T e) = (\<Sum>x = ?f..<e. R w buf g x)" for e
    by (simp add: T_def length_concat comp_def interv_sum_list_conv_sum_set_nat)
  have tot: "(\<Sum>x = ?f..<?l. R w buf g x) = to_rank w buf g (aw_rank w)" using a2a_wfD(11,12) [OF wf] by (simp add: to_rank_def)
  have "foldM (\<lambda>expert (tot, rs). do {
         routed \<leftarrow> get_num_routed w buf g expert;
         src_offset \<leftarrow> index (rc_src_group_offset rc) g;
         dst_offset \<leftarrow> index (rc_dst_group_offset rc) g;
         rs \<leftarrow> foldM (\<lambda>_. route_token w po src_offset dst_offset g expert) [0..<unat routed] rs;
         Some (tot + unat routed, rs) }) [?f..<?l] (S ?f) = Some (S ?l)"
  proof (rule foldM_upt [OF _ fl])
    fix e assume e: "?f \<le> e" "e < ?l"
    then have t: "token_ok w (g, e)" "e < aw_num_experts w" using g by (simp_all add: token_ok_def)
    obtain m where m: "get_num_routed w buf g e = Some m" "unat m = R w buf g e" using get_num_routed_R [OF wf g t(2)] by blast
    have Suc: "(\<Sum>x = ?f..<Suc e. R w buf g x) = (\<Sum>x = ?f..<e. R w buf g x) + R w buf g e" "T (Suc e) = T e @ replicate (R w buf g e) (g, e)"
      using e(1) by (simp_all add: T_def)
    have "(\<Sum>x = ?f..<Suc e. R w buf g x) \<le> (\<Sum>x = ?f..<?l. R w buf g x)" by (rule sum_mono2) (use e in auto)
    then have "length (ts @ T e) + R w buf g e \<le> n" using n T [of e] Suc(1) tot by simp
    from route_repeat [OF wf t(1) po this]
    show "(case S e of (tot, rs) \<Rightarrow> do {
         routed \<leftarrow> get_num_routed w buf g e;
         src_offset \<leftarrow> index (rc_src_group_offset rc) g;
         dst_offset \<leftarrow> index (rc_dst_group_offset rc) g;
         rs \<leftarrow> foldM (\<lambda>_. route_token w po src_offset dst_offset g e) [0..<unat routed] rs;
         Some (tot + unat routed, rs) }) = Some (S (Suc e))"
      using g m Suc by (simp add: S_def rc rc_final [OF wf])
  qed
  moreover have "S ?f = (tot, rs_at w buf po n ts)" by (simp add: S_def T_def)
  moreover have "S ?l = (tot + to_rank w buf g (aw_rank w), rs_at w buf po n (ts @ tokens_of w buf g))"
    using tot by (simp add: S_def T_def tokens_of_def)
  ultimately show ?thesis by (simp add: route_group_def)
qed

lemma route_list_eq:
  assumes wf: "a2a_wf w buf" and po: "length po = experts_per_rank w" and rc: "rc = rc_at w buf (num_dp_groups w)"
  shows "set gs \<subseteq> {..<num_dp_groups w} \<Longrightarrow> length ts + (\<Sum>g\<leftarrow>gs. to_rank w buf g (aw_rank w)) \<le> n \<Longrightarrow>
    foldM (route_group w buf rc po) gs (tot, rs_at w buf po n ts) =
    Some (tot + (\<Sum>g\<leftarrow>gs. to_rank w buf g (aw_rank w)), rs_at w buf po n (ts @ concat (map (tokens_of w buf) gs)))"
proof (induction gs arbitrary: tot ts)
  case (Cons g gs)
  have "route_group w buf rc po g (tot, rs_at w buf po n ts) =
      Some (tot + to_rank w buf g (aw_rank w), rs_at w buf po n (ts @ tokens_of w buf g))"
    by (rule route_group_eq [OF wf _ po _ rc]) (use Cons.prems in auto)
  moreover have "length (ts @ tokens_of w buf g) + (\<Sum>g\<leftarrow>gs. to_rank w buf g (aw_rank w)) \<le> n"
    using Cons.prems(2) tokens_of_length [OF wf, of g] by simp
  ultimately show ?case using Cons.IH [of "ts @ tokens_of w buf g" "tot + to_rank w buf g (aw_rank w)"] Cons.prems(1) by (simp add: add.assoc)
qed simp

lemma rs_at_0: "a2a_wf w buf \<Longrightarrow> rs_init w (rc_at w buf (num_dp_groups w)) = rs_at w buf po (from_groups w buf (num_dp_groups w) (aw_rank w)) []"
  by (simp add: rs_init_def rs_at_def rc_final replicate_vec table_def jth_def nth_of_def) (auto simp: kth_def intro!: vec_cong)

lemma route_groups_eq:
  assumes wf: "a2a_wf w buf" and po: "length po = experts_per_rank w" and rc: "rc = rc_at w buf (num_dp_groups w)"
  shows "route_groups w buf rc po = Some (\<Sum>g\<leftarrow>remote_groups w. to_rank w buf g (aw_rank w),
    rs_at w buf po (length (all_tokens w buf)) (all_tokens w buf))"
proof -
  let ?n = "length (all_tokens w buf)" and ?T = "tokens_of w buf"
  let ?s = "\<lambda>gs. \<Sum>g\<leftarrow>gs. to_rank w buf g (aw_rank w)"
  have n: "?n = ?s (group_order w)" by (simp add: all_tokens_def length_concat comp_def tokens_of_length [OF wf])
  have sets: "set (remote_groups w) \<subseteq> {..<num_dp_groups w}" "set (local_groups w) \<subseteq> {..<num_dp_groups w}"
    using group_order_all(1) [OF wf] by (auto simp: group_order_def)
  let ?t1 = "concat (map ?T (remote_groups w))" and ?t2 = "concat (map ?T (local_groups w))"
  have len: "length (concat (map ?T gs)) = ?s gs" for gs by (simp add: length_concat comp_def tokens_of_length [OF wf])
  have 1: "foldM (route_group w buf rc po) (remote_groups w) (0, rs_init w rc) = Some (?s (remote_groups w), rs_at w buf po ?n ?t1)"
    using route_list_eq [OF wf po rc sets(1), of "[]" ?n 0] n rs_at_0 [OF wf, of po]
    by (simp add: group_order_def rc all_tokens_length [OF wf])
  have 2: "foldM (route_group w buf rc po) (local_groups w) (0, rs_at w buf po ?n ?t1) = Some (?s (local_groups w), rs_at w buf po ?n (?t1 @ ?t2))"
    using route_list_eq [OF wf po rc sets(2), of ?t1 ?n 0] n len by (simp add: group_order_def)
  have 3: "route_group w buf rc po (aw_dp_group w) (0, rs_at w buf po ?n (?t1 @ ?t2)) =
      Some (to_rank w buf (aw_dp_group w) (aw_rank w), rs_at w buf po ?n (all_tokens w buf))"
    using route_group_eq [OF wf a2a_wfD(9) [OF wf] po _ rc, of "?t1 @ ?t2" ?n 0] n len by (simp add: group_order_def all_tokens_def)
  show ?thesis by (simp add: route_groups_def 1 2 3)
qed

end
