(* ===== verification/A2A_Reference.thy ===== *)
theory A2A_Reference
  imports A2A_Routing
begin

text \<open>
  What the routing tables and transfers should be, without the loops and running counters of
  \<^verbatim>\<open>process_routing_info\<close>: the received tokens are listed by group, expert and number, and every entry is a
  formula of these three. The function computes exactly these tables.
\<close>

section \<open>Tables by prefix\<close>

fun tab :: "('a list \<Rightarrow> 'a \<Rightarrow> 'b) \<Rightarrow> 'a list \<Rightarrow> 'a list \<Rightarrow> 'b list" where
  "tab f pre [] = []"
| "tab f pre (t # ts) = f pre t # tab f (pre @ [t]) ts"

lemma tab_length [simp]: "length (tab f pre ts) = length ts"
  by (induction ts arbitrary: pre) auto

lemma tab_nth: "i < length ts \<Longrightarrow> tab f pre ts ! i = f (pre @ take i ts) (ts ! i)"
proof (induction ts arbitrary: pre i)
  case (Cons t ts)
  then show ?case by (cases i) auto
qed simp

lemma table_tab: "table (length ts) ts f = tab f [] ts"
  by (rule nth_equalityI) (simp_all add: table_def tab_nth)

lemma tab_append: "tab f pre (xs @ ys) = tab f pre xs @ tab f (pre @ xs) ys"
  by (induction xs arbitrary: pre) auto

lemma tab_replicate: "tab f pre (replicate n t) = map (\<lambda>j. f (pre @ replicate j t) t) [0..<n]"
  by (induction n arbitrary: pre) (simp_all add: map_upt_Suc del: upt_Suc)

lemma tab_upt:
  "a \<le> b \<Longrightarrow> tab f pre (concat (map h [a..<b])) = concat (map (\<lambda>e. tab f (pre @ concat (map h [a..<e])) (h e)) [a..<b])"
  by (induction b rule: nat_induct_at_least) (simp_all add: tab_append)

lemma tab_distinct:
  "distinct gs \<Longrightarrow> tab f pre (concat (map h gs)) =
     concat (map (\<lambda>g. tab f (pre @ concat (map h (takeWhile (\<lambda>x. x \<noteq> g) gs))) (h g)) gs)"
proof (induction gs rule: rev_induct)
  case (snoc g gs)
  have "takeWhile (\<lambda>x. x \<noteq> y) (gs @ [g]) = takeWhile (\<lambda>x. x \<noteq> y) gs" if "y \<in> set gs" for y
    by (rule takeWhile_append1 [OF that]) simp
  then have m: "map (\<lambda>y. tab f (pre @ concat (map h (takeWhile (\<lambda>x. x \<noteq> y) (gs @ [g])))) (h y)) gs =
      map (\<lambda>y. tab f (pre @ concat (map h (takeWhile (\<lambda>x. x \<noteq> y) gs))) (h y)) gs" by simp
  have t: "takeWhile (\<lambda>x. x \<noteq> g) (gs @ [g]) = gs" using snoc.prems by (auto simp: takeWhile_append)
  show ?case unfolding map_append m list.map t concat_append tab_append using snoc by simp
qed simp

section \<open>Received tokens\<close>

text \<open>The \<open>j\<close>th token that group \<open>g\<close> routes to expert \<open>e\<close>.\<close>

type_synonym routed_token = "nat \<times> nat \<times> nat"

definition received :: "a2a_worker \<Rightarrow> num_routed \<Rightarrow> routed_token list" where
  "received w buf = concat (map (\<lambda>g. concat (map (\<lambda>e. map (\<lambda>j. (g, e, j)) [0..<R w buf g e])
     [first_local_expert w..<last_local_expert w])) (group_order w))"

lemma received_iff:
  assumes "a2a_wf w buf"
  shows "(g, e, j) \<in> set (received w buf) \<longleftrightarrow>
    g < num_dp_groups w \<and> first_local_expert w \<le> e \<and> e < last_local_expert w \<and> j < R w buf g e"
  using group_order_all(1) [OF assms] by (auto simp: received_def image_iff)

text \<open>Its place in the send buffer of its group, and its number among the tokens of the group for this rank and of its expert.\<close>

definition token_slot :: "a2a_worker \<Rightarrow> num_routed \<Rightarrow> routed_token \<Rightarrow> nat" where
  "token_slot w buf = (\<lambda>(g, e, j). before w buf g e + j)"

definition token_index :: "a2a_worker \<Rightarrow> num_routed \<Rightarrow> routed_token \<Rightarrow> nat" where
  "token_index w buf = (\<lambda>(g, e, j). (\<Sum>x = first_local_expert w..<e. R w buf g x) + j)"

definition earlier :: "a2a_worker \<Rightarrow> nat \<Rightarrow> nat list" where
  "earlier w g = takeWhile (\<lambda>x. x \<noteq> g) (group_order w)"

definition expert_index :: "a2a_worker \<Rightarrow> num_routed \<Rightarrow> routed_token \<Rightarrow> nat" where
  "expert_index w buf = (\<lambda>(g, e, j). (\<Sum>h\<leftarrow>earlier w g. R w buf h e) + j)"

definition expert_total :: "a2a_worker \<Rightarrow> num_routed \<Rightarrow> nat \<Rightarrow> nat" where
  "expert_total w buf e = (\<Sum>g<num_dp_groups w. R w buf g e)"

lemma before_from: "a \<le> e \<Longrightarrow> before w buf g e = before w buf g a + (\<Sum>x = a..<e. R w buf g x)"
  by (simp add: before_def lessThan_atLeast0 sum.atLeastLessThan_concat)

lemma token_slot_index: "first_local_expert w \<le> e \<Longrightarrow>
    token_slot w buf (g, e, j) = before w buf g (first_local_expert w) + token_index w buf (g, e, j)"
  by (simp add: token_slot_def token_index_def before_from [of "first_local_expert w" e])

text \<open>The tokens before it.\<close>

definition token_prefix :: "a2a_worker \<Rightarrow> num_routed \<Rightarrow> routed_token \<Rightarrow> token list" where
  "token_prefix w buf = (\<lambda>(g, e, j). concat (map (tokens_of w buf) (earlier w g)) @
     concat (map (\<lambda>x. replicate (R w buf g x) (g, x)) [first_local_expert w..<e]) @ replicate j (g, e))"

lemma filter_none: "(\<And>x. x \<in> set xs \<Longrightarrow> \<not> P x) \<Longrightarrow> length (filter P xs) = 0"
  by simp

lemma earlier_not: "g \<notin> set (earlier w g)"
  unfolding earlier_def by (metis (mono_tags, lifting) set_takeWhileD)

lemma tokens_of_group: "t \<in> set (tokens_of w buf g) \<Longrightarrow> fst t = g"
  by (auto simp: tokens_of_def)

lemma tokens_of_expert:
  assumes "first_local_expert w \<le> e" "e < last_local_expert w"
  shows "length (filter (\<lambda>t. snd t = e) (tokens_of w buf g)) = R w buf g e"
proof -
  have "length (filter (\<lambda>t. snd t = e) (tokens_of w buf g)) =
      (\<Sum>x\<leftarrow>[first_local_expert w..<last_local_expert w]. if x = e then R w buf g x else 0)"
    unfolding tokens_of_def filter_concat length_concat map_map by (rule arg_cong [where f = sum_list]) (auto simp: comp_def)
  also have "\<dots> = (\<Sum>x = first_local_expert w..<last_local_expert w. if x = e then R w buf g x else 0)"
    by (simp only: interv_sum_list_conv_sum_set_nat set_upt)
  also have "\<dots> = R w buf g e" using assms by simp
  finally show ?thesis .
qed

lemma prefix_counts:
  assumes "first_local_expert w \<le> e" "e < last_local_expert w"
  shows "kth (token_prefix w buf (g, e, j)) g = token_index w buf (g, e, j)"
    "jth (token_prefix w buf (g, e, j)) (g, e) = j"
    "nth_of (token_prefix w buf (g, e, j)) e = expert_index w buf (g, e, j)"
proof -
  let ?T = "concat (map (tokens_of w buf) (earlier w g))"
  let ?U = "concat (map (\<lambda>x. replicate (R w buf g x) (g, x)) [first_local_expert w..<e])"
  have T: "fst t \<noteq> g" if "t \<in> set ?T" for t using that earlier_not [of g w] tokens_of_group by fastforce
  have "length (filter (\<lambda>t. fst t = g) ?T) = 0" by (rule filter_none) (rule T)
  moreover have "filter (\<lambda>t. fst t = g) ?U = ?U" by (rule filter_True) auto
  moreover have "length ?U = (\<Sum>x = first_local_expert w..<e. R w buf g x)"
    by (simp add: length_concat comp_def interv_sum_list_conv_sum_set_nat)
  ultimately show "kth (token_prefix w buf (g, e, j)) g = token_index w buf (g, e, j)"
    by (simp add: kth_def token_prefix_def token_index_def)
  have "length (filter (\<lambda>u. u = (g, e)) ?T) = 0" "length (filter (\<lambda>u. u = (g, e)) ?U) = 0"
    by (rule filter_none; use T in fastforce)+
  then show "jth (token_prefix w buf (g, e, j)) (g, e) = j" by (simp add: jth_def token_prefix_def)
  have "length (filter (\<lambda>t. snd t = e) ?T) = (\<Sum>h\<leftarrow>earlier w g. R w buf h e)"
    unfolding filter_concat length_concat map_map using tokens_of_expert [OF assms] by (simp add: comp_def)
  moreover have "length (filter (\<lambda>t. snd t = e) ?U) = 0" by (rule filter_none) auto
  ultimately show "nth_of (token_prefix w buf (g, e, j)) e = expert_index w buf (g, e, j)"
    by (simp add: nth_of_def token_prefix_def expert_index_def)
qed

lemma table_received:
  assumes wf: "a2a_wf w buf"
    and F: "\<And>g e j. (g, e, j) \<in> set (received w buf) \<Longrightarrow> f (token_prefix w buf (g, e, j)) (g, e) = F (g, e, j)"
  shows "table (length (all_tokens w buf)) (all_tokens w buf) f = map F (received w buf)"
proof -
  let ?f = "first_local_expert w" and ?l = "last_local_expert w"
  have fl: "?f \<le> ?l" using wf by (simp add: a2a_wf_def)
  have group: "tab f (concat (map (tokens_of w buf) (earlier w g))) (tokens_of w buf g) =
      concat (map (\<lambda>e. map (\<lambda>j. F (g, e, j)) [0..<R w buf g e]) [?f..<?l])" if g: "g < num_dp_groups w" for g
  proof -
    have "tab f (concat (map (tokens_of w buf) (earlier w g))) (tokens_of w buf g) =
        concat (map (\<lambda>e. map (\<lambda>j. f (token_prefix w buf (g, e, j)) (g, e)) [0..<R w buf g e]) [?f..<?l])"
      unfolding tokens_of_def [of w buf g] tab_upt [OF fl] tab_replicate by (simp add: token_prefix_def)
    also have "\<dots> = concat (map (\<lambda>e. map (\<lambda>j. F (g, e, j)) [0..<R w buf g e]) [?f..<?l])"
      by (intro arg_cong [where f = concat] map_cong refl F) (use g in \<open>auto simp: received_iff [OF wf]\<close>)
    finally show ?thesis .
  qed
  have "tab f [] (all_tokens w buf) =
      concat (map (\<lambda>g. concat (map (\<lambda>e. map (\<lambda>j. F (g, e, j)) [0..<R w buf g e]) [?f..<?l])) (group_order w))"
    unfolding all_tokens_def tab_distinct [OF group_order_all(2) [OF wf]] using group group_order_all(1) [OF wf]
    by (intro arg_cong [where f = concat] map_cong) (simp_all add: earlier_def)
  then show ?thesis by (simp add: table_tab received_def map_concat comp_def)
qed

section \<open>Bounds\<close>

definition routed_total :: "a2a_worker \<Rightarrow> num_routed \<Rightarrow> nat" where
  "routed_total w buf = (\<Sum>g<num_dp_groups w. before w buf g (aw_num_experts w))"

lemma before_le_total: "g < num_dp_groups w \<Longrightarrow> e \<le> aw_num_experts w \<Longrightarrow> before w buf g e \<le> routed_total w buf"
  using before_mono [of e "aw_num_experts w" w buf g]
    member_le_sum [of g "{..<num_dp_groups w}" "\<lambda>g. before w buf g (aw_num_experts w)"] by (simp add: routed_total_def)

lemma to_rank_le: "to_rank w buf g r \<le> before w buf g (aw_num_experts w)"
  using before_rank [of w buf g r] before_mono [OF first_expert_le [of w "Suc r"], of w buf g] by simp

lemma from_groups_le:
  assumes "g \<le> num_dp_groups w"
  shows "from_groups w buf g r \<le> routed_total w buf"
proof -
  have "from_groups w buf g r \<le> from_groups w buf (num_dp_groups w) r"
    unfolding from_groups_def by (rule sum_mono2) (use assms in auto)
  also have "\<dots> \<le> routed_total w buf" unfolding from_groups_def routed_total_def by (rule sum_mono) (rule to_rank_le)
  finally show ?thesis .
qed

lemma R_le_before: "e < aw_num_experts w \<Longrightarrow> R w buf g e \<le> before w buf g (aw_num_experts w)"
  unfolding before_def by (rule member_le_sum) auto

lemma expert_total_le: "e < aw_num_experts w \<Longrightarrow> expert_total w buf e \<le> routed_total w buf"
  unfolding expert_total_def routed_total_def by (rule sum_mono) (rule R_le_before)

lemma token_index_less:
  assumes wf: "a2a_wf w buf" and t: "(g, e, j) \<in> set (received w buf)"
  shows "token_index w buf (g, e, j) < to_rank w buf g (aw_rank w)"
proof -
  have t': "first_local_expert w \<le> e" "e < last_local_expert w" "j < R w buf g e" using t received_iff [OF wf] by auto
  have "token_index w buf (g, e, j) < (\<Sum>x = first_local_expert w..<Suc e. R w buf g x)" using t' by (simp add: token_index_def)
  also have "\<dots> \<le> (\<Sum>x = first_local_expert w..<last_local_expert w. R w buf g x)" by (rule sum_mono2) (use t' in auto)
  finally show ?thesis using a2a_wfD(11,12) [OF wf] by (simp add: to_rank_def)
qed

lemma received_length: "a2a_wf w buf \<Longrightarrow> length (received w buf) = from_groups w buf (num_dp_groups w) (aw_rank w)"
  using table_received [of w buf "\<lambda>_ _. 0" "\<lambda>_. 0"] all_tokens_length by (metis length_map table_length)

lemma unat_of_nat_u32: "n < 2 ^ 32 \<Longrightarrow> unat (of_nat n :: u32) = n"
  by (simp add: unat_of_nat take_bit_nat_eq_self)

lemma unat_of_nat_u64: "n < 2 ^ 64 \<Longrightarrow> unat (of_nat n :: u64) = n"
  by (simp add: unat_of_nat take_bit_nat_eq_self)

section \<open>The reference\<close>

definition padded_start :: "a2a_worker \<Rightarrow> num_routed \<Rightarrow> nat \<Rightarrow> nat" where
  "padded_start w buf e =
     (\<Sum>x = first_local_expert w..<e. div_ceil (expert_total w buf x) (aw_expert_padding w) * aw_expert_padding w)"

definition same_node :: "a2a_worker \<Rightarrow> nat \<Rightarrow> bool" where
  "same_node w g \<longleftrightarrow> g div groups_per_node w = rank_node w"

definition ref_dispatch :: "a2a_worker \<Rightarrow> num_routed \<Rightarrow> routed_token \<Rightarrow> u32" where
  "ref_dispatch w buf t =
     (let g = fst t; k = token_index w buf t in
      if g = aw_dp_group w then of_nat (token_slot w buf t)
      else if k < aw_max_private_tokens w then of_nat (aw_max_private_tokens w * g + k)
      else if same_node w g then or (of_nat (token_slot w buf t)) (push_bit 31 1)
      else of_nat (base_offset w + from_groups w buf g (aw_rank w) + (k - aw_max_private_tokens w)))"

definition ref_combine :: "a2a_worker \<Rightarrow> num_routed \<Rightarrow> routed_token \<Rightarrow> u32" where
  "ref_combine w buf t =
     (if same_node w (fst t) then of_nat (token_slot w buf t)
      else of_nat (from_groups w buf (fst t) (aw_rank w) + token_index w buf t))"

definition ref_padded :: "a2a_worker \<Rightarrow> num_routed \<Rightarrow> routed_token \<Rightarrow> u32" where
  "ref_padded w buf t = of_nat (padded_start w buf (fst (snd t)) + expert_index w buf t)"

definition reference_tables :: "a2a_worker \<Rightarrow> num_routed \<Rightarrow> route_tables" where
  "reference_tables w buf =
     \<lparr>rt_tokens_per_expert = vec (experts_per_rank w) (\<lambda>l. if first_local_expert w + l < last_local_expert w
        then of_nat (expert_total w buf (first_local_expert w + l)) else 0),
      rt_padded_index = map (ref_padded w buf) (received w buf),
      rt_source_rank = map (\<lambda>t. of_nat (peer_of w (fst t))) (received w buf),
      rt_source_dispatch_offset = map (ref_dispatch w buf) (received w buf),
      rt_combine_send_offset = map (ref_combine w buf) (received w buf),
      rt_num_recv_tokens = [of_nat (length (received w buf)), of_nat (length (filter (\<lambda>t. \<not> same_node w (fst t)) (received w buf)))]\<rparr>"

text \<open>The transfers: into the private buffers, behind them, and of the results.\<close>

definition private_target :: "a2a_worker \<Rightarrow> num_routed \<Rightarrow> nat \<Rightarrow> scatter_target" where
  "private_target w buf r =
     (let dim = get_dispatch_token_dim w; own = aw_dp_group w in
      \<lparr>sc_dst_mr = rh_recv_buffer_desc (aw_rank_handles w ! r),
       sc_length = of_nat (dim * min (to_rank w buf own r) (aw_max_private_tokens w)),
       sc_src_offset = of_nat (dim * before w buf own (first_expert w r)),
       sc_dst_offset = of_nat (dim * (own * aw_max_private_tokens w))\<rparr>)"

definition overflow_target :: "a2a_worker \<Rightarrow> num_routed \<Rightarrow> nat \<Rightarrow> scatter_target" where
  "overflow_target w buf r =
     (let dim = get_dispatch_token_dim w; own = aw_dp_group w in
      \<lparr>sc_dst_mr = rh_recv_buffer_desc (aw_rank_handles w ! r),
       sc_length = of_nat (dim * (to_rank w buf own r - aw_max_private_tokens w)),
       sc_src_offset = of_nat (dim * (aw_max_private_tokens w + before w buf own (first_expert w r))),
       sc_dst_offset = of_nat (dim * (base_offset w + from_groups w buf own r))\<rparr>)"

definition result_target :: "a2a_worker \<Rightarrow> num_routed \<Rightarrow> nat \<times> nat \<Rightarrow> scatter_target" where
  "result_target w buf = (\<lambda>(g, i). let dim = get_combine_token_dim w; me = aw_rank w in
      \<lparr>sc_dst_mr = rh_recv_buffer_desc (aw_rank_handles w ! (g * aw_dp_size w + i)),
       sc_length = of_nat (dim * to_rank w buf g me),
       sc_src_offset = of_nat (dim * from_groups w buf g me),
       sc_dst_offset = of_nat (dim * before w buf g (first_expert w me))\<rparr>)"

definition reference_info :: "a2a_worker \<Rightarrow> num_routed \<Rightarrow> routing_info" where
  "reference_info w buf =
     \<lparr>ri_num_recv_tx = (\<Sum>g<num_dp_groups w. group_recv_tx w g (to_rank w buf g (aw_rank w))),
      ri_dispatch_ranges = map (overflow_target w buf)
        (filter (\<lambda>r. aw_max_private_tokens w < to_rank w buf (aw_dp_group w) r) (dispatch_ranks w)),
      ri_combine_ranges = map (result_target w buf) (combine_peers w)\<rparr>"

section \<open>The tables are the reference\<close>

lemma peer_node:
  assumes wf: "a2a_wf w buf"
  shows "peer_of w g div aw_node_size w = g div groups_per_node w"
proof -
  have dp: "0 < aw_dp_size w" "aw_dp_rank w < aw_dp_size w" using wf by (auto simp: a2a_wf_def)
  have "peer_of w g div (aw_dp_size w * groups_per_node w) = peer_of w g div aw_dp_size w div groups_per_node w" by (rule div_mult2_eq)
  also have "peer_of w g div aw_dp_size w = g" using dp by (simp add: peer_of_def)
  finally show ?thesis using a2a_wfD(7) [OF wf] by (simp only: mult.commute)
qed

lemma own_node: "a2a_wf w buf \<Longrightarrow> same_node w (aw_dp_group w)"
  unfolding same_node_def by (rule dp_group_node)

lemma peer_same_node: "a2a_wf w buf \<Longrightarrow> (peer_of w g div aw_node_size w = rank_node w) = same_node w g"
  unfolding same_node_def by (simp only: peer_node)

lemma token_index_fits:
  assumes "a2a_wf w buf" "routed_total w buf < 2 ^ 32" "(g, e, j) \<in> set (received w buf)"
  shows "token_index w buf (g, e, j) < 2 ^ 32"
proof -
  have "g < num_dp_groups w" using assms(3) received_iff [OF assms(1)] by simp
  then have "to_rank w buf g (aw_rank w) \<le> routed_total w buf"
    using to_rank_le before_le_total [of g w "aw_num_experts w" buf] by (metis le_refl le_trans)
  then show ?thesis using token_index_less [OF assms(1,3)] assms(2) by simp
qed

lemma of_nat_behind:
  "m \<le> k \<Longrightarrow> (of_nat (f + k) + (of_nat b - of_nat m) :: u32) = of_nat (b + f + (k - m))"
  by (simp add: of_nat_diff)

lemma dispatch_entry_ref:
  assumes wf: "a2a_wf w buf" and fit: "routed_total w buf < 2 ^ 32" and t: "(g, e, j) \<in> set (received w buf)"
  shows "dispatch_entry w buf (token_prefix w buf (g, e, j)) (g, e) = ref_dispatch w buf (g, e, j)"
proof -
  have e: "first_local_expert w \<le> e" "e < last_local_expert w" using t received_iff [OF wf] by auto
  note counts = prefix_counts [OF e, of buf g j]
  have slot: "before w buf g (first_local_expert w) + token_index w buf (g, e, j) = token_slot w buf (g, e, j)"
    using token_slot_index [OF e(1), of buf g j] by simp
  have own: "before w buf (aw_dp_group w) e + j = token_slot w buf (g, e, j)" if "g = aw_dp_group w"
    using that by (simp add: token_slot_def)
  show ?thesis
    unfolding dispatch_entry_def ref_dispatch_def Let_def fst_conv snd_conv counts peer_own [OF wf] peer_same_node [OF wf]
      unat_of_nat_u32 [OF token_index_fits [OF wf fit t]] slot
    using own by (simp add: of_nat_behind del: of_nat_add)
qed

lemma combine_entry_ref:
  assumes wf: "a2a_wf w buf" and t: "(g, e, j) \<in> set (received w buf)"
  shows "combine_entry w buf (token_prefix w buf (g, e, j)) (g, e) = ref_combine w buf (g, e, j)"
proof -
  have e: "first_local_expert w \<le> e" "e < last_local_expert w" using t received_iff [OF wf] by auto
  have slot: "before w buf g (first_local_expert w) + token_index w buf (g, e, j) = token_slot w buf (g, e, j)"
    using token_slot_index [OF e(1), of buf g j] by simp
  have own: "before w buf (aw_dp_group w) e + j = token_slot w buf (g, e, j)" if "g = aw_dp_group w"
    using that by (simp add: token_slot_def)
  show ?thesis
    unfolding combine_entry_def ref_combine_def Let_def fst_conv snd_conv prefix_counts [OF e] peer_own [OF wf] peer_same_node [OF wf] slot
    using own own_node [OF wf] by (simp del: of_nat_add)
qed

text \<open>The start of an expert among the padded ones.\<close>

lemma pad_offsets_vec:
  "pad_offsets p counts = vec (length counts) (\<lambda>l. of_nat (\<Sum>x<l. div_ceil (unat (counts ! x)) p * p))"
proof -
  define P where "P = (\<lambda>count :: u32. div_ceil (unat count) p * p)"
  let ?F = "\<lambda>count (padded_offset, base_expert_offset). (padded_offset @ [base_expert_offset], base_expert_offset + (of_nat (P count) :: u32))"
  let ?V = "\<lambda>cs. vec (length cs) (\<lambda>l. of_nat (\<Sum>x<l. P (cs ! x)) :: u32)"
  have "fold ?F counts ([], 0) = (?V counts, of_nat (\<Sum>x<length counts. P (counts ! x)))"
  proof (induction counts rule: rev_induct)
    case (snoc c cs)
    have sum: "(\<Sum>x<l. P ((cs @ [c]) ! x)) = (\<Sum>x<l. P (cs ! x))" if "l \<le> length cs" for l
      by (rule sum.cong) (use that in \<open>simp_all add: nth_append\<close>)
    have "?V (cs @ [c]) = vec (length cs) (\<lambda>l. of_nat (\<Sum>x<l. P ((cs @ [c]) ! x))) @ [of_nat (\<Sum>x<length cs. P ((cs @ [c]) ! x))]"
      by (simp add: vec_def)
    also have "\<dots> = ?V cs @ [of_nat (\<Sum>x<length cs. P (cs ! x))]" by (simp add: sum vec_def del: of_nat_sum)
    finally show ?case using snoc sum [OF le_refl] by (simp del: of_nat_sum)
  qed (simp add: vec_def)
  then show ?thesis by (simp only: pad_offsets_def P_def fst_conv)
qed

lemma tokens_per_expert_final:
  "rc_tokens_per_expert (rc_at w buf (num_dp_groups w)) = vec (experts_per_rank w) (\<lambda>l. if first_local_expert w + l < last_local_expert w
     then of_nat (expert_total w buf (first_local_expert w + l)) else 0)"
  unfolding rc_at_def receiver_def expert_total_def by simp

lemma padded_entry_ref:
  assumes wf: "a2a_wf w buf" and fit: "routed_total w buf < 2 ^ 32" and t: "(g, e, j) \<in> set (received w buf)"
    and po: "po = pad_offsets (aw_expert_padding w) (rc_tokens_per_expert (rc_at w buf (num_dp_groups w)))"
  shows "padded_entry w po (token_prefix w buf (g, e, j)) (g, e) = ref_padded w buf (g, e, j)"
proof -
  let ?f = "first_local_expert w" and ?p = "aw_expert_padding w"
  let ?c = "rc_tokens_per_expert (rc_at w buf (num_dp_groups w))"
  have e: "?f \<le> e" "e < last_local_expert w" using t received_iff [OF wf] by auto
  have l: "e - ?f < experts_per_rank w" using e by (simp add: less_diff_conv2)
  have "unat (?c ! x) = expert_total w buf (?f + x)" if "x < e - ?f" for x
  proof -
    have "?f + x < last_local_expert w" "x < experts_per_rank w" "?f + x < aw_num_experts w" using that e l by auto
    then show ?thesis using expert_total_le [of "?f + x" w buf] fit
      by (simp add: tokens_per_expert_final unat_of_nat_u32)
  qed
  then have "(\<Sum>x<e - ?f. div_ceil (unat (?c ! x)) ?p * ?p) = (\<Sum>x<e - ?f. div_ceil (expert_total w buf (?f + x)) ?p * ?p)" by simp
  also have "\<dots> = padded_start w buf e"
    unfolding padded_start_def by (rule sum.reindex_bij_witness [of _ "\<lambda>x. x - ?f" "\<lambda>x. ?f + x"]) (use e(1) in auto)
  finally have start: "(\<Sum>x<e - ?f. div_ceil (unat (?c ! x)) ?p * ?p) = padded_start w buf e" .
  have "length ?c = experts_per_rank w" by (simp add: tokens_per_expert_final)
  then have "po ! (e - ?f) = of_nat (padded_start w buf e)"
    unfolding po pad_offsets_vec start [symmetric] using l by (simp only: vec_nth)
  then show ?thesis by (simp add: padded_entry_def ref_padded_def prefix_counts [OF e])
qed

lemma shift_mod_neq:
  assumes "a < n" "1 \<le> i" "i < (n :: nat)"
  shows "(a + i) mod n \<noteq> a"
proof (cases "a + i < n")
  case False
  then have "(a + i) mod n = a + i - n" using assms by (simp add: le_mod_geq)
  then show ?thesis using assms False by linarith
qed (use assms in simp)

lemma remote_groups_node:
  assumes wf: "a2a_wf w buf" and g: "g \<in> set (remote_groups w)"
  shows "\<not> same_node w g"
proof -
  let ?n = "groups_per_node w" and ?N = "aw_world_size w div aw_node_size w"
  have "g \<in> (\<Union>i \<in> {1..<?N}. (\<lambda>j. (rank_node w + i) mod ?N * ?n + j) ` {0..<?n})"
    using g unfolding remote_groups_def Let_def set_concat set_map set_upt image_image by simp
  then obtain i j where ij: "1 \<le> i" "i < ?N" "j < ?n" "g = (rank_node w + i) mod ?N * ?n + j"
    unfolding UN_iff image_iff Bex_def atLeastLessThan_iff by blast
  have n: "0 < ?n" by (rule a2a_wfD(5) [OF wf])
  have rn: "rank_node w < ?N" using wf a2a_wfD(2) [OF wf] by (metis a2a_wf_def dvd_div_mult_self less_mult_imp_div_less)
  have "g div ?n = (rank_node w + i) mod ?N" using ij(3,4) n by simp
  moreover have "(rank_node w + i) mod ?N \<noteq> rank_node w"
    by (rule shift_mod_neq [OF rn ij(1,2)])
  ultimately show ?thesis by (simp add: same_node_def)
qed

lemma local_groups_node:
  assumes wf: "a2a_wf w buf" and g: "g \<in> set (local_groups w)"
  shows "same_node w g"
proof -
  have n: "0 < groups_per_node w" by (rule a2a_wfD(5) [OF wf])
  obtain i where "g = rank_node w * groups_per_node w + (aw_dp_group w + i) mod groups_per_node w"
    using g by (auto simp: local_groups_def)
  then show ?thesis using n by (simp add: same_node_def)
qed

lemma received_remote_length:
  assumes wf: "a2a_wf w buf"
  shows "length (filter (\<lambda>t. \<not> same_node w (fst t)) (received w buf)) = (\<Sum>g\<leftarrow>remote_groups w. to_rank w buf g (aw_rank w))"
proof -
  let ?f = "first_local_expert w" and ?l = "last_local_expert w"
  have group: "length (filter (\<lambda>t. \<not> same_node w (fst t)) (concat (map (\<lambda>e. map (\<lambda>j. (g, e, j)) [0..<R w buf g e]) [?f..<?l]))) =
      (if same_node w g then 0 else to_rank w buf g (aw_rank w))" for g
    unfolding filter_concat length_concat map_map using a2a_wfD(11,12) [OF wf]
    by (simp add: comp_def filter_map to_rank_def interv_sum_list_conv_sum_set_nat)
  have "length (filter (\<lambda>t. \<not> same_node w (fst t)) (received w buf)) =
      (\<Sum>g\<leftarrow>group_order w. if same_node w g then 0 else to_rank w buf g (aw_rank w))"
    unfolding received_def filter_concat length_concat map_map by (simp add: comp_def group)
  also have "\<dots> = (\<Sum>g\<leftarrow>remote_groups w. to_rank w buf g (aw_rank w))"
    using remote_groups_node [OF wf] local_groups_node [OF wf] own_node [OF wf]
    by (simp add: group_order_def sum_list_0 cong: map_cong)
  finally show ?thesis .
qed

section \<open>The transfers are the reference\<close>

lemma foldM_collect:
  "(\<And>x. x \<in> set xs \<Longrightarrow> f x = Some (g x)) \<Longrightarrow> foldM (\<lambda>x ys. do { y \<leftarrow> f x; Some (ys @ [y]) }) xs acc = Some (acc @ map g xs)"
  by (induction xs arbitrary: acc) auto

lemma foldM_collect_if:
  "(\<And>x acc. x \<in> set xs \<Longrightarrow> f x acc = Some (if P x then acc @ [g x] else acc)) \<Longrightarrow> foldM f xs acc = Some (acc @ map g (filter P xs))"
  by (induction xs arbitrary: acc) auto

lemma foldM_add:
  fixes s :: "'b :: monoid_add"
  shows "(\<And>x s. x \<in> set xs \<Longrightarrow> f x s = Some (s + h x)) \<Longrightarrow> foldM f xs s = Some (s + (\<Sum>x\<leftarrow>xs. h x))"
  by (induction xs arbitrary: s) (auto simp: add.assoc)

lemma rank_tokens_eq:
  assumes wf: "a2a_wf w buf"
  shows "rank_tokens w buf r = Some (to_rank w buf (aw_dp_group w) r)"
proof -
  let ?F = "\<lambda>expert n. do { num_routed \<leftarrow> get_num_routed w buf (aw_dp_group w) expert; Some (n + unat num_routed) }"
  have "foldM ?F [first_expert w r..<first_expert w (Suc r)] 0 =
      Some (0 + (\<Sum>e\<leftarrow>[first_expert w r..<first_expert w (Suc r)]. R w buf (aw_dp_group w) e))"
  proof (rule foldM_add)
    fix e n assume "e \<in> set [first_expert w r..<first_expert w (Suc r)]"
    then have "e < aw_num_experts w" using first_expert_le less_le_trans by fastforce
    then show "?F e n = Some (n + R w buf (aw_dp_group w) e)"
      using get_num_routed_R [OF wf a2a_wfD(9) [OF wf]] by fastforce
  qed
  then show ?thesis unfolding rank_tokens_def Let_def expert_range
    by (simp add: to_rank_def interv_sum_list_conv_sum_set_nat)
qed

lemma initial_offsets_eq:
  assumes wf: "a2a_wf w buf"
  shows "initial_offsets w buf = Some (vec (aw_world_size w) (to_rank w buf (aw_dp_group w)),
    vec (aw_world_size w) (\<lambda>r. before w buf (aw_dp_group w) (first_expert w r)))"
proof -
  let ?B = "\<lambda>r. before w buf (aw_dp_group w) (first_expert w r)"
  define S where "S = (\<lambda>r. (vec (aw_world_size w) (\<lambda>i. if i < r then to_rank w buf (aw_dp_group w) i else 0),
    vec (aw_world_size w) (\<lambda>i. if i < r then ?B i else 0), ?B r))"
  have "foldM (\<lambda>peer_rank (tokens_per_rank, rank_offset, offset). do {
         tokens_on_rank \<leftarrow> rank_tokens w buf peer_rank;
         Some (tokens_per_rank[peer_rank := tokens_on_rank], rank_offset[peer_rank := offset], offset + tokens_on_rank) })
       [0..<aw_world_size w] (S 0) = Some (S (aw_world_size w))"
    by (rule foldM_upt) (auto simp: S_def rank_tokens_eq [OF wf] before_rank intro!: vec_cong)
  moreover have "S 0 = (replicate (aw_world_size w) 0, replicate (aw_world_size w) 0, 0)"
    by (simp add: S_def replicate_vec first_expert_def before_def)
  ultimately show ?thesis by (simp add: initial_offsets_def) (auto simp: S_def intro!: vec_cong)
qed

lemma remote_ranks_less: "a2a_wf w buf \<Longrightarrow> r \<in> set (remote_ranks w) \<Longrightarrow> r < aw_world_size w"
  using a2a_wfD(3) by (fastforce simp: remote_ranks_def)

lemma handles_length: "a2a_wf w buf \<Longrightarrow> length (aw_rank_handles w) = aw_world_size w"
  by (simp add: a2a_wf_def)

lemma dispatch_initial_routes_eq:
  assumes wf: "a2a_wf w buf"
  shows "dispatch_initial_routes w buf = Some (map (private_target w buf) (remote_ranks w))"
proof -
  let ?T = "vec (aw_world_size w) (to_rank w buf (aw_dp_group w))"
    and ?O = "vec (aw_world_size w) (\<lambda>r. before w buf (aw_dp_group w) (first_expert w r))"
  have "foldM (\<lambda>r dsts. do { t \<leftarrow> initial_target w ?T ?O r; Some (dsts @ [t]) }) (remote_ranks w) [] =
      Some ([] @ map (private_target w buf) (remote_ranks w))"
    by (rule foldM_collect)
      (use remote_ranks_less [OF wf] handles_length [OF wf] in \<open>simp add: initial_target_def private_target_def Let_def\<close>)
  then show ?thesis using a2a_wfD(2,3) [OF wf] by (simp add: dispatch_initial_routes_def initial_offsets_eq [OF wf])
qed

lemma sum_list_product: "(\<Sum>(x, y)\<leftarrow>List.product xs ys. f x y) = (\<Sum>x\<leftarrow>xs. \<Sum>y\<leftarrow>ys. f x y)"
  for f :: "'a \<Rightarrow> 'b \<Rightarrow> 'c :: monoid_add"
  by (induction xs) (simp_all add: comp_def)

lemma of_nat_sum_list: "(\<Sum>x\<leftarrow>xs. of_nat (f x)) = of_nat (\<Sum>x\<leftarrow>xs. f x)"
  by (induction xs) simp_all

lemma overflow_offset_eq:
  assumes wf: "a2a_wf w buf"
  shows "overflow_offset w buf r = Some (of_nat (from_groups w buf (aw_dp_group w) r))"
proof -
  let ?es = "[first_expert w r..<first_expert w (Suc r)]" and ?G = "aw_dp_group w"
  let ?F = "\<lambda>(src_group, expert) offset :: u64. do { n \<leftarrow> get_num_routed w buf src_group expert; Some (offset + ucast n) }"
  have "foldM ?F (List.product [0..<?G] ?es) 0 = Some (0 + (\<Sum>(g, e)\<leftarrow>List.product [0..<?G] ?es. of_nat (R w buf g e)))"
  proof (rule foldM_add)
    fix x s assume x: "x \<in> set (List.product [0..<?G] ?es)"
    obtain g e where ge: "x = (g, e)" by (cases x)
    have "g < num_dp_groups w" using x ge a2a_wfD(9) [OF wf] by auto
    moreover have "e < aw_num_experts w" using x ge first_expert_le [of w "Suc r"] by auto
    ultimately obtain n where n: "get_num_routed w buf g e = Some n" "unat n = R w buf g e" using get_num_routed_R [OF wf] by blast
    have "ucast n = (of_nat (R w buf g e) :: u64)" unfolding n(2) [symmetric] by simp
    then show "?F x s = Some (s + (case x of (g, e) \<Rightarrow> of_nat (R w buf g e)))" using n(1) ge by simp
  qed
  then show ?thesis unfolding overflow_offset_def Let_def expert_range sum_list_product
    by (simp add: of_nat_sum_list from_groups_def to_rank_def interv_sum_list_conv_sum_set_nat lessThan_atLeast0)
qed

lemma dispatch_ranks_less: "a2a_wf w buf \<Longrightarrow> r \<in> set (dispatch_ranks w) \<Longrightarrow> r < aw_world_size w"
  using a2a_wfD(3) by (fastforce simp: dispatch_ranks_def)

lemma group_rank_less: "a2a_wf w buf \<Longrightarrow> g < num_dp_groups w \<Longrightarrow> i < aw_dp_size w \<Longrightarrow> g * aw_dp_size w + i < aw_world_size w"
  using a2a_wfD(6) [of w buf] mult_le_mono1 [of "Suc g" "num_dp_groups w" "aw_dp_size w"] by simp

lemma combine_peers_less: "a2a_wf w buf \<Longrightarrow> (g, i) \<in> set (combine_peers w) \<Longrightarrow> g < num_dp_groups w \<and> i < aw_dp_size w"
  using a2a_wfD(4) [of w buf] by (auto simp: combine_peers_def)

lemma own_to_rank_fits:
  assumes "a2a_wf w buf" "routed_total w buf < 2 ^ 32" "g < num_dp_groups w"
  shows "to_rank w buf g r < 2 ^ 32" "e \<le> aw_num_experts w \<Longrightarrow> before w buf g e < 2 ^ 32"
  using assms(2) to_rank_le [of w buf g r] before_le_total [OF assms(3) le_refl, of buf] before_le_total [OF assms(3), of e buf] by simp_all

lemma ucast_u32_u64: "n < 2 ^ 32 \<Longrightarrow> (ucast (of_nat n :: u32) :: u64) = of_nat n"
  by (simp add: unsigned_of_nat take_bit_nat_eq_self)

lemma dispatch_range_eq:
  assumes wf: "a2a_wf w buf" and fit: "routed_total w buf < 2 ^ 32" and r: "r \<in> set (dispatch_ranks w)"
    and rc: "rc = rc_at w buf (num_dp_groups w)"
  shows "dispatch_range w buf rc r dsts =
    Some (if aw_max_private_tokens w < to_rank w buf (aw_dp_group w) r then dsts @ [overflow_target w buf r] else dsts)"
proof -
  note own = own_to_rank_fits [OF wf fit a2a_wfD(9) [OF wf]]
  have W: "r < aw_world_size w" "r < length (aw_rank_handles w)"
    using dispatch_ranks_less [OF wf r] handles_length [OF wf] by simp_all
  have b: "(ucast (of_nat (before w buf (aw_dp_group w) (first_expert w r)) :: u32) :: u64) = of_nat (before w buf (aw_dp_group w) (first_expert w r))"
    by (rule ucast_u32_u64) (rule own(2) [OF first_expert_le])
  show ?thesis using W
    by (simp add: dispatch_range_def rc rc_final [OF wf] unat_of_nat_u32 [OF own(1)] overflow_offset_eq [OF wf] overflow_target_def Let_def b
        algebra_simps)
qed

lemma combine_range_eq:
  assumes wf: "a2a_wf w buf" and fit: "routed_total w buf < 2 ^ 32" and x: "x \<in> set (combine_peers w)"
    and rc: "rc = rc_at w buf (num_dp_groups w)"
  shows "combine_range w rc x dsts = Some (dsts @ [result_target w buf x])"
proof -
  obtain g i where gi: "x = (g, i)" by (cases x)
  have g: "g < num_dp_groups w" "i < aw_dp_size w" using combine_peers_less [OF wf] x gi by auto
  note own = own_to_rank_fits [OF wf fit g(1)]
  have f: "first_expert w (aw_rank w) = first_local_expert w" by (rule a2a_wfD(11) [OF wf])
  have "(ucast (of_nat (before w buf g (first_local_expert w)) :: u32) :: u64) = of_nat (before w buf g (first_local_expert w))"
    "(ucast (of_nat (from_groups w buf g (aw_rank w)) :: u32) :: u64) = of_nat (from_groups w buf g (aw_rank w))"
    using own(2) [OF first_expert_le, of "aw_rank w"] from_groups_le [of g w buf "aw_rank w"] fit g(1)
    by (auto simp: f intro!: ucast_u32_u64)
  then show ?thesis using g group_rank_less [OF wf g] handles_length [OF wf]
    by (simp add: gi combine_range_def rc rc_final [OF wf] ucast_u32_u64 [OF own(1)] result_target_def Let_def f algebra_simps)
qed

lemma process_routing_info_eq:
  assumes wf: "a2a_wf w buf" and fit: "routed_total w buf < 2 ^ 32"
    and recv: "length (received w buf) \<le> aw_max_recv_tokens w"
  shows "process_routing_info w buf = Some (reference_info w buf, reference_tables w buf)"
proof -
  define rc where "rc = rc_at w buf (num_dp_groups w)"
  define po where "po = pad_offsets (aw_expert_padding w) (rc_tokens_per_expert rc)"
  let ?ts = "all_tokens w buf"
  have po: "length po = experts_per_rank w" by (simp add: po_def pad_offsets_vec rc_def tokens_per_expert_final)
  have len: "length ?ts = length (received w buf)" by (simp add: all_tokens_length [OF wf] received_length [OF wf])
  have tables: "table (length ?ts) ?ts (dispatch_entry w buf) = map (ref_dispatch w buf) (received w buf)"
    "table (length ?ts) ?ts (combine_entry w buf) = map (ref_combine w buf) (received w buf)"
    "table (length ?ts) ?ts (\<lambda>_ t. of_nat (peer_of w (fst t))) = map (\<lambda>t. of_nat (peer_of w (fst t))) (received w buf)"
    "table (length ?ts) ?ts (padded_entry w po) = map (ref_padded w buf) (received w buf)"
    by (rule table_received [OF wf]; use dispatch_entry_ref [OF wf fit] combine_entry_ref [OF wf] padded_entry_ref [OF wf fit _ po_def [unfolded rc_def]] in simp)+
  have ranges: "foldM (dispatch_range w buf rc) (dispatch_ranks w) [] = Some (ri_dispatch_ranges (reference_info w buf))"
    "foldM (combine_range w rc) (combine_peers w) [] = Some (ri_combine_ranges (reference_info w buf))"
    using foldM_collect_if [of "dispatch_ranks w" "dispatch_range w buf rc", OF dispatch_range_eq [OF wf fit _ rc_def]]
      foldM_collect_if [of "combine_peers w" "combine_range w rc" "\<lambda>_. True" "result_target w buf" "[]"] combine_range_eq [OF wf fit _ rc_def]
    by (simp_all add: reference_info_def)
  have guard: "aw_world_size w \<noteq> 0" "aw_dp_size w \<noteq> 0" "aw_node_size w \<noteq> 0" "groups_per_node w \<noteq> 0" "aw_expert_padding w \<noteq> 0"
    "\<not> last_local_expert w < first_local_expert w" using a2a_wfD [OF wf] wf by (auto simp: a2a_wf_def)
  have recv': "\<not> aw_max_recv_tokens w < rc_num_recv_tokens rc" using recv by (simp add: rc_def rc_final [OF wf] received_length [OF wf])
  have "process_routing_info w buf = Some (\<lparr>ri_num_recv_tx = rc_num_recv_tx rc, ri_dispatch_ranges = ri_dispatch_ranges (reference_info w buf),
      ri_combine_ranges = ri_combine_ranges (reference_info w buf)\<rparr>,
      \<lparr>rt_tokens_per_expert = rc_tokens_per_expert rc, rt_padded_index = map (ref_padded w buf) (received w buf),
       rt_source_rank = map (\<lambda>t. of_nat (peer_of w (fst t))) (received w buf),
       rt_source_dispatch_offset = map (ref_dispatch w buf) (received w buf), rt_combine_send_offset = map (ref_combine w buf) (received w buf),
       rt_num_recv_tokens = [of_nat (rc_num_recv_tokens rc), of_nat (\<Sum>g\<leftarrow>remote_groups w. to_rank w buf g (aw_rank w))]\<rparr>)"
    unfolding process_routing_info_def count_groups_eq [OF wf] rc_def [symmetric] Option.bind_lunit Let_def po_def [symmetric]
      route_groups_eq [OF wf po rc_def] using guard recv' by (simp add: ranges rs_at_def tables)
  then show ?thesis
    by (simp add: reference_info_def reference_tables_def rc_def rc_final [OF wf] tokens_per_expert_final received_length [OF wf] received_remote_length [OF wf])
qed

end
