(* ===== verification/A2A_Props.thy ===== *)
theory A2A_Props
  imports A2A_Reference Domain_Group Write_Iter
begin

text \<open>
  What the exchange of tokens promises across ranks: the writes of a sender land where the receiver's table looks
  for them, results return to the place their token was sent from, every counter is waited for as often as the
  peers add to it, and what the barriers wait for.
\<close>

section \<open>Ranks of the other nodes\<close>

text \<open>The loops over the other nodes visit, once each, the ranks outside the own node whose place on their node is in \<open>is\<close>.\<close>

definition other_nodes :: "nat \<Rightarrow> nat \<Rightarrow> nat \<Rightarrow> nat list \<Rightarrow> nat list" where
  "other_nodes ns N n is = concat (map (\<lambda>p. map (\<lambda>i. ((ns + p) * n + i) mod (N * n)) is) [1..<N])"

lemma div_mod_shift: "i < n \<Longrightarrow> (a * n + i) div n = a \<and> (a * n + i) mod n = (i :: nat)"
  by simp

lemma mod_shift: "i < n \<Longrightarrow> (a * n + i) mod (N * n) = a mod N * n + (i :: nat)"
  using mod_mult2_eq [of "a * n + i" n N] div_mod_shift [of i n a] by (simp add: mult.commute)

lemma shift_mod_inj:
  assumes "a < n" "p < n" "q < n" "(a + p) mod n = (a + q) mod (n :: nat)"
  shows "p = q"
proof -
  have "(a + x) mod n = (if a + x < n then a + x else a + x - n)" if "x < n" for x
    using that assms(1) by (simp add: le_mod_geq)
  then show ?thesis using assms by (auto split: if_splits)
qed

lemma other_nodes_set:
  assumes ns: "ns < N" and n: "0 < n" and sub: "set is \<subseteq> {..<n}"
  shows "set (other_nodes ns N n is) = {x. x < N * n \<and> x div n \<noteq> ns \<and> x mod n \<in> set is}"
proof (intro equalityI subsetI)
  fix x assume "x \<in> set (other_nodes ns N n is)"
  then obtain p i where p: "1 \<le> p" "p < N" "i \<in> set is" "x = ((ns + p) * n + i) mod (N * n)"
    by (auto simp: other_nodes_def)
  have i: "i < n" using p(3) sub by auto
  then have x: "x = (ns + p) mod N * n + i" using p(4) mod_shift by simp
  have "(ns + p) mod N \<noteq> ns" by (rule shift_mod_neq [OF ns p(1,2)])
  moreover have "x < N * n" using p(4) ns n by (simp add: mod_less_divisor)
  ultimately show "x \<in> {x. x < N * n \<and> x div n \<noteq> ns \<and> x mod n \<in> set is}" using x i p(3) by simp
next
  fix x assume x: "x \<in> {x. x < N * n \<and> x div n \<noteq> ns \<and> x mod n \<in> set is}"
  then have "x div n < N" by (simp add: less_mult_imp_div_less)
  from cycle [OF this ns] x obtain p where p: "1 \<le> p" "p < N" "(ns + p) mod N = x div n" by blast
  have "x = ((ns + p) * n + x mod n) mod (N * n)" using mod_shift [of "x mod n" n "ns + p" N] n p(3) by simp
  then have "x \<in> (\<lambda>i. ((ns + p) * n + i) mod (N * n)) ` set is" using x by (intro image_eqI) auto
  then show "x \<in> set (other_nodes ns N n is)"
    unfolding other_nodes_def set_concat set_map set_upt image_image using p(1,2) by (intro UN_I [of p]) simp_all
qed

lemma other_nodes_distinct:
  assumes ns: "ns < N" and n: "0 < n" and sub: "set is \<subseteq> {..<n}" and d: "distinct is"
  shows "distinct (other_nodes ns N n is)"
proof -
  have inj: "inj_on (\<lambda>(p, i). ((ns + p) * n + i) mod (N * n)) ({1..<N} \<times> set is)"
  proof (rule inj_onI, clarify)
    fix p i q j assume pq: "p \<in> {1..<N}" "q \<in> {1..<N}" and ij: "i \<in> set is" "j \<in> set is"
      and eq: "((ns + p) * n + i) mod (N * n) = ((ns + q) * n + j) mod (N * n)"
    have less: "i < n" "j < n" using ij sub by auto
    then have e: "(ns + p) mod N * n + i = (ns + q) mod N * n + j" using eq mod_shift by simp
    have "i = j" using arg_cong [OF e, of "\<lambda>x. x mod n"] div_mod_shift less by simp
    moreover have "(ns + p) mod N = (ns + q) mod N" using arg_cong [OF e, of "\<lambda>x. x div n"] div_mod_shift less by simp
    then have "p = q" by (rule shift_mod_inj [OF ns, rotated 2]) (use pq in auto)
    ultimately show "p = q \<and> i = j" by blast
  qed
  have "other_nodes ns N n is = map (\<lambda>(p, i). ((ns + p) * n + i) mod (N * n)) (List.product [1..<N] is)"
    by (simp add: other_nodes_def product_concat_map map_concat comp_def)
  then show ?thesis using inj d by (simp add: distinct_map distinct_product)
qed

lemma a2a_nodes:
  assumes "a2a_wf w buf"
  shows "aw_world_size w = aw_world_size w div aw_node_size w * aw_node_size w" "rank_node w < aw_world_size w div aw_node_size w"
proof -
  show world: "aw_world_size w = aw_world_size w div aw_node_size w * aw_node_size w"
    using assms unfolding a2a_wf_def by (metis dvd_div_mult_self)
  show "rank_node w < aw_world_size w div aw_node_size w"
    using assms world unfolding a2a_wf_def by (metis less_mult_imp_div_less)
qed

lemma step_by_set: "0 < k \<Longrightarrow> set (step_by a b k) = {x. a \<le> x \<and> x < b \<and> (x - a) mod k = 0}"
proof (intro equalityI subsetI)
  fix x assume k: "0 < k" and "x \<in> set (step_by a b k)"
  then obtain i where i: "x = a + i * k" "i < div_ceil (b - a) k" by (auto simp: step_by_def)
  then have "i * k < b - a" using div_ceil_le_iff [OF k, of "b - a" i] by (simp add: not_le [symmetric])
  then show "x \<in> {x. a \<le> x \<and> x < b \<and> (x - a) mod k = 0}" using i by auto
next
  fix x assume k: "0 < k" and "x \<in> {x. a \<le> x \<and> x < b \<and> (x - a) mod k = 0}"
  then have x: "x = a + (x - a) div k * k" "x - a < b - a" by (auto simp: mod_eq_0_iff_dvd)
  then have "(x - a) div k * k < b - a" by simp
  then have "(x - a) div k < div_ceil (b - a) k" using div_ceil_le_iff [OF k, of "b - a" "(x - a) div k"] by (simp add: not_le [symmetric])
  then show "x \<in> set (step_by a b k)" using x(1) unfolding step_by_def set_map set_upt by (intro image_eqI) auto
qed

lemma step_by_distinct: "0 < k \<Longrightarrow> distinct (step_by a b k)"
  by (simp add: step_by_def distinct_map inj_on_def)

lemma product_append: "List.product (xs @ ys) zs = List.product xs zs @ List.product ys zs"
  by (induction xs) simp_all

lemma product_concat: "List.product (concat xss) zs = concat (map (\<lambda>xs. List.product xs zs) xss)"
  by (induction xss) (simp_all add: product_append)

lemma remote_ranks_other:
  assumes "a2a_wf w buf"
  shows "remote_ranks w = other_nodes (rank_node w) (aw_world_size w div aw_node_size w) (aw_node_size w) [0..<aw_node_size w]"
  unfolding remote_ranks_def other_nodes_def a2a_nodes(1) [OF assms, symmetric] ..

lemma dispatch_ranks_other:
  assumes "a2a_wf w buf"
  shows "dispatch_ranks w = other_nodes (rank_node w) (aw_world_size w div aw_node_size w) (aw_node_size w)
    (step_by (aw_dp_rank w) (aw_node_size w) (aw_dp_size w))"
  unfolding dispatch_ranks_def other_nodes_def a2a_nodes(1) [OF assms, symmetric] ..

lemma combine_peers_other:
  assumes "a2a_wf w buf"
  shows "combine_peers w = List.product (other_nodes (rank_node w) (aw_world_size w div aw_node_size w) (groups_per_node w)
    [0..<groups_per_node w]) [0..<aw_dp_size w]"
  unfolding combine_peers_def other_nodes_def product_concat a2a_wfD(8) [OF assms] map_map comp_def ..

text \<open>Each rank of another node once; of those at the same place in their group only, the ones the overflow is sent to.\<close>

lemma remote_ranks_iff:
  assumes wf: "a2a_wf w buf"
  shows "set (remote_ranks w) = {r. r < aw_world_size w \<and> r div aw_node_size w \<noteq> rank_node w}" "distinct (remote_ranks w)"
proof -
  note n = a2a_nodes(2) [OF wf] a2a_wfD(2) [OF wf]
  show "set (remote_ranks w) = {r. r < aw_world_size w \<and> r div aw_node_size w \<noteq> rank_node w}"
    unfolding remote_ranks_other [OF wf] by (subst other_nodes_set [OF n]) (use n(2) a2a_nodes(1) [OF wf, symmetric] in auto)
  show "distinct (remote_ranks w)"
    unfolding remote_ranks_other [OF wf] by (rule other_nodes_distinct [OF n]) auto
qed

lemma dispatch_ranks_iff:
  assumes wf: "a2a_wf w buf"
  shows "set (dispatch_ranks w) = {r. r < aw_world_size w \<and> r div aw_node_size w \<noteq> rank_node w \<and> r mod aw_dp_size w = aw_dp_rank w}"
    "distinct (dispatch_ranks w)"
proof -
  note n = a2a_nodes(2) [OF wf] a2a_wfD(2) [OF wf] and dp = a2a_wfD(1) [OF wf]
  let ?is = "step_by (aw_dp_rank w) (aw_node_size w) (aw_dp_size w)"
  have sub: "set ?is \<subseteq> {..<aw_node_size w}" unfolding step_by_set [OF dp] by auto
  have dr: "aw_dp_rank w < aw_dp_size w" "aw_dp_size w dvd aw_node_size w" using wf by (auto simp: a2a_wf_def)
  have place: "x mod aw_node_size w \<in> set ?is \<longleftrightarrow> x mod aw_dp_size w = aw_dp_rank w" for x
  proof -
    let ?m = "x mod aw_node_size w"
    have m: "?m mod aw_dp_size w = x mod aw_dp_size w" using dr(2) by (rule mod_mod_cancel)
    have "aw_dp_rank w \<le> ?m \<and> (?m - aw_dp_rank w) mod aw_dp_size w = 0 \<longleftrightarrow> ?m mod aw_dp_size w = aw_dp_rank w"
      using dr(1) by (metis le_add_diff_inverse mod_add_self2 mod_eq_dvd_iff_nat mod_less mod_less_eq_dividend mod_0_imp_dvd dvd_imp_mod_0)
    then show ?thesis using n(2) m unfolding step_by_set [OF dp] by auto
  qed
  show "set (dispatch_ranks w) = {r. r < aw_world_size w \<and> r div aw_node_size w \<noteq> rank_node w \<and> r mod aw_dp_size w = aw_dp_rank w}"
    unfolding dispatch_ranks_other [OF wf] by (subst other_nodes_set [OF n sub]) (use place a2a_nodes(1) [OF wf, symmetric] in auto)
  show "distinct (dispatch_ranks w)"
    unfolding dispatch_ranks_other [OF wf] by (rule other_nodes_distinct [OF n sub step_by_distinct [OF dp]])
qed

lemma combine_peers_iff:
  assumes wf: "a2a_wf w buf"
  shows "set (combine_peers w) = {(g, i). g < num_dp_groups w \<and> \<not> same_node w g \<and> i < aw_dp_size w}" "distinct (combine_peers w)"
proof -
  note n = a2a_nodes(2) [OF wf] a2a_wfD(5) [OF wf]
  have sub: "set [0..<groups_per_node w] \<subseteq> {..<groups_per_node w}" by auto
  show "set (combine_peers w) = {(g, i). g < num_dp_groups w \<and> \<not> same_node w g \<and> i < aw_dp_size w}"
    unfolding combine_peers_other [OF wf] set_product other_nodes_set [OF n sub] a2a_wfD(8) [OF wf] same_node_def using n(2) by auto
  show "distinct (combine_peers w)"
    unfolding combine_peers_other [OF wf] by (rule distinct_product [OF other_nodes_distinct [OF n sub]]) auto
qed

section \<open>Example\<close>

text \<open>Four ranks on two nodes, an expert each, one private slot per group. Rank 1 sends three tokens to rank 2.\<close>

definition ex_desc :: "nat \<Rightarrow> memory_region_descriptor" where
  "ex_desc i = \<lparr>mrd_ptr = of_nat i, addr_rkey_list = []\<rparr>"

definition ex_worker :: "nat \<Rightarrow> a2a_worker" where
  "ex_worker r =
     \<lparr>aw_max_num_tokens = 8, aw_max_recv_tokens = 16, aw_max_private_tokens = 1, aw_hidden_dim = 20, aw_hidden_dim_scale = 1,
      aw_in_elemsize = 1, aw_out_elemsize = 2, aw_scale_elemsize = 4, aw_num_experts = 4, aw_num_experts_per_token = 1,
      aw_expert_padding = 2, aw_rank = r, aw_dp_rank = 0, aw_dp_group = r, aw_dp_size = 1, aw_node_size = 2, aw_world_size = 4,
      aw_nets_per_gpu = 2, aw_rank_handles = map (\<lambda>i. \<lparr>rh_address = DomainAddress [], rh_num_routed_desc = ex_desc i,
        rh_recv_buffer_desc = ex_desc (4 + i)\<rparr>) [0..<4],
      aw_dispatch_imm = 1, aw_combine_imm = 2, aw_route_imm = 0, aw_dispatch_barrier_imm = 3, aw_combine_barrier_imm = 4,
      aw_num_routed_mr = MemoryRegionHandle 0, aw_send_buffer_mr = MemoryRegionHandle 1, aw_recv_buffer_mr = MemoryRegionHandle 2,
      aw_route_write_op = ScatterReq \<lparr>sct_src_mr = MemoryRegionHandle 0, sct_dst_handle = None, sct_dsts = [], sct_imm_data = Some 0,
        sct_domain = AllDomainsShardPeers\<rparr>,
      aw_dispatch_barrier_write_op = BarrierReq \<lparr>bt_imm_data = 3, bt_dst_mrs = [], bt_domain = Pinned 0\<rparr>,
      aw_combine_barrier_write_op = BarrierReq \<lparr>bt_imm_data = 4, bt_dst_mrs = [], bt_domain = Pinned 0\<rparr>\<rparr>"

definition ex_routed :: num_routed where
  "ex_routed = [1, 0, 2, 0,  0, 1, 3, 0,  1, 1, 1, 1,  0, 0, 0, 2]"

lemma div_ceil_4: "div_ceil 4 4 = 1"
  by (simp add: div_ceil_def)

lemma ex_wf: "r < 4 \<Longrightarrow> a2a_wf (ex_worker r) ex_routed"
  by (simp add: a2a_wf_def ex_worker_def ex_routed_def div_ceil_4)

lemma ex_total: "routed_total (ex_worker 1) ex_routed = 13" "routed_total (ex_worker 2) ex_routed = 13"
  by code_simp+

lemma ex_received: "received (ex_worker 2) ex_routed = [(0, 2, 0), (0, 2, 1), (1, 2, 0), (1, 2, 1), (1, 2, 2), (2, 2, 0)]"
  by code_simp

section \<open>The tables of a rank\<close>

text \<open>
  \<^bold>\<open>C11.\<close> For a worker in order whose counts fit 32 bits, \<open>process_routing_info\<close> returns, and its transfers and
  tables are those of the reference: each entry depends only on the group, expert and number of its token. So do
  the transfers into the private buffers.
\<close>

theorem process_routing_info_reference:
  assumes "a2a_wf w buf" "routed_total w buf < 2 ^ 32" "length (received w buf) \<le> aw_max_recv_tokens w"
  shows "process_routing_info w buf = Some (reference_info w buf, reference_tables w buf) \<and>
    dispatch_initial_routes w buf = Some (map (private_target w buf) (remote_ranks w))"
  using process_routing_info_eq [OF assms] dispatch_initial_routes_eq [OF assms(1)] by simp

theorem process_routing_info_reference_witness:
  "\<exists>info tables. process_routing_info (ex_worker 2) ex_routed = Some (info, tables) \<and>
     rt_source_dispatch_offset tables = [0, 4, 1, 6, 7, 2] \<and> rt_padded_index tables = [0, 1, 2, 3, 4, 5]"
proof -
  have recv: "length (received (ex_worker 2) ex_routed) \<le> aw_max_recv_tokens (ex_worker 2)"
    unfolding ex_received by (simp add: ex_worker_def)
  have "rt_source_dispatch_offset (reference_tables (ex_worker 2) ex_routed) = [0, 4, 1, 6, 7, 2]"
    "rt_padded_index (reference_tables (ex_worker 2) ex_routed) = [0, 1, 2, 3, 4, 5]" by code_simp+
  then show ?thesis using process_routing_info_reference [OF ex_wf _ recv] ex_total by auto
qed

lemma distinct_concat_keyed:
  "distinct xs \<Longrightarrow> (\<And>x. x \<in> set xs \<Longrightarrow> distinct (f x)) \<Longrightarrow> (\<And>x y. y \<in> set (f x) \<Longrightarrow> key y = x) \<Longrightarrow> distinct (concat (map f xs))"
proof (induction xs)
  case (Cons x xs)
  have "key y \<noteq> x" if "y \<in> set (concat (map f xs))" for y using that Cons.prems(1,3) by fastforce
  then show ?case using Cons by fastforce
qed simp

lemma received_distinct:
  assumes "a2a_wf w buf"
  shows "distinct (received w buf)"
proof -
  have inner: "distinct (concat (map (\<lambda>e. map (\<lambda>j. (g, e, j)) [0..<R w buf g e]) [first_local_expert w..<last_local_expert w]))" for g
    by (rule distinct_concat_keyed [where key = "\<lambda>(_, e, _). e"]) (auto simp: distinct_map inj_on_def)
  show ?thesis unfolding received_def
    by (rule distinct_concat_keyed [OF group_order_all(2) [OF assms] inner, where key = fst]) auto
qed

text \<open>The tokens of an expert are numbered without gaps or repetitions.\<close>

lemma expert_index_take:
  assumes wf: "a2a_wf w buf" and g: "g < num_dp_groups w"
  obtains a where "a < length (group_order w)" "group_order w ! a = g" "earlier w g = take a (group_order w)"
proof -
  obtain a where a: "a < length (group_order w)" "group_order w ! a = g"
    using g group_order_all(1) [OF wf] by (metis in_set_conv_nth lessThan_iff)
  have "takeWhile (\<lambda>x. x \<noteq> g) (group_order w) = take a (group_order w)"
    by (rule takeWhile_eq_take_P_nth) (use a group_order_all(2) [OF wf] nth_eq_iff_index_eq in fastforce)+
  then show thesis using that [OF a] by (simp add: earlier_def)
qed

lemma sum_take_Suc: "a < length xs \<Longrightarrow> (\<Sum>x\<leftarrow>take (Suc a) xs. f x) = (\<Sum>x\<leftarrow>take a xs. f x) + f (xs ! a)"
  for f :: "'a \<Rightarrow> nat"
  by (simp add: take_Suc_conv_app_nth)

lemma sum_take_mono: "a \<le> b \<Longrightarrow> (\<Sum>x\<leftarrow>take a xs. f x) \<le> (\<Sum>x\<leftarrow>take b xs. f x)" for f :: "'a \<Rightarrow> nat"
  by (metis le_add1 le_add_diff_inverse map_append sum_list.append take_add)

lemma expert_index_less:
  assumes wf: "a2a_wf w buf" and g: "g < num_dp_groups w" and j: "j < R w buf g e"
  shows "expert_index w buf (g, e, j) < expert_total w buf e"
proof -
  obtain a where a: "a < length (group_order w)" "group_order w ! a = g" "earlier w g = take a (group_order w)"
    using expert_index_take [OF wf g] .
  have "expert_index w buf (g, e, j) < (\<Sum>h\<leftarrow>take (Suc a) (group_order w). R w buf h e)"
    using j a sum_take_Suc [OF a(1), of "\<lambda>h. R w buf h e"] by (simp add: expert_index_def)
  also have "\<dots> \<le> (\<Sum>h\<leftarrow>take (length (group_order w)) (group_order w). R w buf h e)" by (rule sum_take_mono) (use a in simp)
  also have "\<dots> = expert_total w buf e"
    using group_order_all [OF wf] by (simp add: expert_total_def sum_list_distinct_conv_sum_set)
  finally show ?thesis .
qed

lemma expert_index_inj:
  assumes wf: "a2a_wf w buf" and g: "g < num_dp_groups w" "h < num_dp_groups w" and j: "j < R w buf g e" "k < R w buf h e"
    and eq: "expert_index w buf (g, e, j) = expert_index w buf (h, e, k)"
  shows "g = h \<and> j = k"
proof -
  obtain a where a: "a < length (group_order w)" "group_order w ! a = g" "earlier w g = take a (group_order w)"
    using expert_index_take [OF wf g(1)] .
  obtain b where b: "b < length (group_order w)" "group_order w ! b = h" "earlier w h = take b (group_order w)"
    using expert_index_take [OF wf g(2)] .
  let ?S = "\<lambda>a. \<Sum>h\<leftarrow>take a (group_order w). R w buf h e"
  have "?S (Suc a) = ?S a + R w buf g e" "?S (Suc b) = ?S b + R w buf h e"
    using sum_take_Suc [OF a(1), of "\<lambda>h. R w buf h e"] sum_take_Suc [OF b(1), of "\<lambda>h. R w buf h e"] a(2) b(2) by simp_all
  moreover have "?S a + j = ?S b + k" using eq a(3) b(3) by (simp add: expert_index_def)
  moreover have "?S (Suc a) \<le> ?S b" if "a < b" by (rule sum_take_mono) (use that in simp)
  moreover have "?S (Suc b) \<le> ?S a" if "b < a" by (rule sum_take_mono) (use that in simp)
  ultimately have "a = b" using j by (cases a b rule: linorder_cases) simp_all
  then show ?thesis using a b eq by (simp add: expert_index_def)
qed

text \<open>The places of the tokens among the padded experts.\<close>

definition padded_place :: "a2a_worker \<Rightarrow> num_routed \<Rightarrow> routed_token \<Rightarrow> nat" where
  "padded_place w buf t = padded_start w buf (fst (snd t)) + expert_index w buf t"

lemma padded_start_mono: "first_local_expert w \<le> e \<Longrightarrow> e \<le> e' \<Longrightarrow> padded_start w buf e \<le> padded_start w buf e'"
  unfolding padded_start_def by (rule sum_mono2) auto

lemma padded_place_less:
  assumes wf: "a2a_wf w buf" and t: "(g, e, j) \<in> set (received w buf)"
  shows "padded_place w buf (g, e, j) < padded_start w buf (Suc e)"
proof -
  have t': "g < num_dp_groups w" "first_local_expert w \<le> e" "j < R w buf g e" using t received_iff [OF wf] by auto
  have p: "0 < aw_expert_padding w" using wf by (simp add: a2a_wf_def)
  have "expert_total w buf e \<le> div_ceil (expert_total w buf e) (aw_expert_padding w) * aw_expert_padding w"
    using div_ceil_ge [OF p] by (metis mult.commute)
  then show ?thesis using expert_index_less [OF wf t'(1,3)] t'(2) by (simp add: padded_place_def padded_start_def)
qed

lemma padded_place_inj:
  assumes wf: "a2a_wf w buf"
  shows "inj_on (padded_place w buf) (set (received w buf))"
proof (rule inj_onI)
  fix t u assume t: "t \<in> set (received w buf)" and u: "u \<in> set (received w buf)" and eq: "padded_place w buf t = padded_place w buf u"
  obtain g e j h f k where tu: "t = (g, e, j)" "u = (h, f, k)" by (cases t, cases u) auto
  have t': "g < num_dp_groups w" "first_local_expert w \<le> e" "j < R w buf g e" using t received_iff [OF wf] tu by auto
  have u': "h < num_dp_groups w" "first_local_expert w \<le> f" "k < R w buf h f" using u received_iff [OF wf] tu by auto
  have "padded_place w buf t < padded_start w buf (Suc e)" "padded_place w buf u < padded_start w buf (Suc f)"
    using padded_place_less [OF wf] t u tu by auto
  moreover have "padded_start w buf e \<le> padded_place w buf t" "padded_start w buf f \<le> padded_place w buf u"
    by (simp_all add: tu padded_place_def)
  moreover have "padded_start w buf (Suc e) \<le> padded_start w buf f" if "e < f" using that t' by (intro padded_start_mono) auto
  moreover have "padded_start w buf (Suc f) \<le> padded_start w buf e" if "f < e" using that u' by (intro padded_start_mono) auto
  ultimately have "e = f" using eq by (cases e f rule: linorder_cases) simp_all
  then show "t = u" using expert_index_inj [OF wf t'(1) u'(1), of j e k] t'(3) u'(3) eq by (simp add: tu padded_place_def)
qed

text \<open>
  \<^bold>\<open>C14.\<close> The tables handed to the device are well formed: one entry for each received token and no more of them
  than the device has room for, every source a rank at the same place of its group, and the padded positions
  distinct and inside the padded experts.
\<close>

theorem route_tables_typed:
  assumes "a2a_wf w buf" "routed_total w buf < 2 ^ 32" "length (received w buf) \<le> aw_max_recv_tokens w"
    and "padded_start w buf (last_local_expert w) < 2 ^ 32" "aw_world_size w < 2 ^ 32"
  shows "\<exists>info tables. process_routing_info w buf = Some (info, tables) \<and>
    (let n = unat (rt_num_recv_tokens tables ! 0) in
     n \<le> aw_max_recv_tokens w \<and> unat (rt_num_recv_tokens tables ! 1) \<le> n \<and> length (rt_padded_index tables) = n \<and> length (rt_source_rank tables) = n \<and>
     length (rt_source_dispatch_offset tables) = n \<and> length (rt_combine_send_offset tables) = n) \<and>
    (\<forall>x \<in> set (rt_source_rank tables). unat x < aw_world_size w \<and> unat x mod aw_dp_size w = aw_dp_rank w) \<and>
    distinct (rt_padded_index tables) \<and> (\<forall>x \<in> set (rt_padded_index tables). unat x < padded_start w buf (last_local_expert w))"
proof -
  note wf = assms(1)
  let ?T = "reference_tables w buf" and ?ts = "received w buf"
  have n: "unat (of_nat (length ?ts) :: u32) = length ?ts"
    using from_groups_le [of "num_dp_groups w" w buf "aw_rank w"] assms(2) by (intro unat_of_nat_u32) (simp add: received_length [OF wf])
  have remote: "unat (of_nat (length (filter (\<lambda>t. \<not> same_node w (fst t)) ?ts)) :: u32) \<le> length ?ts"
    by (rule le_trans [OF _ length_filter_le [of "\<lambda>t. \<not> same_node w (fst t)"]]) (simp add: unat_of_nat)
  have place: "padded_place w buf t < padded_start w buf (last_local_expert w)" if "t \<in> set ?ts" for t
  proof -
    obtain g e j where t: "t = (g, e, j)" by (cases t)
    then have "first_local_expert w \<le> Suc e" "Suc e \<le> last_local_expert w" using that received_iff [OF wf] by auto
    then show ?thesis using padded_place_less [OF wf] padded_start_mono that t less_le_trans by blast
  qed
  then have unat_place: "unat (ref_padded w buf t) = padded_place w buf t" if "t \<in> set ?ts" for t
    using that assms(4) unfolding ref_padded_def padded_place_def by (intro unat_of_nat_u32) fastforce
  then have "inj_on (ref_padded w buf) (set ?ts)" using padded_place_inj [OF wf] by (metis (mono_tags, lifting) inj_on_def)
  then have "distinct (rt_padded_index ?T)" using received_distinct [OF wf] by (simp add: reference_tables_def distinct_map)
  moreover have "unat x < aw_world_size w \<and> unat x mod aw_dp_size w = aw_dp_rank w" if "x \<in> set (rt_source_rank ?T)" for x
  proof -
    obtain g where g: "g < num_dp_groups w" "x = of_nat (peer_of w g)" using \<open>x \<in> _\<close> received_iff [OF wf] by (auto simp: reference_tables_def)
    have dp: "aw_dp_rank w < aw_dp_size w" using wf by (auto simp: a2a_wf_def)
    then have "peer_of w g < aw_world_size w" unfolding peer_of_def by (rule group_rank_less [OF wf g(1)])
    then show ?thesis using g(2) assms(5) dp by (simp add: unat_of_nat_u32) (simp add: peer_of_def)
  qed
  ultimately show ?thesis using process_routing_info_eq [OF assms(1-3)] n remote assms(3) place unat_place
    by (auto simp: reference_tables_def Let_def)
qed

theorem route_tables_typed_witness:
  "\<exists>info tables. process_routing_info (ex_worker 2) ex_routed = Some (info, tables) \<and> distinct (rt_padded_index tables)"
proof -
  have recv: "length (received (ex_worker 2) ex_routed) \<le> aw_max_recv_tokens (ex_worker 2)" by code_simp
  have "padded_start (ex_worker 2) ex_routed (last_local_expert (ex_worker 2)) = 6" by code_simp
  then have pad: "padded_start (ex_worker 2) ex_routed (last_local_expert (ex_worker 2)) < 2 ^ 32" by simp
  have "aw_world_size (ex_worker 2) < 2 ^ 32" by (simp add: ex_worker_def)
  from route_tables_typed [OF ex_wf _ recv pad this] show ?thesis unfolding ex_total by fastforce
qed

section \<open>Between ranks\<close>

text \<open>Two workers of one exchange: what all ranks are configured with is the same.\<close>

definition same_world :: "a2a_worker \<Rightarrow> a2a_worker \<Rightarrow> bool" where
  "same_world v w \<longleftrightarrow> aw_max_private_tokens v = aw_max_private_tokens w \<and> aw_hidden_dim v = aw_hidden_dim w \<and>
     aw_hidden_dim_scale v = aw_hidden_dim_scale w \<and> aw_in_elemsize v = aw_in_elemsize w \<and> aw_out_elemsize v = aw_out_elemsize w \<and>
     aw_scale_elemsize v = aw_scale_elemsize w \<and> aw_num_experts v = aw_num_experts w \<and> aw_dp_size v = aw_dp_size w \<and>
     aw_node_size v = aw_node_size w \<and> aw_world_size v = aw_world_size w \<and> aw_nets_per_gpu v = aw_nets_per_gpu w \<and>
     aw_rank_handles v = aw_rank_handles w"

lemma same_worldD:
  assumes "same_world v w"
  shows "aw_max_private_tokens v = aw_max_private_tokens w" "aw_num_experts v = aw_num_experts w" "aw_dp_size v = aw_dp_size w"
    "aw_node_size v = aw_node_size w" "aw_world_size v = aw_world_size w" "aw_rank_handles v = aw_rank_handles w"
    "aw_nets_per_gpu v = aw_nets_per_gpu w" "get_dispatch_token_dim v = get_dispatch_token_dim w" "base_offset v = base_offset w"
    "first_expert v r = first_expert w r" "before v buf g e = before w buf g e" "to_rank v buf g r = to_rank w buf g r"
    "from_groups v buf g r = from_groups w buf g r" "routed_total v buf = routed_total w buf"
  using assms by (simp_all add: same_world_def get_dispatch_token_dim_def base_offset_def first_expert_def before_def to_rank_def
      from_groups_def routed_total_def R_def)

text \<open>A write of \<open>dim\<close> bytes per token copies slot \<open>i\<close> of the source to slot \<open>i'\<close> of the destination.\<close>

definition moves :: "nat \<Rightarrow> scatter_target \<Rightarrow> nat \<Rightarrow> nat \<Rightarrow> bool" where
  "moves dim t i i' \<longleftrightarrow> unat (sc_src_offset t) \<le> dim * i \<and> dim * (i + 1) \<le> unat (sc_src_offset t) + unat (sc_length t) \<and>
     dim * i' = unat (sc_dst_offset t) + (dim * i - unat (sc_src_offset t))"

lemma movesI:
  assumes t: "sc_src_offset t = of_nat (dim * src)" "sc_length t = of_nat (dim * len)" "sc_dst_offset t = of_nat (dim * dst)"
    and b: "dim * (src + len) < 2 ^ 64" "dim * (dst + len) < 2 ^ 64" and i: "src \<le> i" "i < src + len"
  shows "moves dim t i (dst + (i - src))"
proof -
  have u: "unat (sc_src_offset t) = dim * src" "unat (sc_length t) = dim * len" "unat (sc_dst_offset t) = dim * dst"
    unfolding t by (rule unat_of_nat_u64; use b in \<open>simp add: add_mult_distrib2\<close>)+
  have "dim * (i + 1) \<le> dim * (src + len)" "dim * src \<le> dim * i" by (rule mult_le_mono2; use i in simp)+
  then show ?thesis unfolding moves_def u by (simp add: add_mult_distrib2 diff_mult_distrib2)
qed

lemma private_moves:
  assumes wf: "a2a_wf w buf" and fit: "get_dispatch_token_dim w * (base_offset w + routed_total w buf) < 2 ^ 64"
    and k: "k < to_rank w buf (aw_dp_group w) r" "k < aw_max_private_tokens w"
  shows "moves (get_dispatch_token_dim w) (private_target w buf r) (before w buf (aw_dp_group w) (first_expert w r) + k)
    (aw_max_private_tokens w * aw_dp_group w + k)"
proof -
  let ?dim = "get_dispatch_token_dim w" and ?g = "aw_dp_group w" and ?m = "aw_max_private_tokens w"
  let ?src = "before w buf ?g (first_expert w r)" and ?len = "min (to_rank w buf ?g r) ?m"
  have le: "?dim * x < 2 ^ 64" if "x \<le> base_offset w + routed_total w buf" for x
    by (rule le_less_trans [OF _ fit]) (use that in simp)
  have "?src + to_rank w buf ?g r \<le> routed_total w buf"
    using before_rank [of w buf ?g r] before_le_total [OF a2a_wfD(9) [OF wf] first_expert_le, of buf "Suc r"] by simp
  moreover have "?g * ?m + ?m \<le> base_offset w"
    using mult_le_mono1 [of "Suc ?g" "num_dp_groups w" ?m] a2a_wfD(9) [OF wf] by (simp add: base_offset_def mult.commute)
  ultimately have "?dim * (?src + ?len) < 2 ^ 64" "?dim * (?g * ?m + ?len) < 2 ^ 64" by (intro le; simp)+
  from movesI [OF _ _ _ this, of "private_target w buf r" "?src + k"] k show ?thesis
    by (simp add: private_target_def Let_def mult.commute)
qed

lemma overflow_moves:
  assumes wf: "a2a_wf w buf" and fit: "get_dispatch_token_dim w * (base_offset w + routed_total w buf) < 2 ^ 64"
    and k: "k < to_rank w buf (aw_dp_group w) r" "aw_max_private_tokens w \<le> k"
  shows "moves (get_dispatch_token_dim w) (overflow_target w buf r) (before w buf (aw_dp_group w) (first_expert w r) + k)
    (base_offset w + from_groups w buf (aw_dp_group w) r + (k - aw_max_private_tokens w))"
proof -
  let ?dim = "get_dispatch_token_dim w" and ?g = "aw_dp_group w" and ?m = "aw_max_private_tokens w"
  let ?src = "?m + before w buf ?g (first_expert w r)" and ?len = "to_rank w buf ?g r - ?m" and ?dst = "base_offset w + from_groups w buf ?g r"
  have le: "?dim * x < 2 ^ 64" if "x \<le> base_offset w + routed_total w buf" for x
    by (rule le_less_trans [OF _ fit]) (use that in simp)
  have "before w buf ?g (first_expert w r) + to_rank w buf ?g r \<le> routed_total w buf"
    using before_rank [of w buf ?g r] before_le_total [OF a2a_wfD(9) [OF wf] first_expert_le, of buf "Suc r"] by simp
  moreover have "from_groups w buf ?g r + to_rank w buf ?g r \<le> routed_total w buf"
    using from_groups_le [of "Suc ?g" w buf r] a2a_wfD(9) [OF wf] by simp
  ultimately have "?dim * (?src + ?len) < 2 ^ 64" "?dim * (?dst + ?len) < 2 ^ 64" using k by (intro le; simp)+
  from movesI [OF _ _ _ this, of "overflow_target w buf r" "before w buf ?g (first_expert w r) + k"] k show ?thesis
    by (simp add: overflow_target_def Let_def)
qed

lemma remote_group:
  assumes r: "a2a_wf r buf" and s: "a2a_wf s buf" and same: "same_world s r" and node: "rank_node s \<noteq> rank_node r"
  shows "\<not> same_node r (aw_dp_group s)" "aw_dp_group s \<noteq> aw_dp_group r" "aw_rank s < aw_world_size r"
proof -
  have "aw_dp_group s div groups_per_node s = rank_node s" by (rule dp_group_node [OF s])
  then show "\<not> same_node r (aw_dp_group s)" using node same_worldD(3,4) [OF same] by (simp add: same_node_def)
  then show "aw_dp_group s \<noteq> aw_dp_group r" using own_node [OF r] by auto
  show "aw_rank s < aw_world_size r" using s same_worldD(5) [OF same] by (simp add: a2a_wf_def)
qed

lemma received_token:
  assumes wf: "a2a_wf r buf" and i: "i < length (received r buf)"
  shows "let t = received r buf ! i in token_slot r buf t = before r buf (fst t) (first_expert r (aw_rank r)) + token_index r buf t \<and>
    token_index r buf t < to_rank r buf (fst t) (aw_rank r)"
proof -
  obtain g e j where t: "received r buf ! i = (g, e, j)" by (cases "received r buf ! i")
  then have mem: "(g, e, j) \<in> set (received r buf)" using i nth_mem by metis
  then have "first_local_expert r \<le> e" using received_iff [OF wf] by simp
  then show ?thesis using token_slot_index token_index_less [OF wf mem] a2a_wfD(11) [OF wf] by (simp add: t)
qed

lemma dispatch_slot:
  assumes wf: "a2a_wf r buf" and fit: "base_offset r + routed_total r buf < 2 ^ 32" and i: "i < length (received r buf)"
    and t: "t = received r buf ! i" and remote: "\<not> same_node r (fst t)"
  shows "unat (ref_dispatch r buf t) = (if token_index r buf t < aw_max_private_tokens r then aw_max_private_tokens r * fst t + token_index r buf t
    else base_offset r + from_groups r buf (fst t) (aw_rank r) + (token_index r buf t - aw_max_private_tokens r))"
proof -
  let ?m = "aw_max_private_tokens r" and ?k = "token_index r buf t" and ?g = "fst t"
  have g: "?g < num_dp_groups r" using i nth_mem received_iff [OF wf] t by (metis prod.collapse)
  have "?g \<noteq> aw_dp_group r" using remote own_node [OF wf] by auto
  then have ref: "ref_dispatch r buf t = (if ?k < ?m then of_nat (?m * ?g + ?k) else of_nat (base_offset r + from_groups r buf ?g (aw_rank r) + (?k - ?m)))"
    using remote by (simp add: ref_dispatch_def Let_def del: of_nat_add)
  have "?m * ?g + ?m \<le> base_offset r" using mult_le_mono2 [of "Suc ?g" "num_dp_groups r" ?m] g by (simp add: base_offset_def)
  moreover have "?k < to_rank r buf ?g (aw_rank r)" using received_token [OF wf i] t by (simp add: Let_def)
  moreover have "from_groups r buf ?g (aw_rank r) + to_rank r buf ?g (aw_rank r) \<le> routed_total r buf"
    using from_groups_le [of "Suc ?g" r buf "aw_rank r"] g by simp
  ultimately have b: "?k < ?m \<Longrightarrow> ?m * ?g + ?k < 2 ^ 32" "base_offset r + from_groups r buf ?g (aw_rank r) + (?k - ?m) < 2 ^ 32"
    using fit by linarith+
  then show ?thesis unfolding ref by (cases "?k < ?m") (simp_all only: unat_of_nat_u32 if_True if_False)
qed

text \<open>
  \<^bold>\<open>C9.\<close> A token that another node sends lands where the receiver looks for it. Take the \<open>i\<close>th received token of rank
  \<open>r\<close>, from the group of rank \<open>s\<close> on another node and at the same place of its group. The table of \<open>r\<close> names \<open>s\<close> as its
  source, and one of the writes of \<open>s\<close> into the receive buffer of \<open>r\<close>, to the private part or behind it, copies the slot of
  the token in the send buffer to the slot that the table of \<open>r\<close> gives.
\<close>

theorem dispatch_lands:
  assumes r: "a2a_wf r buf" and s: "a2a_wf s buf" and same: "same_world s r"
    and recv: "length (received r buf) \<le> aw_max_recv_tokens r" "length (received s buf) \<le> aw_max_recv_tokens s"
    and fit: "base_offset r + routed_total r buf < 2 ^ 32" "aw_world_size r < 2 ^ 32"
      "get_dispatch_token_dim r * (base_offset r + routed_total r buf) < 2 ^ 64"
    and place: "aw_dp_rank s = aw_dp_rank r" and node: "rank_node s \<noteq> rank_node r"
    and i: "i < length (received r buf)" "fst (received r buf ! i) = aw_dp_group s"
  shows "\<exists>info tables private out_info out_tables.
    process_routing_info r buf = Some (info, tables) \<and> dispatch_initial_routes s buf = Some private \<and>
    process_routing_info s buf = Some (out_info, out_tables) \<and> unat (rt_source_rank tables ! i) = aw_rank s \<and>
    (\<exists>t \<in> set (private @ ri_dispatch_ranges out_info). sc_dst_mr t = rh_recv_buffer_desc (aw_rank_handles r ! aw_rank r) \<and>
       moves (get_dispatch_token_dim r) t (token_slot r buf (received r buf ! i)) (unat (rt_source_dispatch_offset tables ! i)))"
proof -
  note eq = same_worldD [OF same]
  let ?t = "received r buf ! i" and ?me = "aw_rank r" and ?k = "token_index r buf (received r buf ! i)"
  have fit32: "routed_total r buf < 2 ^ 32" "routed_total s buf < 2 ^ 32" using fit(1) eq(14) by simp_all
  note rg = remote_group [OF r s same node]
  note slot = dispatch_slot [OF r fit(1) i(1) refl, unfolded i(2), OF rg(1)]
  have k: "?k < to_rank s buf (aw_dp_group s) ?me" "token_slot r buf ?t = before s buf (aw_dp_group s) (first_expert s ?me) + ?k"
    using received_token [OF r i(1)] i(2) eq by (simp_all add: Let_def)
  have fit64: "get_dispatch_token_dim s * (base_offset s + routed_total s buf) < 2 ^ 64" using fit(3) eq by simp
  have W: "?me < aw_world_size s" "?me div aw_node_size s \<noteq> rank_node s" "?me mod aw_dp_size s = aw_dp_rank s"
    using r node place eq by (auto simp: a2a_wf_def)
  have mr: "sc_dst_mr (private_target s buf ?me) = rh_recv_buffer_desc (aw_rank_handles r ! ?me)"
    "sc_dst_mr (overflow_target s buf ?me) = rh_recv_buffer_desc (aw_rank_handles r ! ?me)"
    using eq by (simp_all add: private_target_def overflow_target_def Let_def)
  have "\<exists>t \<in> set (map (private_target s buf) (remote_ranks s) @ ri_dispatch_ranges (reference_info s buf)).
      sc_dst_mr t = rh_recv_buffer_desc (aw_rank_handles r ! ?me) \<and>
      moves (get_dispatch_token_dim s) t (token_slot r buf ?t) (unat (ref_dispatch r buf ?t))"
  proof (cases "?k < aw_max_private_tokens r")
    case True
    then have "moves (get_dispatch_token_dim s) (private_target s buf ?me) (token_slot r buf ?t) (unat (ref_dispatch r buf ?t))"
      using private_moves [OF s fit64 k(1)] slot k(2) eq by simp
    moreover have "?me \<in> set (remote_ranks s)" using W by (simp add: remote_ranks_iff [OF s])
    ultimately show ?thesis using mr(1) by (intro bexI [of _ "private_target s buf ?me"]) auto
  next
    case False
    then have "moves (get_dispatch_token_dim s) (overflow_target s buf ?me) (token_slot r buf ?t) (unat (ref_dispatch r buf ?t))"
      using overflow_moves [OF s fit64 k(1)] slot k(2) eq by simp
    moreover have "?me \<in> set (dispatch_ranks s)" using W by (simp add: dispatch_ranks_iff [OF s])
    ultimately show ?thesis using mr(2) k(1) False eq(1)
      by (intro bexI [of _ "overflow_target s buf ?me"]) (auto simp: reference_info_def)
  qed
  moreover have "peer_of r (fst ?t) = aw_rank s" using a2a_wfD(10) [OF s] eq(3) place i(2) by (simp add: peer_of_def)
  then have "unat (of_nat (peer_of r (fst ?t)) :: u32) = aw_rank s" using rg(3) fit(2) by (simp add: unat_of_nat_u32)
  ultimately show ?thesis
    using process_routing_info_eq [OF r fit32(1) recv(1)] process_routing_info_eq [OF s fit32(2) recv(2)] dispatch_initial_routes_eq [OF s] i(1) eq(8)
    by (simp add: reference_tables_def)
qed

theorem dispatch_lands_witness:
  "\<exists>info tables private out_info out_tables.
    process_routing_info (ex_worker 2) ex_routed = Some (info, tables) \<and> dispatch_initial_routes (ex_worker 1) ex_routed = Some private \<and>
    process_routing_info (ex_worker 1) ex_routed = Some (out_info, out_tables) \<and> unat (rt_source_rank tables ! 4) = 1 \<and>
    (\<exists>t \<in> set (private @ ri_dispatch_ranges out_info). sc_dst_mr t = ex_desc 6 \<and>
       moves 64 t 3 (unat (rt_source_dispatch_offset tables ! 4)))"
proof -
  have recv: "length (received (ex_worker 2) ex_routed) \<le> aw_max_recv_tokens (ex_worker 2)"
    "length (received (ex_worker 1) ex_routed) \<le> aw_max_recv_tokens (ex_worker 1)" by code_simp+
  have same: "same_world (ex_worker 1) (ex_worker 2)" by (simp add: same_world_def ex_worker_def)
  have dims: "base_offset (ex_worker 2) = 4" "get_dispatch_token_dim (ex_worker 2) = 64" "aw_world_size (ex_worker 2) = 4" by code_simp+
  have slot: "token_slot (ex_worker 2) ex_routed (received (ex_worker 2) ex_routed ! 4) = 3" unfolding ex_received by code_simp
  have rest: "aw_dp_rank (ex_worker 1) = aw_dp_rank (ex_worker 2)" "rank_node (ex_worker 1) \<noteq> rank_node (ex_worker 2)"
    "4 < length (received (ex_worker 2) ex_routed)" "fst (received (ex_worker 2) ex_routed ! 4) = aw_dp_group (ex_worker 1)"
    "aw_rank (ex_worker 1) = 1" "rh_recv_buffer_desc (aw_rank_handles (ex_worker 2) ! aw_rank (ex_worker 2)) = ex_desc 6"
    unfolding ex_received by (simp_all add: ex_worker_def)
  show ?thesis
    using dispatch_lands [OF ex_wf ex_wf same recv _ _ _ rest(1,2,3,4)] unfolding slot rest(5,6) dims ex_total by simp
qed

lemma token_index_inj:
  assumes wf: "a2a_wf w buf" and t: "(g, e, j) \<in> set (received w buf)" "(g, f, k) \<in> set (received w buf)"
    and eq: "token_index w buf (g, e, j) = token_index w buf (g, f, k)"
  shows "e = f \<and> j = k"
proof -
  let ?S = "\<lambda>e. \<Sum>x = first_local_expert w..<e. R w buf g x"
  have b: "first_local_expert w \<le> e" "j < R w buf g e" "first_local_expert w \<le> f" "k < R w buf g f" using t received_iff [OF wf] by auto
  have "?S (Suc e) = ?S e + R w buf g e" "?S (Suc f) = ?S f + R w buf g f" using b by simp_all
  moreover have "?S (Suc e) \<le> ?S f" if "e < f" by (rule sum_mono2) (use that in auto)
  moreover have "?S (Suc f) \<le> ?S e" if "f < e" by (rule sum_mono2) (use that in auto)
  ultimately have "e = f" using eq b by (cases e f rule: linorder_cases) (simp_all add: token_index_def)
  then show ?thesis using eq by (simp add: token_index_def)
qed

lemma from_groups_mono: "g \<le> h \<Longrightarrow> from_groups w buf g r \<le> from_groups w buf h r"
  unfolding from_groups_def by (rule sum_mono2) auto

lemma dispatch_slot_inj:
  assumes wf: "a2a_wf r buf" and fit: "base_offset r + routed_total r buf < 2 ^ 32" and i: "i < length (received r buf)" "i' < length (received r buf)"
    and t: "t = received r buf ! i" "t' = received r buf ! i'" and remote: "\<not> same_node r (fst t)" "\<not> same_node r (fst t')"
    and eq: "unat (ref_dispatch r buf t) = unat (ref_dispatch r buf t')"
  shows "t = t'"
proof -
  let ?m = "aw_max_private_tokens r" and ?k = "token_index r buf" and ?f = "\<lambda>g. from_groups r buf g (aw_rank r)"
  have g: "fst x < num_dp_groups r" "?k x < to_rank r buf (fst x) (aw_rank r)" "?m * fst x + ?m \<le> base_offset r" if "x \<in> {t, t'}" for x
  proof -
    show g: "fst x < num_dp_groups r" using that i nth_mem received_iff [OF wf] t by (metis insertE prod.collapse singletonD)
    show "?k x < to_rank r buf (fst x) (aw_rank r)" using that received_token [OF wf i(1)] received_token [OF wf i(2)] t by (auto simp: Let_def)
    show "?m * fst x + ?m \<le> base_offset r" using mult_le_mono2 [of "Suc (fst x)" "num_dp_groups r" ?m] g by (simp add: base_offset_def)
  qed
  note slot = dispatch_slot [OF wf fit i(1) t(1) remote(1)] dispatch_slot [OF wf fit i(2) t(2) remote(2)]
  have "fst t = fst t' \<and> ?k t = ?k t'"
  proof (cases "?k t < ?m \<or> ?k t' < ?m")
    case True
    then have both: "?k t < ?m \<and> ?k t' < ?m" using eq slot g [of t] g [of t'] by (auto split: if_splits)
    then have e: "fst t * ?m + ?k t = fst t' * ?m + ?k t'" using eq slot by (simp add: mult.commute)
    show ?thesis using arg_cong [OF e, of "\<lambda>x. x div ?m"] arg_cong [OF e, of "\<lambda>x. x mod ?m"] both div_mod_shift by simp
  next
    case False
    then have e: "?f (fst t) + (?k t - ?m) = ?f (fst t') + (?k t' - ?m)" using eq slot by simp
    have "fst t = fst t'"
    proof (cases "fst t" "fst t'" rule: linorder_cases)
      case less
      then show ?thesis using from_groups_mono [of "Suc (fst t)" "fst t'" r buf "aw_rank r"] g(2) [of t] e False by simp linarith
    next
      case greater
      then show ?thesis using from_groups_mono [of "Suc (fst t')" "fst t" r buf "aw_rank r"] g(2) [of t'] e False by simp linarith
    qed simp
    then show ?thesis using e False by auto
  qed
  then show ?thesis using token_index_inj [OF wf, of "fst t" "fst (snd t)" "snd (snd t)" "fst (snd t')" "snd (snd t')"] i nth_mem t
    by (metis prod.collapse)
qed

text \<open>
  \<^bold>\<open>C15.\<close> No two tokens from other nodes are looked for in the same slot of the receive buffer, and all their slots lie
  in the private part or in the part behind it that holds the received tokens.
\<close>

theorem dispatch_slots_disjoint:
  assumes "a2a_wf r buf" "length (received r buf) \<le> aw_max_recv_tokens r" "base_offset r + routed_total r buf < 2 ^ 32"
  shows "\<exists>info tables. process_routing_info r buf = Some (info, tables) \<and>
    (\<forall>i < length (received r buf). \<forall>i' < length (received r buf). i \<noteq> i' \<longrightarrow>
       \<not> same_node r (fst (received r buf ! i)) \<longrightarrow> \<not> same_node r (fst (received r buf ! i')) \<longrightarrow>
       rt_source_dispatch_offset tables ! i \<noteq> rt_source_dispatch_offset tables ! i') \<and>
    (\<forall>i < length (received r buf). \<not> same_node r (fst (received r buf ! i)) \<longrightarrow>
       unat (rt_source_dispatch_offset tables ! i) < base_offset r + length (received r buf))"
proof -
  note wf = assms(1)
  have "ref_dispatch r buf (received r buf ! i) \<noteq> ref_dispatch r buf (received r buf ! i')"
    if "i < length (received r buf)" "i' < length (received r buf)" "i \<noteq> i'" "\<not> same_node r (fst (received r buf ! i))"
      "\<not> same_node r (fst (received r buf ! i'))" for i i'
    using dispatch_slot_inj [OF wf assms(3) that(1,2) refl refl that(4,5)] that(1,2,3) received_distinct [OF wf] by (auto simp: nth_eq_iff_index_eq)
  moreover have "unat (ref_dispatch r buf (received r buf ! i)) < base_offset r + length (received r buf)"
    if i: "i < length (received r buf)" "\<not> same_node r (fst (received r buf ! i))" for i
  proof -
    let ?t = "received r buf ! i"
    have g: "fst ?t < num_dp_groups r" using i(1) nth_mem received_iff [OF wf] by (metis prod.collapse)
    have "token_index r buf ?t < to_rank r buf (fst ?t) (aw_rank r)" using received_token [OF wf i(1)] by (simp add: Let_def)
    moreover have "from_groups r buf (Suc (fst ?t)) (aw_rank r) \<le> length (received r buf)"
      unfolding received_length [OF wf] by (rule from_groups_mono) (use g in simp)
    moreover have "aw_max_private_tokens r * fst ?t + aw_max_private_tokens r \<le> base_offset r"
      using mult_le_mono2 [of "Suc (fst ?t)" "num_dp_groups r" "aw_max_private_tokens r"] g by (simp add: base_offset_def)
    ultimately show ?thesis unfolding dispatch_slot [OF wf assms(3) i(1) refl i(2)] by simp linarith
  qed
  ultimately show ?thesis using process_routing_info_eq [OF wf _ assms(2)] assms(3) by (simp add: reference_tables_def)
qed

theorem dispatch_slots_disjoint_witness:
  "\<exists>info tables. process_routing_info (ex_worker 2) ex_routed = Some (info, tables) \<and>
     rt_source_dispatch_offset tables ! 1 \<noteq> rt_source_dispatch_offset tables ! 2"
proof -
  have recv: "length (received (ex_worker 2) ex_routed) \<le> aw_max_recv_tokens (ex_worker 2)" by code_simp
  have "base_offset (ex_worker 2) = 4" by code_simp
  then have fit: "base_offset (ex_worker 2) + routed_total (ex_worker 2) ex_routed < 2 ^ 32" unfolding ex_total by simp
  have "\<not> same_node (ex_worker 2) 0" "\<not> same_node (ex_worker 2) 1" by code_simp+
  then show ?thesis using dispatch_slots_disjoint [OF ex_wf recv fit] unfolding ex_received by (force simp: less_Suc_eq numeral_eq_Suc)
qed

text \<open>
  \<^bold>\<open>C10.\<close> The result of a token returns to where the token was sent from. For the \<open>i\<close>th received token of rank \<open>r\<close> and every
  rank \<open>s\<close> of its group, on another node, one of the combine writes of \<open>r\<close> into the buffer of \<open>s\<close> copies the slot that the
  table of \<open>r\<close> sends the result from to the slot the token had in the send buffer of its group.
\<close>

theorem combine_returns:
  assumes r: "a2a_wf r buf" and s: "a2a_wf s buf" and same: "same_world s r"
    and recv: "length (received r buf) \<le> aw_max_recv_tokens r" and fit: "routed_total r buf < 2 ^ 32"
      "get_combine_token_dim r * routed_total r buf < 2 ^ 64" and node: "rank_node s \<noteq> rank_node r"
    and i: "i < length (received r buf)" "fst (received r buf ! i) = aw_dp_group s"
  shows "\<exists>info tables. process_routing_info r buf = Some (info, tables) \<and>
    (\<exists>t \<in> set (ri_combine_ranges info). sc_dst_mr t = rh_recv_buffer_desc (aw_rank_handles r ! aw_rank s) \<and>
       moves (get_combine_token_dim r) t (unat (rt_combine_send_offset tables ! i)) (token_slot r buf (received r buf ! i)))"
proof -
  let ?t = "received r buf ! i" and ?g = "aw_dp_group s" and ?me = "aw_rank r" and ?dim = "get_combine_token_dim r"
  let ?x = "(aw_dp_group s, aw_dp_rank s)" and ?src = "from_groups r buf ?g ?me" and ?k = "token_index r buf ?t"
  let ?dst = "before r buf ?g (first_expert r ?me)" and ?len = "to_rank r buf ?g ?me"
  note rg = remote_group [OF r s same node]
  have g: "?g < num_dp_groups r" using i received_iff [OF r] nth_mem by (metis prod.collapse)
  have x: "?x \<in> set (combine_peers r)" using g rg(1) s same_worldD(3) [OF same] by (auto simp: combine_peers_iff [OF r] a2a_wf_def)
  have k: "?k < ?len" "token_slot r buf ?t = ?dst + ?k" using received_token [OF r i(1)] i(2) by (simp_all add: Let_def)
  have le: "?src + ?len \<le> routed_total r buf" "?dst + ?len \<le> routed_total r buf"
    using from_groups_le [of "Suc ?g" r buf ?me] g before_rank [of r buf ?g ?me] before_le_total [OF g first_expert_le, of buf "Suc ?me"] by simp_all
  have "unat (ref_combine r buf ?t) = ?src + ?k"
    using rg(1) i(2) k(1) le(1) fit(1) by (simp add: ref_combine_def unat_of_nat_u32 del: of_nat_add)
  moreover have "moves ?dim (result_target r buf ?x) (?src + ?k) (?dst + (?src + ?k - ?src))"
  proof (rule movesI)
    show "?dim * (?src + ?len) < 2 ^ 64" "?dim * (?dst + ?len) < 2 ^ 64"
      by (rule le_less_trans [OF mult_le_mono2 fit(2)], use le in simp)+
  qed (use k in \<open>simp_all add: result_target_def Let_def\<close>)
  moreover have "sc_dst_mr (result_target r buf ?x) = rh_recv_buffer_desc (aw_rank_handles r ! aw_rank s)"
    using a2a_wfD(10) [OF s] same_worldD(3) [OF same] by (simp add: result_target_def Let_def)
  ultimately have "\<exists>t \<in> set (ri_combine_ranges (reference_info r buf)). sc_dst_mr t = rh_recv_buffer_desc (aw_rank_handles r ! aw_rank s) \<and>
      moves ?dim t (unat (ref_combine r buf ?t)) (token_slot r buf ?t)"
    using x k(2) by (intro bexI [of _ "result_target r buf ?x"]) (auto simp: reference_info_def)
  then show ?thesis using process_routing_info_eq [OF r fit(1) recv] i(1) by (simp add: reference_tables_def)
qed

theorem combine_returns_witness:
  "\<exists>info tables. process_routing_info (ex_worker 2) ex_routed = Some (info, tables) \<and>
    (\<exists>t \<in> set (ri_combine_ranges info). sc_dst_mr t = ex_desc 5 \<and> moves 48 t (unat (rt_combine_send_offset tables ! 4)) 3)"
proof -
  have recv: "length (received (ex_worker 2) ex_routed) \<le> aw_max_recv_tokens (ex_worker 2)" by code_simp
  have same: "same_world (ex_worker 1) (ex_worker 2)" by (simp add: same_world_def ex_worker_def)
  have dim: "get_combine_token_dim (ex_worker 2) = 48" by code_simp
  have slot: "token_slot (ex_worker 2) ex_routed (received (ex_worker 2) ex_routed ! 4) = 3" unfolding ex_received by code_simp
  have rest: "rank_node (ex_worker 1) \<noteq> rank_node (ex_worker 2)" "4 < length (received (ex_worker 2) ex_routed)"
    "fst (received (ex_worker 2) ex_routed ! 4) = aw_dp_group (ex_worker 1)"
    "rh_recv_buffer_desc (aw_rank_handles (ex_worker 2) ! aw_rank (ex_worker 1)) = ex_desc 5"
    unfolding ex_received by (simp_all add: ex_worker_def)
  show ?thesis using combine_returns [OF ex_wf ex_wf same recv _ _ rest(1-3)] unfolding slot rest(4) dim ex_total by simp
qed

text \<open>Sizes of tokens are multiples of 16 bytes, so are the lengths of the writes.\<close>

lemma dims_16: "16 dvd get_dispatch_token_dim w" "16 dvd get_combine_token_dim w"
  by (simp_all add: get_dispatch_token_dim_def get_combine_token_dim_def Let_def dvd_add)

lemma dvd_of_nat_u64: "16 dvd n \<Longrightarrow> 16 dvd unat (of_nat n :: u64)"
  by (simp add: unat_of_nat take_bit_eq_mod dvd_mod)

text \<open>
  Sharding the bytes of a write over the network cards loses nothing: with 1, 2, 4, 8 or 16 cards the shards of every
  write behind the private buffers and of every combine write below 4 GiB cover all its bytes, since the sizes of
  tokens are rounded up to 16.
\<close>

theorem token_ranges_shard_exactly:
  assumes "a2a_wf w buf" "routed_total w buf < 2 ^ 32" "length (received w buf) \<le> aw_max_recv_tokens w" "n dvd 16" "0 < n"
  shows "\<exists>info tables. process_routing_info w buf = Some (info, tables) \<and>
    (\<forall>t \<in> set (ri_dispatch_ranges info @ ri_combine_ranges info). unat (sc_length t) < 2 ^ 32 \<longrightarrow>
       (\<exists>l. scatter_len (sc_length t) (of_nat n) = Some l \<and> n * unat l = unat (sc_length t)))"
proof -
  have n: "n < 2 ^ 32" "unat (of_nat n :: u32) = n" using assms(4) dvd_imp_le [of n 16] by (simp_all add: unat_of_nat_u32)
  have "\<exists>l. scatter_len (sc_length t) (of_nat n) = Some l \<and> n * unat l = unat (sc_length t)"
    if t: "t \<in> set (ri_dispatch_ranges (reference_info w buf) @ ri_combine_ranges (reference_info w buf))" and len: "unat (sc_length t) < 2 ^ 32" for t
  proof -
    have "16 dvd unat (sc_length t)" using t dims_16
      by (auto simp: reference_info_def overflow_target_def result_target_def Let_def simp del: of_nat_mult intro!: dvd_of_nat_u64 dvd_mult2)
    then have dvd: "n dvd unat (sc_length t)" using assms(4) dvd_trans by blast
    have "(of_nat n :: u32) \<noteq> 0" using n(2) assms(5) by fastforce
    then have "scatter_len (sc_length t) (of_nat n) = Some (ucast (sc_length t) div of_nat n)" using len by (simp add: scatter_len_def)
    moreover have "unat (ucast (sc_length t) :: u32) = unat (sc_length t)" using len by (simp add: unsigned_ucast_eq take_bit_nat_eq_self)
    ultimately show ?thesis using dvd n(2) by (simp add: unat_div)
  qed
  then show ?thesis using process_routing_info_eq [OF assms(1-3)] by simp
qed

theorem token_ranges_shard_exactly_witness:
  "\<exists>info tables. process_routing_info (ex_worker 1) ex_routed = Some (info, tables) \<and>
    (\<forall>t \<in> set (ri_dispatch_ranges info @ ri_combine_ranges info). unat (sc_length t) < 2 ^ 32 \<longrightarrow>
       (\<exists>l. scatter_len (sc_length t) (of_nat 2) = Some l \<and> 2 * unat l = unat (sc_length t)))"
proof -
  have recv: "length (received (ex_worker 1) ex_routed) \<le> aw_max_recv_tokens (ex_worker 1)" by code_simp
  show ?thesis using token_ranges_shard_exactly [OF ex_wf _ recv, of 2] unfolding ex_total by simp
qed

end
