(* ===== verification/A2A_Counts.thy ===== *)
theory A2A_Counts
  imports A2A_Props
begin

text \<open>
  The events of the steps: how many immediates the peers of a rank send to each of its counters against what it
  waits for, and how many transfers are submitted against what the barriers wait for.
\<close>

section \<open>A full step\<close>

abbreviation dispatch_events :: "a2a_worker \<Rightarrow> scatter_target list \<Rightarrow> routing_info \<Rightarrow> a2a_event list" where
  "dispatch_events w private route \<equiv>
     (if private = [] then [] else [SubmitAtomic (scatter_request w private (aw_dispatch_imm w) AllDomainsShardPeers)]) @
     [WaitImm (aw_route_imm w) (of_nat (num_dp_groups w) - 1), SetFlag NumRecvTokensFlag True] @
     (if ri_dispatch_ranges route = [] then []
      else [SubmitAtomic (scatter_request w (ri_dispatch_ranges route) (aw_dispatch_imm w) AllDomainsShardBytes)]) @
     [WaitImm (aw_dispatch_imm w) (ri_num_recv_tx route), WaitFlag DispatchRecvDone] @
     a2a_barrier w (aw_dispatch_barrier_write_op w) (aw_dispatch_barrier_imm w)
       (1 + (if private = [] then 0 else 1) + (if ri_dispatch_ranges route = [] then 0 else 1))"

abbreviation combine_events :: "a2a_worker \<Rightarrow> routing_info \<Rightarrow> a2a_event list" where
  "combine_events w route \<equiv>
     WaitFlag CombineSendDone #
     (if ri_combine_ranges route = [] then []
      else [SubmitAtomic (scatter_request w (ri_combine_ranges route) (aw_combine_imm w) AllDomainsShardBytes)]) @
     [WaitImm (aw_combine_imm w) (of_nat (aw_world_size w - aw_node_size w) * of_nat (aw_nets_per_gpu w)),
      SetFlag CombineRecvFlag True, WaitFlag CombineRecvDone] @
     a2a_barrier w (aw_combine_barrier_write_op w) (aw_combine_barrier_imm w) (1 + (if aw_world_size w > aw_node_size w then 1 else 0))"

definition full_step :: "a2a_worker \<Rightarrow> num_routed \<Rightarrow> num_routed \<Rightarrow> a2a_event list" where
  "full_step w own buf =
     [WaitFlag DispatchRouteDone, SubmitAtomic (aw_route_write_op w), WaitFlag DispatchSendDone, SetFlag TxReady False] @
     dispatch_events w (map (private_target w own) (remote_ranks w)) (reference_info w buf) @ combine_events w (reference_info w buf)"

text \<open>What a worker needs of the counts to go through a step.\<close>

definition step_ok :: "a2a_worker \<Rightarrow> num_routed \<Rightarrow> bool" where
  "step_ok w buf \<longleftrightarrow> a2a_wf w buf \<and> routed_total w buf < 2 ^ 32 \<and> length (received w buf) \<le> aw_max_recv_tokens w"

lemma node_le_world: "a2a_wf w buf \<Longrightarrow> aw_node_size w \<le> aw_world_size w"
  using a2a_wfD(3) by (auto simp: a2a_wf_def intro: dvd_imp_le)

lemma a2a_step_eq:
  assumes own: "a2a_wf w own" and ok: "step_ok w buf"
  shows "a2a_step w own buf (True, True, True) = Some (full_step w own buf)"
proof -
  have wf: "a2a_wf w buf" using ok by (simp add: step_ok_def)
  have "process_routing_info w buf = Some (reference_info w buf, reference_tables w buf)"
    using ok by (intro process_routing_info_eq) (simp_all add: step_ok_def)
  then show ?thesis using node_le_world [OF wf] a2a_wfD(3,4) [OF wf]
    by (simp add: a2a_step_def full_step_def dispatch_initial_routes_eq [OF own] Let_def)
qed

text \<open>Every flag of the device that a step waits for is raised by \<^verbatim>\<open>stop\<close>.\<close>

lemma stop_releases_flags:
  assumes "a2a_step w own buf running = Some events" "WaitFlag f \<in> set events"
  shows "SetFlag f True \<in> set a2a_stop"
proof -
  have "f \<in> {DispatchRouteDone, DispatchSendDone, DispatchRecvDone, CombineSendDone, CombineRecvDone}"
    using assms unfolding a2a_step_def
    by (auto simp: Let_def a2a_barrier_def scatter_request_def split: prod.splits if_splits option.splits bind_splits)
  then show ?thesis by (auto simp: a2a_stop_def)
qed

section \<open>Transfers and barriers\<close>

definition submits :: "a2a_event list \<Rightarrow> nat" where
  "submits events = (\<Sum>e\<leftarrow>events. case e of SubmitAtomic _ \<Rightarrow> 1 | _ \<Rightarrow> 0)"

definition awaited_tx :: "a2a_event list \<Rightarrow> nat" where
  "awaited_tx events = (\<Sum>e\<leftarrow>events. case e of WaitTx n \<Rightarrow> n | _ \<Rightarrow> 0)"

text \<open>
  The transfer counter, to which every completed transfer adds one and every barrier subtracts what it waits for; the last
  barrier returns as soon as it is not negative.
\<close>

definition barrier_returns :: "nat \<Rightarrow> a2a_event list \<Rightarrow> bool" where
  "barrier_returns completed events \<longleftrightarrow> 0 \<le> int completed - int (awaited_tx events)"

lemma tx_simps [simp]:
  "submits [] = 0" "awaited_tx [] = 0" "submits (xs @ ys) = submits xs + submits ys" "awaited_tx (xs @ ys) = awaited_tx xs + awaited_tx ys"
  "submits (e # xs) = (case e of SubmitAtomic _ \<Rightarrow> 1 | _ \<Rightarrow> 0) + submits xs"
  "awaited_tx (e # xs) = (case e of WaitTx n \<Rightarrow> n | _ \<Rightarrow> 0) + awaited_tx xs"
  by (simp_all add: submits_def awaited_tx_def)

lemma combine_ranges_empty:
  assumes wf: "a2a_wf w buf"
  shows "ri_combine_ranges (reference_info w buf) = [] \<longleftrightarrow> \<not> aw_node_size w < aw_world_size w"
proof -
  let ?N = "aw_world_size w div aw_node_size w"
  have world: "aw_world_size w = ?N * aw_node_size w" by (rule a2a_nodes(1) [OF wf])
  have pos: "0 < aw_node_size w" "0 < groups_per_node w" "0 < aw_dp_size w" using a2a_wfD [OF wf] by simp_all
  have "combine_peers w = [] \<longleftrightarrow> ?N \<le> 1" using pos by (auto simp: combine_peers_def concat_eq_Nil_conv List.product_concat_map)
  also have "\<dots> \<longleftrightarrow> \<not> aw_node_size w < aw_world_size w"
  proof (cases "?N \<le> 1")
    case True
    then have "?N * aw_node_size w \<le> 1 * aw_node_size w" by (rule mult_le_mono1)
    then show ?thesis using True world by simp
  next
    case False
    then have "1 * aw_node_size w < ?N * aw_node_size w" using pos(1) by (intro mult_strict_right_mono) auto
    then show ?thesis using False world by simp
  qed
  finally show ?thesis by (simp add: reference_info_def)
qed

lemma full_step_tx:
  assumes "a2a_wf w buf"
  shows "submits (full_step w own buf) = awaited_tx (full_step w own buf) + 1"
  using combine_ranges_empty [OF assms] by (simp add: full_step_def a2a_barrier_def)

text \<open>
  \<^bold>\<open>C13.\<close> The barriers fall behind the transfers by one in every step: the write of the routing information is submitted on the
  same counter and never waited for. After \<open>n\<close> full steps the last barrier returns exactly when all but \<open>n\<close> of the submitted
  transfers are complete, and the device is told that its send buffer is free.
\<close>

theorem barriers_fall_behind:
  assumes "\<forall>(is_running, own, buf, running) \<in> set rounds. is_running \<and> running = (True, True, True) \<and> a2a_wf w own \<and> step_ok w buf"
  shows "\<exists>events. main_loop w rounds = Some events \<and>
    (\<forall>completed. barrier_returns completed events \<longleftrightarrow> submits events \<le> completed + length rounds) \<and>
    (rounds \<noteq> [] \<longrightarrow> last events = SetFlag TxReady True)"
proof -
  have "\<exists>events. main_loop w rounds = Some events \<and> submits events = awaited_tx events + length rounds \<and>
      (rounds \<noteq> [] \<longrightarrow> events \<noteq> [] \<and> last events = SetFlag TxReady True)"
    using assms
  proof (induction rounds)
    case (Cons r rounds)
    obtain own buf where r: "r = (True, own, buf, True, True, True)" "a2a_wf w own" "step_ok w buf" using Cons.prems by (cases r) auto
    from Cons.IH Cons.prems obtain events where ev: "main_loop w rounds = Some events" "submits events = awaited_tx events + length rounds"
        "rounds \<noteq> [] \<longrightarrow> events \<noteq> [] \<and> last events = SetFlag TxReady True" by auto
    have "last (full_step w own buf) = SetFlag TxReady True" by (simp add: full_step_def a2a_barrier_def)
    moreover have "events = []" if "rounds = []" using ev(1) that by simp
    ultimately show ?case using ev full_step_tx [of w buf own] r a2a_step_eq [OF r(2,3)]
      by (auto simp: step_ok_def full_step_def last_append)
  qed simp
  then obtain events where ev: "main_loop w rounds = Some events" "submits events = awaited_tx events + length rounds"
    "rounds \<noteq> [] \<longrightarrow> last events = SetFlag TxReady True" by blast
  then show ?thesis by (intro exI [of _ events]) (auto simp: barrier_returns_def)
qed

lemma ex_step_ok: "r \<in> {1, 2} \<Longrightarrow> step_ok (ex_worker r) ex_routed"
proof -
  have "length (received (ex_worker 1) ex_routed) \<le> aw_max_recv_tokens (ex_worker 1)"
    "length (received (ex_worker 2) ex_routed) \<le> aw_max_recv_tokens (ex_worker 2)" by code_simp+
  then show "r \<in> {1, 2} \<Longrightarrow> step_ok (ex_worker r) ex_routed" using ex_wf ex_total by (auto simp: step_ok_def)
qed

theorem barriers_fall_behind_witness:
  "\<exists>events. main_loop (ex_worker 1) (replicate 3 (True, ex_routed, ex_routed, True, True, True)) = Some events \<and>
    barrier_returns (submits events - 3) events"
  using barriers_fall_behind [of "replicate 3 (True, ex_routed, ex_routed, True, True, True)" "ex_worker 1"] ex_wf [of 1] ex_step_ok [of 1]
  by auto

section \<open>Immediates\<close>

text \<open>
  The writes of a request that go to a memory region and carry its immediate, with \<open>n\<close> network cards: every shard of a scatter
  writes to each target of its range, a barrier to each of its regions once.
\<close>

definition scatter_writes :: "nat \<Rightarrow> memory_region_descriptor \<Rightarrow> scatter_transfer_request \<Rightarrow> nat" where
  "scatter_writes n mr q = (\<Sum>(i, beg, stop, shards, idx)\<leftarrow>scatter_shards q n. length (filter (\<lambda>j. sc_dst_mr (sct_dsts q ! j) = mr) [beg..<stop]))"

definition imms_sent :: "nat \<Rightarrow> u32 \<Rightarrow> memory_region_descriptor \<Rightarrow> a2a_event \<Rightarrow> nat" where
  "imms_sent n imm mr e =
     (case e of
        SubmitAtomic (ScatterReq q) \<Rightarrow> if sct_imm_data q = Some imm then scatter_writes n mr q else 0
      | SubmitAtomic (BarrierReq q) \<Rightarrow> if bt_imm_data q = imm then length (filter (\<lambda>m. m = mr) (bt_dst_mrs q)) else 0
      | _ \<Rightarrow> 0)"

definition imms_to :: "nat \<Rightarrow> u32 \<Rightarrow> memory_region_descriptor \<Rightarrow> a2a_event list \<Rightarrow> nat" where
  "imms_to n imm mr events = (\<Sum>e\<leftarrow>events. imms_sent n imm mr e)"

definition awaited_imms :: "u32 \<Rightarrow> a2a_event list \<Rightarrow> nat" where
  "awaited_imms imm events = (\<Sum>e\<leftarrow>events. case e of WaitImm i c \<Rightarrow> if i = imm then unat c else 0 | _ \<Rightarrow> 0)"

lemma imms_simps [simp]:
  "imms_to n imm mr [] = 0" "imms_to n imm mr (xs @ ys) = imms_to n imm mr xs + imms_to n imm mr ys"
  "imms_to n imm mr (e # xs) = imms_sent n imm mr e + imms_to n imm mr xs"
  "awaited_imms imm [] = 0" "awaited_imms imm (xs @ ys) = awaited_imms imm xs + awaited_imms imm ys"
  "awaited_imms imm (e # xs) = (case e of WaitImm i c \<Rightarrow> if i = imm then unat c else 0 | _ \<Rightarrow> 0) + awaited_imms imm xs"
  by (simp_all add: imms_to_def awaited_imms_def)

lemma filter_indices: "length (filter (\<lambda>j. P (xs ! j)) [0..<length xs]) = length (filter P xs)"
  by (metis (no_types, lifting) filter_cong filter_map length_map map_nth comp_apply)

lemma scatter_writes_peers:
  assumes "0 < n" "sct_domain q = AllDomainsShardPeers"
  shows "scatter_writes n mr q = length (filter (\<lambda>t. sc_dst_mr t = mr) (sct_dsts q))"
proof -
  let ?P = "\<lambda>j. sc_dst_mr (sct_dsts q ! j) = mr"
  have "scatter_writes n mr q = length (filter ?P (concat (map (\<lambda>(i, beg, stop, shards, idx). [beg..<stop]) (scatter_shards q n))))"
    by (simp add: scatter_writes_def filter_concat length_concat comp_def case_prod_unfold)
  then show ?thesis using filter_indices [of "\<lambda>t. sc_dst_mr t = mr" "sct_dsts q"] by (simp add: scatter_shards_peers [OF assms])
qed

lemma scatter_writes_bytes:
  assumes "sct_domain q = AllDomainsShardBytes"
  shows "scatter_writes n mr q = n * length (filter (\<lambda>t. sc_dst_mr t = mr) (sct_dsts q))"
  using assms filter_indices [of "\<lambda>t. sc_dst_mr t = mr" "sct_dsts q"]
  by (simp add: scatter_writes_def scatter_shards_def comp_def sum_list_triv)

lemma filter_region:
  assumes d: "distinct (map region hs)" and me: "me < length hs" and xs: "distinct xs" "set xs \<subseteq> {..<length hs}"
  shows "length (filter (\<lambda>x. region (hs ! x) = region (hs ! me)) xs) = (if me \<in> set xs then 1 else 0)"
proof -
  have "region (hs ! x) = region (hs ! me) \<longleftrightarrow> x = me" if "x \<in> set xs" for x
    using d me that xs(2) nth_eq_iff_index_eq [OF d, of x me] by auto
  then have "filter (\<lambda>x. region (hs ! x) = region (hs ! me)) xs = filter (\<lambda>x. x = me) xs" by (rule filter_cong [OF refl])
  moreover have "length (filter (\<lambda>x. x = me) xs) = card ({x \<in> set xs. x = me})"
    using distinct_card [OF distinct_filter [OF xs(1), of "\<lambda>x. x = me"]] by simp
  ultimately show ?thesis by (auto simp: conj_commute cong: conj_cong)
qed

section \<open>The requests built by the constructor\<close>

definition ring :: "nat \<Rightarrow> nat \<Rightarrow> nat list" where
  "ring rank n = map (\<lambda>i. (rank + i) mod n) [1..<n]"

lemma ring_other: "ring rank n = other_nodes rank n 1 [0]"
  by (simp add: ring_def other_nodes_def concat_map_singleton)

lemma ring_set: "rank < n \<Longrightarrow> set (ring rank n) = {x. x < n \<and> x \<noteq> rank} \<and> distinct (ring rank n)"
  unfolding ring_other using other_nodes_set [of rank n 1 "[0]"] other_nodes_distinct [of rank n 1 "[0]"] by auto

lemma foldM_skip:
  assumes "\<And>x. x \<in> set xs \<Longrightarrow> \<not> P x \<Longrightarrow> f x = Some (g x)"
  shows "foldM (\<lambda>x ys. if P x then Some ys else do { y \<leftarrow> f x; Some (ys @ [y]) }) xs acc = Some (acc @ map g (filter (\<lambda>x. \<not> P x) xs))"
  using assms by (induction xs arbitrary: acc) auto

definition route_target :: "nat \<Rightarrow> nat \<Rightarrow> a2a_rank_handle list \<Rightarrow> nat \<Rightarrow> scatter_target" where
  "route_target dp_group num_experts hs peer =
     (let len = of_nat (num_experts * 4); offset = of_nat dp_group * len in
      \<lparr>sc_dst_mr = rh_num_routed_desc (hs ! peer), sc_length = len, sc_src_offset = offset, sc_dst_offset = offset\<rparr>)"

lemma route_targets_eq:
  assumes "length hs = n" "rank < n"
  shows "route_targets rank dp_rank dp_group dp_size n E hs =
    Some (map (route_target dp_group E hs) (filter (route_peer rank dp_rank dp_group dp_size) (ring rank n)))"
proof -
  have "foldM (\<lambda>peer ys. if \<not> route_peer rank dp_rank dp_group dp_size peer then Some ys
        else do { y \<leftarrow> map_option (\<lambda>h. \<lparr>sc_dst_mr = rh_num_routed_desc h, sc_length = of_nat (E * 4),
          sc_src_offset = of_nat dp_group * of_nat (E * 4), sc_dst_offset = of_nat dp_group * of_nat (E * 4)\<rparr>) (index hs peer); Some (ys @ [y]) })
      (ring rank n) [] = Some ([] @ map (route_target dp_group E hs) (filter (\<lambda>x. \<not> \<not> route_peer rank dp_rank dp_group dp_size x) (ring rank n)))"
    by (rule foldM_skip) (use assms ring_set [OF assms(2)] in \<open>simp add: route_target_def Let_def\<close>)
  then show ?thesis by (simp add: route_targets_def ring_def foldM_map Let_def bind_map_option comp_def cong: if_cong)
qed

lemma barrier_targets_eq:
  assumes "length hs = n" "rank < n"
  shows "barrier_targets rank n hs = Some (map (\<lambda>peer. rh_recv_buffer_desc (hs ! peer)) (ring rank n))"
proof -
  have "foldM (\<lambda>peer ys. if peer = rank then Some ys else do { y \<leftarrow> map_option rh_recv_buffer_desc (index hs peer); Some (ys @ [y]) }) (ring rank n) [] =
      Some ([] @ map (\<lambda>peer. rh_recv_buffer_desc (hs ! peer)) (filter (\<lambda>x. \<not> x = rank) (ring rank n)))"
    by (rule foldM_skip) (use assms ring_set [OF assms(2)] in simp)
  moreover have "filter (\<lambda>x. \<not> x = rank) (ring rank n) = ring rank n" using ring_set [OF assms(2)] by (intro filter_True) auto
  ultimately show ?thesis by (simp add: barrier_targets_def ring_def foldM_map Let_def bind_map_option comp_def cong: if_cong)
qed

text \<open>What the constructor leaves in a worker.\<close>

lemma worker_newD:
  assumes "worker_new add args imm_base = Some (Inr w)" "length (aw_rank_handles args) = aw_world_size args" "aw_rank args < aw_world_size args"
  shows "aw_route_imm w = imm_base" "aw_dispatch_imm w = imm_base + 1" "aw_combine_imm w = imm_base + 2"
    "aw_dispatch_barrier_imm w = imm_base + 3" "aw_combine_barrier_imm w = imm_base + 4"
    "\<exists>q. aw_route_write_op w = ScatterReq q \<and> sct_imm_data q = Some imm_base \<and> sct_domain q = AllDomainsShardPeers \<and>
       sct_dsts q = map (route_target (aw_dp_group w) (aw_num_experts w) (aw_rank_handles w))
         (filter (route_peer (aw_rank w) (aw_dp_rank w) (aw_dp_group w) (aw_dp_size w)) (ring (aw_rank w) (aw_world_size w)))"
    "\<exists>q. aw_dispatch_barrier_write_op w = BarrierReq q \<and> bt_imm_data q = imm_base + 3 \<and>
       bt_dst_mrs q = map (\<lambda>peer. rh_recv_buffer_desc (aw_rank_handles w ! peer)) (ring (aw_rank w) (aw_world_size w))"
    "\<exists>q. aw_combine_barrier_write_op w = BarrierReq q \<and> bt_imm_data q = imm_base + 4 \<and>
       bt_dst_mrs q = map (\<lambda>peer. rh_recv_buffer_desc (aw_rank_handles w ! peer)) (ring (aw_rank w) (aw_world_size w))"
  using assms(1) route_targets_eq [OF assms(2,3)] barrier_targets_eq [OF assms(2,3)]
  by (auto simp: worker_new_def Let_def split: if_splits sum.splits)

lemma worker_new_keeps:
  assumes "worker_new add args imm_base = Some (Inr w)"
  shows "aw_rank_handles args = aw_rank_handles w" "aw_world_size args = aw_world_size w" "aw_rank args = aw_rank w"
    "same_world w args" "aw_dp_rank w = aw_rank w mod aw_dp_size w" "aw_dp_group w = aw_rank w div aw_dp_size w"
    "aw_expert_padding w = aw_expert_padding args" "aw_max_recv_tokens w = aw_max_recv_tokens args"
  using assms by (auto simp: worker_new_def Let_def same_world_def split: if_splits sum.splits bind_splits)

section \<open>All ranks\<close>

text \<open>The workers of an exchange, each built by the constructor with the same base of immediates.\<close>

definition exchange :: "(nat \<Rightarrow> a2a_worker) \<Rightarrow> num_routed \<Rightarrow> u32 \<Rightarrow> bool" where
  "exchange v buf imm_base \<longleftrightarrow>
     (\<forall>s < aw_world_size (v 0). step_ok (v s) buf \<and> same_world (v s) (v 0) \<and> aw_rank (v s) = s \<and>
        (\<exists>add args. worker_new add args imm_base = Some (Inr (v s)))) \<and>
     0 < aw_nets_per_gpu (v 0) \<and> aw_world_size (v 0) * (aw_nets_per_gpu (v 0) + 1) < 2 ^ 32 \<and>
     distinct (map rh_recv_buffer_desc (aw_rank_handles (v 0))) \<and> distinct (map rh_num_routed_desc (aw_rank_handles (v 0)))"

lemma exchangeD:
  assumes "exchange v buf b" "s < aw_world_size (v 0)"
  shows "a2a_wf (v s) buf" "step_ok (v s) buf" "same_world (v s) (v 0)" "aw_rank (v s) = s"
    "aw_dp_rank (v s) = s mod aw_dp_size (v 0)" "aw_dp_group (v s) = s div aw_dp_size (v 0)"
    "length (aw_rank_handles (v 0)) = aw_world_size (v 0)"
  using assms same_worldD [of "v s" "v 0"] by (auto simp: exchange_def step_ok_def a2a_wf_def)

lemma exchange_new:
  assumes "exchange v buf b" "s < aw_world_size (v 0)"
  shows "\<exists>add args. worker_new add args b = Some (Inr (v s)) \<and> length (aw_rank_handles args) = aw_world_size args \<and> aw_rank args < aw_world_size args"
proof -
  obtain add args where new: "worker_new add args b = Some (Inr (v s))" using assms unfolding exchange_def by blast
  have "length (aw_rank_handles (v s)) = aw_world_size (v s)" "aw_rank (v s) < aw_world_size (v s)"
    using exchangeD(1) [OF assms] by (auto simp: a2a_wf_def)
  then show ?thesis using new worker_new_keeps [OF new] by metis
qed

text \<open>The targets of a list of ranks that are a given rank.\<close>

lemma targets_of_rank:
  assumes T: "\<And>x. sc_dst_mr (T x) = region (hs ! f x)" and d: "distinct (map region hs)" and me: "me < length hs"
    and xs: "distinct (map f xs)" "f ` set xs \<subseteq> {..<length hs}"
  shows "length (filter (\<lambda>t. sc_dst_mr t = region (hs ! me)) (map T xs)) = (if me \<in> f ` set xs then 1 else 0)"
proof -
  have "length (filter (\<lambda>t. sc_dst_mr t = region (hs ! me)) (map T xs)) =
      length (filter (\<lambda>x. region (hs ! x) = region (hs ! me)) (map f xs))" by (simp add: filter_map comp_def T)
  then show ?thesis using filter_region [OF d me xs(1)] xs(2) by simp
qed

lemma combine_ranks:
  assumes wf: "a2a_wf w buf"
  defines "f \<equiv> \<lambda>(g, i). g * aw_dp_size w + i"
  shows "f ` set (combine_peers w) = {r. r < aw_world_size w \<and> r div aw_node_size w \<noteq> rank_node w}" "distinct (map f (combine_peers w))"
proof -
  let ?dp = "aw_dp_size w"
  have dp: "0 < ?dp" by (rule a2a_wfD(1) [OF wf])
  have node: "x div aw_node_size w = x div ?dp div groups_per_node w" for x
    using a2a_wfD(7) [OF wf] div_mult2_eq [of x ?dp "groups_per_node w"] by (simp only: mult.commute)
  show "f ` set (combine_peers w) = {r. r < aw_world_size w \<and> r div aw_node_size w \<noteq> rank_node w}"
  proof (intro equalityI subsetI)
    fix x assume "x \<in> f ` set (combine_peers w)"
    then obtain g i where gi: "g < num_dp_groups w" "\<not> same_node w g" "i < ?dp" "x = g * ?dp + i"
      by (auto simp: f_def combine_peers_iff [OF wf])
    have "x div aw_node_size w = g div groups_per_node w" using node [of x] div_mod_shift [OF gi(3)] gi(4) by simp
    then show "x \<in> {r. r < aw_world_size w \<and> r div aw_node_size w \<noteq> rank_node w}"
      using group_rank_less [OF wf gi(1,3)] gi by (simp add: same_node_def)
  next
    fix x assume x: "x \<in> {r. r < aw_world_size w \<and> r div aw_node_size w \<noteq> rank_node w}"
    then have "x < num_dp_groups w * ?dp" using a2a_wfD(6) [OF wf] by simp
    then have "x div ?dp < num_dp_groups w" by (rule less_mult_imp_div_less)
    moreover have "\<not> same_node w (x div ?dp)" using x unfolding same_node_def node [of x, symmetric] by simp
    ultimately have "(x div ?dp, x mod ?dp) \<in> set (combine_peers w)" using dp by (simp add: combine_peers_iff [OF wf])
    then show "x \<in> f ` set (combine_peers w)" by (rule rev_image_eqI) (simp add: f_def)
  qed
  have "inj_on f (set (combine_peers w))"
  proof (rule inj_onI)
    fix x y assume xy: "x \<in> set (combine_peers w)" "y \<in> set (combine_peers w)" and eq: "f x = f y"
    have "snd x < ?dp" "snd y < ?dp" using xy by (auto simp: combine_peers_iff [OF wf])
    then show "x = y" using arg_cong [OF eq, of "\<lambda>z. z div ?dp"] arg_cong [OF eq, of "\<lambda>z. z mod ?dp"] div_mod_shift
      by (cases x; cases y) (simp add: f_def)
  qed
  then show "distinct (map f (combine_peers w))" using combine_peers_iff(2) [OF wf] by (simp add: distinct_map)
qed

lemma events_imms:
  assumes "exchange v buf b" and s: "s < aw_world_size (v 0)" and n: "n = aw_nets_per_gpu (v 0)" and me: "me < aw_world_size (v 0)"
  defines "mr \<equiv> rh_recv_buffer_desc (aw_rank_handles (v 0) ! me)" and "ev \<equiv> full_step (v s) buf buf"
  shows "imms_to n b (rh_num_routed_desc (aw_rank_handles (v 0) ! me)) ev =
      (if me div aw_dp_size (v 0) \<noteq> s div aw_dp_size (v 0) \<and> me mod aw_dp_size (v 0) = s mod aw_dp_size (v 0) then 1 else 0)"
    "imms_to n (b + 1) mr ev = (if me \<in> set (remote_ranks (v s)) then 1 else 0) +
      n * (if me \<in> set (dispatch_ranks (v s)) \<and> aw_max_private_tokens (v 0) < to_rank (v 0) buf (s div aw_dp_size (v 0)) me then 1 else 0)"
    "imms_to n (b + 2) mr ev = n * (if s div aw_node_size (v 0) \<noteq> me div aw_node_size (v 0) then 1 else 0)"
    "imms_to n (b + 3) mr ev = (if me = s then 0 else 1)" "imms_to n (b + 4) mr ev = (if me = s then 0 else 1)"
proof -
  let ?w = "v s" and ?hs = "aw_rank_handles (v 0)" and ?dp = "aw_dp_size (v 0)" and ?W = "aw_world_size (v 0)"
  note ex = exchangeD [OF assms(1) s] and eq = same_worldD [OF exchangeD(3) [OF assms(1) s]]
  have n0: "0 < n" and d: "distinct (map rh_recv_buffer_desc ?hs)" "distinct (map rh_num_routed_desc ?hs)"
    using assms(1) n by (auto simp: exchange_def)
  have me': "me < length ?hs" using me ex(7) by simp
  obtain add args where new: "worker_new add args b = Some (Inr ?w)" "length (aw_rank_handles args) = aw_world_size args" "aw_rank args < aw_world_size args"
    using exchange_new [OF assms(1) s] by blast
  note nD = worker_newD [OF new]
  obtain q where q: "aw_route_write_op ?w = ScatterReq q" "sct_imm_data q = Some b" "sct_domain q = AllDomainsShardPeers"
      "sct_dsts q = map (route_target (s div ?dp) (aw_num_experts (v 0)) ?hs) (filter (route_peer s (s mod ?dp) (s div ?dp) ?dp) (ring s ?W))"
    using nD(6) unfolding ex(4,5,6) eq(2,3,5,6) by (elim exE conjE)
  obtain q3 where q3: "aw_dispatch_barrier_write_op ?w = BarrierReq q3" "bt_imm_data q3 = b + 3"
      "bt_dst_mrs q3 = map (\<lambda>p. rh_recv_buffer_desc (?hs ! p)) (ring s ?W)"
    using nD(7) unfolding ex(4) eq(5,6) by (elim exE conjE)
  obtain q4 where q4: "aw_combine_barrier_write_op ?w = BarrierReq q4" "bt_imm_data q4 = b + 4"
      "bt_dst_mrs q4 = map (\<lambda>p. rh_recv_buffer_desc (?hs ! p)) (ring s ?W)"
    using nD(8) unfolding ex(4) eq(5,6) by (elim exE conjE)
  note q34 = q3 q4
  note ring = ring_set [OF s]
  have barrier: "length (filter (\<lambda>m. m = mr) (map (\<lambda>p. rh_recv_buffer_desc (?hs ! p)) (ring s ?W))) = (if me = s then 0 else 1)"
  proof -
    have "set (ring s ?W) \<subseteq> {..<length ?hs}" "distinct (ring s ?W)" using ring ex(7) by auto
    from filter_region [OF d(1) me' this(2,1)] show ?thesis using ring me by (simp add: mr_def filter_map comp_def)
  qed
  have route: "scatter_writes n (rh_num_routed_desc (?hs ! me)) q =
      (if me div ?dp \<noteq> s div ?dp \<and> me mod ?dp = s mod ?dp then 1 else 0)"
    unfolding scatter_writes_peers [OF n0 q(3)] q(4)
    by (subst targets_of_rank [where region = rh_num_routed_desc and hs = ?hs and f = "\<lambda>x. x"])
      (use d(2) me me' ring ex(7) in \<open>auto simp: route_target_def Let_def route_peer_def\<close>)
  have privs: "length (filter (\<lambda>t. sc_dst_mr t = mr) (map (private_target ?w buf) (remote_ranks ?w))) = (if me \<in> set (remote_ranks ?w) then 1 else 0)"
    unfolding mr_def by (subst targets_of_rank [where region = rh_recv_buffer_desc and hs = ?hs and f = "\<lambda>x. x"])
      (use d(1) me' remote_ranks_iff [OF ex(1)] eq ex(7) in \<open>auto simp: private_target_def Let_def\<close>)
  have overflow: "length (filter (\<lambda>t. sc_dst_mr t = mr) (ri_dispatch_ranges (reference_info ?w buf))) =
      (if me \<in> set (dispatch_ranks ?w) \<and> aw_max_private_tokens (v 0) < to_rank (v 0) buf (s div ?dp) me then 1 else 0)"
    unfolding mr_def reference_info_def routing_info.simps
    by (subst targets_of_rank [where region = rh_recv_buffer_desc and hs = ?hs and f = "\<lambda>x. x"])
      (use d(1) me' dispatch_ranks_iff [OF ex(1)] eq ex(6,7) in \<open>auto simp: overflow_target_def Let_def\<close>)
  have results: "length (filter (\<lambda>t. sc_dst_mr t = mr) (ri_combine_ranges (reference_info ?w buf))) =
      (if s div aw_node_size (v 0) \<noteq> me div aw_node_size (v 0) then 1 else 0)"
    unfolding mr_def reference_info_def routing_info.simps
    by (subst targets_of_rank [where region = rh_recv_buffer_desc and hs = ?hs and f = "\<lambda>(g, i). g * aw_dp_size ?w + i"])
      (use d(1) me me' combine_ranks [OF ex(1)] eq ex(4,7) in \<open>auto simp: result_target_def Let_def\<close>)
  show "imms_to n b (rh_num_routed_desc (?hs ! me)) ev = (if me div ?dp \<noteq> s div ?dp \<and> me mod ?dp = s mod ?dp then 1 else 0)"
    using q(1,2) q34 route nD(1-5) by (simp add: ev_def full_step_def imms_sent_def a2a_barrier_def scatter_request_def)
  show "imms_to n (b + 3) mr ev = (if me = s then 0 else 1)" "imms_to n (b + 4) mr ev = (if me = s then 0 else 1)"
    using q(1,2) q34 barrier nD(1-5) by (simp_all add: ev_def full_step_def imms_sent_def a2a_barrier_def scatter_request_def)
  show "imms_to n (b + 1) mr ev = (if me \<in> set (remote_ranks ?w) then 1 else 0) +
      n * (if me \<in> set (dispatch_ranks ?w) \<and> aw_max_private_tokens (v 0) < to_rank (v 0) buf (s div ?dp) me then 1 else 0)"
    using q(1,2) q34 privs overflow nD(1-5) n0
    by (auto simp: ev_def full_step_def imms_sent_def a2a_barrier_def scatter_request_def scatter_writes_peers scatter_writes_bytes)
  show "imms_to n (b + 2) mr ev = n * (if s div aw_node_size (v 0) \<noteq> me div aw_node_size (v 0) then 1 else 0)"
    using q(1,2) q34 results nD(1-5)
    by (auto simp: ev_def full_step_def imms_sent_def a2a_barrier_def scatter_request_def scatter_writes_bytes)
qed

lemma sum_indicator: "(\<Sum>s<(m :: nat). if P s then c else (0 :: nat)) = c * card {s. s < m \<and> P s}"
proof -
  have "(\<Sum>s<m. if P s then c else 0) = (\<Sum>s \<in> {s. s < m \<and> P s}. c)"
    by (rule sum.mono_neutral_cong_right) auto
  then show ?thesis by simp
qed

lemma card_ranks:
  assumes "a2a_wf w buf"
  shows "card {r. r < aw_world_size w \<and> r div aw_node_size w \<noteq> rank_node w} = aw_world_size w - aw_node_size w"
proof -
  let ?N = "aw_world_size w div aw_node_size w"
  have "length (remote_ranks w) = (?N - 1) * aw_node_size w" by (simp add: remote_ranks_def length_concat comp_def sum_list_triv)
  also have "\<dots> = aw_world_size w - aw_node_size w" using a2a_nodes(1) [OF assms] by (simp add: diff_mult_distrib)
  finally show ?thesis using distinct_card [OF remote_ranks_iff(2) [OF assms]] remote_ranks_iff(1) [OF assms] by simp
qed

lemma card_groups:
  assumes wf: "a2a_wf w buf"
  shows "card {g. g < num_dp_groups w \<and> \<not> same_node w g} = num_dp_groups w - groups_per_node w"
proof -
  let ?N = "aw_world_size w div aw_node_size w" and ?n = "groups_per_node w"
  let ?L = "other_nodes (rank_node w) ?N ?n [0..<?n]"
  have sub: "set [0..<?n] \<subseteq> {..<?n}" by auto
  note n = a2a_nodes(2) [OF wf] a2a_wfD(5) [OF wf]
  have "length ?L = (?N - 1) * ?n" by (simp add: other_nodes_def length_concat comp_def sum_list_triv)
  also have "\<dots> = num_dp_groups w - ?n" using a2a_wfD(8) [OF wf] by (simp add: diff_mult_distrib)
  finally have "length ?L = num_dp_groups w - ?n" .
  moreover have "set ?L = {g. g < num_dp_groups w \<and> \<not> same_node w g}"
    unfolding other_nodes_set [OF n sub] a2a_wfD(8) [OF wf] same_node_def using n(2) by auto
  ultimately show ?thesis using distinct_card [OF other_nodes_distinct [OF n sub]] by simp
qed

text \<open>The ranks at one place of their groups, by their groups.\<close>

lemma card_place:
  assumes wf: "a2a_wf w buf" and m: "m < aw_dp_size w"
  shows "card {s. s < aw_world_size w \<and> P (s div aw_dp_size w) \<and> m = s mod aw_dp_size w} = card {g. g < num_dp_groups w \<and> P g}"
proof (rule bij_betw_same_card [symmetric], rule bij_betw_imageI)
  let ?dp = "aw_dp_size w"
  show "inj_on (\<lambda>g. g * ?dp + m) {g. g < num_dp_groups w \<and> P g}" using m by (auto intro!: inj_onI)
  show "(\<lambda>g. g * ?dp + m) ` {g. g < num_dp_groups w \<and> P g} = {s. s < aw_world_size w \<and> P (s div ?dp) \<and> m = s mod ?dp}"
  proof (intro equalityI subsetI)
    fix s assume s: "s \<in> {s. s < aw_world_size w \<and> P (s div ?dp) \<and> m = s mod ?dp}"
    then have "s div ?dp < num_dp_groups w" using a2a_wfD(6) [OF wf] by (intro less_mult_imp_div_less) simp
    then show "s \<in> (\<lambda>g. g * ?dp + m) ` {g. g < num_dp_groups w \<and> P g}" using s by (intro rev_image_eqI [of "s div ?dp"]) auto
  qed (use group_rank_less [OF wf _ m] div_mod_shift [OF m] in auto)
qed

lemma node_of_group:
  assumes wf: "a2a_wf w buf"
  shows "x div aw_node_size w = x div aw_dp_size w div groups_per_node w"
  using a2a_wfD(7) [OF wf] div_mult2_eq [of x "aw_dp_size w" "groups_per_node w"] by (simp only: mult.commute)

text \<open>What a rank waits for.\<close>

lemma awaited_full_step:
  assumes ex: "exchange v buf b" and me: "me < aw_world_size (v 0)"
  shows "awaited_imms b (full_step (v me) buf buf) = num_dp_groups (v 0) - 1"
    "awaited_imms (b + 2) (full_step (v me) buf buf) = (aw_world_size (v 0) - aw_node_size (v 0)) * aw_nets_per_gpu (v 0)"
    "awaited_imms (b + 3) (full_step (v me) buf buf) = aw_world_size (v 0) - 1" "awaited_imms (b + 4) (full_step (v me) buf buf) = aw_world_size (v 0) - 1"
    "awaited_imms (b + 1) (full_step (v me) buf buf) = unat (ri_num_recv_tx (reference_info (v me) buf))"
proof -
  let ?W = "aw_world_size (v 0)" and ?n = "aw_nets_per_gpu (v 0)" and ?G = "num_dp_groups (v 0)"
  note eq = same_worldD [OF exchangeD(3) [OF ex me]]
  obtain add args where new: "worker_new add args b = Some (Inr (v me))" "length (aw_rank_handles args) = aw_world_size args" "aw_rank args < aw_world_size args"
    using exchange_new [OF ex me] by blast
  note nD = worker_newD(1-5) [OF new]
  have fit: "?W * (?n + 1) < 2 ^ 32" using ex by (simp add: exchange_def)
  have "?G \<le> ?W" "0 < ?G" using a2a_wfD(4) [OF exchangeD(1) [OF ex me]] eq(3,5) by simp_all
  moreover have le: "?W \<le> ?W * (?n + 1)" "(?W - aw_node_size (v 0)) * ?n \<le> ?W * (?n + 1)" by (simp, rule mult_le_mono) simp_all
  ultimately have G: "0 < ?G" "?G < 2 ^ 32" "?W < 2 ^ 32" "?W - 1 < 2 ^ 32" "(?W - aw_node_size (v 0)) * ?n < 2 ^ 32" using fit by linarith+
  have w: "(of_nat ?G - 1 :: u32) = of_nat (?G - 1)"
    "(of_nat (?W - aw_node_size (v 0)) * of_nat ?n :: u32) = of_nat ((?W - aw_node_size (v 0)) * ?n)" using G(1) by (simp_all add: of_nat_diff)
  have u: "unat (of_nat ?G - 1 :: u32) = ?G - 1" "unat (of_nat (?W - 1) :: u32) = ?W - 1"
      "unat (of_nat (?W - aw_node_size (v 0)) * of_nat ?n :: u32) = (?W - aw_node_size (v 0)) * ?n"
    unfolding w by (rule unat_of_nat_u32; use G in simp)+
  note f = full_step_def a2a_barrier_def nD eq(3,4,5,7)
  show "awaited_imms b (full_step (v me) buf buf) = ?G - 1" by (simp add: f u)
  show "awaited_imms (b + 2) (full_step (v me) buf buf) = (?W - aw_node_size (v 0)) * ?n" by (simp add: f u)
  show "awaited_imms (b + 3) (full_step (v me) buf buf) = ?W - 1" "awaited_imms (b + 4) (full_step (v me) buf buf) = ?W - 1"
    using u(2) by (simp_all add: f)
  show "awaited_imms (b + 1) (full_step (v me) buf buf) = unat (ri_num_recv_tx (reference_info (v me) buf))" by (simp add: f)
qed

lemma dispatch_imms_total:
  assumes ex: "exchange v buf b" and me: "me < aw_world_size (v 0)" and n: "n = aw_nets_per_gpu (v 0)"
  shows "(\<Sum>s<aw_world_size (v 0). imms_to n (b + 1) (rh_recv_buffer_desc (aw_rank_handles (v 0) ! me)) (full_step (v s) buf buf)) +
      (num_dp_groups (v 0) - groups_per_node (v 0)) =
    awaited_imms (b + 1) (full_step (v me) buf buf) + (aw_world_size (v 0) - aw_node_size (v 0))"
proof -
  let ?W = "aw_world_size (v 0)" and ?dp = "aw_dp_size (v 0)" and ?node = "aw_node_size (v 0)" and ?G = "num_dp_groups (v 0)"
  let ?big = "\<lambda>g. \<not> same_node (v me) g \<and> aw_max_private_tokens (v 0) < to_rank (v 0) buf g me"
  note wf = exchangeD(1) [OF ex me] and eq = same_worldD [OF exchangeD(3) [OF ex me]]
  have "imms_to n (b + 1) (rh_recv_buffer_desc (aw_rank_handles (v 0) ! me)) (full_step (v s) buf buf) =
      (if s div ?node \<noteq> me div ?node then 1 else 0) + (if ?big (s div ?dp) \<and> me mod ?dp = s mod ?dp then n else 0)" if s: "s < ?W" for s
  proof -
    note exs = exchangeD [OF ex s] and eqs = same_worldD [OF exchangeD(3) [OF ex s]]
    have node: "same_node (v me) (s div ?dp) \<longleftrightarrow> s div ?node = me div ?node"
      using node_of_group [OF wf, of s] exchangeD(4) [OF ex me] eq(3,4) by (simp add: same_node_def)
    have "me \<in> set (remote_ranks (v s)) \<longleftrightarrow> s div ?node \<noteq> me div ?node"
      "me \<in> set (dispatch_ranks (v s)) \<longleftrightarrow> s div ?node \<noteq> me div ?node \<and> me mod ?dp = s mod ?dp"
      using me exs(4,5) eqs(3,4,5) by (auto simp: remote_ranks_iff [OF exs(1)] dispatch_ranks_iff [OF exs(1)])
    then show ?thesis unfolding events_imms(2) [OF ex s n me] node by auto
  qed
  then have sent: "(\<Sum>s<?W. imms_to n (b + 1) (rh_recv_buffer_desc (aw_rank_handles (v 0) ! me)) (full_step (v s) buf buf)) =
      card {s. s < ?W \<and> s div ?node \<noteq> me div ?node} + n * card {s. s < ?W \<and> ?big (s div ?dp) \<and> me mod ?dp = s mod ?dp}"
    by (simp add: sum.distrib sum_indicator)
  have ranks: "card {s. s < ?W \<and> s div ?node \<noteq> me div ?node} = ?W - ?node"
    using card_ranks [OF wf] exchangeD(4) [OF ex me] eq(4,5) by simp
  have big: "card {s. s < ?W \<and> ?big (s div ?dp) \<and> me mod ?dp = s mod ?dp} = card {g. g < ?G \<and> ?big g}"
    using card_place [OF wf, of "me mod ?dp" ?big] a2a_wfD(1) [OF wf] eq(3,5) by simp
  have groups: "card {g. g < ?G \<and> \<not> same_node (v me) g} = ?G - groups_per_node (v 0)" using card_groups [OF wf] eq(3,4,5) by simp
  have tx: "group_recv_tx (v me) g (to_rank (v me) buf g me) = of_nat ((if \<not> same_node (v me) g then 1 else 0) + (if ?big g then n else 0))" for g
    using own_node [OF wf] eq(1,7,12) n by (auto simp: group_recv_tx_def same_node_def)
  have "(\<Sum>g<?G. group_recv_tx (v me) g (to_rank (v me) buf g me)) =
      of_nat (\<Sum>g<?G. (if \<not> same_node (v me) g then 1 else 0) + (if ?big g then n else 0))" unfolding tx by simp
  then have recv: "ri_num_recv_tx (reference_info (v me) buf) = of_nat (?G - groups_per_node (v 0) + n * card {g. g < ?G \<and> ?big g})"
    using exchangeD(4) [OF ex me] eq(3,5) groups by (simp add: reference_info_def sum.distrib sum_indicator del: of_nat_sum of_nat_add)
  have "card {g. g < ?G \<and> ?big g} \<le> card {..<?G}" by (rule card_mono) auto
  also have "\<dots> \<le> ?W" by simp
  finally have "n * card {g. g < ?G \<and> ?big g} \<le> n * ?W" by (rule mult_le_mono2)
  moreover have "?G - groups_per_node (v 0) \<le> ?W" using div_le_dividend [of ?W ?dp] by linarith
  ultimately have "?G - groups_per_node (v 0) + n * card {g. g < ?G \<and> ?big g} \<le> ?W + n * ?W" by (rule add_mono [rotated])
  then have "?G - groups_per_node (v 0) + n * card {g. g < ?G \<and> ?big g} < 2 ^ 32" using ex n by (simp add: exchange_def algebra_simps)
  then show ?thesis unfolding sent ranks big awaited_full_step(5) [OF ex me] recv by (simp add: unat_of_nat_u32 del: of_nat_add)
qed

text \<open>
  \<^bold>\<open>C12.\<close> In a step of all ranks the immediates that a rank receives balance those it waits for: the announcements of the counts, the
  combine writes of the other nodes, with one immediate per network card, and both barriers. For the dispatch writes the same
  holds when groups are single ranks; otherwise every rank of a remote group writes to the private buffer, but the group
  is counted once, so that more immediates arrive than are waited for.
\<close>

theorem immediates_balance:
  assumes ex: "exchange v buf b" and me: "me < aw_world_size (v 0)" and n: "n = aw_nets_per_gpu (v 0)"
    and mr: "mr = rh_recv_buffer_desc (aw_rank_handles (v 0) ! me)" and routed: "routed = rh_num_routed_desc (aw_rank_handles (v 0) ! me)"
  shows "\<exists>ev. (\<forall>s < aw_world_size (v 0). a2a_step (v s) buf buf (True, True, True) = Some (ev s)) \<and>
    (\<Sum>s<aw_world_size (v 0). imms_to n b routed (ev s)) = awaited_imms b (ev me) \<and>
    (\<Sum>s<aw_world_size (v 0). imms_to n (b + 2) mr (ev s)) = awaited_imms (b + 2) (ev me) \<and>
    (\<Sum>s<aw_world_size (v 0). imms_to n (b + 3) mr (ev s)) = awaited_imms (b + 3) (ev me) \<and>
    (\<Sum>s<aw_world_size (v 0). imms_to n (b + 4) mr (ev s)) = awaited_imms (b + 4) (ev me) \<and>
    (\<Sum>s<aw_world_size (v 0). imms_to n (b + 1) mr (ev s)) + (num_dp_groups (v 0) - groups_per_node (v 0)) =
      awaited_imms (b + 1) (ev me) + (aw_world_size (v 0) - aw_node_size (v 0))"
proof (intro exI [of _ "\<lambda>s. full_step (v s) buf buf"] conjI allI impI)
  let ?W = "aw_world_size (v 0)" and ?dp = "aw_dp_size (v 0)" and ?node = "aw_node_size (v 0)" and ?G = "num_dp_groups (v 0)"
  note wf = exchangeD(1) [OF ex me] and eq = same_worldD [OF exchangeD(3) [OF ex me]]
  note sent = events_imms [OF ex _ n me, folded mr routed] and waits = awaited_full_step [OF ex me]
  show "a2a_step (v s) buf buf (True, True, True) = Some (full_step (v s) buf buf)" if "s < ?W" for s
    using a2a_step_eq exchangeD(1,2) [OF ex that] by blast
  have "card {s. s < ?W \<and> me div ?dp \<noteq> s div ?dp \<and> me mod ?dp = s mod ?dp} = card {g. g < ?G \<and> me div ?dp \<noteq> g}"
    using card_place [OF wf, of "me mod ?dp" "\<lambda>g. me div ?dp \<noteq> g"] a2a_wfD(1) [OF wf] eq(3,5) by simp
  moreover have "{g. g < ?G \<and> me div ?dp \<noteq> g} = {..<?G} - {me div ?dp}" by auto
  moreover have "me div ?dp < ?G" using a2a_wfD(9) [OF wf] exchangeD(6) [OF ex me] eq(3,5) by simp
  ultimately show "(\<Sum>s<?W. imms_to n b routed (full_step (v s) buf buf)) = awaited_imms b (full_step (v me) buf buf)"
    unfolding waits by (simp add: sent sum_indicator)
  have "card {s. s < ?W \<and> s div ?node \<noteq> me div ?node} = ?W - ?node" using card_ranks [OF wf] exchangeD(4) [OF ex me] eq(4,5) by simp
  then show "(\<Sum>s<?W. imms_to n (b + 2) mr (full_step (v s) buf buf)) = awaited_imms (b + 2) (full_step (v me) buf buf)"
    unfolding waits n by (simp add: sent [unfolded n] sum_indicator flip: sum_distrib_left)
  have "(\<Sum>s<?W. if me = s then 0 else 1) = (\<Sum>s \<in> {..<?W} - {me}. 1 :: nat)" by (rule sum.mono_neutral_cong_right) auto
  then have "(\<Sum>s<?W. if me = s then 0 else 1) = ?W - 1" using me by simp
  then show "(\<Sum>s<?W. imms_to n (b + 3) mr (full_step (v s) buf buf)) = awaited_imms (b + 3) (full_step (v me) buf buf)"
    "(\<Sum>s<?W. imms_to n (b + 4) mr (full_step (v s) buf buf)) = awaited_imms (b + 4) (full_step (v me) buf buf)"
    unfolding waits by (simp_all add: sent)
  show "(\<Sum>s<?W. imms_to n (b + 1) mr (full_step (v s) buf buf)) + (?G - groups_per_node (v 0)) =
      awaited_imms (b + 1) (full_step (v me) buf buf) + (?W - ?node)"
    unfolding mr by (rule dispatch_imms_total [OF ex me n])
qed

definition ex_built :: "nat \<Rightarrow> a2a_worker" where
  "ex_built s = (case worker_new (\<lambda>_. Inr (PeerGroupHandle 0)) (ex_worker s) 0 of Some (Inr w) \<Rightarrow> w | _ \<Rightarrow> ex_worker s)"

lemma ex_built_new:
  assumes "s < 4"
  shows "worker_new (\<lambda>_. Inr (PeerGroupHandle 0)) (ex_worker s) 0 = Some (Inr (ex_built s))"
proof -
  have "route_targets s (s mod 1) (s div 1) 1 4 4 (aw_rank_handles (ex_worker s)) \<noteq> None"
    "barrier_targets s 4 (aw_rank_handles (ex_worker s)) \<noteq> None"
    using assms by (simp_all add: route_targets_eq barrier_targets_eq ex_worker_def)
  then show ?thesis by (auto simp: ex_built_def worker_new_def Let_def ex_worker_def)
qed

lemma ex_built_fields: "s < 4 \<Longrightarrow> same_world (ex_built s) (ex_worker s) \<and> aw_rank (ex_built s) = s \<and> aw_dp_rank (ex_built s) = 0 \<and>
    aw_dp_group (ex_built s) = s \<and> aw_expert_padding (ex_built s) = 2 \<and> aw_max_recv_tokens (ex_built s) = 16"
  using worker_new_keeps [OF ex_built_new] by (simp add: same_world_def ex_worker_def)

lemma ex_exchange: "exchange ex_built ex_routed 0"
proof -
  have step: "step_ok (ex_built s) ex_routed" if s: "s < 4" for s
  proof -
    have "a2a_wf (ex_built s) ex_routed" using ex_built_fields [OF s] ex_wf [OF s] s
      by (auto simp: a2a_wf_def same_world_def ex_worker_def ex_routed_def)
    moreover have "routed_total (ex_built s) ex_routed = routed_total (ex_worker 1) ex_routed"
      using ex_built_fields [OF s] by (simp add: routed_total_def before_def R_def same_world_def ex_worker_def)
    moreover have "length (received (ex_built s) ex_routed) \<le> 13"
      using from_groups_le [of "num_dp_groups (ex_built s)" "ex_built s" ex_routed] received_length calculation ex_total(1) by simp
    ultimately show ?thesis using ex_built_fields [OF s] ex_total(1) by (simp add: step_ok_def)
  qed
  have "same_world (ex_built s) (ex_built 0)" if "s < 4" for s
    using ex_built_fields [OF that] ex_built_fields [of 0] by (simp add: same_world_def ex_worker_def)
  moreover have "aw_world_size (ex_built 0) = 4" "aw_nets_per_gpu (ex_built 0) = 2" "aw_rank_handles (ex_built 0) = aw_rank_handles (ex_worker 0)"
    using ex_built_fields [of 0] by (simp_all add: same_world_def ex_worker_def)
  moreover have "distinct (map rh_recv_buffer_desc (aw_rank_handles (ex_worker 0)))" "distinct (map rh_num_routed_desc (aw_rank_handles (ex_worker 0)))"
    by code_simp+
  moreover have "\<exists>add args. worker_new add args 0 = Some (Inr (ex_built s))" if "s < 4" for s using ex_built_new [OF that] by blast
  ultimately show ?thesis using step ex_built_fields by (simp add: exchange_def)
qed

theorem immediates_balance_witness:
  "\<exists>ev. (\<forall>s < 4. a2a_step (ex_built s) ex_routed ex_routed (True, True, True) = Some (ev s)) \<and>
    (\<Sum>s<4. imms_to 2 1 (ex_desc 6) (ev s)) = awaited_imms 1 (ev 2) \<and> (\<Sum>s<4. imms_to 2 3 (ex_desc 6) (ev s)) = awaited_imms 3 (ev 2)"
proof -
  have f: "aw_world_size (ex_built 0) = 4" "aw_nets_per_gpu (ex_built 0) = 2" "aw_dp_size (ex_built 0) = 1" "aw_node_size (ex_built 0) = 2"
    "rh_recv_buffer_desc (aw_rank_handles (ex_built 0) ! 2) = ex_desc 6"
    using ex_built_fields [of 0] by (simp_all add: same_world_def ex_worker_def)
  show ?thesis using immediates_balance [OF ex_exchange, of 2, OF _ refl refl refl] unfolding f by auto
qed

end
