(* ===== verification/Uvm_Watcher.thy ===== *)
theory Uvm_Watcher
  imports Pools
begin

text \<open>
  The watchers of \<^verbatim>\<open>worker.rs\<close>: 64-bit words in host memory that the GPU writes to and a thread polls. A watcher is a
  slot of one page, handed out and taken back like a slot of a pool; each change of a word in use is reported
  with its old and new value.
\<close>

section \<open>The context\<close>

text \<open>
  The words as the host reads them and the values last reported. The set of used slots is a hash set; where it
  is iterated, the order is a parameter.
\<close>

record uvm_watcher_context =
  uvm_ptr :: ptr
  uvm_size :: usize
  uvm_memory :: "u64 list"
  last_values :: "u64 list"
  free_slots :: "usize list"
  used_slots :: "usize set"

definition UVM_WATCHER_BYTES :: usize where
  "UVM_WATCHER_BYTES = 4096"

text \<open>\<open>place\<close> is where \<^verbatim>\<open>cudaHostAlloc\<close> puts the page, which is then cleared; \<open>None\<close> if it fails.\<close>

definition uvm_new :: "ptr option \<Rightarrow> uvm_watcher_context option" where
  "uvm_new place = do {
     p \<leftarrow> place;
     let num_slots = UVM_WATCHER_BYTES div 8;
     Some \<lparr>uvm_ptr = p, uvm_size = UVM_WATCHER_BYTES, uvm_memory = replicate num_slots 0, last_values = replicate num_slots 0,
       free_slots = rev [0..<num_slots], used_slots = {}\<rparr> }"

definition slot_to_id :: "uvm_watcher_context \<Rightarrow> usize \<Rightarrow> uvm_watcher_id" where
  "slot_to_id c slot = UvmWatcherId (uvm_ptr c + of_nat (8 * slot))"

definition uvm_acquire :: "uvm_watcher_context \<Rightarrow> uvm_watcher_id option \<times> uvm_watcher_context" where
  "uvm_acquire c =
     (case vec_pop (free_slots c) of
        Some (slot, rest) \<Rightarrow> (Some (slot_to_id c slot), c\<lparr>free_slots := rest, used_slots := insert slot (used_slots c)\<rparr>)
      | None \<Rightarrow> (None, c))"

text \<open>An address outside the page panics; a slot that is not used is ignored.\<close>

definition uvm_release :: "uvm_watcher_id \<Rightarrow> uvm_watcher_context \<Rightarrow> uvm_watcher_context option" where
  "uvm_release wid c =
     (let p = watcher_ptr wid in
      if p < uvm_ptr c \<or> uvm_ptr c + of_nat (uvm_size c) \<le> p then None
      else let slot = (unat p - unat (uvm_ptr c)) div 8 in
        if slot \<in> used_slots c then do {
          mem \<leftarrow> update_at slot (\<lambda>_. Some 0) (uvm_memory c);
          lasts \<leftarrow> update_at slot (\<lambda>_. Some 0) (last_values c);
          Some (c\<lparr>used_slots := used_slots c - {slot}, free_slots := free_slots c @ [slot], uvm_memory := mem, last_values := lasts\<rparr>) }
        else Some c)"

section \<open>A step of the thread\<close>

text \<open>What \<^verbatim>\<open>try_recv\<close> on a channel answers.\<close>

datatype 'c try_recv = Received 'c | RecvEmpty | RecvDisconnected

datatype uvm_watcher_call = AcquireUvmWatcher | ReleaseUvmWatcher uvm_watcher_id

datatype uvm_reply = AcquireRet "uvm_watcher_id option" | ReleaseRet

definition uvm_handle_call ::
    "ptr option \<Rightarrow> uvm_watcher_call \<Rightarrow> uvm_watcher_context option \<Rightarrow> (uvm_reply \<times> uvm_watcher_context option) option" where
  "uvm_handle_call place call ctx =
     (case call of
        AcquireUvmWatcher \<Rightarrow> do {
          c \<leftarrow> (case ctx of None \<Rightarrow> uvm_new place | Some c \<Rightarrow> Some c);
          let (result, c) = uvm_acquire c;
          Some (AcquireRet result, Some c) }
      | ReleaseUvmWatcher watcher \<Rightarrow>
          (case ctx of
             None \<Rightarrow> Some (ReleaseRet, None)
           | Some c \<Rightarrow> do { c \<leftarrow> uvm_release watcher c; Some (ReleaseRet, Some c) }))"

definition watch_slot :: "usize \<Rightarrow> transfer_completion_entry list \<times> uvm_watcher_context
    \<Rightarrow> (transfer_completion_entry list \<times> uvm_watcher_context) option" where
  "watch_slot slot = (\<lambda>(comps, c). do {
     value \<leftarrow> index (uvm_memory c) slot;
     old \<leftarrow> index (last_values c) slot;
     if value \<noteq> old
     then Some (comps @ [CUvmWatch (slot_to_id c slot) old value], c\<lparr>last_values := (last_values c)[slot := value]\<rparr>)
     else Some (comps, c) })"

definition uvm_watch :: "(usize set \<Rightarrow> usize list) \<Rightarrow> uvm_watcher_context \<Rightarrow> (transfer_completion_entry list \<times> uvm_watcher_context) option" where
  "uvm_watch iter c = foldM watch_slot (iter (used_slots c)) ([], c)"

text \<open>
  The whole step. \<open>Inl\<close> is the error that makes the thread panic: the calls are disconnected, the caller is gone
  (\<open>ret_ok\<close>) or nobody takes completions any more (\<open>cq_ok\<close>).
\<close>

definition uvm_worker_step ::
    "ptr option \<Rightarrow> (usize set \<Rightarrow> usize list) \<Rightarrow> uvm_watcher_call try_recv \<Rightarrow> bool \<Rightarrow> bool \<Rightarrow> uvm_watcher_context option
       \<Rightarrow> (unit + (uvm_reply option \<times> transfer_completion_entry list \<times> uvm_watcher_context option)) option" where
  "uvm_worker_step place iter call ret_ok cq_ok ctx = do {
     r \<leftarrow> (case call of
        Received call \<Rightarrow> do {
          (reply, ctx) \<leftarrow> uvm_handle_call place call ctx;
          Some (if ret_ok then Inr (Some reply, ctx) else Inl ()) }
      | RecvDisconnected \<Rightarrow> Some (Inl ())
      | RecvEmpty \<Rightarrow> Some (Inr (None, ctx)));
     case r of
       Inl e \<Rightarrow> Some (Inl e)
     | Inr (reply, None) \<Rightarrow> Some (Inr (reply, [], None))
     | Inr (reply, Some c) \<Rightarrow> do {
         (comps, c) \<leftarrow> uvm_watch iter c;
         Some (if comps = [] \<or> cq_ok then Inr (reply, comps, Some c) else Inl ()) } }"

section \<open>Watchers are a pool\<close>

definition uvm_wf :: "uvm_watcher_context \<Rightarrow> bool" where
  "uvm_wf c \<longleftrightarrow> unat (uvm_ptr c) + uvm_size c < 2 ^ 64 \<and> uvm_size c = 8 * length (uvm_memory c) \<and> length (last_values c) = length (uvm_memory c) \<and>
     distinct (free_slots c) \<and> set (free_slots c) \<inter> used_slots c = {} \<and> set (free_slots c) \<union> used_slots c = {..<length (uvm_memory c)} \<and>
     (\<forall>slot \<in> set (free_slots c). last_values c ! slot = 0)"

lemma uvm_new_wf: "unat p + UVM_WATCHER_BYTES < 2 ^ 64 \<Longrightarrow> uvm_new (Some p) = Some c \<Longrightarrow> uvm_wf c"
  by (auto simp: uvm_new_def uvm_wf_def UVM_WATCHER_BYTES_def Let_def)

lemma slot_ptr:
  assumes "uvm_wf c" "slot < length (uvm_memory c)"
  shows "unat (watcher_ptr (slot_to_id c slot)) = unat (uvm_ptr c) + 8 * slot"
proof -
  have "unat (uvm_ptr c) + 8 * slot < 2 ^ 64" using assms by (simp add: uvm_wf_def)
  then have "unat (of_nat (unat (uvm_ptr c) + 8 * slot) :: u64) = unat (uvm_ptr c) + 8 * slot"
    by (simp add: unat_of_nat take_bit_nat_eq_self del: of_nat_add)
  then show ?thesis by (simp add: slot_to_id_def)
qed

lemma slot_to_id_inj:
  assumes "uvm_wf c" "slot < length (uvm_memory c)" "slot' < length (uvm_memory c)" "slot_to_id c slot = slot_to_id c slot'"
  shows "slot = slot'"
proof -
  have "unat (uvm_ptr c) + 8 * slot = unat (uvm_ptr c) + 8 * slot'"
    unfolding slot_ptr [OF assms(1,2), symmetric] slot_ptr [OF assms(1,3), symmetric] assms(4) ..
  then show ?thesis by simp
qed

lemma uvm_acquire_wf:
  assumes wf: "uvm_wf c" and a: "uvm_acquire c = (Some wid, c')"
  shows "\<exists>slot. slot < length (uvm_memory c) \<and> slot \<notin> used_slots c \<and> wid = slot_to_id c slot \<and> last_values c ! slot = 0 \<and>
    used_slots c' = insert slot (used_slots c) \<and> uvm_wf c' \<and> uvm_ptr c' = uvm_ptr c \<and> uvm_memory c' = uvm_memory c \<and> last_values c' = last_values c"
proof -
  obtain slot rest where pop: "free_slots c = rest @ [slot]" "wid = slot_to_id c slot"
      "c' = c\<lparr>free_slots := rest, used_slots := insert slot (used_slots c)\<rparr>"
    using a by (auto simp: uvm_acquire_def vec_pop_Some_iff split: option.splits)
  show ?thesis using wf unfolding uvm_wf_def pop by (intro exI [of _ slot]) auto
qed

lemma uvm_release_slot:
  assumes wf: "uvm_wf c" and slot: "slot \<in> used_slots c"
  shows "uvm_release (slot_to_id c slot) c = Some (c\<lparr>used_slots := used_slots c - {slot}, free_slots := free_slots c @ [slot],
    uvm_memory := (uvm_memory c)[slot := 0], last_values := (last_values c)[slot := 0]\<rparr>)"
proof -
  have less: "slot < length (uvm_memory c)" "length (last_values c) = length (uvm_memory c)" using assms by (auto simp: uvm_wf_def)
  note p = slot_ptr [OF wf less(1)]
  have size: "unat (uvm_ptr c + of_nat (uvm_size c)) = unat (uvm_ptr c) + uvm_size c"
  proof -
    have "unat (of_nat (unat (uvm_ptr c) + uvm_size c) :: u64) = unat (uvm_ptr c) + uvm_size c"
      using wf by (simp add: uvm_wf_def unat_of_nat take_bit_nat_eq_self del: of_nat_add)
    then show ?thesis by simp
  qed
  have "\<not> watcher_ptr (slot_to_id c slot) < uvm_ptr c" "\<not> uvm_ptr c + of_nat (uvm_size c) \<le> watcher_ptr (slot_to_id c slot)"
    using p size less(1) wf by (simp_all add: word_less_nat_alt word_le_nat_alt uvm_wf_def)
  moreover have "(unat (watcher_ptr (slot_to_id c slot)) - unat (uvm_ptr c)) div 8 = slot" using p by simp
  ultimately show ?thesis using slot less by (simp add: uvm_release_def Let_def update_at_def)
qed

definition uvm_alloc :: "uvm_watcher_context \<Rightarrow> (uvm_watcher_id \<times> uvm_watcher_context) option" where
  "uvm_alloc c = (case uvm_acquire c of (Some wid, c) \<Rightarrow> Some (wid, c) | (None, _) \<Rightarrow> None)"

definition uvm_free :: "uvm_watcher_id \<Rightarrow> uvm_watcher_context \<Rightarrow> uvm_watcher_context" where
  "uvm_free wid c = (case uvm_release wid c of Some c' \<Rightarrow> c' | None \<Rightarrow> c)"

definition uvm_inv :: "uvm_watcher_context \<Rightarrow> uvm_watcher_id set \<Rightarrow> bool" where
  "uvm_inv c L \<longleftrightarrow> uvm_wf c \<and> L = slot_to_id c ` used_slots c"

lemma slot_to_id_ptr: "uvm_ptr c' = uvm_ptr c \<Longrightarrow> slot_to_id c' = slot_to_id c"
  by (simp add: slot_to_id_def fun_eq_iff)

lemma used_less: "uvm_wf c \<Longrightarrow> slot \<in> used_slots c \<Longrightarrow> slot < length (uvm_memory c)"
  by (auto simp: uvm_wf_def)

interpretation uvm: slot_pool uvm_alloc uvm_free uvm_inv
proof unfold_locales
  fix c L wid c' assume inv: "uvm_inv c L" and a: "uvm_alloc c = Some (wid, c')"
  have wf: "uvm_wf c" using inv by (simp add: uvm_inv_def)
  have "uvm_acquire c = (Some wid, c')" using a by (auto simp: uvm_alloc_def split: prod.splits option.splits)
  from uvm_acquire_wf [OF wf this] obtain slot where s: "slot < length (uvm_memory c)" "slot \<notin> used_slots c" "wid = slot_to_id c slot"
    "used_slots c' = insert slot (used_slots c)" "uvm_wf c'" "uvm_ptr c' = uvm_ptr c" by blast
  have "wid \<notin> L" using inv s(1,2,3) slot_to_id_inj [OF wf] used_less [OF wf] by (auto simp: uvm_inv_def)
  then show "wid \<notin> L \<and> uvm_inv c' (insert wid L)" using inv s slot_to_id_ptr [OF s(6)] by (simp add: uvm_inv_def)
next
  fix c L wid assume inv: "uvm_inv c L" and wid: "wid \<in> L"
  have wf: "uvm_wf c" using inv by (simp add: uvm_inv_def)
  obtain slot where s: "slot \<in> used_slots c" "wid = slot_to_id c slot" using inv wid by (auto simp: uvm_inv_def)
  let ?c = "c\<lparr>used_slots := used_slots c - {slot}, free_slots := free_slots c @ [slot],
    uvm_memory := (uvm_memory c)[slot := 0], last_values := (last_values c)[slot := 0]\<rparr>"
  have free: "uvm_free wid c = ?c" by (simp add: uvm_free_def s(2) uvm_release_slot [OF wf s(1)])
  have less: "slot < length (uvm_memory c)" by (rule used_less [OF wf s(1)])
  have "last_values c ! x = 0" if "x \<in> set (free_slots c)" for x using wf that by (simp add: uvm_wf_def)
  then have "uvm_wf ?c" using wf s(1) less unfolding uvm_wf_def by (auto simp: nth_list_update)
  moreover have "slot_to_id c ` (used_slots c - {slot}) = L - {wid}"
    using inv s slot_to_id_inj [OF wf] used_less [OF wf] by (auto simp: uvm_inv_def)
  ultimately show "uvm_inv (uvm_free wid c) (L - {wid})" unfolding free using slot_to_id_ptr [of ?c c] by (simp add: uvm_inv_def)
qed

section \<open>Reports\<close>

text \<open>The changes in a list of samples, from a first value on.\<close>

fun changes :: "u64 \<Rightarrow> u64 list \<Rightarrow> (u64 \<times> u64) list" where
  "changes a [] = []"
| "changes a (v # vs) = (if v = a then changes a vs else (a, v) # changes v vs)"

definition reports :: "uvm_watcher_id \<Rightarrow> transfer_completion_entry list \<Rightarrow> (u64 \<times> u64) list" where
  "reports wid comps = concat (map (\<lambda>comp. case comp of CUvmWatch w old new \<Rightarrow> if w = wid then [(old, new)] else [] | _ \<Rightarrow> []) comps)"

text \<open>Steps without calls, between which the GPU may have written the words: \<open>mems\<close> are their contents at each step.\<close>

fun uvm_polls :: "(usize set \<Rightarrow> usize list) \<Rightarrow> u64 list list \<Rightarrow> uvm_watcher_context \<Rightarrow> (transfer_completion_entry list \<times> uvm_watcher_context) option" where
  "uvm_polls iter [] c = Some ([], c)"
| "uvm_polls iter (mem # mems) c = do {
     r \<leftarrow> uvm_worker_step None iter RecvEmpty True True (Some (c\<lparr>uvm_memory := mem\<rparr>));
     case r of
       Inr (_, comps, Some c) \<Rightarrow> do { (rest, c) \<leftarrow> uvm_polls iter mems c; Some (comps @ rest, c) }
     | _ \<Rightarrow> None }"

lemma reports_append [simp]: "reports wid (xs @ ys) = reports wid xs @ reports wid ys"
  by (simp add: reports_def)

text \<open>One step: the slots of a list of used ones are reported if they changed, once each.\<close>

lemma watch_slots:
  assumes "length (uvm_memory c) = n" "length (last_values c) = n" "distinct slots" "set slots \<subseteq> {..<n}" "inj_on (slot_to_id c) {..<n}"
  shows "\<exists>comps'. foldM watch_slot slots (comps, c) = Some (comps @ comps', c\<lparr>last_values := map (\<lambda>i. if i \<in> set slots then uvm_memory c ! i else last_values c ! i) [0..<n]\<rparr>) \<and>
    (\<forall>i < n. reports (slot_to_id c i) comps' = (if i \<in> set slots then changes (last_values c ! i) [uvm_memory c ! i] else []))"
  using assms
proof (induction slots arbitrary: c comps)
  case Nil
  then have "map (\<lambda>i. last_values c ! i) [0..<n] = last_values c" using map_nth [of "last_values c"] by simp
  then show ?case by (simp add: reports_def)
next
  case (Cons s slots)
  have s: "s < n" "s \<notin> set slots" using Cons.prems by auto
  define c1 where "c1 = c\<lparr>last_values := (last_values c)[s := uvm_memory c ! s]\<rparr>"
  define e where "e = (if uvm_memory c ! s = last_values c ! s then [] else [CUvmWatch (slot_to_id c s) (last_values c ! s) (uvm_memory c ! s)])"
  have same: "slot_to_id c1 = slot_to_id c" by (rule slot_to_id_ptr) (simp add: c1_def)
  have "(last_values c)[s := uvm_memory c ! s] = last_values c" if "uvm_memory c ! s = last_values c ! s" by (simp add: that)
  then have step: "watch_slot s (comps, c) = Some (comps @ e, c1)" using s Cons.prems by (simp add: watch_slot_def e_def c1_def)
  obtain comps' where IH: "foldM watch_slot slots (comps @ e, c1) = Some ((comps @ e) @ comps',
        c1\<lparr>last_values := map (\<lambda>i. if i \<in> set slots then uvm_memory c1 ! i else last_values c1 ! i) [0..<n]\<rparr>)"
      "\<forall>i < n. reports (slot_to_id c1 i) comps' = (if i \<in> set slots then changes (last_values c1 ! i) [uvm_memory c1 ! i] else [])"
    using Cons.IH [of c1 "comps @ e"] Cons.prems same by (auto simp: c1_def)
  have lasts: "map (\<lambda>i. if i \<in> set slots then uvm_memory c1 ! i else last_values c1 ! i) [0..<n] =
      map (\<lambda>i. if i \<in> set (s # slots) then uvm_memory c ! i else last_values c ! i) [0..<n]"
    using s Cons.prems by (auto simp: c1_def nth_list_update)
  have reps: "reports (slot_to_id c i) (e @ comps') = (if i \<in> set (s # slots) then changes (last_values c ! i) [uvm_memory c ! i] else [])"
    if i: "i < n" for i
  proof -
    have "slot_to_id c s = slot_to_id c i \<longleftrightarrow> s = i" using Cons.prems(5) s(1) i by (auto dest: inj_onD)
    then have "reports (slot_to_id c i) e = (if i = s then changes (last_values c ! i) [uvm_memory c ! i] else [])"
      by (auto simp: e_def reports_def)
    moreover have "last_values c1 ! i = last_values c ! i" if "i \<in> set slots"
    proof -
      have "i \<noteq> s" using that s(2) by blast
      then show ?thesis by (simp add: c1_def)
    qed
    ultimately show ?thesis using IH(2) i s(2) same by (auto simp: c1_def)
  qed
  show ?case using step IH(1) lasts reps by (intro exI [of _ "e @ comps'"]) (simp add: c1_def)
qed

text \<open>The words that changed in a step are those reported, and the values reported are the new ones.\<close>

lemma uvm_watch_step:
  assumes wf: "uvm_wf c" and mem: "length mem = length (uvm_memory c)" and iter: "\<And>S. finite S \<Longrightarrow> distinct (iter S) \<and> set (iter S) = S"
  shows "\<exists>comps lasts. uvm_worker_step None iter RecvEmpty True True (Some (c\<lparr>uvm_memory := mem\<rparr>)) =
      Some (Inr (None, comps, Some (c\<lparr>uvm_memory := mem, last_values := lasts\<rparr>))) \<and> uvm_wf (c\<lparr>uvm_memory := mem, last_values := lasts\<rparr>) \<and>
    (\<forall>i \<in> used_slots c. lasts ! i = mem ! i \<and> reports (slot_to_id c i) comps = changes (last_values c ! i) [mem ! i])"
proof -
  let ?c = "c\<lparr>uvm_memory := mem\<rparr>" and ?n = "length (uvm_memory c)"
  let ?lasts = "map (\<lambda>i. if i \<in> used_slots c then mem ! i else last_values c ! i) [0..<?n]"
  have used: "used_slots c \<subseteq> {..<?n}" "finite (used_slots c)"
    using used_less [OF wf] finite_subset [of "used_slots c" "{..<?n}"] by auto
  note it = iter [OF used(2)]
  have same: "slot_to_id ?c = slot_to_id c" by (rule slot_to_id_ptr) simp
  have inj: "inj_on (slot_to_id ?c) {..<?n}" unfolding same by (rule inj_onI) (use slot_to_id_inj [OF wf] in auto)
  obtain comps where w: "foldM watch_slot (iter (used_slots c)) ([], ?c) = Some (comps, ?c\<lparr>last_values := ?lasts\<rparr>)"
      "\<forall>i < ?n. reports (slot_to_id c i) comps = (if i \<in> used_slots c then changes (last_values c ! i) [mem ! i] else [])"
    using watch_slots [of ?c ?n "iter (used_slots c)" "[]"] mem wf it used(1) inj unfolding same by (auto simp: uvm_wf_def)
  have "?lasts ! i = 0" if i: "i \<in> set (free_slots c)" for i
  proof -
    have "i < ?n" "i \<notin> used_slots c" "last_values c ! i = 0" using i wf unfolding uvm_wf_def by blast+
    then show ?thesis by simp
  qed
  then have "uvm_wf (?c\<lparr>last_values := ?lasts\<rparr>)" using wf mem by (simp add: uvm_wf_def)
  moreover have "?lasts ! i = mem ! i \<and> reports (slot_to_id c i) comps = changes (last_values c ! i) [mem ! i]" if "i \<in> used_slots c" for i
    using that used(1) w(2) by auto
  ultimately show ?thesis using w(1) by (intro exI [of _ comps] exI [of _ ?lasts]) (simp add: uvm_worker_step_def uvm_watch_def)
qed

lemma uvm_polls_reports:
  assumes "uvm_wf c" "\<forall>mem \<in> set mems. length mem = length (uvm_memory c)" "\<And>S. finite S \<Longrightarrow> distinct (iter S) \<and> set (iter S) = S"
  shows "\<exists>comps c'. uvm_polls iter mems c = Some (comps, c') \<and> uvm_wf c' \<and> uvm_ptr c' = uvm_ptr c \<and> used_slots c' = used_slots c \<and>
    (\<forall>i \<in> used_slots c. reports (slot_to_id c i) comps = changes (last_values c ! i) (map (\<lambda>mem. mem ! i) mems))"
  using assms(1,2)
proof (induction mems arbitrary: c)
  case (Cons mem mems)
  from uvm_watch_step [OF Cons.prems(1) _ assms(3), of mem] Cons.prems(2) obtain comps lasts where
    w: "uvm_worker_step None iter RecvEmpty True True (Some (c\<lparr>uvm_memory := mem\<rparr>)) = Some (Inr (None, comps, Some (c\<lparr>uvm_memory := mem, last_values := lasts\<rparr>)))"
      "uvm_wf (c\<lparr>uvm_memory := mem, last_values := lasts\<rparr>)"
      "\<forall>i \<in> used_slots c. lasts ! i = mem ! i \<and> reports (slot_to_id c i) comps = changes (last_values c ! i) [mem ! i]" by auto
  let ?c = "c\<lparr>uvm_memory := mem, last_values := lasts\<rparr>"
  have same: "slot_to_id ?c = slot_to_id c" by (rule slot_to_id_ptr) simp
  have len: "\<forall>m \<in> set mems. length m = length (uvm_memory ?c)" using Cons.prems(2) by simp
  obtain rest c' where IH: "uvm_polls iter mems ?c = Some (rest, c')" "uvm_wf c'" "uvm_ptr c' = uvm_ptr ?c" "used_slots c' = used_slots ?c"
      "\<forall>i \<in> used_slots ?c. reports (slot_to_id ?c i) rest = changes (last_values ?c ! i) (map (\<lambda>mem. mem ! i) mems)"
    using Cons.IH [OF w(2) len] by blast
  have "reports (slot_to_id c i) (comps @ rest) = changes (last_values c ! i) (map (\<lambda>mem. mem ! i) (mem # mems))" if i: "i \<in> used_slots c" for i
  proof -
    have "reports (slot_to_id c i) rest = changes (mem ! i) (map (\<lambda>mem. mem ! i) mems)"
      using IH(5) i w(3) unfolding same by simp
    moreover have "reports (slot_to_id c i) comps = changes (last_values c ! i) [mem ! i]" using w(3) i by blast
    ultimately show ?thesis by simp
  qed
  then show ?case using w(1) IH(1,2,3,4) by simp
qed (simp add: reports_def)

text \<open>
  \<^bold>\<open>C27.\<close> A watcher reports exactly the changes of its word. After it is acquired, whatever the GPU writes between the steps of
  the thread and whatever the order in which the used slots are visited, the reports for it are the changes of the
  sampled values, starting from zero: none is lost, repeated or out of order.
\<close>

theorem uvm_watcher_reports_changes:
  assumes wf: "uvm_wf c" and acq: "uvm_acquire c = (Some wid, c1)" and mems: "\<forall>mem \<in> set mems. length mem = length (uvm_memory c)"
    and iter: "\<And>S. finite S \<Longrightarrow> distinct (iter S) \<and> set (iter S) = S"
  shows "\<exists>slot comps c'. slot < length (uvm_memory c) \<and> slot \<notin> used_slots c \<and> wid = slot_to_id c slot \<and> uvm_polls iter mems c1 = Some (comps, c') \<and> uvm_wf c' \<and>
    reports wid comps = changes 0 (map (\<lambda>mem. mem ! slot) mems)"
proof -
  obtain slot where s: "slot \<notin> used_slots c" "wid = slot_to_id c slot" "last_values c ! slot = 0" "used_slots c1 = insert slot (used_slots c)"
      "uvm_wf c1" "uvm_ptr c1 = uvm_ptr c" "uvm_memory c1 = uvm_memory c" "last_values c1 = last_values c"
      "slot < length (uvm_memory c)"
    using uvm_acquire_wf [OF wf acq] by blast
  from uvm_polls_reports [OF s(5) _ iter, of mems] mems obtain comps c' where p: "uvm_polls iter mems c1 = Some (comps, c')" "uvm_wf c'"
      "\<forall>i \<in> used_slots c1. reports (slot_to_id c1 i) comps = changes (last_values c1 ! i) (map (\<lambda>mem. mem ! i) mems)"
    using s(7) by auto
  then show ?thesis using s slot_to_id_ptr [OF s(6)] by auto
qed

theorem uvm_watcher_reports_changes_witness:
  "\<exists>c wid c1. uvm_new (Some 4096) = Some c \<and> uvm_acquire c = (Some wid, c1) \<and>
    (\<exists>comps c'. uvm_polls sorted_list_of_set [replicate 512 0, replicate 512 3, replicate 512 3, replicate 512 1] c1 = Some (comps, c') \<and>
      reports wid comps = [(0, 3), (3, 1)])"
proof -
  obtain c where c: "uvm_new (Some 4096) = Some c" "length (uvm_memory c) = 512" "free_slots c = rev [0..<512]"
    by (simp add: uvm_new_def UVM_WATCHER_BYTES_def Let_def)
  have wf: "uvm_wf c" by (rule uvm_new_wf [OF _ c(1)]) (simp add: UVM_WATCHER_BYTES_def)
  have "free_slots c \<noteq> []" by (simp add: c(3))
  then obtain wid c1 where a: "uvm_acquire c = (Some wid, c1)" by (simp add: uvm_acquire_def vec_pop_def)
  let ?mems = "[replicate 512 0, replicate 512 3, replicate 512 3, replicate 512 (1 :: u64)]"
  have "\<exists>slot comps c'. slot < length (uvm_memory c) \<and> slot \<notin> used_slots c \<and> wid = slot_to_id c slot \<and>
      uvm_polls sorted_list_of_set ?mems c1 = Some (comps, c') \<and> uvm_wf c' \<and> reports wid comps = changes 0 (map (\<lambda>mem. mem ! slot) ?mems)"
    by (rule uvm_watcher_reports_changes [OF wf a]) (simp_all add: c(2))
  then obtain slot comps c' where r: "slot < 512" "uvm_polls sorted_list_of_set ?mems c1 = Some (comps, c')"
    "reports wid comps = changes 0 (map (\<lambda>mem. mem ! slot) ?mems)" unfolding c(2) by blast
  then have "reports wid comps = [(0, 3), (3, 1)]" by simp
  then show ?thesis using c(1) a r(2) by blast
qed

end
