(* ===== verification/Worker.thy ===== *)
theory Worker
  imports Domain_Group Uvm_Watcher
begin

text \<open>
  The worker thread of \<^verbatim>\<open>worker.rs\<close>: it owns the domain group of one GPU, answers calls, takes commands, polls the
  domains and hands the completions on. Its channels are the arguments and results of a step.
\<close>

section \<open>Commands and calls\<close>

datatype worker_command =
    CmdTransfer transfer_id transfer_request "transfer_counter option"
  | CmdSend transfer_id memory_region_handle ptr usize domain_address
  | CmdRecv transfer_id memory_region_handle ptr usize

datatype worker_call =
    CallRegisterLocal memory_region
  | CallRegisterRemote memory_region
  | CallUnregisterMR ptr
  | CallAddPeerGroup "domain_address list list"

datatype worker_reply =
    RegisterLocalRet "memory_region_handle result"
  | RegisterRemoteRet "(memory_region_handle \<times> memory_region_descriptor) result"
  | UnregisterMRRet
  | AddPeerGroupRet "peer_group_handle result"

definition worker_handle_call ::
    "'d rdma_domain_ops \<Rightarrow> worker_call \<Rightarrow> 'd domain_group \<Rightarrow> (worker_reply \<times> 'd domain_group) option" where
  "worker_handle_call ops call g =
     (case call of
        CallRegisterLocal region \<Rightarrow> (let (result, g) = register_mr_local ops region g in Some (RegisterLocalRet result, g))
      | CallRegisterRemote region \<Rightarrow> (let (result, g) = register_mr_allow_remote ops region g in Some (RegisterRemoteRet result, g))
      | CallUnregisterMR p \<Rightarrow> Some (UnregisterMRRet, unregister_mr ops p g)
      | CallAddPeerGroup addrs \<Rightarrow> do { (result, g) \<leftarrow> add_peer_group ops addrs g; Some (AddPeerGroupRet result, g) })"

text \<open>A command that is refused is reported as an error of its transfer; one that is accepted is not reported yet.\<close>

definition refused :: "transfer_id \<Rightarrow> unit result \<times> 'd domain_group \<Rightarrow> transfer_completion_entry list \<times> 'd domain_group" where
  "refused tid = (\<lambda>(result, g). (case result of Inl e \<Rightarrow> [CError tid e] | Inr _ \<Rightarrow> [], g))"

definition worker_handle_command ::
    "'d rdma_domain_ops \<Rightarrow> worker_command \<Rightarrow> 'd domain_group \<Rightarrow> (transfer_completion_entry list \<times> 'd domain_group) option" where
  "worker_handle_command ops cmd g =
     (case cmd of
        CmdTransfer tid request tx_counter \<Rightarrow> map_option (refused tid) (submit_transfer_request ops tid request tx_counter g)
      | CmdSend tid mr p len addr \<Rightarrow> map_option (refused tid) (group_submit_send ops tid mr p len addr g)
      | CmdRecv tid mr p len \<Rightarrow> map_option (refused tid) (group_submit_recv ops tid mr p len g))"

section \<open>A step\<close>

fun transfer_completion_of :: "domain_completion_entry \<Rightarrow> transfer_completion_entry" where
  "transfer_completion_of (DRecv transfer_id data_len) = CRecv transfer_id data_len"
| "transfer_completion_of (DSend transfer_id) = CSend transfer_id"
| "transfer_completion_of (DTransfer transfer_id) = CTransfer transfer_id"
| "transfer_completion_of (DImmData imm) = CImmData imm"
| "transfer_completion_of (DImmCountReached imm) = CImmCountReached imm"
| "transfer_completion_of (DError transfer_id err) = CError transfer_id err"

text \<open>The loop over the completions of the group: not returning is \<open>None\<close>.\<close>

partial_function (option) worker_drain ::
    "'d rdma_domain_ops \<Rightarrow> 'd domain_group \<Rightarrow> store \<Rightarrow> (transfer_completion_entry list \<times> 'd domain_group \<times> store) option" where
  "worker_drain ops g s =
     (case group_get_completion ops g s of
        (None, g, s) \<Rightarrow> Some ([], g, s)
      | (Some c, g, s) \<Rightarrow> do {
          (rest, g, s) \<leftarrow> worker_drain ops g s;
          Some (transfer_completion_of c # rest, g, s) })"

text \<open>
  The whole step. \<open>Inl\<close> is the error that makes the thread panic: a channel is disconnected, the caller is gone
  (\<open>ret_ok\<close> is false) or nobody takes completions any more (\<open>cq_ok\<close>).
\<close>

definition worker_step ::
    "'d rdma_domain_ops \<Rightarrow> worker_call try_recv \<Rightarrow> bool \<Rightarrow> worker_command try_recv \<Rightarrow> bool \<Rightarrow> 'd domain_group \<Rightarrow> imm_count_map
       \<Rightarrow> (unit + (worker_reply option \<times> transfer_completion_entry list \<times> 'd domain_group \<times> imm_count_map)) option" where
  "worker_step ops call ret_ok cmd cq_ok g m = do {
     r \<leftarrow> (case call of
        Received call \<Rightarrow> do {
          (reply, g) \<leftarrow> worker_handle_call ops call g;
          Some (if ret_ok then Inr (Some reply, g) else Inl ()) }
      | RecvDisconnected \<Rightarrow> Some (Inl ())
      | RecvEmpty \<Rightarrow> Some (Inr (None, g)));
     case r of
       Inl e \<Rightarrow> Some (Inl e)
     | Inr (reply, g) \<Rightarrow> do {
         r \<leftarrow> (case cmd of
            Received cmd \<Rightarrow> do {
              (comps, g) \<leftarrow> worker_handle_command ops cmd g;
              Some (if comps = [] \<or> cq_ok then Inr (comps, g) else Inl ()) }
          | RecvDisconnected \<Rightarrow> Some (Inl ())
          | RecvEmpty \<Rightarrow> Some (Inr ([], g)));
         case r of
           Inl e \<Rightarrow> Some (Inl e)
         | Inr (comps, g) \<Rightarrow> do {
             (g, m) \<leftarrow> group_poll_progress ops g m;
             (rest, g, s) \<leftarrow> worker_drain ops g (istore m);
             Some (if rest = [] \<or> cq_ok then Inr (reply, comps @ rest, g, m\<lparr>istore := s\<rparr>) else Inl ()) } } }"

section \<open>The loop over the completions returns\<close>

text \<open>
  Domains keep their completions in a queue. A run of completions tagged with the index of their domain takes them off
  the queues: each queue is what was taken from it, in order, followed by what is left, and nothing else was taken.
\<close>

definition taken_from :: "nat \<Rightarrow> (nat \<times> domain_completion_entry) list \<Rightarrow> domain_completion_entry list" where
  "taken_from i cs = map snd (filter (\<lambda>c. fst c = i) cs)"

definition takes :: "('d \<Rightarrow> domain_completion_entry list) \<Rightarrow> 'd list \<Rightarrow> (nat \<times> domain_completion_entry) list \<Rightarrow> 'd list \<Rightarrow> bool" where
  "takes queue ds cs ds' \<longleftrightarrow> length ds' = length ds \<and> (\<forall>i < length ds. queue (ds ! i) = taken_from i cs @ queue (ds' ! i)) \<and>
     (\<forall>c \<in> set cs. fst c < length ds)"

definition queued :: "('d \<Rightarrow> domain_completion_entry list) \<Rightarrow> 'd list \<Rightarrow> nat" where
  "queued queue ds = sum_list (map (\<lambda>d. length (queue d)) ds)"

lemma taken_from_append [simp]: "taken_from i (cs @ cs') = taken_from i cs @ taken_from i cs'"
  by (simp add: taken_from_def)

lemma taken_from_Suc: "taken_from (Suc i) (map (apfst Suc) cs) = taken_from i cs" "taken_from 0 (map (apfst Suc) cs) = []"
  by (simp_all add: taken_from_def filter_map o_def)

lemma takes_Nil: "takes queue ds [] ds"
  by (simp add: takes_def taken_from_def)

lemma takes_trans: "takes queue ds cs ds' \<Longrightarrow> takes queue ds' cs' ds'' \<Longrightarrow> takes queue ds (cs @ cs') ds''"
  by (auto simp: takes_def)

lemma takes_Cons: "takes queue ds cs ds' \<Longrightarrow> takes queue (d # ds) (map (apfst Suc) cs) (d # ds')"
  by (auto simp: takes_def nth_Cons taken_from_Suc split: nat.splits)

lemma takes_head: "queue d = c # queue d' \<Longrightarrow> takes queue (d # ds) [(0, c)] (d' # ds)"
  by (auto simp: takes_def nth_Cons taken_from_def split: nat.splits)

lemma takes_queued:
  assumes "takes queue ds cs ds'" "cs \<noteq> []"
  shows "queued queue ds' < queued queue ds"
proof -
  have len: "length ds' = length ds" and q: "\<And>i. i < length ds \<Longrightarrow> queue (ds ! i) = taken_from i cs @ queue (ds' ! i)"
    using assms(1) by (auto simp: takes_def)
  define i where "i = fst (hd cs)"
  have i: "hd cs \<in> set cs" "i < length ds" using assms by (auto simp: takes_def i_def)
  then have "taken_from i cs \<noteq> []" by (auto simp: taken_from_def filter_empty_conv i_def)
  then have "(\<Sum>i < length ds. length (queue (ds' ! i))) < (\<Sum>i < length ds. length (queue (ds ! i)))"
    using i(2) q by (intro sum_strict_mono_ex1) auto
  then show ?thesis by (simp add: queued_def sum_list_sum_nth len atLeast0LessThan)
qed

text \<open>What the loop is meant to do: hand on, translated, what the merged completions of the domains amount to.\<close>

definition drains :: "'d rdma_domain_ops \<Rightarrow> ('d \<Rightarrow> domain_completion_entry list) \<Rightarrow> 'd domain_group \<Rightarrow> store \<Rightarrow> bool" where
  "drains ops queue g s \<longleftrightarrow>
     (\<exists>cs out wo s' ds. worker_drain ops g s = Some (map transfer_completion_of out, g\<lparr>dg_domains := ds, write_ops := wo\<rparr>, s') \<and>
        merge_run (map snd cs) (write_ops g, s) = (out, wo, s') \<and> takes queue (dg_domains g) cs ds)"

lemma merge_run_append:
  "merge_run (xs @ ys) ws = (case merge_run xs ws of (out, ws) \<Rightarrow> case merge_run ys ws of (out', ws) \<Rightarrow> (out @ out', ws))"
  by (induction xs arbitrary: ws) (auto simp: case_prod_beta Let_def split: option.splits)

locale completion_queue =
  fixes ops :: "'d rdma_domain_ops" and queue :: "'d \<Rightarrow> domain_completion_entry list"
  assumes get_nothing: "queue d = [] \<Longrightarrow> d_get_completion ops d = (None, d)"
    and get_first: "queue d = c # cs \<Longrightarrow> \<exists>d'. d_get_completion ops d = (Some c, d') \<and> queue d' = cs"
begin

lemma loop_takes:
  "completion_loop ops ds ws = (r, ds', ws') \<Longrightarrow>
     \<exists>cs. takes queue ds cs ds' \<and> merge_run (map snd cs) ws = (case r of None \<Rightarrow> [] | Some x \<Rightarrow> [x], ws') \<and> (r \<noteq> None \<longrightarrow> cs \<noteq> [])"
proof (induction ds arbitrary: ws r ds')
  case Nil
  then show ?case using takes_Nil by (intro exI [of _ "[]"]) auto
next
  case (Cons d ds)
  show ?case
  proof (cases "queue d")
    case Nil
    then obtain es where es: "completion_loop ops ds ws = (r, es, ws')" "ds' = d # es"
      using Cons.prems get_nothing by (auto split: prod.splits)
    from Cons.IH [OF es(1)] obtain cs where "takes queue ds cs es"
        "merge_run (map snd cs) ws = (case r of None \<Rightarrow> [] | Some x \<Rightarrow> [x], ws')" "r \<noteq> None \<longrightarrow> cs \<noteq> []" by blast
    then show ?thesis using takes_Cons es(2) by (intro exI [of _ "map (apfst Suc) cs"]) (simp add: o_def)
  next
    case (Cons c q)
    then obtain d' where d': "d_get_completion ops d = (Some c, d')" "queue d' = q" using get_first by blast
    have head: "takes queue (d # ds) [(0, c)] (d' # ds)" using Cons d'(2) by (intro takes_head) simp
    obtain mr ws1 where m: "merge_completion c ws = (mr, ws1)" by (cases "merge_completion c ws")
    show ?thesis
    proof (cases mr)
      case None
      then obtain es where es: "completion_loop ops ds ws1 = (r, es, ws')" "ds' = d' # es"
        using Cons.prems d'(1) m by (auto split: prod.splits)
      from Cons.IH [OF es(1)] obtain cs where cs: "takes queue ds cs es"
          "merge_run (map snd cs) ws1 = (case r of None \<Rightarrow> [] | Some x \<Rightarrow> [x], ws')" by blast
      have "takes queue (d # ds) ([(0, c)] @ map (apfst Suc) cs) ds'"
        unfolding es(2) by (rule takes_trans [OF head takes_Cons [OF cs(1)]])
      then show ?thesis using cs(2) m None by (intro exI [of _ "[(0, c)] @ map (apfst Suc) cs"]) (simp add: o_def)
    next
      case (Some out)
      then have "r = out" "ds' = d' # ds" "ws' = ws1" using Cons.prems d'(1) m by auto
      then show ?thesis using head m Some by (intro exI [of _ "[(0, c)]"]) (auto split: option.split)
    qed
  qed
qed

lemma drain_returns: "drains ops queue g s"
proof (induction "queued queue (dg_domains g)" arbitrary: g s rule: less_induct)
  case (less g s)
  obtain r ds wo s1 where l: "completion_loop ops (dg_domains g) (write_ops g, s) = (r, ds, wo, s1)"
    by (cases "completion_loop ops (dg_domains g) (write_ops g, s)") auto
  from loop_takes [OF l] obtain cs where cs: "takes queue (dg_domains g) cs ds"
      "merge_run (map snd cs) (write_ops g, s) = (case r of None \<Rightarrow> [] | Some x \<Rightarrow> [x], wo, s1)" "r \<noteq> None \<longrightarrow> cs \<noteq> []" by blast
  let ?g = "g\<lparr>dg_domains := ds, write_ops := wo\<rparr>"
  have get: "group_get_completion ops g s = (r, ?g, s1)" by (simp add: group_get_completion_def l)
  show ?case
  proof (cases r)
    case None
    then have "worker_drain ops g s = Some ([], ?g, s1)" by (subst worker_drain.simps) (simp add: get)
    then show ?thesis unfolding drains_def using cs None by (intro exI [of _ cs] exI [of _ "[]"]) auto
  next
    case (Some x)
    then have "queued queue (dg_domains ?g) < queued queue (dg_domains g)" using takes_queued [OF cs(1)] cs(3) by simp
    from less.hyps [OF this, of s1] obtain cs' out wo' s' ds' where IH:
        "worker_drain ops ?g s1 = Some (map transfer_completion_of out, ?g\<lparr>dg_domains := ds', write_ops := wo'\<rparr>, s')"
        "merge_run (map snd cs') (wo, s1) = (out, wo', s')" "takes queue ds cs' ds'"
      unfolding drains_def by auto
    have "worker_drain ops g s = Some (map transfer_completion_of (x # out), g\<lparr>dg_domains := ds', write_ops := wo'\<rparr>, s')"
      by (subst worker_drain.simps) (simp add: get Some IH(1))
    moreover have "merge_run (map snd (cs @ cs')) (write_ops g, s) = (x # out, wo', s')"
      using cs(2) IH(2) Some by (simp add: merge_run_append)
    ultimately show ?thesis unfolding drains_def using takes_trans [OF cs(1) IH(3)] by blast
  qed
qed

end

section \<open>Starting a worker\<close>

text \<open>
  A worker serves domains of one provider. \<open>Spawned\<close> is the provider and the number of domains the thread is
  instantiated with; \<open>started\<close> tells whether the operating system starts the threads.
\<close>

datatype provider = Efa | VerbsProvider

definition worker_spawn :: "provider list \<Rightarrow> bool \<Rightarrow> bool \<Rightarrow> (provider \<times> nat) result" where
  "worker_spawn domain_list worker_started uvm_started =
     (let total_domains = length domain_list;
          efa = length (filter (\<lambda>p. p = Efa) domain_list);
          verbs = length (filter (\<lambda>p. p = VerbsProvider) domain_list);
          spawned =
            (if efa = total_domains
             then if efa \<in> {1, 2, 4} then Inr (Efa, efa) else Inl (Custom ''Only support 1, 2, or 4 domains per GPU for EFA'')
             else if verbs = total_domains
             then if verbs \<in> {1, 2} then Inr (VerbsProvider, verbs) else Inl (Custom ''Only support 1 or 2 domains per GPU for Verbs'')
             else Inl (Custom ''Cannot mix EFA and Verbs domains''))
      in case spawned of
           Inl e \<Rightarrow> Inl e
         | Inr r \<Rightarrow>
             if \<not> worker_started then Inl (Custom ''Failed to spawn worker thread'')
             else if \<not> uvm_started then Inl (Custom ''Failed to spawn UVM worker thread'')
             else Inr r)"

text \<open>
  What the thread does before its loop. \<open>pinned\<close> is the error number of pinning the thread to its CPU, if that fails;
  \<open>open_domain\<close> opens a domain. A number of domains other than the instantiated one panics.
\<close>

fun open_domains :: "('i \<Rightarrow> 'd result) \<Rightarrow> 'i list \<Rightarrow> 'd list result" where
  "open_domains open_domain [] = Inr []"
| "open_domains open_domain (info # infos) =
     (case open_domain info of
        Inl e \<Rightarrow> Inl e
      | Inr d \<Rightarrow> (case open_domains open_domain infos of Inl e \<Rightarrow> Inl e | Inr ds \<Rightarrow> Inr (d # ds)))"

record 'd initialized_worker =
  iw_group :: "'d domain_group"
  iw_link_speed :: u64
  iw_addresses :: "domain_address list"

definition rdma_worker_init ::
    "'d rdma_domain_ops \<Rightarrow> nat \<Rightarrow> int option \<Rightarrow> ('i \<Rightarrow> 'd result) \<Rightarrow> 'i list \<Rightarrow> 'd initialized_worker result option" where
  "rdma_worker_init ops n pinned open_domain domain_list =
     (case pinned of
        Some e \<Rightarrow> Some (Inl (Errno e))
      | None \<Rightarrow>
          (case open_domains open_domain domain_list of
             Inl e \<Rightarrow> Some (Inl e)
           | Inr domains \<Rightarrow>
               if length domains \<noteq> n then None
               else let group = domain_group_new domains in
                 Some (Inr \<lparr>iw_group = group, iw_link_speed = aggregate_link_speed ops group, iw_addresses = map (d_addr ops) domains\<rparr>)))"

text \<open>
  Waiting for both threads. A thread that ends without a message is \<open>None\<close> there. When only the watcher thread fails,
  the worker thread is joined while its channels are still held and its stop signal is not set: the call does
  not return.
\<close>

definition wait_init :: "'d initialized_worker result option \<Rightarrow> unit result option \<Rightarrow> 'd initialized_worker result option" where
  "wait_init init_worker init_uvm =
     (case init_worker of
        None \<Rightarrow> Some (Inl (Custom ''Failed to receive worker init''))
      | Some init_worker \<Rightarrow>
          (case init_uvm of
             None \<Rightarrow> Some (Inl (Custom ''Failed to receive UVM watcher init''))
           | Some init_uvm \<Rightarrow>
               (case init_worker of
                  Inl e \<Rightarrow> Some (Inl e)
                | Inr init \<Rightarrow> (case init_uvm of Inl e \<Rightarrow> None | Inr _ \<Rightarrow> Some (Inr init)))))"

end
