(* ===== verification/Worker_Domains.thy ===== *)
theory Worker_Domains
  imports Worker Efa_Domain Verbs_Domain
begin

text \<open>Both providers keep their completions in a queue, so the worker's loop over them returns.\<close>

interpretation efa_queue: completion_queue "efa_ops env" ed_completions
  by unfold_locales (simp_all add: efa_ops_def efa_get_completion_def)

interpretation verbs_queue: completion_queue "verbs_ops env" vd_completions
  by unfold_locales (simp_all add: verbs_ops_def verbs_get_completion_def)


end
