(* ===== verification/Engine.thy ===== *)
theory Engine
  imports Worker
begin

text \<open>
  The engine of \<^verbatim>\<open>fabric_engine.rs\<close>: one worker per GPU, a map from registered memory to its device, and the routing of each
  operation to the worker that owns the memory. A call to a worker is a message and the wait for its answer; it is
  modelled as the worker's handler applied to its group.
\<close>

section \<open>State\<close>

text \<open>
  A worker as the engine sees it: what it announced, the group its thread owns, the commands and completions in its
  channels, the watchers of its second thread, and whether the threads run.
\<close>

record 'd worker_context =
  wc_addresses :: "domain_address list"
  wc_link_speed :: u64
  wc_group :: "'d domain_group"
  wc_commands :: "worker_command list"
  wc_completions :: "transfer_completion_entry list"
  wc_uvm :: "uvm_watcher_context option"
  wc_up :: bool
  wc_uvm_up :: bool
  wc_stop :: bool

text \<open>A \<^verbatim>\<open>BTreeMap\<close> is an association list in the order of its keys.\<close>

fun btree_insert :: "'k::linorder \<Rightarrow> 'v \<Rightarrow> ('k \<times> 'v) list \<Rightarrow> ('k \<times> 'v) list" where
  "btree_insert k v [] = [(k, v)]"
| "btree_insert k v ((k', v') # rest) =
     (if k < k' then (k, v) # (k', v') # rest
      else if k = k' then (k, v) # rest
      else (k', v') # btree_insert k v rest)"

definition btree_update :: "'k \<Rightarrow> ('v \<Rightarrow> 'v) \<Rightarrow> ('k \<times> 'v) list \<Rightarrow> ('k \<times> 'v) list" where
  "btree_update k f = map (\<lambda>(k', v). (k', if k' = k then f v else v))"

record 'd fabric_engine =
  fe_workers :: "(u8 \<times> 'd worker_context) list"
  main_address :: domain_address
  num_groups :: usize
  num_domains :: usize
  fe_link_speed :: u64
  nets_per_gpu :: u8
  stop_signal :: bool
  mr_device_map :: "memory_region_handle \<rightharpoonup> device"
  fe_imm_count_map :: imm_count_map

section \<open>Construction\<close>

fun try_map :: "('a \<Rightarrow> 'b result option) \<Rightarrow> 'a list \<Rightarrow> 'b list result option" where
  "try_map f [] = Some (Inr [])"
| "try_map f (x # xs) = do {
     r \<leftarrow> f x;
     case r of
       Inl e \<Rightarrow> Some (Inl e)
     | Inr y \<Rightarrow> do {
         rest \<leftarrow> try_map f xs;
         Some (case rest of Inl e \<Rightarrow> Inl e | Inr ys \<Rightarrow> Inr (y # ys)) } }"

definition worker_context_new :: "'d initialized_worker \<Rightarrow> 'd worker_context" where
  "worker_context_new init =
     \<lparr>wc_addresses = iw_addresses init, wc_link_speed = iw_link_speed init, wc_group = iw_group init, wc_commands = [],
      wc_completions = [], wc_uvm = None, wc_up = True, wc_uvm_up = True, wc_stop = False\<rparr>"

text \<open>\<open>spawn\<close> starts a worker, \<open>init\<close> waits for it. All are started before the first is waited for.\<close>

definition fabric_engine_new ::
    "('w \<Rightarrow> 'h result) \<Rightarrow> ('h \<Rightarrow> 'd initialized_worker result option) \<Rightarrow> store \<Rightarrow> (u8 \<times> 'w) list \<Rightarrow> 'd fabric_engine result option" where
  "fabric_engine_new spawn init s workers = do {
     spawned \<leftarrow> try_map (\<lambda>(device, w). Some (case spawn w of Inl e \<Rightarrow> Inl e | Inr h \<Rightarrow> Inr (device, h))) workers;
     case spawned of
       Inl e \<Rightarrow> Some (Inl e)
     | Inr spawned_workers \<Rightarrow> do {
         initialized \<leftarrow> try_map (\<lambda>(device, h). do { r \<leftarrow> init h; Some (case r of Inl e \<Rightarrow> Inl e | Inr w \<Rightarrow> Inr (device, w)) }) spawned_workers;
         case initialized of
           Inl e \<Rightarrow> Some (Inl e)
         | Inr initialized_workers \<Rightarrow> do {
             (_, main_worker) \<leftarrow> index initialized_workers 0;
             addr \<leftarrow> index (iw_addresses main_worker) 0;
             let (contexts, groups, domains, speed) =
               fold (\<lambda>(device, w) (contexts, groups, domains, speed).
                   (btree_insert device (worker_context_new w) contexts, groups + 1, domains + length (iw_addresses w), speed + iw_link_speed w))
                 initialized_workers ([], 0, 0, 0);
             Some (Inr \<lparr>fe_workers = contexts, main_address = addr, num_groups = groups, num_domains = domains, fe_link_speed = speed,
               nets_per_gpu = of_nat (length (iw_addresses main_worker)), stop_signal = False, mr_device_map = Map.empty,
               fe_imm_count_map = imm_count_map_new s\<rparr>) } } }"

section \<open>Finding the worker\<close>

text \<open>A worker is named by its key. The map of an engine is never empty; \<open>None\<close> is the \<^verbatim>\<open>unwrap\<close> of an empty one.\<close>

definition get_main_worker :: "'d fabric_engine \<Rightarrow> u8 option" where
  "get_main_worker e = map_option fst (index (fe_workers e) 0)"

definition get_worker :: "device \<Rightarrow> 'd fabric_engine \<Rightarrow> u8 result option" where
  "get_worker device e =
     (case device of
        Host \<Rightarrow> map_option Inr (get_main_worker e)
      | Cuda d \<Rightarrow>
          Some (case map_of (fe_workers e) (device_num d) of
                  Some _ \<Rightarrow> Inr (device_num d)
                | None \<Rightarrow> Inl (Custom ''Worker not found'')))"

definition get_worker_by_mr :: "memory_region_handle \<Rightarrow> 'd fabric_engine \<Rightarrow> u8 result option" where
  "get_worker_by_mr mr e =
     (case mr_device_map e mr of
        Some device \<Rightarrow> get_worker device e
      | None \<Rightarrow> Some (Inl (Custom ''Invalid memory region'')))"

section \<open>Messages\<close>

definition worker_down :: fabric_lib_error where
  "worker_down = Custom ''Worker is down''"

definition send_command :: "u8 \<Rightarrow> worker_command \<Rightarrow> 'd fabric_engine \<Rightarrow> (unit result \<times> 'd fabric_engine) option" where
  "send_command k cmd e = do {
     w \<leftarrow> map_of (fe_workers e) k;
     Some (if wc_up w
           then (Inr (), e\<lparr>fe_workers := btree_update k (\<lambda>w. w\<lparr>wc_commands := wc_commands w @ [cmd]\<rparr>) (fe_workers e)\<rparr>)
           else (Inl worker_down, e)) }"

text \<open>A handler that panics ends its thread: the caller's wait fails, and the worker is down from then on.\<close>

definition call_worker ::
    "'d rdma_domain_ops \<Rightarrow> u8 \<Rightarrow> worker_call \<Rightarrow> 'd fabric_engine \<Rightarrow> (worker_reply result \<times> 'd fabric_engine) option" where
  "call_worker ops k call e = do {
     w \<leftarrow> map_of (fe_workers e) k;
     Some (if \<not> wc_up w then (Inl worker_down, e)
           else case worker_handle_call ops call (wc_group w) of
             None \<Rightarrow> (Inl worker_down, e\<lparr>fe_workers := btree_update k (\<lambda>w. w\<lparr>wc_up := False\<rparr>) (fe_workers e)\<rparr>)
           | Some (reply, g) \<Rightarrow> (Inr reply, e\<lparr>fe_workers := btree_update k (\<lambda>w. w\<lparr>wc_group := g\<rparr>) (fe_workers e)\<rparr>)) }"

definition call_uvm ::
    "ptr option \<Rightarrow> u8 \<Rightarrow> uvm_watcher_call \<Rightarrow> 'd fabric_engine \<Rightarrow> (uvm_reply result \<times> 'd fabric_engine) option" where
  "call_uvm place k call e = do {
     w \<leftarrow> map_of (fe_workers e) k;
     Some (if \<not> wc_uvm_up w then (Inl worker_down, e)
           else case uvm_handle_call place call (wc_uvm w) of
             None \<Rightarrow> (Inl worker_down, e\<lparr>fe_workers := btree_update k (\<lambda>w. w\<lparr>wc_uvm_up := False\<rparr>) (fe_workers e)\<rparr>)
           | Some (reply, ctx) \<Rightarrow> (Inr reply, e\<lparr>fe_workers := btree_update k (\<lambda>w. w\<lparr>wc_uvm := ctx\<rparr>) (fe_workers e)\<rparr>)) }"

section \<open>Memory\<close>

text \<open>
  \<^verbatim>\<open>MemoryRegion::new\<close>. \<open>attrs\<close> is what \<^verbatim>\<open>cudaPointerGetAttributes\<close> answers: an error, or whether the pointer is to
  device memory. The file descriptor of a DMA buffer is never asked for.
\<close>

definition memory_region_new :: "(ptr \<Rightarrow> bool result) \<Rightarrow> ptr \<Rightarrow> usize \<Rightarrow> device \<Rightarrow> memory_region result" where
  "memory_region_new attrs p len device =
     (case device of
        Host \<Rightarrow> Inr \<lparr>region_ptr = p, region_len = len, region_mapping = HostMapping\<rparr>
      | Cuda device_id \<Rightarrow>
          (case attrs p of
             Inl e \<Rightarrow> Inl e
           | Inr is_device \<Rightarrow>
               if \<not> is_device then Inl (Custom ''not a device pointer'')
               else Inr \<lparr>region_ptr = p, region_len = len, region_mapping = DeviceMapping device_id None\<rparr>))"

definition register_memory_local ::
    "'d rdma_domain_ops \<Rightarrow> (ptr \<Rightarrow> bool result) \<Rightarrow> ptr \<Rightarrow> usize \<Rightarrow> device \<Rightarrow> 'd fabric_engine
       \<Rightarrow> (memory_region_handle result \<times> 'd fabric_engine) option" where
  "register_memory_local ops attrs p len device e = do {
     worker \<leftarrow> get_worker device e;
     case worker of
       Inl err \<Rightarrow> Some (Inl err, e)
     | Inr k \<Rightarrow>
         (case memory_region_new attrs p len device of
            Inl err \<Rightarrow> Some (Inl err, e)
          | Inr region \<Rightarrow> do {
              (r, e) \<leftarrow> call_worker ops k (CallRegisterLocal region) e;
              case r of
                Inl err \<Rightarrow> Some (Inl err, e)
              | Inr (RegisterLocalRet (Inl err)) \<Rightarrow> Some (Inl err, e)
              | Inr (RegisterLocalRet (Inr handle)) \<Rightarrow> Some (Inr handle, e\<lparr>mr_device_map := (mr_device_map e)(handle \<mapsto> device)\<rparr>)
              | _ \<Rightarrow> None }) }"

definition register_memory_allow_remote ::
    "'d rdma_domain_ops \<Rightarrow> (ptr \<Rightarrow> bool result) \<Rightarrow> ptr \<Rightarrow> usize \<Rightarrow> device \<Rightarrow> 'd fabric_engine
       \<Rightarrow> ((memory_region_handle \<times> memory_region_descriptor) result \<times> 'd fabric_engine) option" where
  "register_memory_allow_remote ops attrs p len device e = do {
     worker \<leftarrow> get_worker device e;
     case worker of
       Inl err \<Rightarrow> Some (Inl err, e)
     | Inr k \<Rightarrow>
         (case memory_region_new attrs p len device of
            Inl err \<Rightarrow> Some (Inl err, e)
          | Inr region \<Rightarrow> do {
              (r, e) \<leftarrow> call_worker ops k (CallRegisterRemote region) e;
              case r of
                Inl err \<Rightarrow> Some (Inl err, e)
              | Inr (RegisterRemoteRet (Inl err)) \<Rightarrow> Some (Inl err, e)
              | Inr (RegisterRemoteRet (Inr (handle, desc))) \<Rightarrow>
                  Some (Inr (handle, desc), e\<lparr>mr_device_map := (mr_device_map e)(handle \<mapsto> device)\<rparr>)
              | _ \<Rightarrow> None }) }"

definition unregister_memory :: "'d rdma_domain_ops \<Rightarrow> ptr \<Rightarrow> 'd fabric_engine \<Rightarrow> (unit result \<times> 'd fabric_engine) option" where
  "unregister_memory ops p e = do {
     k \<leftarrow> get_main_worker e;
     (r, e) \<leftarrow> call_worker ops k (CallUnregisterMR p) e;
     Some (case r of Inl err \<Rightarrow> Inl err | Inr _ \<Rightarrow> Inr (), e) }"

definition engine_add_peer_group ::
    "'d rdma_domain_ops \<Rightarrow> domain_address list list \<Rightarrow> device \<Rightarrow> 'd fabric_engine \<Rightarrow> (peer_group_handle result \<times> 'd fabric_engine) option" where
  "engine_add_peer_group ops addrs device e = do {
     worker \<leftarrow> get_worker device e;
     case worker of
       Inl err \<Rightarrow> Some (Inl err, e)
     | Inr k \<Rightarrow> do {
         (r, e) \<leftarrow> call_worker ops k (CallAddPeerGroup addrs) e;
         case r of
           Inl err \<Rightarrow> Some (Inl err, e)
         | Inr (AddPeerGroupRet result) \<Rightarrow> Some (result, e)
         | _ \<Rightarrow> None } }"

definition acquire_uvm_watcher :: "ptr option \<Rightarrow> 'd fabric_engine \<Rightarrow> (uvm_watcher_id result \<times> 'd fabric_engine) option" where
  "acquire_uvm_watcher place e = do {
     k \<leftarrow> get_main_worker e;
     (r, e) \<leftarrow> call_uvm place k AcquireUvmWatcher e;
     case r of
       Inl err \<Rightarrow> Some (Inl err, e)
     | Inr (AcquireRet (Some wid)) \<Rightarrow> Some (Inr wid, e)
     | Inr (AcquireRet None) \<Rightarrow> Some (Inl (Custom ''Failed to acquire UVM watcher''), e)
     | _ \<Rightarrow> None }"

definition release_uvm_watcher :: "uvm_watcher_id \<Rightarrow> 'd fabric_engine \<Rightarrow> (unit result \<times> 'd fabric_engine) option" where
  "release_uvm_watcher wid e = do {
     k \<leftarrow> get_main_worker e;
     (r, e) \<leftarrow> call_uvm None k (ReleaseUvmWatcher wid) e;
     Some (case r of Inl err \<Rightarrow> Inl err | Inr _ \<Rightarrow> Inr (), e) }"

section \<open>Submission, completions, stopping\<close>

definition engine_submit_send ::
    "transfer_id \<Rightarrow> domain_address \<Rightarrow> memory_region_handle \<Rightarrow> ptr \<Rightarrow> usize \<Rightarrow> 'd fabric_engine \<Rightarrow> (unit result \<times> 'd fabric_engine) option" where
  "engine_submit_send tid addr mr p len e = do {
     k \<leftarrow> get_main_worker e;
     send_command k (CmdSend tid mr p len addr) e }"

definition engine_submit_recv ::
    "transfer_id \<Rightarrow> memory_region_handle \<Rightarrow> ptr \<Rightarrow> usize \<Rightarrow> 'd fabric_engine \<Rightarrow> (unit result \<times> 'd fabric_engine) option" where
  "engine_submit_recv tid mr p len e = do {
     k \<leftarrow> get_main_worker e;
     send_command k (CmdRecv tid mr p len) e }"

definition transfer_worker :: "transfer_request \<Rightarrow> 'd fabric_engine \<Rightarrow> u8 result option" where
  "transfer_worker request e =
     (case request of
        ImmReq _ \<Rightarrow> map_option Inr (get_main_worker e)
      | BarrierReq _ \<Rightarrow> map_option Inr (get_main_worker e)
      | SingleReq req \<Rightarrow> get_worker_by_mr (st_src_mr req) e
      | PagedReq req \<Rightarrow> get_worker_by_mr (pt_src_mr req) e
      | ScatterReq req \<Rightarrow> get_worker_by_mr (sct_src_mr req) e)"

definition engine_submit_transfer ::
    "transfer_id \<Rightarrow> transfer_request \<Rightarrow> transfer_counter option \<Rightarrow> 'd fabric_engine \<Rightarrow> (unit result \<times> 'd fabric_engine) option" where
  "engine_submit_transfer tid request tx_counter e = do {
     worker \<leftarrow> transfer_worker request e;
     case worker of
       Inl err \<Rightarrow> Some (Inl err, e)
     | Inr k \<Rightarrow> send_command k (CmdTransfer tid request tx_counter) e }"

fun poll_workers :: "(u8 \<times> 'd worker_context) list \<Rightarrow> transfer_completion_entry option \<times> (u8 \<times> 'd worker_context) list" where
  "poll_workers [] = (None, [])"
| "poll_workers ((k, w) # ws) =
     (case wc_completions w of
        c # cs \<Rightarrow> (Some c, (k, w\<lparr>wc_completions := cs\<rparr>) # ws)
      | [] \<Rightarrow> (case poll_workers ws of (r, ws) \<Rightarrow> (r, (k, w) # ws)))"

definition poll_transfer_completion :: "'d fabric_engine \<Rightarrow> transfer_completion_entry option \<times> 'd fabric_engine" where
  "poll_transfer_completion e = (case poll_workers (fe_workers e) of (r, ws) \<Rightarrow> (r, e\<lparr>fe_workers := ws\<rparr>))"

definition engine_stop :: "'d fabric_engine \<Rightarrow> 'd fabric_engine" where
  "engine_stop e = e\<lparr>stop_signal := True, fe_workers := map (\<lambda>(k, w). (k, w\<lparr>wc_stop := True\<rparr>)) (fe_workers e)\<rparr>"

end
