(* ===== verification/Transfer_Engine.thy ===== *)
theory Transfer_Engine
  imports Engine
begin

text \<open>
  The transfer engine of \<^verbatim>\<open>transfer_engine.rs\<close>: the callbacks of the user's operations, submission, and the thread that turns
  completions into calls of the callbacks.
\<close>

section \<open>Callbacks\<close>

text \<open>
  A callback is a closure of the user, modelled by a number that identifies it. Its calls are recorded with their
  arguments, in the order in which they are made.
\<close>

type_synonym closure = nat

record transfer_callback =
  on_done :: closure
  tcb_on_error :: closure

record recv_context =
  rcx_mr :: memory_region_handle
  rcx_ptr :: ptr
  rcx_len :: usize
  on_recv :: closure
  rcx_on_error :: closure

datatype imm_count_fn = Once closure | Repeated closure

record callbacks =
  cb_imm :: "closure list"
  recv_ops :: "transfer_id \<rightharpoonup> recv_context"
  send_ops :: "transfer_id \<rightharpoonup> closure"
  transfer_ops :: "transfer_id \<rightharpoonup> transfer_callback"
  cb_imm_count :: "u32 \<rightharpoonup> imm_count_fn"
  watchers :: "uvm_watcher_id \<rightharpoonup> closure"

datatype invocation =
    OnDone closure
  | OnError closure fabric_lib_error
  | OnSend closure "unit result"
  | OnRecv closure usize
  | OnImm closure u32
  | OnImmCount closure
  | OnWatch closure u64 u64

fun called :: "invocation \<Rightarrow> closure" where
  "called (OnDone f) = f"
| "called (OnError f e) = f"
| "called (OnSend f r) = f"
| "called (OnRecv f n) = f"
| "called (OnImm f i) = f"
| "called (OnImmCount f) = f"
| "called (OnWatch f a b) = f"

text \<open>What a call answers may depend on all calls before it: \<open>None\<close> is an error, \<open>Some b\<close> a success with the answer \<open>b\<close>.\<close>

type_synonym user = "invocation list \<Rightarrow> invocation \<Rightarrow> bool option"

record 'd transfer_engine =
  next_transfer_id :: u64
  te_engine :: "'d fabric_engine"
  te_callbacks :: callbacks
  te_calls :: "invocation list"

definition callbacks_new :: callbacks where
  "callbacks_new = \<lparr>cb_imm = [], recv_ops = Map.empty, send_ops = Map.empty, transfer_ops = Map.empty, cb_imm_count = Map.empty, watchers = Map.empty\<rparr>"

text \<open>\<open>started\<close> tells whether the callback thread starts.\<close>

definition transfer_engine_new :: "bool \<Rightarrow> 'd fabric_engine \<Rightarrow> 'd transfer_engine result" where
  "transfer_engine_new started engine =
     (if \<not> started then Inl (Custom ''failed to launch callback worker thread'')
      else Inr \<lparr>next_transfer_id = 0, te_engine = engine, te_callbacks = callbacks_new, te_calls = []\<rparr>)"

definition invoke :: "user \<Rightarrow> invocation \<Rightarrow> 'd transfer_engine \<Rightarrow> bool option \<times> 'd transfer_engine" where
  "invoke user call te = (user (te_calls te) call, te\<lparr>te_calls := te_calls te @ [call]\<rparr>)"

section \<open>Operations\<close>

definition add_imm_callback :: "closure \<Rightarrow> 'd transfer_engine \<Rightarrow> 'd transfer_engine" where
  "add_imm_callback f te = te\<lparr>te_callbacks := (te_callbacks te)\<lparr>cb_imm := cb_imm (te_callbacks te) @ [f]\<rparr>\<rparr>"

definition set_imm_count_expected :: "u32 \<Rightarrow> u32 \<Rightarrow> closure \<Rightarrow> 'd transfer_engine \<Rightarrow> imm_count option \<times> 'd transfer_engine" where
  "set_imm_count_expected imm expected_count f te =
     (let cbs = (te_callbacks te)\<lparr>cb_imm_count := (cb_imm_count (te_callbacks te))(imm \<mapsto> Repeated f)\<rparr>;
          (old, m) = set_expected imm expected_count (fe_imm_count_map (te_engine te))
      in (old, te\<lparr>te_callbacks := cbs, te_engine := (te_engine te)\<lparr>fe_imm_count_map := m\<rparr>\<rparr>))"

definition engine_remove_imm_count :: "u32 \<Rightarrow> 'd fabric_engine \<Rightarrow> imm_count option \<times> 'd fabric_engine" where
  "engine_remove_imm_count imm e = (let (r, m) = imm_remove imm (fe_imm_count_map e) in (r, e\<lparr>fe_imm_count_map := m\<rparr>))"

definition remove_imm_count :: "u32 \<Rightarrow> 'd transfer_engine \<Rightarrow> imm_count option \<times> 'd transfer_engine" where
  "remove_imm_count imm te =
     (let cbs = (te_callbacks te)\<lparr>cb_imm_count := (cb_imm_count (te_callbacks te))(imm := None)\<rparr>;
          (old, e) = engine_remove_imm_count imm (te_engine te)
      in (old, te\<lparr>te_callbacks := cbs, te_engine := e\<rparr>))"

text \<open>The asynchronous wait for a count, up to the point where it waits for its closure to be called.\<close>

definition wait_for_imm_count :: "u32 \<Rightarrow> u32 \<Rightarrow> closure \<Rightarrow> 'd transfer_engine \<Rightarrow> 'd transfer_engine" where
  "wait_for_imm_count imm expected_count f te =
     (let cbs = (te_callbacks te)\<lparr>cb_imm_count := (cb_imm_count (te_callbacks te))(imm \<mapsto> Once f)\<rparr>;
          (_, m) = set_expected imm expected_count (fe_imm_count_map (te_engine te))
      in te\<lparr>te_callbacks := cbs, te_engine := (te_engine te)\<lparr>fe_imm_count_map := m\<rparr>\<rparr>)"

definition alloc_scalar_watcher ::
    "ptr option \<Rightarrow> closure \<Rightarrow> 'd transfer_engine \<Rightarrow> (uvm_watcher_id result \<times> 'd transfer_engine) option" where
  "alloc_scalar_watcher place f te = do {
     (r, e) \<leftarrow> acquire_uvm_watcher place (te_engine te);
     case r of
       Inl err \<Rightarrow> Some (Inl err, te\<lparr>te_engine := e\<rparr>)
     | Inr wid \<Rightarrow> Some (Inr wid, te\<lparr>te_engine := e, te_callbacks := (te_callbacks te)\<lparr>watchers := (watchers (te_callbacks te))(wid \<mapsto> f)\<rparr>\<rparr>) }"

definition assign_transfer_id :: "'d transfer_engine \<Rightarrow> transfer_id \<times> 'd transfer_engine" where
  "assign_transfer_id te = (TransferId (next_transfer_id te), te\<lparr>next_transfer_id := next_transfer_id te + 1\<rparr>)"

definition on_engine ::
    "('d fabric_engine \<Rightarrow> ('r \<times> 'd fabric_engine) option) \<Rightarrow> 'd transfer_engine \<Rightarrow> ('r \<times> 'd transfer_engine) option" where
  "on_engine f te = map_option (\<lambda>(r, e). (r, te\<lparr>te_engine := e\<rparr>)) (f (te_engine te))"

definition submit_transfer ::
    "transfer_request \<Rightarrow> transfer_callback \<Rightarrow> 'd transfer_engine \<Rightarrow> (unit result \<times> 'd transfer_engine) option" where
  "submit_transfer request callback te =
     (let (tid, te) = assign_transfer_id te;
          te = te\<lparr>te_callbacks := (te_callbacks te)\<lparr>transfer_ops := (transfer_ops (te_callbacks te))(tid \<mapsto> callback)\<rparr>\<rparr>
      in on_engine (engine_submit_transfer tid request None) te)"

definition submit_transfer_atomic ::
    "transfer_request \<Rightarrow> transfer_counter \<Rightarrow> 'd transfer_engine \<Rightarrow> (unit result \<times> 'd transfer_engine) option" where
  "submit_transfer_atomic request counter te =
     (let (tid, te) = assign_transfer_id te
      in on_engine (engine_submit_transfer tid request (Some counter)) te)"

definition te_submit_send ::
    "domain_address \<Rightarrow> memory_region_handle \<Rightarrow> ptr \<Rightarrow> usize \<Rightarrow> closure \<Rightarrow> 'd transfer_engine \<Rightarrow> (unit result \<times> 'd transfer_engine) option" where
  "te_submit_send addr mr p len f te =
     (let (tid, te) = assign_transfer_id te;
          te = te\<lparr>te_callbacks := (te_callbacks te)\<lparr>send_ops := (send_ops (te_callbacks te))(tid \<mapsto> f)\<rparr>\<rparr>
      in on_engine (engine_submit_send tid addr mr p len) te)"

definition te_submit_recv ::
    "memory_region_handle \<Rightarrow> ptr \<Rightarrow> usize \<Rightarrow> closure \<Rightarrow> closure \<Rightarrow> 'd transfer_engine \<Rightarrow> (unit result \<times> 'd transfer_engine) option" where
  "te_submit_recv mr p len recv err te =
     (let (tid, te) = assign_transfer_id te;
          ctx = \<lparr>rcx_mr = mr, rcx_ptr = p, rcx_len = len, on_recv = recv, rcx_on_error = err\<rparr>;
          te = te\<lparr>te_callbacks := (te_callbacks te)\<lparr>recv_ops := (recv_ops (te_callbacks te))(tid \<mapsto> ctx)\<rparr>\<rparr>
      in on_engine (engine_submit_recv tid mr p len) te)"

text \<open>
  Buffers that are posted again after each message. \<open>base\<close> is where the allocation of the \<open>len * count\<close> bytes is;
  \<open>recv i\<close> and \<open>err i\<close> are the wrappers around the user's closures for buffer \<open>i\<close>.
\<close>

fun bouncing_loop ::
    "memory_region_handle \<Rightarrow> ptr \<Rightarrow> usize \<Rightarrow> (nat \<Rightarrow> closure) \<Rightarrow> (nat \<Rightarrow> closure) \<Rightarrow> nat list \<Rightarrow> 'd transfer_engine
       \<Rightarrow> (unit result \<times> 'd transfer_engine) option" where
  "bouncing_loop mr base len recv err [] te = Some (Inr (), te)"
| "bouncing_loop mr base len recv err (i # rest) te = do {
     (r, te) \<leftarrow> te_submit_recv mr (base + of_nat (i * len)) len (recv i) (err i) te;
     case r of
       Inl e \<Rightarrow> Some (Inl e, te)
     | Inr _ \<Rightarrow> bouncing_loop mr base len recv err rest te }"

definition submit_bouncing_recvs ::
    "'d rdma_domain_ops \<Rightarrow> (ptr \<Rightarrow> bool result) \<Rightarrow> ptr \<Rightarrow> usize \<Rightarrow> usize \<Rightarrow> (nat \<Rightarrow> closure) \<Rightarrow> (nat \<Rightarrow> closure) \<Rightarrow> 'd transfer_engine
       \<Rightarrow> (unit result \<times> 'd transfer_engine) option" where
  "submit_bouncing_recvs ops attrs base len count recv err te = do {
     (r, te) \<leftarrow> on_engine (register_memory_local ops attrs base (len * count) Host) te;
     case r of
       Inl e \<Rightarrow> Some (Inl e, te)
     | Inr mr \<Rightarrow> bouncing_loop mr base len recv err [0..<count] te }"

section \<open>Completions\<close>

text \<open>\<open>False\<close> is the error that ends the callback thread. Callbacks run one after the other until one fails.\<close>

fun invoke_all :: "user \<Rightarrow> invocation list \<Rightarrow> 'd transfer_engine \<Rightarrow> bool \<times> 'd transfer_engine" where
  "invoke_all user [] te = (True, te)"
| "invoke_all user (call # calls) te =
     (case invoke user call te of
        (None, te) \<Rightarrow> (False, te)
      | (Some _, te) \<Rightarrow> invoke_all user calls te)"

definition imm_invocations :: "u32 \<Rightarrow> 'd transfer_engine \<Rightarrow> invocation list" where
  "imm_invocations imm te = map (\<lambda>f. OnImm f imm) (cb_imm (te_callbacks te))"

definition invoke_result :: "user \<Rightarrow> invocation \<Rightarrow> 'd transfer_engine \<Rightarrow> bool \<times> 'd transfer_engine" where
  "invoke_result user call te = (let (r, te) = invoke user call te in (r \<noteq> None, te))"

text \<open>The closure of a wait returns nothing; it panics when nobody waits for it any more.\<close>

definition handle_imm_count :: "user \<Rightarrow> u32 \<Rightarrow> 'd transfer_engine \<Rightarrow> (bool \<times> 'd transfer_engine) option" where
  "handle_imm_count user imm te =
     (let cbs = te_callbacks te; removed = cbs\<lparr>cb_imm_count := (cb_imm_count cbs)(imm := None)\<rparr> in
      case cb_imm_count cbs imm of
        None \<Rightarrow> Some (True, te)
      | Some (Once f) \<Rightarrow>
          (case invoke user (OnImmCount f) (te\<lparr>te_callbacks := removed\<rparr>) of
             (None, te) \<Rightarrow> None
           | (Some _, te) \<Rightarrow> Some (True, te))
      | Some (Repeated f) \<Rightarrow>
          (case invoke user (OnImmCount f) te of
             (Some True, te) \<Rightarrow> Some (True, te)
           | (_, te) \<Rightarrow>
               (let (imm_count, e) = engine_remove_imm_count imm (te_engine te);
                    te = te\<lparr>te_callbacks := removed, te_engine := e\<rparr>
                in case imm_count of
                     None \<Rightarrow> Some (True, te)
                   | Some imm_count \<Rightarrow>
                       (let (count, _) = consume imm_count (istore (fe_imm_count_map e))
                        in Some (invoke_all user (concat (replicate (unat count) (imm_invocations imm te))) te)))))"

text \<open>
  Stopping a watcher: its slot is given back, then its callback is removed. The handler still holds its reference to
  the callback in the concurrent map then, of which the map's documentation says that a removal may deadlock.
  \<open>relock\<close> tells whether the removal returns all the same; a handler that waits forever is \<open>None\<close>.
\<close>

definition stop_watcher :: "bool \<Rightarrow> uvm_watcher_id \<Rightarrow> 'd transfer_engine \<Rightarrow> 'd transfer_engine option" where
  "stop_watcher relock wid te = do {
     (_, te) \<leftarrow> on_engine (release_uvm_watcher wid) te;
     if \<not> relock then None
     else Some (te\<lparr>te_callbacks := (te_callbacks te)\<lparr>watchers := (watchers (te_callbacks te))(wid := None)\<rparr>\<rparr>) }"

definition handle_uvm_watch ::
    "bool \<Rightarrow> user \<Rightarrow> uvm_watcher_id \<Rightarrow> u64 \<Rightarrow> u64 \<Rightarrow> 'd transfer_engine \<Rightarrow> (bool \<times> 'd transfer_engine) option" where
  "handle_uvm_watch relock user wid old new te =
     (case watchers (te_callbacks te) wid of
        None \<Rightarrow> Some (True, te)
      | Some f \<Rightarrow>
          (case invoke user (OnWatch f old new) te of
             (Some True, te) \<Rightarrow> Some (True, te)
           | (_, te) \<Rightarrow> map_option (Pair True) (stop_watcher relock wid te)))"

definition handle_error :: "user \<Rightarrow> transfer_id \<Rightarrow> fabric_lib_error \<Rightarrow> 'd transfer_engine \<Rightarrow> bool \<times> 'd transfer_engine" where
  "handle_error user tid err te =
     (let cbs = te_callbacks te in
      case transfer_ops cbs tid of
        Some h \<Rightarrow> (True, snd (invoke user (OnError (tcb_on_error h) err) (te\<lparr>te_callbacks := cbs\<lparr>transfer_ops := (transfer_ops cbs)(tid := None)\<rparr>\<rparr>)))
      | None \<Rightarrow>
          (case send_ops cbs tid of
             Some f \<Rightarrow> (True, snd (invoke user (OnSend f (Inl err)) (te\<lparr>te_callbacks := cbs\<lparr>send_ops := (send_ops cbs)(tid := None)\<rparr>\<rparr>)))
           | None \<Rightarrow>
               (case recv_ops cbs tid of
                  Some h \<Rightarrow> (True, snd (invoke user (OnError (rcx_on_error h) err) (te\<lparr>te_callbacks := cbs\<lparr>recv_ops := (recv_ops cbs)(tid := None)\<rparr>\<rparr>)))
                | None \<Rightarrow> (True, te))))"

definition handle_transfer_completion :: "bool \<Rightarrow> user \<Rightarrow> transfer_completion_entry \<Rightarrow> 'd transfer_engine \<Rightarrow> (bool \<times> 'd transfer_engine) option" where
  "handle_transfer_completion relock user c te =
     (let cbs = te_callbacks te in
      case c of
        CTransfer tid \<Rightarrow>
          (case transfer_ops cbs tid of
             None \<Rightarrow> Some (True, te)
           | Some h \<Rightarrow> Some (invoke_result user (OnDone (on_done h)) (te\<lparr>te_callbacks := cbs\<lparr>transfer_ops := (transfer_ops cbs)(tid := None)\<rparr>\<rparr>)))
      | CRecv tid data_len \<Rightarrow>
          (case recv_ops cbs tid of
             None \<Rightarrow> Some (True, te)
           | Some h \<Rightarrow>
               (case invoke user (OnRecv (on_recv h) data_len) te of
                  (None, te) \<Rightarrow> Some (False, te)
                | (Some _, te) \<Rightarrow> do {
                    (r, te) \<leftarrow> on_engine (engine_submit_recv tid (rcx_mr h) (rcx_ptr h) (rcx_len h)) te;
                    Some (case r of Inl _ \<Rightarrow> False | Inr _ \<Rightarrow> True, te) }))
      | CSend tid \<Rightarrow>
          (case send_ops cbs tid of
             None \<Rightarrow> Some (True, te)
           | Some f \<Rightarrow> Some (invoke_result user (OnSend f (Inr ())) (te\<lparr>te_callbacks := cbs\<lparr>send_ops := (send_ops cbs)(tid := None)\<rparr>\<rparr>)))
      | CImmData imm \<Rightarrow> Some (invoke_all user (imm_invocations imm te) te)
      | CImmCountReached imm \<Rightarrow> handle_imm_count user imm te
      | CUvmWatch wid old new \<Rightarrow> handle_uvm_watch relock user wid old new te
      | CError tid err \<Rightarrow> Some (handle_error user tid err te))"

text \<open>
  The callback thread. Each element of the list is one turn of its loop, with the completions the workers have put into
  their channels before it. The result is the completions handled, in order, and the state; the thread ends when the
  engine is stopped or a callback fails, which stops the engine.
\<close>

definition arrive :: "(u8 \<times> transfer_completion_entry) list \<Rightarrow> 'd transfer_engine \<Rightarrow> 'd transfer_engine" where
  "arrive cs te = te\<lparr>te_engine := (te_engine te)\<lparr>fe_workers :=
     fold (\<lambda>(k, c). btree_update k (\<lambda>w. w\<lparr>wc_completions := wc_completions w @ [c]\<rparr>)) cs (fe_workers (te_engine te))\<rparr>\<rparr>"

fun callback_worker_thread ::
    "bool \<Rightarrow> user \<Rightarrow> (u8 \<times> transfer_completion_entry) list list \<Rightarrow> 'd transfer_engine \<Rightarrow> (transfer_completion_entry list \<times> 'd transfer_engine) option" where
  "callback_worker_thread relock user [] te = Some ([], te)"
| "callback_worker_thread relock user (new # turns) te =
     (let te = arrive new te in
      if stop_signal (te_engine te) then Some ([], te)
      else case poll_transfer_completion (te_engine te) of
        (None, e) \<Rightarrow> callback_worker_thread relock user turns (te\<lparr>te_engine := e\<rparr>)
      | (Some c, e) \<Rightarrow> do {
          (ok, te) \<leftarrow> handle_transfer_completion relock user c (te\<lparr>te_engine := e\<rparr>);
          if ok then map_option (apfst (Cons c)) (callback_worker_thread relock user turns te)
          else Some ([c], te\<lparr>te_engine := engine_stop (te_engine te)\<rparr>) })"

end
