(* ===== verification/Engine_Builder.thy ===== *)
theory Engine_Builder
  imports Transfer_Engine
begin

text \<open>
  The builder of \<^verbatim>\<open>transfer_engine_builder.rs\<close>: it checks the GPUs, network domains and CPUs it is given against the topology
  of the system and starts a transfer engine on them.
\<close>

section \<open>The builder\<close>

text \<open>A network domain is known by its provider and name. The topology is what its detection has found.\<close>

type_synonym domain_info = "provider \<times> string"

record gpu_domain_spec =
  gs_cuda_device :: u8
  gs_domains :: "domain_info list"
  gs_pin_worker_cpu :: u16
  gs_pin_uvm_cpu :: u16

record topology_group =
  tg_cuda_device :: u8
  tg_numa :: u8
  tg_domains :: "domain_info list"
  tg_cpus :: "u16 list"

record worker =
  wk_domain_list :: "domain_info list"
  wk_pin_worker_cpu :: "u16 option"
  wk_pin_uvm_cpu :: "u16 option"

datatype build_error =
    TopologyError fabric_lib_error
  | DuplicatedGpus
  | NoGpus
  | GpuNotFound u8
  | DuplicatedDomains u8
  | DomainNotFound string u8
  | CpuNotFound u16 u8
  | EngineError fabric_lib_error

definition add_gpu_domains :: "u8 \<Rightarrow> domain_info list \<Rightarrow> u16 \<Rightarrow> u16 \<Rightarrow> gpu_domain_spec list \<Rightarrow> gpu_domain_spec list" where
  "add_gpu_domains cuda_device domains pin_worker_cpu pin_uvm_cpu gpus =
     gpus @ [\<lparr>gs_cuda_device = cuda_device, gs_domains = domains, gs_pin_worker_cpu = pin_worker_cpu, gs_pin_uvm_cpu = pin_uvm_cpu\<rparr>]"

definition check_spec :: "topology_group list \<Rightarrow> gpu_domain_spec \<Rightarrow> build_error + (u8 \<times> worker)" where
  "check_spec system_topo spec =
     (case find (\<lambda>t. tg_cuda_device t = gs_cuda_device spec) system_topo of
        None \<Rightarrow> Inl (GpuNotFound (gs_cuda_device spec))
      | Some topo \<Rightarrow>
          if card (snd ` set (gs_domains spec)) \<noteq> length (gs_domains spec) then Inl (DuplicatedDomains (gs_cuda_device spec))
          else case find (\<lambda>d. \<not> (\<exists>t \<in> set (tg_domains topo). snd t = snd d)) (gs_domains spec) of
            Some d \<Rightarrow> Inl (DomainNotFound (snd d) (gs_cuda_device spec))
          | None \<Rightarrow>
              (case find (\<lambda>cpu. cpu \<notin> set (tg_cpus topo)) [gs_pin_worker_cpu spec, gs_pin_uvm_cpu spec] of
                 Some cpu \<Rightarrow> Inl (CpuNotFound cpu (gs_cuda_device spec))
               | None \<Rightarrow>
                   Inr (gs_cuda_device spec, \<lparr>wk_domain_list = gs_domains spec, wk_pin_worker_cpu = Some (gs_pin_worker_cpu spec),
                          wk_pin_uvm_cpu = Some (gs_pin_uvm_cpu spec)\<rparr>)))"

fun check_specs :: "topology_group list \<Rightarrow> gpu_domain_spec list \<Rightarrow> build_error + (u8 \<times> worker) list" where
  "check_specs system_topo [] = Inr []"
| "check_specs system_topo (spec # specs) =
     (case check_spec system_topo spec of
        Inl e \<Rightarrow> Inl e
      | Inr w \<Rightarrow> (case check_specs system_topo specs of Inl e \<Rightarrow> Inl e | Inr ws \<Rightarrow> Inr (w # ws)))"

definition builder_workers :: "topology_group list result \<Rightarrow> gpu_domain_spec list \<Rightarrow> build_error + (u8 \<times> worker) list" where
  "builder_workers detected gpus =
     (case detected of
        Inl e \<Rightarrow> Inl (TopologyError e)
      | Inr system_topo \<Rightarrow>
          (let num_gpus = card (gs_cuda_device ` set gpus) in
           if num_gpus \<noteq> length gpus then Inl DuplicatedGpus
           else if num_gpus = 0 then Inl NoGpus
           else check_specs system_topo gpus))"

text \<open>
  The whole build. \<open>threads\<close> tells which of the two threads of a worker the operating system starts, \<open>init\<close> is what waiting
  for them gives, \<open>started\<close> whether the callback thread starts.
\<close>

definition build ::
    "topology_group list result \<Rightarrow> (worker \<Rightarrow> bool \<times> bool) \<Rightarrow> (worker \<times> provider \<times> nat \<Rightarrow> 'd initialized_worker result option) \<Rightarrow> bool \<Rightarrow> store
       \<Rightarrow> gpu_domain_spec list \<Rightarrow> (build_error + 'd transfer_engine) option" where
  "build detected threads init started s gpus =
     (case builder_workers detected gpus of
        Inl e \<Rightarrow> Some (Inl e)
      | Inr workers \<Rightarrow> do {
          r \<leftarrow> fabric_engine_new
                (\<lambda>w. case worker_spawn (map fst (wk_domain_list w)) (fst (threads w)) (snd (threads w)) of Inl e \<Rightarrow> Inl e | Inr p \<Rightarrow> Inr (w, p))
                init s workers;
          Some (case r of
              Inl e \<Rightarrow> Inl (EngineError e)
            | Inr engine \<Rightarrow> (case transfer_engine_new started engine of Inl e \<Rightarrow> Inl (EngineError e) | Inr te \<Rightarrow> Inr te)) })"

section \<open>What the checks mean\<close>

definition spec_fits :: "topology_group list \<Rightarrow> gpu_domain_spec \<Rightarrow> bool" where
  "spec_fits system_topo spec \<longleftrightarrow> (\<exists>topo. find (\<lambda>t. tg_cuda_device t = gs_cuda_device spec) system_topo = Some topo \<and>
     distinct (map snd (gs_domains spec)) \<and> snd ` set (gs_domains spec) \<subseteq> snd ` set (tg_domains topo) \<and>
     {gs_pin_worker_cpu spec, gs_pin_uvm_cpu spec} \<subseteq> set (tg_cpus topo))"

definition worker_of :: "gpu_domain_spec \<Rightarrow> u8 \<times> worker" where
  "worker_of spec = (gs_cuda_device spec, \<lparr>wk_domain_list = gs_domains spec, wk_pin_worker_cpu = Some (gs_pin_worker_cpu spec),
     wk_pin_uvm_cpu = Some (gs_pin_uvm_cpu spec)\<rparr>)"

lemma card_names: "card (f ` set xs) = length xs \<longleftrightarrow> distinct (map f xs)"
  using card_distinct [of "map f xs"] distinct_card [of "map f xs"] by auto

lemma check_spec_iff: "check_spec system_topo spec = Inr w \<longleftrightarrow> spec_fits system_topo spec \<and> w = worker_of spec"
proof (cases "find (\<lambda>t. tg_cuda_device t = gs_cuda_device spec) system_topo")
  case (Some topo)
  have "find (\<lambda>d. \<not> (\<exists>t \<in> set (tg_domains topo). snd t = snd d)) (gs_domains spec) = None \<longleftrightarrow> snd ` set (gs_domains spec) \<subseteq> snd ` set (tg_domains topo)"
    by (force simp: find_None_iff)
  moreover have "find (\<lambda>cpu. cpu \<notin> set (tg_cpus topo)) [gs_pin_worker_cpu spec, gs_pin_uvm_cpu spec] = None \<longleftrightarrow>
      {gs_pin_worker_cpu spec, gs_pin_uvm_cpu spec} \<subseteq> set (tg_cpus topo)" by auto
  ultimately show ?thesis unfolding check_spec_def spec_fits_def worker_of_def Some option.case card_names
    by (auto split: option.split simp del: find.simps)
qed (simp add: check_spec_def spec_fits_def)

lemma check_specs_iff: "check_specs system_topo specs = Inr ws \<longleftrightarrow> (\<forall>spec \<in> set specs. spec_fits system_topo spec) \<and> ws = map worker_of specs"
proof (induction specs arbitrary: ws)
  case (Cons spec specs)
  show ?case
  proof (cases "check_spec system_topo spec")
    case (Inl e)
    then have "\<not> spec_fits system_topo spec" using check_spec_iff [of system_topo spec "worker_of spec"] by simp
    then show ?thesis using Inl by simp
  next
    case (Inr w)
    then have "spec_fits system_topo spec" "w = worker_of spec" using check_spec_iff by blast+
    then show ?thesis using Inr Cons.IH by (cases "check_specs system_topo specs") auto
  qed
qed auto

text \<open>
  \<^bold>\<open>C30.\<close> The builder accepts exactly the specifications that fit the system: the topology is known, there is a GPU, no GPU is given
  twice, each GPU is in the topology, its domains have distinct names, all in the GPU's group, and both CPUs are in
  that group. It then hands the engine one worker per GPU, in the order given, with the domains and CPUs given.
\<close>

theorem builder_accepts_iff:
  "builder_workers detected gpus = Inr workers \<longleftrightarrow>
     (\<exists>system_topo. detected = Inr system_topo \<and> gpus \<noteq> [] \<and> distinct (map gs_cuda_device gpus) \<and> (\<forall>spec \<in> set gpus. spec_fits system_topo spec)) \<and>
     workers = map worker_of gpus"
proof (cases detected)
  case (Inr system_topo)
  have "card (gs_cuda_device ` set gpus) = 0 \<longleftrightarrow> gpus = []" by (simp add: card_eq_0_iff)
  then show ?thesis using Inr by (auto simp: builder_workers_def Let_def card_names check_specs_iff)
qed (simp add: builder_workers_def)

theorem builder_accepts_iff_witness:
  "builder_workers (Inr [\<lparr>tg_cuda_device = 0, tg_numa = 0, tg_domains = [(Efa, ''a''), (Efa, ''b'')], tg_cpus = [1, 2]\<rparr>])
     (add_gpu_domains 0 [(Efa, ''b'')] 1 2 []) = Inr [(0, \<lparr>wk_domain_list = [(Efa, ''b'')], wk_pin_worker_cpu = Some 1, wk_pin_uvm_cpu = Some 2\<rparr>)]"
  unfolding builder_accepts_iff by (simp add: add_gpu_domains_def spec_fits_def worker_of_def)

end
