(* ===== verification/Engine_Props.thy ===== *)
theory Engine_Props
  imports Transfer_Engine
begin

text \<open>
  The callbacks of the transfer engine: the closures of a transfer are called once, by its first completion or error.
\<close>

section \<open>Callbacks are called once\<close>

text \<open>The closures \<open>D\<close> are registered for nothing but the transfer \<open>tid\<close>.\<close>

definition apart :: "transfer_id \<Rightarrow> closure set \<Rightarrow> callbacks \<Rightarrow> bool" where
  "apart tid D cbs \<longleftrightarrow> set (cb_imm cbs) \<inter> D = {} \<and>
     (\<forall>t h. recv_ops cbs t = Some h \<longrightarrow> on_recv h \<notin> D \<and> rcx_on_error h \<notin> D) \<and>
     (\<forall>t f. send_ops cbs t = Some f \<longrightarrow> f \<notin> D) \<and>
     (\<forall>t h. t \<noteq> tid \<longrightarrow> transfer_ops cbs t = Some h \<longrightarrow> on_done h \<notin> D \<and> tcb_on_error h \<notin> D) \<and>
     (\<forall>i f. cb_imm_count cbs i = Some (Once f) \<or> cb_imm_count cbs i = Some (Repeated f) \<longrightarrow> f \<notin> D) \<and>
     (\<forall>w f. watchers cbs w = Some f \<longrightarrow> f \<notin> D)"

definition calls_of :: "closure set \<Rightarrow> 'd transfer_engine \<Rightarrow> invocation list" where
  "calls_of D te = filter (\<lambda>call. called call \<in> D) (te_calls te)"

text \<open>The calls that a transfer's completion or error amounts to.\<close>

fun conclusion :: "transfer_id \<Rightarrow> transfer_callback \<Rightarrow> transfer_completion_entry \<Rightarrow> invocation list" where
  "conclusion tid h (CTransfer t) = (if t = tid then [OnDone (on_done h)] else [])"
| "conclusion tid h (CError t e) = (if t = tid then [OnError (tcb_on_error h) e] else [])"
| "conclusion tid h c = []"

definition conclusions :: "transfer_id \<Rightarrow> transfer_callback option \<Rightarrow> transfer_completion_entry list \<Rightarrow> invocation list" where
  "conclusions tid ho cs = (case ho of None \<Rightarrow> [] | Some h \<Rightarrow> take 1 (concat (map (conclusion tid h) cs)))"

text \<open>A step that does not concern the transfer leaves its callback registered and makes none of its calls.\<close>

definition silent :: "transfer_id \<Rightarrow> closure set \<Rightarrow> 'd transfer_engine \<Rightarrow> 'd transfer_engine \<Rightarrow> bool" where
  "silent tid D te te' \<longleftrightarrow> (apart tid D (te_callbacks te) \<longrightarrow>
     apart tid D (te_callbacks te') \<and> transfer_ops (te_callbacks te') tid = transfer_ops (te_callbacks te) tid \<and> calls_of D te' = calls_of D te)"

lemma silent_refl: "silent tid D te te"
  by (simp add: silent_def)

lemma silent_trans: "silent tid D te te' \<Longrightarrow> silent tid D te' te'' \<Longrightarrow> silent tid D te te''"
  by (auto simp: silent_def)

lemma silent_engine: "silent tid D te (te\<lparr>te_engine := e\<rparr>)"
  by (simp add: silent_def calls_of_def)

lemma silent_on_engine: "on_engine f te = Some (r, te') \<Longrightarrow> silent tid D te te'"
  by (auto simp: on_engine_def intro: silent_engine)

lemma silent_invoke: "invoke user call te = (r, te') \<Longrightarrow> called call \<notin> D \<Longrightarrow> silent tid D te te'"
  by (auto simp: invoke_def silent_def calls_of_def)

lemma silent_invoke_all: "invoke_all user calls te = (r, te') \<Longrightarrow> \<forall>call \<in> set calls. called call \<notin> D \<Longrightarrow> silent tid D te te'"
proof (induction calls arbitrary: te)
  case (Cons call calls)
  obtain a te1 where i: "invoke user call te = (a, te1)" by (cases "invoke user call te")
  have "silent tid D te te1" using silent_invoke [OF i] Cons.prems(2) by simp
  moreover have "silent tid D te1 te'" using Cons i silent_refl by (cases a) auto
  ultimately show ?case by (rule silent_trans)
qed (simp add: silent_refl)

text \<open>Taking a callback off its map keeps the others apart.\<close>

lemma apart_remove:
  assumes "apart tid D cbs"
  shows "apart tid D (cbs\<lparr>recv_ops := (recv_ops cbs)(t := None)\<rparr>)" "apart tid D (cbs\<lparr>send_ops := (send_ops cbs)(t := None)\<rparr>)"
    "apart tid D (cbs\<lparr>transfer_ops := (transfer_ops cbs)(t := None)\<rparr>)" "apart tid D (cbs\<lparr>cb_imm_count := (cb_imm_count cbs)(i := None)\<rparr>)"
    "apart tid D (cbs\<lparr>watchers := (watchers cbs)(w := None)\<rparr>)"
  using assms by (auto simp: apart_def split: if_splits)

lemma silent_callbacks:
  "(apart tid D (te_callbacks te) \<Longrightarrow> apart tid D cbs) \<Longrightarrow> transfer_ops cbs tid = transfer_ops (te_callbacks te) tid \<Longrightarrow>
     silent tid D te (te\<lparr>te_callbacks := cbs\<rparr>)"
  by (simp add: silent_def calls_of_def)

lemma apart_imm: "apart tid D (te_callbacks te) \<Longrightarrow> \<forall>call \<in> set (imm_invocations imm te). called call \<notin> D"
  by (auto simp: apart_def imm_invocations_def)

lemma silent_imm_count:
  assumes ap: "apart tid D (te_callbacks te)" and h: "handle_imm_count user imm te = Some (ok, te')"
  shows "silent tid D te te'"
proof (cases "cb_imm_count (te_callbacks te) imm")
  case None
  then show ?thesis using h silent_refl by (simp add: handle_imm_count_def)
next
  case (Some fn)
  let ?cbs = "(te_callbacks te)\<lparr>cb_imm_count := (cb_imm_count (te_callbacks te))(imm := None)\<rparr>"
  have rem: "silent tid D te1 (te1\<lparr>te_callbacks := ?cbs\<rparr>)" if "te_callbacks te1 = te_callbacks te" for te1 :: "'a transfer_engine"
    using that apart_remove(4) [OF ap] by (intro silent_callbacks) auto
  show ?thesis
  proof (cases fn)
    case (Once f)
    then have f: "f \<notin> D" using ap Some by (auto simp: apart_def)
    obtain a te1 where i: "invoke user (OnImmCount f) (te\<lparr>te_callbacks := ?cbs\<rparr>) = (a, te1)" by (meson surj_pair)
    have "te' = te1" using h Some Once i by (auto simp: handle_imm_count_def split: option.splits)
    then show ?thesis using silent_trans [OF rem silent_invoke [OF i]] f by simp
  next
    case (Repeated f)
    then have f: "f \<notin> D" using ap Some by (auto simp: apart_def)
    obtain a te1 where i: "invoke user (OnImmCount f) te = (a, te1)" by (meson surj_pair)
    have q1: "silent tid D te te1" using silent_invoke [OF i] f by simp
    have cb1: "te_callbacks te1 = te_callbacks te" using i by (auto simp: invoke_def)
    obtain ic e where e: "engine_remove_imm_count imm (te_engine te1) = (ic, e)" by (meson surj_pair)
    define te2 where "te2 = te1\<lparr>te_callbacks := ?cbs, te_engine := e\<rparr>"
    have q2: "silent tid D te te2"
      using silent_trans [OF q1 silent_trans [OF rem [OF cb1] silent_engine]] by (simp add: te2_def)
    have ap2: "apart tid D (te_callbacks te2)" using q2 ap by (simp add: silent_def)
    consider "te' = te1" | "te' = te2" | n where "invoke_all user (concat (replicate n (imm_invocations imm te2))) te2 = (ok, te')"
      using h Some Repeated i e by (auto simp: handle_imm_count_def Let_def te2_def [symmetric] split: option.splits bool.splits prod.splits)
    then show ?thesis
    proof cases
      case 3
      have "silent tid D te2 te'" by (rule silent_invoke_all [OF 3]) (use apart_imm [OF ap2, of imm] in auto)
      then show ?thesis by (rule silent_trans [OF q2])
    qed (use q1 q2 in auto)
  qed
qed

lemma silent_watch:
  assumes ap: "apart tid D (te_callbacks te)" and h: "handle_uvm_watch relock user wid old new te = Some (ok, te')"
  shows "silent tid D te te'"
proof (cases "watchers (te_callbacks te) wid")
  case None
  then show ?thesis using h silent_refl by (simp add: handle_uvm_watch_def)
next
  case (Some f)
  then have f: "f \<notin> D" using ap by (auto simp: apart_def)
  obtain a te1 where i: "invoke user (OnWatch f old new) te = (a, te1)" by (meson surj_pair)
  have q1: "silent tid D te te1" using silent_invoke [OF i] f by simp
  have stop: "silent tid D te1 te'" if s: "stop_watcher relock wid te1 = Some te'"
  proof -
    obtain r te2 where r: "on_engine (release_uvm_watcher wid) te1 = Some (r, te2)"
        "te' = te2\<lparr>te_callbacks := (te_callbacks te2)\<lparr>watchers := (watchers (te_callbacks te2))(wid := None)\<rparr>\<rparr>"
      using s by (auto simp: stop_watcher_def split: Option.bind_splits if_splits)
    have "silent tid D te2 te'" unfolding r(2) by (rule silent_callbacks) (simp_all add: apart_remove)
    then show ?thesis by (rule silent_trans [OF silent_on_engine [OF r(1)]])
  qed
  have "te' = te1 \<or> stop_watcher relock wid te1 = Some te'"
    using h Some i by (auto simp: handle_uvm_watch_def split: option.splits bool.splits)
  then show ?thesis using q1 silent_trans [OF q1 stop] by blast
qed

text \<open>A completion that is not the transfer's is silent; its own takes the callback off the map and calls it.\<close>

lemma silent_other:
  assumes ap: "apart tid D (te_callbacks te)" and h: "handle_transfer_completion relock user c te = Some (ok, te')"
    and c: "transfer_ops (te_callbacks te) tid = None \<or> conclusion tid cb c = []"
  shows "silent tid D te te'"
proof -
  let ?cbs = "te_callbacks te"
  have call: "silent tid D te te'" if "te' = snd (invoke user call (te\<lparr>te_callbacks := cbs\<rparr>))" "called call \<notin> D"
      "apart tid D cbs" "transfer_ops cbs tid = transfer_ops ?cbs tid" for call cbs
    using silent_trans [OF silent_callbacks silent_invoke [OF surjective_pairing]] that by auto
  note removed = apart_remove [OF ap]
  show ?thesis
  proof (cases c)
    case (CTransfer t)
    show ?thesis
    proof (cases "transfer_ops ?cbs t")
      case (Some x)
      then have "t \<noteq> tid" using c CTransfer by (auto split: if_splits)
      then have "on_done x \<notin> D" using ap Some by (auto simp: apart_def)
      then show ?thesis using h CTransfer Some removed(3) [of t] \<open>t \<noteq> tid\<close>
        by (intro call [of "OnDone (on_done x)" "?cbs\<lparr>transfer_ops := (transfer_ops ?cbs)(t := None)\<rparr>"]) (auto simp: handle_transfer_completion_def invoke_result_def handle_error_def Let_def case_prod_beta)
    qed (use h CTransfer silent_refl in \<open>simp add: handle_transfer_completion_def\<close>)
  next
    case (CSend t)
    show ?thesis
    proof (cases "send_ops ?cbs t")
      case (Some f)
      then have "f \<notin> D" using ap by (auto simp: apart_def)
      then show ?thesis using h CSend Some removed(2) [of t]
        by (intro call [of "OnSend f (Inr ())" "?cbs\<lparr>send_ops := (send_ops ?cbs)(t := None)\<rparr>"]) (auto simp: handle_transfer_completion_def invoke_result_def handle_error_def Let_def case_prod_beta)
    qed (use h CSend silent_refl in \<open>simp add: handle_transfer_completion_def\<close>)
  next
    case (CRecv t n)
    show ?thesis
    proof (cases "recv_ops ?cbs t")
      case (Some x)
      then have f: "on_recv x \<notin> D" using ap by (auto simp: apart_def)
      obtain a te1 where i: "invoke user (OnRecv (on_recv x) n) te = (a, te1)" by (meson surj_pair)
      have q: "silent tid D te te1" using silent_invoke [OF i] f by simp
      show ?thesis using h CRecv Some i q silent_trans [OF q silent_on_engine]
        by (auto simp: handle_transfer_completion_def split: option.splits Option.bind_splits)
    qed (use h CRecv silent_refl in \<open>simp add: handle_transfer_completion_def\<close>)
  next
    case (CError t e)
    consider x where "transfer_ops ?cbs t = Some x" "t \<noteq> tid" | f where "transfer_ops ?cbs t = None" "send_ops ?cbs t = Some f"
      | x where "transfer_ops ?cbs t = None" "send_ops ?cbs t = None" "recv_ops ?cbs t = Some x"
      | "transfer_ops ?cbs t = None" "send_ops ?cbs t = None" "recv_ops ?cbs t = None"
      using c CError by (cases "transfer_ops ?cbs t"; cases "send_ops ?cbs t"; cases "recv_ops ?cbs t") (auto split: if_splits)
    then show ?thesis
    proof cases
      case 1
      then have "tcb_on_error x \<notin> D" using ap by (auto simp: apart_def)
      then show ?thesis using h CError 1 removed(3) [of t]
        by (intro call [of "OnError (tcb_on_error x) e" "?cbs\<lparr>transfer_ops := (transfer_ops ?cbs)(t := None)\<rparr>"]) (auto simp: handle_transfer_completion_def invoke_result_def handle_error_def Let_def case_prod_beta)
    next
      case 2
      then have "f \<notin> D" using ap by (auto simp: apart_def)
      then show ?thesis using h CError 2 removed(2) [of t]
        by (intro call [of "OnSend f (Inl e)" "?cbs\<lparr>send_ops := (send_ops ?cbs)(t := None)\<rparr>"]) (auto simp: handle_transfer_completion_def invoke_result_def handle_error_def Let_def case_prod_beta)
    next
      case 3
      then have "rcx_on_error x \<notin> D" using ap by (auto simp: apart_def)
      then show ?thesis using h CError 3 removed(1) [of t]
        by (intro call [of "OnError (rcx_on_error x) e" "?cbs\<lparr>recv_ops := (recv_ops ?cbs)(t := None)\<rparr>"]) (auto simp: handle_transfer_completion_def invoke_result_def handle_error_def Let_def case_prod_beta)
    qed (use h CError silent_refl in \<open>simp add: handle_transfer_completion_def handle_error_def\<close>)
  next
    case (CImmData imm)
    then have "invoke_all user (imm_invocations imm te) te = (ok, te')" using h by (simp add: handle_transfer_completion_def)
    then show ?thesis by (rule silent_invoke_all) (rule apart_imm [OF ap])
  next
    case (CImmCountReached imm)
    then show ?thesis using h silent_imm_count [OF ap] by (simp add: handle_transfer_completion_def)
  next
    case (CUvmWatch w old new)
    then show ?thesis using h silent_watch [OF ap] by (simp add: handle_transfer_completion_def)
  qed
qed

lemma handle_own:
  assumes ap: "apart tid {on_done h, tcb_on_error h} (te_callbacks te)" and h: "handle_transfer_completion relock user c te = Some (ok, te')"
    and op: "transfer_ops (te_callbacks te) tid = Some h" and c: "conclusion tid h c \<noteq> []"
  shows "te_callbacks te' = (te_callbacks te)\<lparr>transfer_ops := (transfer_ops (te_callbacks te))(tid := None)\<rparr> \<and>
    calls_of {on_done h, tcb_on_error h} te' = calls_of {on_done h, tcb_on_error h} te @ conclusion tid h c"
proof -
  consider "c = CTransfer tid" | e where "c = CError tid e" using c by (cases c) (auto split: if_splits)
  then show ?thesis
    by cases (use h op in \<open>auto simp: handle_transfer_completion_def invoke_result_def handle_error_def Let_def case_prod_beta invoke_def calls_of_def\<close>)
qed

lemma conclusions_Nil [simp]: "conclusions tid ho [] = []" "conclusions tid None cs = []"
  by (simp_all add: conclusions_def split: option.split)

lemma conclusions_Cons:
  "conclusions tid ho (c # cs) = (case ho of None \<Rightarrow> [] | Some h \<Rightarrow> if conclusion tid h c = [] then conclusions tid ho cs else conclusion tid h c)"
  by (cases c) (auto simp: conclusions_def split: option.split)

lemma callbacks_poll: "te_callbacks (te\<lparr>te_engine := e\<rparr>) = te_callbacks te" "calls_of D (te\<lparr>te_engine := e\<rparr>) = calls_of D te"
    "te_callbacks (arrive cs te) = te_callbacks te" "calls_of D (arrive cs te) = calls_of D te"
  by (simp_all add: calls_of_def arrive_def)

lemma thread_calls:
  assumes "callback_worker_thread relock user turns te = Some (handled, te')" "apart tid {on_done h, tcb_on_error h} (te_callbacks te)"
    "transfer_ops (te_callbacks te) tid = ho" "ho = None \<or> ho = Some h"
  shows "calls_of {on_done h, tcb_on_error h} te' = calls_of {on_done h, tcb_on_error h} te @ conclusions tid ho handled"
  using assms
proof (induction turns arbitrary: te handled ho)
  case Nil
  then show ?case by (simp add: conclusions_def split: option.split)
next
  case (Cons new turns)
  let ?D = "{on_done h, tcb_on_error h}"
  define te0 where "te0 = arrive new te"
  obtain co e where poll: "poll_transfer_completion (te_engine te0) = (co, e)" by (meson surj_pair)
  define te1 where "te1 = te0\<lparr>te_engine := e\<rparr>"
  have same: "te_callbacks te1 = te_callbacks te" "calls_of ?D te1 = calls_of ?D te" "calls_of ?D te0 = calls_of ?D te"
    by (simp_all add: te1_def te0_def callbacks_poll)
  show ?case
  proof (cases "stop_signal (te_engine te0) \<or> co = None")
    case True
    then show ?thesis using Cons same poll by (auto simp: te0_def [symmetric] te1_def [symmetric] Let_def split: if_splits)
  next
    case False
    then obtain c where c: "co = Some c" by auto
    obtain ok te2 where h: "handle_transfer_completion relock user c te1 = Some (ok, te2)"
      using Cons.prems(1) False poll c by (auto simp: te0_def [symmetric] te1_def [symmetric] Let_def split: Option.bind_splits)
    define ho2 where "ho2 = (if ho = None \<or> conclusion tid h c = [] then ho else None)"
    have step: "apart tid ?D (te_callbacks te2) \<and> transfer_ops (te_callbacks te2) tid = ho2 \<and>
        calls_of ?D te2 = calls_of ?D te @ (if ho = None then [] else conclusion tid h c)"
    proof (cases "ho = None \<or> conclusion tid h c = []")
      case True
      then have "silent tid ?D te1 te2" using silent_other [OF _ h, of tid ?D h] Cons.prems(2,3) same by auto
      then show ?thesis using Cons.prems same True by (auto simp: silent_def ho2_def)
    next
      case False
      then show ?thesis using handle_own [OF _ h, of tid h] Cons.prems same apart_remove(3) by (auto simp: ho2_def)
    qed
    show ?thesis
    proof (cases ok)
      case True
      then obtain rest where r: "callback_worker_thread relock user turns te2 = Some (rest, te')" "handled = c # rest"
        using Cons.prems(1) False poll c h by (auto simp: te0_def [symmetric] te1_def [symmetric] Let_def)
      show ?thesis using Cons.IH [OF r(1), of ho2] step Cons.prems(4) r(2)
        by (auto simp: conclusions_Cons ho2_def split: option.splits if_splits)
    next
      case False
      then have "handled = [c]" "te' = te2\<lparr>te_engine := engine_stop (te_engine te2)\<rparr>"
        using Cons.prems(1) \<open>\<not> (stop_signal (te_engine te0) \<or> co = None)\<close> poll c h
        by (auto simp: te0_def [symmetric] te1_def [symmetric] Let_def)
      then show ?thesis using step Cons.prems(4) by (auto simp: callbacks_poll conclusions_Cons)
    qed
  qed
qed

text \<open>
  \<^bold>\<open>C22.\<close> The callback of a transfer is called at most once, by the first completion or error of that transfer, and it is
  called if there is one. After a submission with closures that are registered for nothing else, whatever the other
  closures answer and whatever arrives in between, the calls of its closures are: none if the thread has handled
  neither a completion nor an error of the transfer; \<^verbatim>\<open>on_done\<close> alone if a completion came first; \<^verbatim>\<open>on_error\<close> alone, with
  the error, if an error came first.
\<close>

theorem transfer_callback_once:
  assumes submit: "submit_transfer request h te = Some (Inr (), te1)" and ap: "apart (TransferId (next_transfer_id te)) {on_done h, tcb_on_error h} (te_callbacks te)"
    and run: "callback_worker_thread relock user turns te1 = Some (handled, te2)"
  shows "calls_of {on_done h, tcb_on_error h} te2 = calls_of {on_done h, tcb_on_error h} te @
    conclusions (TransferId (next_transfer_id te)) (Some h) handled"
proof -
  let ?tid = "TransferId (next_transfer_id te)"
  have "te_callbacks te1 = (te_callbacks te)\<lparr>transfer_ops := (transfer_ops (te_callbacks te))(?tid \<mapsto> h)\<rparr>" "te_calls te1 = te_calls te"
    using submit by (auto simp: submit_transfer_def assign_transfer_id_def on_engine_def)
  moreover have "apart ?tid {on_done h, tcb_on_error h} ((te_callbacks te)\<lparr>transfer_ops := (transfer_ops (te_callbacks te))(?tid \<mapsto> h)\<rparr>)"
    using ap by (auto simp: apart_def)
  ultimately show ?thesis using thread_calls [OF run, of ?tid h "Some h"] by (simp add: calls_of_def)
qed

text \<open>An engine with workers on the recording domains for two GPUs, which the examples run on.\<close>

definition demo_worker :: "rec_domain worker_context" where
  "demo_worker = worker_context_new \<lparr>iw_group = rec_group 0, iw_link_speed = 200, iw_addresses = [DomainAddress [0], DomainAddress [1]]\<rparr>"

definition demo_engine :: "rec_domain fabric_engine" where
  "demo_engine = \<lparr>fe_workers = [(0, demo_worker), (1, demo_worker)], main_address = DomainAddress [0], num_groups = 2, num_domains = 4,
     fe_link_speed = 400, nets_per_gpu = 2, stop_signal = False, mr_device_map = [MemoryRegionHandle 32 \<mapsto> Cuda (CudaDeviceId 1)],
     fe_imm_count_map = imm_count_map_new store0\<rparr>"

definition demo_te :: "rec_domain transfer_engine" where
  "demo_te = \<lparr>next_transfer_id = 7, te_engine = demo_engine, te_callbacks = callbacks_new\<lparr>cb_imm := [5]\<rparr>, te_calls = []\<rparr>"

lemmas demo_defs = demo_te_def demo_engine_def demo_worker_def worker_context_new_def callbacks_new_def

lemmas run_defs = arrive_def btree_update_def poll_transfer_completion_def handle_transfer_completion_def invoke_result_def invoke_def
  imm_invocations_def handle_error_def

lemmas submit_defs = submit_transfer_def assign_transfer_id_def on_engine_def engine_submit_transfer_def transfer_worker_def
  get_worker_by_mr_def get_worker_def get_main_worker_def send_command_def btree_update_def

theorem transfer_callback_once_witness:
  "\<exists>te1 handled te2. submit_transfer (PagedReq rec_paged) \<lparr>on_done = 1, tcb_on_error = 2\<rparr> demo_te = Some (Inr (), te1) \<and>
    callback_worker_thread True (\<lambda>_ _. Some True) [[(0, CImmData 3)], [(1, CTransfer (TransferId 7))], [(1, CTransfer (TransferId 7))]] te1 = Some (handled, te2) \<and>
    calls_of {1, 2} te2 = [OnDone 1]"
proof -
  let ?turns = "[[(0, CImmData 3)], [(1, CTransfer (TransferId 7))], [(1, CTransfer (TransferId 7))]]"
  obtain te1 where s: "submit_transfer (PagedReq rec_paged) \<lparr>on_done = 1, tcb_on_error = 2\<rparr> demo_te = Some (Inr (), te1)"
    by (simp add: submit_defs demo_defs rec_paged_def)
  then have t: "te1 = snd (the (submit_transfer (PagedReq rec_paged) \<lparr>on_done = 1, tcb_on_error = 2\<rparr> demo_te))" by simp
  have "\<exists>te2. callback_worker_thread True (\<lambda>_ _. Some True) ?turns te1 =
      Some ([CImmData 3, CTransfer (TransferId 7), CTransfer (TransferId 7)], te2)"
    unfolding t by (simp add: submit_defs demo_defs rec_paged_def run_defs Let_def ex_bool_eq)
  then obtain te2 where r: "callback_worker_thread True (\<lambda>_ _. Some True) ?turns te1 =
      Some ([CImmData 3, CTransfer (TransferId 7), CTransfer (TransferId 7)], te2)" ..
  have "apart (TransferId (next_transfer_id demo_te)) {1, 2} (te_callbacks demo_te)" by (simp add: apart_def demo_defs)
  from transfer_callback_once [OF s _ r] this show ?thesis using s r
    by (simp add: demo_defs calls_of_def conclusions_def)
qed

end
