(* ===== verification/Engine_Routing.thy ===== *)
theory Engine_Routing
  imports Engine_Props
begin

text \<open>
  The workers of an engine and what reaches them: which one is the main worker, that transfers go to the worker that
  owns their memory, that receive buffers are posted again, and what becomes of an operation that is refused.
\<close>

section \<open>The workers of an engine\<close>

lemma map_of_btree_update:
  "map_of (btree_update k f ws) k' = (if k' = k then map_option f (map_of ws k') else map_of ws k')"
  by (induction ws) (auto simp: btree_update_def)

lemma keys_btree_update: "map fst (btree_update k f ws) = map fst ws"
  by (auto simp: btree_update_def)

lemma set_btree_insert: "fst ` set (btree_insert k v xs) = insert k (fst ` set xs)"
  by (induction k v xs rule: btree_insert.induct) (simp_all add: insert_commute)

lemma sorted_btree_insert: "sorted_wrt (<) (map fst xs) \<Longrightarrow> sorted_wrt (<) (map fst (btree_insert k v xs))"
proof (induction xs)
  case (Cons x xs)
  have "\<forall>k' \<in> fst ` set (btree_insert k v xs). fst x < k'" if "fst x < k"
    unfolding set_btree_insert using Cons.prems that by auto
  then show ?case using Cons by (cases x) auto
qed simp

lemma map_of_btree_insert: "sorted_wrt (<) (map fst xs) \<Longrightarrow> map_of (btree_insert k v xs) = (map_of xs)(k \<mapsto> v)"
proof (induction xs)
  case (Cons x xs)
  obtain k' v' where x: "x = (k', v')" by (cases x)
  have "map_of xs k = None" if "k < k'" using Cons.prems that x by (fastforce simp: map_of_eq_None_iff)
  then show ?case using Cons x by (auto simp: fun_eq_iff)
qed simp

definition insert_workers :: "(u8 \<times> 'd initialized_worker) list \<Rightarrow> (u8 \<times> 'd worker_context) list \<Rightarrow> (u8 \<times> 'd worker_context) list" where
  "insert_workers ws = fold (\<lambda>(k, w). btree_insert k (worker_context_new w)) ws"

lemma insert_workers_sorted:
  "sorted_wrt (<) (map fst c) \<Longrightarrow> sorted_wrt (<) (map fst (insert_workers ws c)) \<and> fst ` set (insert_workers ws c) = fst ` set c \<union> fst ` set ws"
  unfolding insert_workers_def
  by (induction ws arbitrary: c) (auto simp: sorted_btree_insert set_btree_insert case_prod_beta)

lemma insert_workers_map_of:
  "sorted_wrt (<) (map fst c) \<Longrightarrow> distinct (map fst ws) \<Longrightarrow> (k, w) \<in> set ws \<Longrightarrow> map_of (insert_workers ws c) k = Some (worker_context_new w)"
proof (induction ws rule: rev_induct)
  case (snoc x ws)
  have s: "sorted_wrt (<) (map fst (insert_workers ws c))" using insert_workers_sorted [OF snoc.prems(1)] by blast
  have "insert_workers (ws @ [x]) c = btree_insert (fst x) (worker_context_new (snd x)) (insert_workers ws c)"
    by (simp add: insert_workers_def case_prod_beta)
  moreover have "k \<noteq> fst x \<or> (k, w) = x" using snoc.prems(2,3) by (force simp: image_iff)
  ultimately show ?case using snoc map_of_btree_insert [OF s] by auto
qed simp

lemma fold_workers:
  "fold (\<lambda>(device, w) (contexts, groups, domains, speed).
       (btree_insert device (worker_context_new w) contexts, groups + 1, domains + length (iw_addresses w), speed + iw_link_speed w)) ws (c, g, d, s) =
     (insert_workers ws c, g + length ws, d + sum_list (map (\<lambda>(_, w). length (iw_addresses w)) ws), s + sum_list (map (\<lambda>(_, w). iw_link_speed w) ws))"
  unfolding insert_workers_def by (induction ws arbitrary: c g d s) (auto simp: case_prod_beta)

lemma try_map_all: "try_map f xs = Some (Inr ys) \<Longrightarrow> list_all2 (\<lambda>x y. f x = Some (Inr y)) xs ys"
  by (induction xs arbitrary: ys) (auto split: Option.bind_splits sum.splits)

text \<open>What is announced of an engine's workers, from the list they are given in.\<close>

lemma fabric_engine_new_workers:
  assumes new: "fabric_engine_new spawn init s workers = Some (Inr e)"
  shows "\<exists>ws. map fst ws = map fst workers \<and> ws \<noteq> [] \<and> iw_addresses (snd (hd ws)) \<noteq> [] \<and> fe_workers e = insert_workers ws [] \<and>
    main_address e = hd (iw_addresses (snd (hd ws))) \<and> num_groups e = length ws \<and>
    num_domains e = sum_list (map (\<lambda>(_, w). length (iw_addresses w)) ws)"
proof -
  let ?sp = "\<lambda>(device, w). Some (case spawn w of Inl e \<Rightarrow> Inl e | Inr h \<Rightarrow> Inr (device, h))"
  let ?in = "\<lambda>(device, h). init h \<bind> (\<lambda>r. Some (case r of Inl e \<Rightarrow> Inl e | Inr w \<Rightarrow> Inr (device, w)))"
  obtain hs ws where w: "try_map ?sp workers = Some (Inr hs)" "try_map ?in hs = Some (Inr ws)" "ws \<noteq> []" "iw_addresses (snd (hd ws)) \<noteq> []"
      "fe_workers e = insert_workers ws []" "main_address e = hd (iw_addresses (snd (hd ws)))" "num_groups e = length ws"
      "num_domains e = sum_list (map (\<lambda>(_, w). length (iw_addresses w)) ws)"
    using new unfolding fabric_engine_new_def fold_workers
    by (auto simp: index_def Let_def hd_conv_nth split: Option.bind_splits sum.splits if_splits)
  have "map fst hs = map fst workers" using try_map_all [OF w(1)]
    by (induction rule: list_all2_induct) (auto split: sum.splits)
  moreover have "map fst ws = map fst hs" using try_map_all [OF w(2)]
    by (induction rule: list_all2_induct) (auto split: sum.splits Option.bind_splits)
  ultimately show ?thesis using w(3-) by auto
qed

text \<open>
  \<^bold>\<open>C28.\<close> An engine on distinct GPUs has one worker per GPU, in the order of their numbers, and counts their domains. Its main
  worker, which serves host memory, sends, receives and immediates, is that of the least GPU, while the address it
  publishes as its own is the first of the worker that was listed first.
\<close>

theorem engine_main_worker:
  assumes new: "fabric_engine_new spawn init s workers = Some (Inr e)" and dist: "distinct (map fst workers)"
  shows "workers \<noteq> [] \<and> sorted_wrt (<) (map fst (fe_workers e)) \<and> fst ` set (fe_workers e) = fst ` set workers \<and> num_groups e = length workers \<and>
    num_domains e = (\<Sum>k \<in> fst ` set workers. length (wc_addresses (the (map_of (fe_workers e) k)))) \<and>
    get_main_worker e = Some (Min (fst ` set workers)) \<and>
    (\<exists>w. map_of (fe_workers e) (fst (hd workers)) = Some w \<and> wc_addresses w \<noteq> [] \<and> main_address e = hd (wc_addresses w))"
proof -
  obtain ws where ws: "map fst ws = map fst workers" "ws \<noteq> []" "iw_addresses (snd (hd ws)) \<noteq> []" "fe_workers e = insert_workers ws []"
      "main_address e = hd (iw_addresses (snd (hd ws)))" "num_groups e = length ws"
      "num_domains e = sum_list (map (\<lambda>(_, w). length (iw_addresses w)) ws)"
    using fabric_engine_new_workers [OF new] by blast
  have keys: "fst ` set ws = fst ` set workers" "length ws = length workers" using arg_cong [OF ws(1), of set] map_eq_imp_length_eq [OF ws(1)] by auto
  have ne: "workers \<noteq> []" using ws(1,2) by auto
  have sorted: "sorted_wrt (<) (map fst (fe_workers e))" and set: "fst ` set (fe_workers e) = fst ` set workers"
    using insert_workers_sorted [of "[]" ws] by (auto simp: ws(4) keys)
  have look: "map_of (fe_workers e) k = Some (worker_context_new w)" if "(k, w) \<in> set ws" for k w
    unfolding ws(4) by (rule insert_workers_map_of) (use that dist ws(1) in auto)
  have fw: "fe_workers e \<noteq> []" using set ne by auto
  have "Min (fst ` set workers) = fst (fe_workers e ! 0)"
  proof (rule Min_eqI)
    show "fst (fe_workers e ! 0) \<in> fst ` set workers" unfolding set [symmetric] using fw by auto
    fix k assume "k \<in> fst ` set workers"
    then obtain x where "x \<in> set (fe_workers e)" "k = fst x" unfolding set [symmetric] by auto
    then show "fst (fe_workers e ! 0) \<le> k" using sorted fw by (cases "fe_workers e") auto
  qed simp
  then have main: "get_main_worker e = Some (Min (fst ` set workers))" using fw by (simp add: get_main_worker_def index_def)
  have "num_domains e = sum_list (map (\<lambda>k. length (wc_addresses (the (map_of (fe_workers e) k)))) (map fst ws))"
    unfolding ws(7) by (auto intro!: arg_cong [of _ _ sum_list] simp: look worker_context_new_def)
  then have doms: "num_domains e = (\<Sum>k \<in> fst ` set workers. length (wc_addresses (the (map_of (fe_workers e) k))))"
    using dist by (simp only: ws(1) sum_list_distinct_conv_sum_set set_map)
  have "fst (hd workers) = fst (hd ws)" using ws(1,2) ne by (metis hd_map)
  then have "map_of (fe_workers e) (fst (hd workers)) = Some (worker_context_new (snd (hd ws)))" using look [of "fst (hd ws)" "snd (hd ws)"] ws(2) by simp
  then show ?thesis using ne sorted set main doms ws(3,5,6) keys(2) by (simp add: worker_context_new_def)
qed

definition demo_start :: "nat \<Rightarrow> rec_domain initialized_worker" where
  "demo_start i = \<lparr>iw_group = rec_group 0, iw_link_speed = 200, iw_addresses = [DomainAddress [of_nat i]]\<rparr>"

theorem engine_main_worker_witness:
  "\<exists>e. fabric_engine_new Inr (\<lambda>i. Some (Inr (demo_start i))) store0 [(3, 0), (1, 1)] = Some (Inr e) \<and>
     get_main_worker e = Some 1 \<and> main_address e = DomainAddress [0] \<and> num_domains e = 2"
proof -
  have "\<exists>e. fabric_engine_new Inr (\<lambda>i. Some (Inr (demo_start i))) store0 [(3, 0), (1, 1)] = Some (Inr e) \<and>
      map_of (fe_workers e) 3 = Some (worker_context_new (demo_start 0)) \<and> map_of (fe_workers e) 1 = Some (worker_context_new (demo_start 1))"
    by (simp add: fabric_engine_new_def demo_start_def)
  then obtain e where e: "fabric_engine_new Inr (\<lambda>i. Some (Inr (demo_start i))) store0 [(3, 0), (1, 1)] = Some (Inr e)"
    "map_of (fe_workers e) 3 = Some (worker_context_new (demo_start 0))" "map_of (fe_workers e) 1 = Some (worker_context_new (demo_start 1))" by blast
  have "Min {3, 1 :: u8} = 1" by simp
  then show ?thesis using engine_main_worker [OF e(1)] e by (auto simp: worker_context_new_def demo_start_def)
qed

section \<open>Transfers reach the owner of their memory\<close>

fun source_mr :: "transfer_request \<Rightarrow> memory_region_handle option" where
  "source_mr (SingleReq req) = Some (st_src_mr req)"
| "source_mr (PagedReq req) = Some (pt_src_mr req)"
| "source_mr (ScatterReq req) = Some (sct_src_mr req)"
| "source_mr _ = None"

lemma register_memory_local_ok:
  assumes "register_memory_local ops attrs p len device e = Some (Inr handle, e1)"
  shows "\<exists>k w region g. get_worker device e = Some (Inr k) \<and> map_of (fe_workers e) k = Some w \<and> wc_up w \<and> memory_region_new attrs p len device = Inr region \<and>
    register_mr_local ops region (wc_group w) = (Inr handle, g) \<and>
    e1 = e\<lparr>fe_workers := btree_update k (\<lambda>w. w\<lparr>wc_group := g\<rparr>) (fe_workers e), mr_device_map := (mr_device_map e)(handle \<mapsto> device)\<rparr>"
  using assms
  by (auto simp: register_memory_local_def call_worker_def worker_handle_call_def Let_def
      split: Option.bind_splits sum.splits if_splits worker_reply.splits prod.splits)

lemma get_worker_cases:
  "get_worker Host e = map_option Inr (get_main_worker e)"
  "get_worker (Cuda d) e = Some (if map_of (fe_workers e) (device_num d) = None then Inl (Custom ''Worker not found'') else Inr (device_num d))"
  by (simp_all add: get_worker_def split: option.split)

lemma get_worker_keys:
  assumes "map fst (fe_workers e') = map fst (fe_workers e)"
  shows "get_main_worker e' = get_main_worker e" "get_worker device e' = get_worker device e"
proof -
  have "length (fe_workers e') = length (fe_workers e)" using map_eq_imp_length_eq [OF assms] .
  moreover have "fst (fe_workers e' ! 0) = fst (fe_workers e ! 0)" if "fe_workers e \<noteq> []"
    using arg_cong [OF assms, of "\<lambda>ks. ks ! 0"] that calculation by (cases "fe_workers e'") auto
  ultimately show main: "get_main_worker e' = get_main_worker e" by (auto simp: get_main_worker_def index_def)
  have "(map_of (fe_workers e') k = None) = (map_of (fe_workers e) k = None)" for k
    using arg_cong [OF assms, of set] by (auto simp: map_of_eq_None_iff)
  then show "get_worker device e' = get_worker device e" using main by (cases device) (simp_all add: get_worker_cases)
qed

text \<open>
  \<^bold>\<open>C23.\<close> After memory is registered for a device, every transfer out of it is accepted and handed to one worker: the one of
  that device, on whose group the memory was registered. Its command is queued behind those it already has, and
  no other worker changes.
\<close>

theorem transfer_reaches_owner:
  assumes reg: "register_memory_local ops attrs p len device e = Some (Inr handle, e1)" and src: "source_mr request = Some handle"
  shows "\<exists>k w region g e2. get_worker device e = Some (Inr k) \<and> map_of (fe_workers e) k = Some w \<and> memory_region_new attrs p len device = Inr region \<and>
    register_mr_local ops region (wc_group w) = (Inr handle, g) \<and> engine_submit_transfer tid request tx e1 = Some (Inr (), e2) \<and>
    map_of (fe_workers e2) = (map_of (fe_workers e))(k \<mapsto> w\<lparr>wc_group := g, wc_commands := wc_commands w @ [CmdTransfer tid request tx]\<rparr>)"
proof -
  obtain k w region g where r: "get_worker device e = Some (Inr k)" "map_of (fe_workers e) k = Some w" "wc_up w" "memory_region_new attrs p len device = Inr region"
      "register_mr_local ops region (wc_group w) = (Inr handle, g)"
      "e1 = e\<lparr>fe_workers := btree_update k (\<lambda>w. w\<lparr>wc_group := g\<rparr>) (fe_workers e), mr_device_map := (mr_device_map e)(handle \<mapsto> device)\<rparr>"
    using register_memory_local_ok [OF reg] by blast
  have keys: "map fst (fe_workers e1) = map fst (fe_workers e)" using r(6) by (simp add: keys_btree_update)
  have "get_worker device e1 = Some (Inr k)" using get_worker_keys(2) [OF keys] r(1) by metis
  then have "transfer_worker request e1 = Some (Inr k)"
    using src r(6) by (cases request) (simp_all add: transfer_worker_def get_worker_by_mr_def)
  moreover have "map_of (fe_workers e1) = (map_of (fe_workers e))(k \<mapsto> w\<lparr>wc_group := g\<rparr>)"
    using r(2,6) by (simp add: fun_eq_iff map_of_btree_update)
  ultimately have "\<exists>e2. engine_submit_transfer tid request tx e1 = Some (Inr (), e2) \<and>
      map_of (fe_workers e2) = (map_of (fe_workers e))(k \<mapsto> w\<lparr>wc_group := g, wc_commands := wc_commands w @ [CmdTransfer tid request tx]\<rparr>)"
    using r(3) by (simp add: engine_submit_transfer_def send_command_def fun_eq_iff map_of_btree_update)
  then show ?thesis using r(1,2,4,5) by blast
qed

theorem transfer_reaches_owner_witness:
  "\<exists>handle e1 e2. register_memory_local rec_ops (\<lambda>_. Inr True) 64 4096 (Cuda (CudaDeviceId 1)) demo_engine = Some (Inr handle, e1) \<and>
     engine_submit_transfer (TransferId 3) (PagedReq (rec_paged\<lparr>pt_src_mr := handle\<rparr>)) None e1 = Some (Inr (), e2) \<and>
     wc_commands (the (map_of (fe_workers e2) 1)) = [CmdTransfer (TransferId 3) (PagedReq (rec_paged\<lparr>pt_src_mr := handle\<rparr>)) None] \<and>
     wc_commands (the (map_of (fe_workers e2) 0)) = []"
proof -
  have "\<exists>handle e1. register_memory_local rec_ops (\<lambda>_. Inr True) 64 4096 (Cuda (CudaDeviceId 1)) demo_engine = Some (Inr handle, e1)"
    by (simp add: register_memory_local_def get_worker_def memory_region_new_def call_worker_def worker_handle_call_def register_mr_local_def
        rec_group_def domain_group_new_def rec_ops_def demo_defs numeral_2_eq_2)
  then obtain handle e1 where r: "register_memory_local rec_ops (\<lambda>_. Inr True) 64 4096 (Cuda (CudaDeviceId 1)) demo_engine = Some (Inr handle, e1)" by blast
  have src: "source_mr (PagedReq (rec_paged\<lparr>pt_src_mr := handle\<rparr>)) = Some handle" by simp
  have "get_worker (Cuda (CudaDeviceId 1)) demo_engine = Some (Inr 1)" by (simp add: get_worker_def demo_defs)
  then show ?thesis using r transfer_reaches_owner [OF r src, of "TransferId 3" None] by (auto simp: demo_defs)
qed

text \<open>A command that is accepted is queued behind the others of its worker.\<close>

lemma send_command_ok:
  assumes "send_command k cmd e = Some (Inr (), e1)"
  shows "\<exists>w. map_of (fe_workers e) k = Some w \<and> wc_up w \<and> map_of (fe_workers e1) = (map_of (fe_workers e))(k \<mapsto> w\<lparr>wc_commands := wc_commands w @ [cmd]\<rparr>) \<and>
    map fst (fe_workers e1) = map fst (fe_workers e)"
  using assms by (auto simp: send_command_def fun_eq_iff map_of_btree_update keys_btree_update split: Option.bind_splits if_splits)

lemma engine_submit_transfer_ok:
  "engine_submit_transfer tid request tx e = Some (Inr (), e1) \<Longrightarrow>
     \<exists>k. transfer_worker request e = Some (Inr k) \<and> send_command k (CmdTransfer tid request tx) e = Some (Inr (), e1)"
  by (auto simp: engine_submit_transfer_def split: Option.bind_splits sum.splits)

text \<open>A call changes the worker it is made to and nothing else.\<close>

lemma call_worker_frame:
  assumes "call_worker ops k call e = Some (r, e1)"
  shows "map fst (fe_workers e1) = map fst (fe_workers e)" "mr_device_map e1 = mr_device_map e"
    "\<forall>k'. k' \<noteq> k \<longrightarrow> map_of (fe_workers e1) k' = map_of (fe_workers e) k'"
  using assms by (auto simp: call_worker_def map_of_btree_update keys_btree_update split: Option.bind_splits if_splits option.splits)

text \<open>
  \<^bold>\<open>C29.\<close> Unregistering memory reaches the main worker only. Memory that was registered for a GPU with another worker stays
  registered on that worker's group: the group keeps its domains, the memory still belongs to the device, and
  transfers out of it go to the same worker as before.
\<close>

theorem unregister_misses_owner:
  assumes unreg: "unregister_memory ops p e = Some (r, e1)" and owner: "mr_device_map e (MemoryRegionHandle p) = Some (Cuda d)"
    and other: "get_main_worker e \<noteq> Some (device_num d)" and src: "source_mr request = Some (MemoryRegionHandle p)"
  shows "map_of (fe_workers e1) (device_num d) = map_of (fe_workers e) (device_num d) \<and> transfer_worker request e1 = transfer_worker request e"
proof -
  obtain k r' where m: "get_main_worker e = Some k" "call_worker ops k (CallUnregisterMR p) e = Some (r', e1)"
    using unreg by (auto simp: unregister_memory_def bind_eq_Some_conv)
  note k = call_worker_frame [OF m(2)]
  have same: "map_of (fe_workers e1) (device_num d) = map_of (fe_workers e) (device_num d)" using k(3) m(1) other by auto
  have "get_worker_by_mr (MemoryRegionHandle p) e1 = get_worker_by_mr (MemoryRegionHandle p) e"
    by (simp add: get_worker_by_mr_def k(2) get_worker_keys(2) [OF k(1)] split: option.split)
  then show ?thesis using src same by (cases request) (simp_all add: transfer_worker_def)
qed

theorem unregister_misses_owner_witness:
  "\<exists>r e1. unregister_memory rec_ops 32 demo_engine = Some (r, e1) \<and> map_of (fe_workers e1) 1 = Some demo_worker \<and>
     transfer_worker (PagedReq rec_paged) e1 = Some (Inr 1)"
proof -
  have "\<exists>r e1. unregister_memory rec_ops 32 demo_engine = Some (r, e1)"
    by (simp add: unregister_memory_def get_main_worker_def call_worker_def worker_handle_call_def demo_engine_def demo_worker_def worker_context_new_def)
  then obtain r e1 where u: "unregister_memory rec_ops 32 demo_engine = Some (r, e1)" by blast
  have "map_of (fe_workers e1) (device_num (CudaDeviceId 1)) = map_of (fe_workers demo_engine) (device_num (CudaDeviceId 1)) \<and>
      transfer_worker (PagedReq rec_paged) e1 = transfer_worker (PagedReq rec_paged) demo_engine"
    by (rule unregister_misses_owner [OF u]) (simp_all add: demo_engine_def get_main_worker_def rec_paged_def)
  then show ?thesis using u by (simp add: transfer_worker_def get_worker_by_mr_def get_worker_def demo_engine_def rec_paged_def)
qed

section \<open>Refused transfers\<close>

definition unknown :: "transfer_id \<Rightarrow> callbacks \<Rightarrow> bool" where
  "unknown tid cbs \<longleftrightarrow> transfer_ops cbs tid = None \<and> send_ops cbs tid = None \<and> recv_ops cbs tid = None"

definition with_report :: "transfer_completion_entry \<Rightarrow> unit + ('r \<times> transfer_completion_entry list \<times> 's) \<Rightarrow> unit + ('r \<times> transfer_completion_entry list \<times> 's)" where
  "with_report c = map_sum (\<lambda>u. u) (\<lambda>(reply, comps, st). (reply, c # comps, st))"

text \<open>A scatter that is refused leaves the group as it was.\<close>

lemma scatter_refused:
  assumes "submit_scatter_transfer_request ops tid request tx g = Some (Inl err, g')"
  shows "g' = g"
  using assms by (auto simp: submit_scatter_transfer_request_def Let_def split: if_splits sum.splits option.splits Option.bind_splits)

text \<open>
  \<^bold>\<open>C24.\<close> A scatter with counters that the worker's group refuses is lost. The submission returns success and queues the command.
  The worker's step on it is the step without any command with one error report more: in particular the counters are
  those of that step. The callback thread then drops the report, without a call and without a change, so neither
  the transfer counter nor the error counter ever tells of it.
\<close>

theorem refused_atomic_scatter_lost:
  assumes submit: "submit_transfer_atomic (ScatterReq req) counter te = Some (Inr (), te1)"
    and fresh: "unknown (TransferId (next_transfer_id te)) (te_callbacks te)"
    and refused: "submit_scatter_transfer_request ops (TransferId (next_transfer_id te)) req (Some counter) g = Some (Inl err, g')"
  shows "\<exists>k w. map_of (fe_workers (te_engine te1)) k = Some w \<and> wc_commands w \<noteq> [] \<and>
    worker_step ops RecvEmpty ret_ok (Received (last (wc_commands w))) True g m =
      map_option (with_report (CError (TransferId (next_transfer_id te)) err)) (worker_step ops RecvEmpty ret_ok RecvEmpty True g m) \<and>
    handle_transfer_completion relock user (CError (TransferId (next_transfer_id te)) err) te1 = Some (True, te1)"
proof -
  let ?tid = "TransferId (next_transfer_id te)" and ?cmd = "CmdTransfer (TransferId (next_transfer_id te)) (ScatterReq req) (Some counter)"
  obtain k e where k: "send_command k ?cmd (te_engine te) = Some (Inr (), e)" "te_engine te1 = e" "te_callbacks te1 = te_callbacks te"
    using submit by (auto simp: submit_transfer_atomic_def assign_transfer_id_def on_engine_def dest!: engine_submit_transfer_ok)
  then obtain w where w: "map_of (fe_workers (te_engine te1)) k = Some w" "wc_commands w \<noteq> []" "last (wc_commands w) = ?cmd"
    using send_command_ok [OF k(1)] by auto
  have "worker_handle_command ops ?cmd g = Some ([CError ?tid err], g)"
    using refused scatter_refused [OF refused] by (simp add: worker_handle_command_def refused_def)
  then have "worker_step ops RecvEmpty ret_ok (Received ?cmd) True g m =
      map_option (with_report (CError ?tid err)) (worker_step ops RecvEmpty ret_ok RecvEmpty True g m)"
    by (auto simp: worker_step_def with_report_def split: Option.bind_splits)
  moreover have "handle_transfer_completion relock user (CError ?tid err) te1 = Some (True, te1)"
    using fresh by (simp add: handle_transfer_completion_def handle_error_def unknown_def k(3))
  ultimately show ?thesis using w by metis
qed

definition demo_scatter :: scatter_transfer_request where
  "demo_scatter = rec_scatter\<lparr>sct_dst_handle := Some (PeerGroupHandle 4)\<rparr>"

theorem refused_atomic_scatter_lost_witness:
  "\<exists>te1. submit_transfer_atomic (ScatterReq demo_scatter) \<lparr>tc_counter = 0, tc_err_counter = 1\<rparr> demo_te = Some (Inr (), te1) \<and>
     handle_transfer_completion True (\<lambda>_ _. None) (CError (TransferId 7) (Custom ''PeerGroupHandle not found'')) te1 = Some (True, te1)"
proof -
  have "\<exists>te1. submit_transfer_atomic (ScatterReq demo_scatter) \<lparr>tc_counter = 0, tc_err_counter = 1\<rparr> demo_te = Some (Inr (), te1)"
    by (simp add: submit_transfer_atomic_def submit_defs demo_defs demo_scatter_def rec_scatter_def)
  then obtain te1 where s: "submit_transfer_atomic (ScatterReq demo_scatter) \<lparr>tc_counter = 0, tc_err_counter = 1\<rparr> demo_te = Some (Inr (), te1)" by blast
  have f: "unknown (TransferId (next_transfer_id demo_te)) (te_callbacks demo_te)" by (simp add: unknown_def demo_te_def callbacks_new_def)
  have r: "submit_scatter_transfer_request rec_ops (TransferId (next_transfer_id demo_te)) demo_scatter (Some \<lparr>tc_counter = 0, tc_err_counter = 1\<rparr>) (rec_group 0) =
      Some (Inl (Custom ''PeerGroupHandle not found''), rec_group 0)"
    by (simp add: submit_scatter_transfer_request_def demo_scatter_def rec_scatter_def rec_group_def domain_group_new_def)
  show ?thesis using s refused_atomic_scatter_lost [OF s f r, of True "imm_count_map_new store0" True "\<lambda>_ _. None"] by (auto simp: demo_te_def)
qed

section \<open>Receive buffers\<close>

text \<open>Posting one buffer: the next identifier, the callback under it, and one command for the main worker.\<close>

definition buffer_cmd :: "u64 \<Rightarrow> memory_region_handle \<Rightarrow> ptr \<Rightarrow> usize \<Rightarrow> nat \<Rightarrow> nat \<Rightarrow> worker_command" where
  "buffer_cmd n mr base len m i = CmdRecv (TransferId (n + of_nat (i - m))) mr (base + of_nat (i * len)) len"

definition buffer_ctx :: "memory_region_handle \<Rightarrow> ptr \<Rightarrow> usize \<Rightarrow> (nat \<Rightarrow> closure) \<Rightarrow> (nat \<Rightarrow> closure) \<Rightarrow> nat \<Rightarrow> recv_context" where
  "buffer_ctx mr base len recv err i = \<lparr>rcx_mr = mr, rcx_ptr = base + of_nat (i * len), rcx_len = len, on_recv = recv i, rcx_on_error = err i\<rparr>"

lemma te_submit_recv_ok:
  assumes "te_submit_recv mr p len recv err te = Some (Inr (), te1)"
  shows "\<exists>k w. get_main_worker (te_engine te) = Some k \<and> map_of (fe_workers (te_engine te)) k = Some w \<and> wc_up w \<and>
    map_of (fe_workers (te_engine te1)) k = Some (w\<lparr>wc_commands := wc_commands w @ [CmdRecv (TransferId (next_transfer_id te)) mr p len]\<rparr>) \<and>
    get_main_worker (te_engine te1) = Some k \<and> next_transfer_id te1 = next_transfer_id te + 1 \<and> te_calls te1 = te_calls te \<and>
    recv_ops (te_callbacks te1) = (recv_ops (te_callbacks te))(TransferId (next_transfer_id te) \<mapsto>
      \<lparr>rcx_mr = mr, rcx_ptr = p, rcx_len = len, on_recv = recv, rcx_on_error = err\<rparr>)"
proof -
  obtain k e where k: "get_main_worker (te_engine te) = Some k" "send_command k (CmdRecv (TransferId (next_transfer_id te)) mr p len) (te_engine te) = Some (Inr (), e)"
      "te_engine te1 = e" "next_transfer_id te1 = next_transfer_id te + 1" "te_calls te1 = te_calls te"
      "recv_ops (te_callbacks te1) = (recv_ops (te_callbacks te))(TransferId (next_transfer_id te) \<mapsto>
        \<lparr>rcx_mr = mr, rcx_ptr = p, rcx_len = len, on_recv = recv, rcx_on_error = err\<rparr>)"
    using assms by (auto simp: te_submit_recv_def assign_transfer_id_def on_engine_def engine_submit_recv_def Let_def bind_eq_Some_conv)
  from send_command_ok [OF k(2)] obtain w where w: "map_of (fe_workers (te_engine te)) k = Some w" "wc_up w"
      "map_of (fe_workers e) = (map_of (fe_workers (te_engine te)))(k \<mapsto> w\<lparr>wc_commands := wc_commands w @ [CmdRecv (TransferId (next_transfer_id te)) mr p len]\<rparr>)"
      "map fst (fe_workers e) = map fst (fe_workers (te_engine te))" by blast
  have "get_main_worker e = Some k" using get_worker_keys(1) [OF w(4)] k(1) by metis
  then show ?thesis using k w by auto
qed

lemma bouncing_loop_Cons:
  "bouncing_loop mr base len recv err (i # rest) te = Some (Inr (), te1) \<Longrightarrow>
     \<exists>te2. te_submit_recv mr (base + of_nat (i * len)) len (recv i) (err i) te = Some (Inr (), te2) \<and>
       bouncing_loop mr base len recv err rest te2 = Some (Inr (), te1)"
  by (auto split: Option.bind_splits sum.splits)

lemma bouncing_loop_posts:
  assumes "bouncing_loop mr base len recv err [m..<m + c] te = Some (Inr (), te1)" "c < 2 ^ 64"
    "get_main_worker (te_engine te) = Some k" "map_of (fe_workers (te_engine te)) k = Some w"
  shows "get_main_worker (te_engine te1) = Some k \<and> te_calls te1 = te_calls te \<and>
    map_of (fe_workers (te_engine te1)) k = Some (w\<lparr>wc_commands := wc_commands w @ map (buffer_cmd (next_transfer_id te) mr base len m) [m..<m + c]\<rparr>) \<and>
    (\<forall>j < c. recv_ops (te_callbacks te1) (TransferId (next_transfer_id te + of_nat j)) = Some (buffer_ctx mr base len recv err (m + j))) \<and>
    (\<forall>t. (\<forall>j < c. t \<noteq> TransferId (next_transfer_id te + of_nat j)) \<longrightarrow> recv_ops (te_callbacks te1) t = recv_ops (te_callbacks te) t) \<and> (0 < c \<longrightarrow> wc_up w)"
  using assms
proof (induction c arbitrary: m te w)
  case (Suc c)
  let ?n = "next_transfer_id te"
  have upt: "[m..<m + Suc c] = m # [Suc m..<Suc m + c]" using upt_conv_Cons [of m "m + Suc c"] by simp
  obtain te2 where s: "te_submit_recv mr (base + of_nat (m * len)) len (recv m) (err m) te = Some (Inr (), te2)"
      and l: "bouncing_loop mr base len recv err [Suc m..<Suc m + c] te2 = Some (Inr (), te1)"
    using bouncing_loop_Cons [OF Suc.prems(1) [unfolded upt]] by blast
  let ?w = "w\<lparr>wc_commands := wc_commands w @ [CmdRecv (TransferId ?n) mr (base + of_nat (m * len)) len]\<rparr>"
  have t: "get_main_worker (te_engine te2) = Some k" "map_of (fe_workers (te_engine te2)) k = Some ?w" "wc_up w" "next_transfer_id te2 = ?n + 1"
      "te_calls te2 = te_calls te" "recv_ops (te_callbacks te2) = (recv_ops (te_callbacks te))(TransferId ?n \<mapsto> buffer_ctx mr base len recv err m)"
    using te_submit_recv_ok [OF s] Suc.prems(3,4) by (auto simp: buffer_ctx_def)
  note IH = Suc.IH [OF l _ t(1,2)]
  have c: "c < 2 ^ 64" using Suc.prems(2) by simp
  have fresh: "TransferId ?n \<noteq> TransferId (?n + 1 + of_nat j)" if "j < c" for j
  proof -
    have "unat (of_nat (Suc j) :: u64) = Suc j" using that Suc.prems(2) by (simp add: unat_of_nat take_bit_nat_eq_self del: of_nat_Suc)
    then have "(of_nat (Suc j) :: u64) \<noteq> 0" by (metis nat.distinct(1) unat_0)
    then have "(1 + of_nat j :: u64) \<noteq> 0" by simp
    then show ?thesis by (auto simp: add.assoc)
  qed
  have cmds: "map (buffer_cmd (next_transfer_id te2) mr base len (Suc m)) [Suc m..<Suc m + c] = map (buffer_cmd ?n mr base len m) [Suc m..<Suc m + c]"
  proof (rule map_cong [OF refl])
    fix x assume "x \<in> set [Suc m..<Suc m + c]"
    then have "x - m = Suc (x - Suc m)" by auto
    then have "?n + 1 + of_nat (x - Suc m) = ?n + of_nat (x - m)" by simp
    then show "buffer_cmd (next_transfer_id te2) mr base len (Suc m) x = buffer_cmd ?n mr base len m x" unfolding buffer_cmd_def t(4) by (simp only:)
  qed
  have ops: "recv_ops (te_callbacks te1) (TransferId (?n + of_nat j)) = Some (buffer_ctx mr base len recv err (m + j))" if "j < Suc c" for j
  proof (cases j)
    case 0
    then show ?thesis using IH [OF c] fresh t(4,6) by simp
  next
    case (Suc i)
    then show ?thesis using IH [OF c] that by (simp add: t(4) add.assoc)
  qed
  have "recv_ops (te_callbacks te1) x = recv_ops (te_callbacks te) x" if x: "\<forall>j < Suc c. x \<noteq> TransferId (?n + of_nat j)" for x
  proof -
    have "x \<noteq> TransferId ?n" using x by force
    moreover have "x \<noteq> TransferId (next_transfer_id te2 + of_nat j)" if "j < c" for j using x that by (force simp: t(4) add.assoc simp flip: of_nat_Suc)
    ultimately show ?thesis using IH [OF c] t(6) by simp
  qed
  then show ?case using IH [OF c] ops t(3,5) cmds unfolding upt by (simp add: buffer_cmd_def [of _ _ _ _ m m])
qed simp

text \<open>A message for a buffer whose callback succeeds is passed on and the buffer is posted again.\<close>

lemma recv_reposts:
  assumes ops: "recv_ops (te_callbacks te) tid = Some h" and k: "get_main_worker (te_engine te) = Some k" "map_of (fe_workers (te_engine te)) k = Some w" "wc_up w"
    and ok: "user (te_calls te) (OnRecv (on_recv h) n) = Some b"
  shows "\<exists>te'. handle_transfer_completion relock user (CRecv tid n) te = Some (True, te') \<and> te_calls te' = te_calls te @ [OnRecv (on_recv h) n] \<and>
    te_callbacks te' = te_callbacks te \<and> map_of (fe_workers (te_engine te')) =
      (map_of (fe_workers (te_engine te)))(k \<mapsto> w\<lparr>wc_commands := wc_commands w @ [CmdRecv tid (rcx_mr h) (rcx_ptr h) (rcx_len h)]\<rparr>)"
  using assms by (simp add: handle_transfer_completion_def Let_def invoke_def on_engine_def engine_submit_recv_def send_command_def fun_eq_iff map_of_btree_update)



end
