(* ===== verification/Gdr_Buffer.thy ===== *)
theory Gdr_Buffer
  imports Prelude
begin

text \<open>
  Buffers for copies by GDRCopy (\<^verbatim>\<open>gdr.rs\<close> of \<^verbatim>\<open>cuda-lib\<close>), which the flags and counters shared with the GPU live in: device memory
  that is aligned to a page, pinned and mapped.
\<close>

section \<open>Allocation\<close>

definition align_to :: "u64 \<Rightarrow> usize \<Rightarrow> u64" where
  "align_to p alignment =
     (let x = p + of_nat alignment - 1; a = of_nat alignment
      in (x div a + (if x mod a = 0 then 0 else 1)) * a)"

definition page_size :: usize where
  "page_size = 2 ^ 16"

record gdr_buffer =
  gb_device_ptr :: u64
  gb_aligned_device_ptr :: u64
  gb_mapped_ptr :: u64
  gb_mh :: nat
  gb_bytesize :: usize

text \<open>The calls that take and give back resources, in order.\<close>

datatype gdr_call = MemAlloc usize | PinBuffer u64 usize | MapBuffer nat usize | UnpinBuffer nat | MemFree u64

text \<open>
  \<open>alloc\<close>, \<open>pin\<close> and \<open>mapped\<close> are what \<^verbatim>\<open>cuMemAlloc\<close>, \<^verbatim>\<open>gdr_pin_buffer\<close> and \<^verbatim>\<open>gdr_map\<close> answer, \<open>None\<close> for a failure.
\<close>

definition alloc_buffer ::
    "(usize \<Rightarrow> u64 option) \<Rightarrow> (u64 \<Rightarrow> usize \<Rightarrow> nat option) \<Rightarrow> (nat \<Rightarrow> usize \<Rightarrow> u64 option) \<Rightarrow> usize \<Rightarrow> (string + gdr_buffer) \<times> gdr_call list" where
  "alloc_buffer alloc pin mapped nbytes =
     (let bytesize = div_ceil nbytes page_size * page_size in
      case alloc (bytesize + page_size) of
        None \<Rightarrow> (Inl ''Failed to allocate GDR buffer'', [MemAlloc (bytesize + page_size)])
      | Some device_ptr \<Rightarrow>
          (let aligned = align_to device_ptr page_size; calls = [MemAlloc (bytesize + page_size), PinBuffer aligned bytesize] in
           case pin aligned bytesize of
             None \<Rightarrow> (Inl ''Failed to pin GDR buffer'', calls @ [MemFree device_ptr])
           | Some mh \<Rightarrow>
               (case mapped mh bytesize of
                  None \<Rightarrow> (Inl ''Failed to map GDR buffer'', calls @ [MapBuffer mh bytesize, UnpinBuffer mh, MemFree device_ptr])
                | Some p \<Rightarrow>
                    (Inr \<lparr>gb_device_ptr = device_ptr, gb_aligned_device_ptr = aligned, gb_mapped_ptr = p, gb_mh = mh, gb_bytesize = bytesize\<rparr>,
                     calls @ [MapBuffer mh bytesize]))))"

section \<open>Where the aligned part lies\<close>

definition aligned_pages :: "nat \<Rightarrow> nat" where
  "aligned_pages n = (n + page_size - 1) div page_size + (if (n + page_size - 1) mod page_size = 0 then 0 else 1)"

lemma aligned_pages_split:
  assumes "r < page_size"
  shows "aligned_pages (page_size * k + r) = (if r \<le> 1 then k + 1 else k + 2)"
proof -
  have pos: "1 < page_size" by (simp add: page_size_def)
  have n: "page_size * k + r + page_size - 1 = page_size * k + (r + page_size - 1)" using pos by simp
  have dm: "(page_size * k + (r + page_size - 1)) div page_size = k + (r + page_size - 1) div page_size"
      "(page_size * k + (r + page_size - 1)) mod page_size = (r + page_size - 1) mod page_size"
    using pos div_mult_self4 [of page_size k "r + page_size - 1"] by (simp_all only: mod_mult_self4)
  show ?thesis
  proof (cases "r = 0")
    case True
    then show ?thesis unfolding aligned_pages_def n dm using pos by simp
  next
    case False
    then obtain s where s: "r = Suc s" by (cases r) auto
    then have "r + page_size - 1 = s + page_size" by simp
    moreover have "(s + page_size) div page_size = 1" "(s + page_size) mod page_size = s" using assms s pos div_add_self2 [of page_size s] by simp_all
    ultimately show ?thesis unfolding aligned_pages_def n dm using s by simp
  qed
qed

lemma page_split: "\<exists>k r. n = page_size * k + r \<and> r < page_size"
proof -
  have "0 < page_size" by (simp add: page_size_def)
  then show ?thesis using mult_div_mod_eq [of page_size n, symmetric] mod_less_divisor by blast
qed

lemma aligned_pages_le: "aligned_pages n * page_size \<le> n + 2 * page_size"
proof -
  obtain k r where "n = page_size * k + r" "r < page_size" using page_split by blast
  then show ?thesis using aligned_pages_split [of r k] by (simp add: algebra_simps)
qed

lemma unat_align_to:
  assumes "unat p + 2 * page_size < 2 ^ 64"
  shows "unat (align_to p page_size) = aligned_pages (unat p) * page_size"
proof -
  let ?n = "unat p + page_size - 1"
  have x: "unat (p + of_nat page_size - 1) = ?n"
  proof -
    have "p + of_nat page_size - 1 = (of_nat ?n :: u64)" by (simp add: page_size_def)
    then show ?thesis using assms by (simp add: unat_of_nat take_bit_nat_eq_self page_size_def del: of_nat_add of_nat_diff)
  qed
  have a: "unat (of_nat page_size :: u64) = page_size" by (simp add: page_size_def)
  let ?x = "p + of_nat page_size - 1" and ?a = "of_nat page_size :: u64"
  have "unat (?x div ?a) = ?n div page_size" by (simp only: unat_div x a)
  then have d: "?x div ?a = of_nat (?n div page_size)" by (metis of_nat_unat ucast_id)
  have "unat (?x mod ?a) = ?n mod page_size" by (simp only: unat_mod x a)
  then have m: "?x mod ?a = 0 \<longleftrightarrow> ?n mod page_size = 0" by (metis unat_0 unat_eq_zero)
  have "align_to p page_size = of_nat (aligned_pages (unat p) * page_size)"
    unfolding align_to_def Let_def aligned_pages_def d m by (cases "?n mod page_size = 0") (simp_all add: algebra_simps)
  moreover have "aligned_pages (unat p) * page_size < 2 ^ 64" using aligned_pages_le [of "unat p"] assms by simp
  ultimately show ?thesis by (simp add: unat_of_nat take_bit_nat_eq_self del: of_nat_mult)
qed



end
