(* ===== verification/Spec2Isabelle.thy ===== *)
theory Spec2Isabelle
  imports Prelude Sharding Fabric_Types Imm_Count Pools Addressing Write_Iter Verbs_Ops Efa_Ops
    Domain_Group Domain_Contract Write_Ctx Efa_Domain Efa_Safety Verbs_Domain Verbs_Card Verbs_Inv Verbs_Connect Verbs_Safety Verbs_Props
    A2A_Worker A2A_Routing A2A_Reference A2A_Props A2A_Counts Uvm_Watcher Worker Worker_Domains Engine Transfer_Engine Engine_Builder
    Engine_Props Engine_Routing Gdr_Buffer
begin

text \<open>
  \<^bold>\<open>The program.\<close> The repository moves data between GPUs of different machines. Its library \<^verbatim>\<open>src/fabric-lib\<close> offers
  transfers over RDMA network cards, and \<^verbatim>\<open>src/p2p-all-to-all\<close> uses it to exchange tokens between the experts of a model.
  From top to bottom:

  \<^item> the all-to-all worker (\<^verbatim>\<open>a2a_worker.rs\<close>) turns counts of routed tokens into tables for the GPU and into scatter transfers;
  \<^item> the transfer engine (\<^verbatim>\<open>transfer_engine.rs\<close>) keeps the callbacks of the user and calls them on completions; it is built by
    \<^verbatim>\<open>transfer_engine_builder.rs\<close> on the fabric engine (\<^verbatim>\<open>fabric_engine.rs\<close>), which routes each operation to the worker of one GPU;
  \<^item> a worker (\<^verbatim>\<open>worker.rs\<close>) is a thread that owns a domain group, takes commands, polls and hands on completions; a second
    thread watches words that the GPU writes;
  \<^item> a domain group (\<^verbatim>\<open>domain_group.rs\<close>) splits a transfer over the network domains of its GPU and merges their completions;
  \<^item> a domain (\<^verbatim>\<open>efa/efa_domain.rs\<close>, \<^verbatim>\<open>verbs/verbs_domain.rs\<close>) drives one card through libfabric or ibverbs, with the
    iterators of \<^verbatim>\<open>efa_rdma_op.rs\<close> and \<^verbatim>\<open>verbs_rdma_op.rs\<close>, pools for its contexts and counters for received immediates.

  \<^bold>\<open>Conventions.\<close> Integers of fixed width are words, \<^verbatim>\<open>usize\<close> is \<open>nat\<close>. A panic, an index out of range and undefined behaviour
  are \<open>None\<close>; \<^verbatim>\<open>Err\<close> is \<open>Inl\<close>. Structs are records, enums datatypes, operations take the state and return it updated.
  Atomics shared between threads are cells of a store. Code outside the repository (libfabric, ibverbs, CUDA, channels,
  the operating system, the user's closures) is an argument of the definitions that use it; what is assumed of it is
  named in the theorems, and each such theorem has an instance.

  \<^bold>\<open>Theories and what they show.\<close>

  \<^item> \<open>Prelude\<close>: machine integers, rounding, guarded indexing, \<open>foldM\<close>. \<open>Fabric_Types\<close>: the data of \<^verbatim>\<open>api.rs\<close>, \<^verbatim>\<open>rdma_op.rs\<close>,
    \<^verbatim>\<open>error.rs\<close>, \<^verbatim>\<open>provider.rs\<close>.
  \<^item> \<open>Sharding\<close>: \<^verbatim>\<open>divide_evenly\<close> partitions its range; \<^verbatim>\<open>shard_single_transfer\<close> covers all bytes exactly under a stated condition.
  \<^item> \<open>Imm_Count\<close>: \<^verbatim>\<open>imm_count.rs\<close>. A counter is reached periodically, the exposed counter is a semaphore over the received
    immediates, operations keep the map well formed, and two schedules of the atomic accesses go wrong.
  \<^item> \<open>Pools\<close>: \<^verbatim>\<open>utils/obj_pool.rs\<close>, \<^verbatim>\<open>utils/memory.rs\<close>, \<^verbatim>\<open>host_buffer.rs\<close>. The locale \<open>slot_pool\<close> is the contract of an allocator,
    interpreted on both pools and on the watchers; \<open>hash_iter\<close> abstracts the order of a hash table.
  \<^item> \<open>Addressing\<close>: hexadecimal and binary addresses (\<^verbatim>\<open>utils/hex.rs\<close>, \<^verbatim>\<open>verbs_address.rs\<close>) and PCI addresses of \<^verbatim>\<open>topo.rs\<close>; round trips.
  \<^item> \<open>Write_Iter\<close>, \<open>Verbs_Ops\<close>, \<open>Efa_Ops\<close>: the locale \<open>write_iter\<close> is the contract between a domain and the iterator of an
    operation. It is interpreted on both providers: every write is posted once and in order, whatever the card accepts.
  \<^item> \<open>Domain_Group\<close>: the whole group. Every kind of request is split so that its bytes, pages, targets or peers are covered
    once; a transfer completes once; counters of transfers are conserved; a request without pages never completes.
  \<^item> \<open>Domain_Contract\<close>: the locale \<open>rdma_domain\<close>, the trait \<^verbatim>\<open>RdmaDomain\<close> with the calls it permits.
  \<^item> \<open>Write_Ctx\<close>: the life of a write context, which both domains share, with the locale \<open>ctx_client\<close> of their posting loops.
  \<^item> \<open>Efa_Domain\<close>, \<open>Efa_Safety\<close>: the EFA domain. On a card that keeps libfabric's contract no sequence of permitted calls panics
    or uses a freed context; a transfer is reported with its last operation; contexts that are never freed.
  \<^item> \<open>Verbs_Domain\<close>, \<open>Verbs_Card\<close>, \<open>Verbs_Inv\<close>, \<open>Verbs_Connect\<close>, \<open>Verbs_Safety\<close>, \<open>Verbs_Props\<close>: the verbs domain and its queue pairs,
    the contract of ibverbs, the invariant and that every operation, the handshake and each completion keep it, polling
    that returns, agreement of the two ends of a connection, and the states in which the code panics or dangles.
  \<^item> \<open>A2A_Worker\<close>: the worker state and one definition per function. \<open>A2A_Routing\<close>, \<open>A2A_Reference\<close>: the loops in closed form
    and their equality with tables that are stated without loops. \<open>A2A_Props\<close>: tokens land where the receiver looks, in
    disjoint slots, and results return to where their token came from. \<open>A2A_Counts\<close>: what is sent to each counter is
    what is waited for; what the barriers wait for falls behind.
  \<^item> \<open>Uvm_Watcher\<close>: the watchers are a pool and report exactly the changes of their words.
  \<^item> \<open>Worker\<close>, \<open>Worker_Domains\<close>: starting a worker and its step. The locale \<open>completion_queue\<close> is interpreted on both providers:
    the loop over completions returns and loses none.
  \<^item> \<open>Engine\<close>, \<open>Transfer_Engine\<close>, \<open>Engine_Builder\<close>: the engine, its callbacks and its builder. \<open>Engine_Props\<close>: the callback of a
    transfer is called once. \<open>Engine_Routing\<close>: transfers reach the worker that owns their memory, receive buffers are
    posted again, the main worker, and what becomes of refused transfers and unregistered memory.
  \<^item> \<open>Gdr_Buffer\<close>: the buffers of \<^verbatim>\<open>cuda-lib/src/gdr.rs\<close> and when their aligned part fits the allocation.

  \<^bold>\<open>Loops and bounds.\<close> No definition takes fuel. Loops over data are recursion on it. The loops that poll a card, the posting loop of
  verbs and the loop over completions are \<open>partial_function (option)\<close>, with \<open>None\<close> for not returning; that they return is
  proved from the contract of the card (\<open>Efa_Safety\<close>, \<open>Verbs_Safety\<close>) or from the length of the queues (\<open>Worker\<close>). Threads
  that run until they are stopped are lists of their steps, of any length. The bounds in hypotheses are those of the
  integer types: identifiers and sizes below \<open>2 ^ 64\<close>, counts of immediates below \<open>2 ^ 32\<close>.

  \<^bold>\<open>Channels and threads.\<close> A message and the wait for its answer are the handler applied to the state of the thread. A full
  channel delays its sender and changes nothing else, so channels are lists without a bound. A closure of the user is a
  number; its calls are recorded and its answers are a parameter that may depend on all earlier calls.

  \<^bold>\<open>Not modelled.\<close>

  \<^item> Detecting the topology (\<^verbatim>\<open>topo.rs\<close>), listing devices, reading \<^verbatim>\<open>/sys\<close> and \<^verbatim>\<open>/proc\<close>: input from the system; the result is the
    argument of the builder.
  \<^item> Opening and dropping domains, \<^verbatim>\<open>utils/defer.rs\<close>, joining threads, pinning CPUs: calls into drivers and the operating system.
  \<^item> The CUDA kernels (\<^verbatim>\<open>a2a-kernels\<close>) and their launch from \<^verbatim>\<open>a2a_context.rs\<close>: device code in C++, and a wrapper that passes its
    arguments on. The host side that feeds them is modelled.
  \<^item> \<^verbatim>\<open>cuda-lib\<close> apart from the GDR buffers, \<^verbatim>\<open>torch-lib\<close>, \<^verbatim>\<open>python-ext\<close> and the Python package: bindings to CUDA, PyTorch and Python.
  \<^item> \<^verbatim>\<open>fabric-debug\<close>, logging, build scripts, benchmarks: tools around the library.

  \<^bold>\<open>Sources of the style.\<close> The contracts as locales with interpretations follow the queue and map specifications of HOL's
  \<^verbatim>\<open>Data_Structures\<close> and the locales manual; runs of events with invariants follow the event systems of Igloo and the
  Unix model of HOL; abstract views of concrete tables follow \<^verbatim>\<open>Bali/Table\<close> and the tries of \<^verbatim>\<open>Data_Structures\<close>; loops that may
  not return follow the treatment of partial functions in the function tutorials; words follow the guides on machine
  integers; what others leave unchanged is one relation used by all steps, as in the queue lock of \<^verbatim>\<open>RG_Locks\<close>.
\<close>

end
